(* ===== verification/Prelude.thy ===== *)
theory Prelude
  imports Main "HOL-Library.Word" "HOL-Library.Signed_Division"
begin

text \<open>
  Shared vocabulary of the development: the machine integers of
  \<^verbatim>\<open>common.h\<close>, a flat byte-addressed memory with little-endian loads and stores of
  1 to 8 bytes, address ranges, and the collections of rewrite rules the component
  theories use. Memory is a total function on the 64-bit address space, as the code runs
  on an identity-mapped flat space and never asks whether an address is backed by RAM.
\<close>

unbundle bit_operations_syntax

named_theorems layout \<open>field offsets and structure sizes\<close>
named_theorems frame \<open>what a store leaves unchanged\<close>

section \<open>Machine integers\<close>

type_synonym u8 = "8 word"
type_synonym u16 = "16 word"
type_synonym u32 = "32 word"
type_synonym u64 = "64 word"

text \<open>C's faults and undefined accesses that the models make visible as values.\<close>

datatype c_error = DivByZero | OutOfBounds | BadShift

definition ebind :: "c_error + 'a \<Rightarrow> ('a \<Rightarrow> c_error + 'b) \<Rightarrow> c_error + 'b" where
  "ebind r f = (case r of Inl e \<Rightarrow> Inl e | Inr x \<Rightarrow> f x)"

lemma ebind_simps [simp]:
  "ebind (Inl e) f = Inl e"
  "ebind (Inr x) f = f x"
  by (simp_all add: ebind_def)

section \<open>Byte-addressed memory\<close>

type_synonym mem = "u64 \<Rightarrow> u8"

fun load_le :: "nat \<Rightarrow> mem \<Rightarrow> u64 \<Rightarrow> u64" where
  "load_le 0 m a = 0"
| "load_le (Suc n) m a = ucast (m a) OR push_bit 8 (load_le n m (a + 1))"

fun store_le :: "nat \<Rightarrow> mem \<Rightarrow> u64 \<Rightarrow> u64 \<Rightarrow> mem" where
  "store_le 0 m a v = m"
| "store_le (Suc n) m a v = (store_le n m (a + 1) (drop_bit 8 v))(a := ucast v)"

definition load64 :: "mem \<Rightarrow> u64 \<Rightarrow> u64" where
  "load64 m a = load_le 8 m a"

definition store64 :: "mem \<Rightarrow> u64 \<Rightarrow> u64 \<Rightarrow> mem" where
  "store64 m a v = store_le 8 m a v"

definition load32 :: "mem \<Rightarrow> u64 \<Rightarrow> u32" where
  "load32 m a = ucast (load_le 4 m a)"

definition store32 :: "mem \<Rightarrow> u64 \<Rightarrow> u32 \<Rightarrow> mem" where
  "store32 m a v = store_le 4 m a (ucast v)"

definition load16 :: "mem \<Rightarrow> u64 \<Rightarrow> u16" where
  "load16 m a = ucast (load_le 2 m a)"

text \<open>The set of addresses of \<open>n\<close> consecutive bytes; it may wrap at the top of memory.\<close>

definition addrs :: "u64 \<Rightarrow> nat \<Rightarrow> u64 set" where
  "addrs a n = {x. unat (x - a) < n}"

lemma addrs_0 [simp]: "addrs a 0 = {}"
  by (simp add: addrs_def)

lemma addrs_mono: "n \<le> k \<Longrightarrow> addrs a n \<subseteq> addrs a k"
  by (auto simp: addrs_def)

lemma in_addrs_offset [simp]: "i < n \<Longrightarrow> i < 2 ^ 64 \<Longrightarrow> a + of_nat i \<in> addrs a n"
  by (simp add: addrs_def unat_of_nat)

lemma in_addrs_iff: "x \<in> addrs a n \<longleftrightarrow> unat (x - a) < n"
  by (simp add: addrs_def)

lemma All_less_two: "(\<forall>i<2::nat. P i) \<longleftrightarrow> P 0 \<and> P 1"
  by (auto simp: less_2_cases_iff)

lemma unat_plus_le: "unat (a + b) \<le> unat a + unat b" for a b :: "'a::len word"
  by (simp add: unat_word_ariths)

lemma unat_of_nat_small: "n < 2 ^ LENGTH('a) \<Longrightarrow> unat (of_nat n :: 'a::len word) = n"
  by (simp add: unat_of_nat take_bit_nat_eq_self)

lemma unat64_lt: "unat (a :: u64) < 18446744073709551616"
  using unsigned_less[where w = a and 'a = nat] by simp

lemma uint_le_of_unat: "unat w \<le> n \<Longrightarrow> uint w \<le> int n"
  by (metis of_nat_le_iff uint_nat)

lemma sint_ucast_byte: "unat (w :: u64) \<le> 127 \<Longrightarrow> sint (ucast w :: u8) = int (unat w)"
proof -
  assume w: "unat w \<le> 127"
  then have "unat (ucast w :: u8) = unat w" by (simp add: unsigned_ucast_eq take_bit_nat_eq_self)
  then have "uint (ucast w :: u8) = uint w" by (metis uint_nat)
  moreover have "signed_take_bit 7 (uint w) = uint w"
    using uint_le_of_unat[OF w] order_trans[OF _ uint_ge_0[of w], of "- 128"]
    by (intro signed_take_bit_int_eq_self) simp_all
  ultimately show ?thesis by (simp add: sint_uint)
qed

lemma unat_ucast_byte: "unat (ucast (w :: u8) :: u64) = unat w"
proof -
  have "unat w < 2 ^ 64" using unsigned_less[where w = w and 'a = nat] by simp
  then show ?thesis by (simp add: unsigned_ucast_eq take_bit_nat_eq_self)
qed

lemma unat_diff_Suc:
  fixes x a :: u64
  assumes "x \<noteq> a"
  shows "unat (x - a) = Suc (unat (x - (a + 1)))"
proof -
  have "x - a \<noteq> 0" using assms by simp
  then have "unat (x - a) = Suc (unat (x - a - 1))"
    using unat_minus_one[of "x - a"] by (metis Suc_pred' unat_gt_0)
  then show ?thesis by (simp add: algebra_simps)
qed

lemma addrs_Suc:
  assumes "n < 2 ^ 64"
  shows "addrs a (Suc n) = insert a (addrs (a + 1) n)"
proof -
  have "unat (x - a) < Suc n \<longleftrightarrow> x = a \<or> unat (x - (a + 1)) < n" for x
  proof (cases "x = a")
    case True then show ?thesis by simp
  next
    case False
    with unat_diff_Suc[OF False] show ?thesis by simp
  qed
  then show ?thesis by (auto simp: addrs_def)
qed

lemma addrs_tail: "x \<in> addrs (a + 1) n \<Longrightarrow> n < 2 ^ 64 \<Longrightarrow> x \<in> addrs a (Suc n)"
  by (simp add: addrs_Suc)

lemma addrs_shift [simp]: "s + (x - d) \<in> addrs s n \<longleftrightarrow> x \<in> addrs d n"
  by (simp add: addrs_def)

lemma addrs_notin_Suc:
  assumes "Suc n < 2 ^ 64"
  shows "a \<notin> addrs (a + 1) n"
proof -
  have "a - (a + 1) = - 1" by simp
  moreover have "unat (- 1 :: u64) = 2 ^ 64 - 1"
    by (simp add: unsigned_minus_1_eq_mask mask_eq_exp_minus_1)
  ultimately have "unat (a - (a + 1)) = 2 ^ 64 - 1" by simp
  with assms show ?thesis by (simp add: addrs_def)
qed

lemma addrs_nowrap:
  assumes "unat a + n \<le> 2 ^ 64" "x \<in> addrs a n"
  shows "unat a \<le> unat x \<and> unat x < unat a + n"
proof -
  from assms(2) have d: "unat (x - a) < n" by (simp add: addrs_def)
  have "unat ((x - a) + a) = unat (x - a) + unat a"
    by (subst unat_add_lem [THEN iffD1]) (use d assms(1) in simp_all)
  then show ?thesis using d by simp
qed

lemma addrs_disjointI:
  assumes "unat a + n \<le> unat b" "unat b + k \<le> 2 ^ 64"
  shows "addrs a n \<inter> addrs b k = {}" "addrs b k \<inter> addrs a n = {}"
  using addrs_nowrap[of a n] addrs_nowrap[of b k] assms by fastforce+

lemma store_le_other: "n < 2 ^ 64 \<Longrightarrow> x \<notin> addrs a n \<Longrightarrow> store_le n m a v x = m x"
proof (induction n arbitrary: a v)
  case 0 then show ?case by simp
next
  case (Suc n)
  then have "x \<noteq> a" and "x \<notin> addrs (a + 1) n" by (auto simp: addrs_Suc)
  with Suc show ?case by simp
qed

lemma load_le_cong:
  "n < 2 ^ 64 \<Longrightarrow> (\<And>x. x \<in> addrs a n \<Longrightarrow> m x = m' x) \<Longrightarrow> load_le n m a = load_le n m' a"
proof (induction n arbitrary: a)
  case 0 then show ?case by simp
next
  case (Suc n)
  have "m a = m' a" using Suc.prems by (auto simp: addrs_Suc)
  moreover have "load_le n m (a + 1) = load_le n m' (a + 1)"
    using Suc by (auto simp: addrs_Suc)
  ultimately show ?case by simp
qed

lemma load_store_le: "n \<le> 8 \<Longrightarrow> load_le n (store_le n m a v) a = take_bit (8 * n) v"
proof (induction n arbitrary: a v)
  case 0 then show ?case by simp
next
  case (Suc n)
  let ?m = "store_le n m (a + 1) (drop_bit 8 v)"
  have "a \<notin> addrs (a + 1) n" by (rule addrs_notin_Suc) (use Suc.prems in simp)
  then have "load_le n (?m(a := ucast v)) (a + 1) = load_le n ?m (a + 1)"
    by (intro load_le_cong) (use Suc.prems in auto)
  also have "\<dots> = take_bit (8 * n) (drop_bit 8 v)"
    using Suc by simp
  finally have eq: "load_le n (?m(a := ucast v)) (a + 1) = take_bit (8 * n) (drop_bit 8 v)" .
  have "load_le (Suc n) (store_le (Suc n) m a v) a
      = ucast (ucast v :: u8) OR push_bit 8 (take_bit (8 * n) (drop_bit 8 v))"
    using eq by simp
  also have "\<dots> = take_bit (8 * Suc n) v"
    by (rule bit_word_eqI)
       (use Suc.prems in \<open>auto simp: bit_simps not_less not_le ac_simps\<close>)
  finally show ?case .
qed

lemma load64_store64 [simp]: "load64 (store64 m a v) a = v"
proof -
  have "take_bit 64 v = v" by (rule bit_word_eqI) (simp add: bit_simps)
  then show ?thesis by (simp add: load64_def store64_def load_store_le)
qed

lemma load_le_zero [simp]: "load_le n (\<lambda>_. 0) a = 0"
  by (induction n arbitrary: a) simp_all

lemma load64_zero [simp]: "load64 (\<lambda>_. 0) a = 0"
  by (simp add: load64_def)

lemma store64_other [frame]: "x \<notin> addrs a 8 \<Longrightarrow> store64 m a v x = m x"
  by (simp add: store64_def store_le_other)

lemma load64_cong: "(\<And>x. x \<in> addrs a 8 \<Longrightarrow> m x = m' x) \<Longrightarrow> load64 m a = load64 m' a"
  unfolding load64_def by (rule load_le_cong) auto

text \<open>Two 8-byte cells are disjoint when neither starts inside the other.\<close>

definition apart :: "u64 \<Rightarrow> u64 \<Rightarrow> bool" where
  "apart a b \<longleftrightarrow> 8 \<le> a - b \<and> 8 \<le> b - a"

lemma apart_sym: "apart a b \<longleftrightarrow> apart b a"
  by (auto simp: apart_def)

lemma apart_disjoint:
  assumes "apart a b" shows "addrs a 8 \<inter> addrs b 8 = {}"
proof -
  have False if "x \<in> addrs a 8" "x \<in> addrs b 8" for x
  proof -
    from that have 1: "unat (x - a) < 8" and 2: "unat (x - b) < 8"
      by (auto simp: addrs_def)
    from assms have 3: "8 \<le> unat (a - b)" and 4: "8 \<le> unat (b - a)"
      by (auto simp: apart_def word_le_nat_alt)
    from 1 2 3 4 show False by unat_arith
  qed
  then show ?thesis by blast
qed

lemma load64_store64_apart [frame]: "apart b a \<Longrightarrow> load64 (store64 m a v) b = load64 m b"
  by (rule load64_cong) (use apart_disjoint[of b a] in \<open>auto intro: store64_other\<close>)

lemma load64_store64_if:
  "a = b \<or> apart b a \<Longrightarrow> load64 (store64 m a v) b = (if a = b then v else load64 m b)"
  by (auto simp: load64_store64_apart apart_def)

lemma load32_store32 [simp]: "load32 (store32 m a v) a = v"
proof -
  have "load_le 4 (store_le 4 m a (ucast v)) a = take_bit 32 (ucast v)" by (simp add: load_store_le)
  then show ?thesis by (simp add: load32_def store32_def) (rule bit_word_eqI, simp add: bit_simps)
qed

lemma load32_cong: "(\<And>x. x \<in> addrs a 4 \<Longrightarrow> m x = m' x) \<Longrightarrow> load32 m a = load32 m' a"
  unfolding load32_def by (simp add: load_le_cong[of 4 a m m'])

lemma store32_other [frame]: "x \<notin> addrs a 4 \<Longrightarrow> store32 m a v x = m x"
  by (simp add: store32_def store_le_other)

lemma load32_store32_apart:
  assumes "4 \<le> a - b" "4 \<le> b - a"
  shows "load32 (store32 m b v) a = load32 m a"
proof (rule load32_cong)
  fix x assume x: "x \<in> addrs a 4"
  have "x \<notin> addrs b 4"
  proof
    assume "x \<in> addrs b 4"
    with x have 1: "unat (x - a) < 4" and 2: "unat (x - b) < 4" by (auto simp: addrs_def)
    from assms have 3: "4 \<le> unat (a - b)" and 4: "4 \<le> unat (b - a)" by (auto simp: word_le_nat_alt)
    from 1 2 3 4 show False by unat_arith
  qed
  then show "store32 m b v x = m x" by (rule store32_other)
qed

end
