(* ===== verification/Lib.thy ===== *)
theory Lib
  imports Prelude
begin

text \<open>
  The helper library \<^verbatim>\<open>src/src/boot/bios/bbp/loader/lib.c\<close>: byte-block operations
  (\<^verbatim>\<open>rep movsb\<close> and \<^verbatim>\<open>rep stosb\<close>), NUL-terminated strings, integer formatting
  and parsing, and the format interpreter behind \<^verbatim>\<open>str_write_f\<close> and
  \<^verbatim>\<open>debug_print\<close>. Pointers are addresses of the flat memory. A loop that runs until a
  NUL byte is found need not end, so those are \<^theory_text>\<open>partial_function (option)\<close>
  (\<open>None\<close> is "does not return"); writing below the static digit buffer or reading an
  argument that was not passed is the error value \<open>OutOfBounds\<close>.
\<close>

section \<open>Memory blocks\<close>

text \<open>\<^verbatim>\<open>rep movsb\<close> with the direction flag clear: one byte at a time, upwards.\<close>

primrec movsb :: "nat \<Rightarrow> mem \<Rightarrow> u64 \<Rightarrow> u64 \<Rightarrow> mem" where
  "movsb 0 m d s = m"
| "movsb (Suc n) m d s = movsb n (m(d := m s)) (d + 1) (s + 1)"

definition mem_copy :: "mem \<Rightarrow> u64 \<Rightarrow> u64 \<Rightarrow> u64 \<Rightarrow> mem" where
  "mem_copy m dest src len = movsb (unat len) m dest src"

primrec stosb :: "nat \<Rightarrow> mem \<Rightarrow> u64 \<Rightarrow> u8 \<Rightarrow> mem" where
  "stosb 0 m d v = m"
| "stosb (Suc n) m d v = stosb n (m(d := v)) (d + 1) v"

definition mem_fill :: "mem \<Rightarrow> u64 \<Rightarrow> u8 \<Rightarrow> u64 \<Rightarrow> mem" where
  "mem_fill m dest val len = stosb (unat len) m dest val"

primrec compare_loop :: "nat \<Rightarrow> mem \<Rightarrow> u64 \<Rightarrow> u64 \<Rightarrow> bool" where
  "compare_loop 0 m p q = True"
| "compare_loop (Suc n) m p q = (if m p \<noteq> m q then False else compare_loop n m (p + 1) (q + 1))"

definition mem_compare :: "mem \<Rightarrow> u64 \<Rightarrow> u64 \<Rightarrow> u64 \<Rightarrow> bool" where
  "mem_compare m buff1 buff2 len = compare_loop (unat len) m buff1 buff2"

section \<open>Strings\<close>

text \<open>The loop of \<^verbatim>\<open>str_copy\<close>; \<open>n\<close> is what is left of \<^verbatim>\<open>len\<close>, \<open>s\<close> the count.\<close>

primrec str_copy_loop :: "nat \<Rightarrow> mem \<Rightarrow> u64 \<Rightarrow> u64 \<Rightarrow> u64 \<Rightarrow> mem \<times> u64" where
  "str_copy_loop 0 m dp sp s = (m, s)"
| "str_copy_loop (Suc n) m dp sp s =
     (if m sp = 0 then (m, s) else str_copy_loop n (m(dp := m sp)) (dp + 1) (sp + 1) (s + 1))"

definition str_copy :: "mem \<Rightarrow> u64 \<Rightarrow> u64 \<Rightarrow> u64 \<Rightarrow> mem \<times> u64" where
  "str_copy m dest len src = str_copy_loop (unat len) m dest src 0"

partial_function (option) str_length_loop :: "mem \<Rightarrow> u64 \<Rightarrow> u64 \<Rightarrow> u64 option" where
  "str_length_loop m str len =
     (if m str \<noteq> 0 then str_length_loop m (str + 1) (len + 1) else Some len)"

definition str_length :: "mem \<Rightarrow> u64 \<Rightarrow> u64 option" where
  "str_length m str = str_length_loop m str 0"

text \<open>\<^verbatim>\<open>str_char_idx\<close>: skip \<^verbatim>\<open>offset\<close> characters, then search. The index
  that is returned counts from the position after the skip.\<close>

primrec skip_offset :: "nat \<Rightarrow> mem \<Rightarrow> u64 \<Rightarrow> u64 option" where
  "skip_offset 0 m h = Some h"
| "skip_offset (Suc n) m h = (if m h = 0 then None else skip_offset n m (h + 1))"

partial_function (option) char_idx_loop :: "mem \<Rightarrow> u64 \<Rightarrow> u8 \<Rightarrow> u64 \<Rightarrow> u64 option" where
  "char_idx_loop m h needle idx =
     (if m h \<noteq> 0
      then if m h = needle then Some idx else char_idx_loop m (h + 1) needle (idx + 1)
      else Some (- 1))"

definition str_char_idx :: "mem \<Rightarrow> u64 \<Rightarrow> u8 \<Rightarrow> u64 \<Rightarrow> u64 option" where
  "str_char_idx m haystack needle offset =
     (case skip_offset (unat offset) m haystack of
        None \<Rightarrow> Some (- 1)
      | Some h \<Rightarrow> char_idx_loop m h needle 0)"

section \<open>Integers and text\<close>

definition MAX_INT_STR :: nat where
  "MAX_INT_STR = 32"

text \<open>
  The digit loops of \<^verbatim>\<open>int_to_str\<close>. \<open>p\<close> is the distance of \<^verbatim>\<open>b\<close> from the
  start of the static buffer \<^verbatim>\<open>tmp\<close>; \<open>val\<close> is the value of the \<^verbatim>\<open>int64\<close>, and C's
  \<^verbatim>\<open>%\<close> and \<^verbatim>\<open>/\<close> are \<^theory_text>\<open>smod\<close> and \<^theory_text>\<open>sdiv\<close>, which truncate
  towards zero.
\<close>

definition pos_digit :: "u8 \<Rightarrow> u8" where
  "pos_digit c = (if sint c > 9 then 65 + (c - 10) else 48 + c)"

definition neg_digit :: "u8 \<Rightarrow> u8" where
  "neg_digit c = (if sint c < - 9 then 65 - (c + 10) else 48 - c)"

fun digit_loop :: "(u8 \<Rightarrow> u8) \<Rightarrow> nat \<Rightarrow> mem \<Rightarrow> u64 \<Rightarrow> int \<Rightarrow> int \<Rightarrow> c_error + mem \<times> nat" where
  "digit_loop dig 0 m tmp val base = Inl (if base = 0 then DivByZero else OutOfBounds)"
| "digit_loop dig (Suc p) m tmp val base =
     (if base = 0 then Inl DivByZero
      else let c = word_of_int (val smod base);
               m' = m(tmp + of_nat p := dig c);
               val' = val sdiv base
           in if val' \<noteq> 0 then digit_loop dig p m' tmp val' base else Inr (m', p))"

definition int_to_str :: "mem \<Rightarrow> u64 \<Rightarrow> u64 \<Rightarrow> u64 \<Rightarrow> u64 \<Rightarrow> int \<Rightarrow> c_error + mem \<times> u64" where
  "int_to_str m tmp dest len val base =
     (let m1 = mem_fill m tmp 0 (of_nat (MAX_INT_STR + 1));
          r = (if sint val \<ge> 0 then digit_loop pos_digit MAX_INT_STR m1 tmp (sint val) base
               else case digit_loop neg_digit MAX_INT_STR m1 tmp (sint val) base of
                      Inl e \<Rightarrow> Inl e
                    | Inr (m2, p) \<Rightarrow>
                        if base = 10
                        then if p = 0 then Inl OutOfBounds
                             else Inr (m2(tmp + of_nat (p - 1) := 45), p - 1)
                        else Inr (m2, p))
      in case r of Inl e \<Rightarrow> Inl e
         | Inr (m2, p) \<Rightarrow> Inr (str_copy m2 dest len (tmp + of_nat p)))"

text \<open>\<^verbatim>\<open>str_to_int\<close>; the parameter \<^verbatim>\<open>base\<close> is accepted and not used, as in the code.\<close>

partial_function (option) skip_blanks :: "mem \<Rightarrow> u64 \<Rightarrow> u64 option" where
  "skip_blanks m b = (if m b = 32 \<or> m b = 9 then skip_blanks m (b + 1) else Some b)"

partial_function (option) decimal_loop :: "mem \<Rightarrow> u64 \<Rightarrow> u64 \<Rightarrow> u64 option" where
  "decimal_loop m b val =
     (if sint (m b) \<ge> 48 \<and> sint (m b) \<le> 57
      then decimal_loop m (b + 1) (val * 10 + (ucast (m b) - 48))
      else Some val)"

definition str_to_int :: "mem \<Rightarrow> u64 \<Rightarrow> u64 \<Rightarrow> u64 option" where
  "str_to_int m str base =
     Option.bind (skip_blanks m str) (\<lambda>b.
       let negative = (m b = 45)
       in Option.bind (decimal_loop m b 0) (\<lambda>val. Some (if negative then 0 - val else val)))"

section \<open>The format interpreter\<close>

text \<open>
  \<^verbatim>\<open>__write_f\<close>. The variable arguments are the list of 64-bit values that
  \<^verbatim>\<open>va_arg\<close> takes one after the other; \<open>tmp\<close> is the address of the static buffer of
  \<^verbatim>\<open>int_to_str\<close>. \<open>put_num\<close> is the body shared by the numeric specifiers, \<open>write_str\<close>
  the inner loop of \<^verbatim>\<open>%s\<close>, \<open>write_guid\<close> the case \<^verbatim>\<open>%g\<close>.
\<close>

definition put_char :: "u8 \<Rightarrow> mem \<times> u64 \<times> u64 \<Rightarrow> mem \<times> u64 \<times> u64" where
  "put_char c = (\<lambda>(m, d, ret). (m(d := c), d + 1, ret + 1))"

definition put_num :: "u64 \<Rightarrow> u64 \<Rightarrow> int \<Rightarrow> mem \<times> u64 \<times> u64 \<Rightarrow> c_error + mem \<times> u64 \<times> u64" where
  "put_num tmp v base = (\<lambda>(m, d, ret).
     case int_to_str m tmp d (of_nat MAX_INT_STR) v base of
       Inl e \<Rightarrow> Inl e
     | Inr (m', val_len) \<Rightarrow> Inr (m', d + val_len, ret + val_len))"

partial_function (option) write_str :: "mem \<Rightarrow> u64 \<Rightarrow> u64 \<Rightarrow> u64 \<Rightarrow> (mem \<times> u64 \<times> u64) option" where
  "write_str m d val_str ret =
     (if m val_str \<noteq> 0 then write_str (m(d := m val_str)) (d + 1) (val_str + 1) (ret + 1)
      else Some (m, d, ret))"

primrec guid_data4 :: "nat \<Rightarrow> u64 \<Rightarrow> u64 \<Rightarrow> mem \<times> u64 \<times> u64 \<Rightarrow> c_error + mem \<times> u64 \<times> u64" where
  "guid_data4 0 tmp p st = Inr st"
| "guid_data4 (Suc n) tmp p st =
     ebind (put_num tmp (ucast (fst st p)) 16 st) (guid_data4 n tmp (p + 1))"

definition write_guid :: "u64 \<Rightarrow> u64 \<Rightarrow> mem \<times> u64 \<times> u64 \<Rightarrow> c_error + mem \<times> u64 \<times> u64" where
  "write_guid tmp g st =
     ebind (put_num tmp (ucast (load32 (fst st) g)) 16 st) (\<lambda>st. let st = put_char 45 st in
     ebind (put_num tmp (ucast (load16 (fst st) (g + 4))) 16 st) (\<lambda>st. let st = put_char 45 st in
     ebind (put_num tmp (ucast (load16 (fst st) (g + 6))) 16 st) (\<lambda>st. let st = put_char 45 st in
     guid_data4 8 tmp (g + 8) st)))"

text \<open>One specifier: the state after it, the arguments left and how far \<^verbatim>\<open>f\<close> moved.\<close>

definition num_base :: "u8 \<Rightarrow> int option" where
  "num_base sp = (if sp = 100 \<or> sp = 117 then Some 10 else if sp = 120 then Some 16
                  else if sp = 98 then Some 2 else None)"

type_synonym fmt_state = "(mem \<times> u64 \<times> u64) \<times> u64 list \<times> u64"

definition write_spec ::
  "bool \<Rightarrow> u64 \<Rightarrow> u8 \<Rightarrow> u64 list \<Rightarrow> mem \<times> u64 \<times> u64 \<Rightarrow> (c_error + fmt_state) option" where
  "write_spec guids tmp sp args st =
     (case num_base sp of
        Some base \<Rightarrow>
          (case args of [] \<Rightarrow> Some (Inl OutOfBounds)
           | v # vs \<Rightarrow> Some (ebind (put_num tmp v base st) (\<lambda>st'. Inr (st', vs, 2))))
      | None \<Rightarrow>
          if sp = 99 then
            (case args of [] \<Rightarrow> Some (Inl OutOfBounds)
             | v # vs \<Rightarrow> Some (Inr (put_char (ucast v) st, vs, 2)))
          else if sp = 115 then
            (case args of [] \<Rightarrow> Some (Inl OutOfBounds)
             | v # vs \<Rightarrow> (case st of (m, d, ret) \<Rightarrow>
                 Option.bind (write_str m d v ret) (\<lambda>st'. Some (Inr (st', vs, 2)))))
          else if guids \<and> sp = 103 then
            (case args of [] \<Rightarrow> Some (Inl OutOfBounds)
             | v # vs \<Rightarrow> Some (ebind (write_guid tmp v st) (\<lambda>st'. Inr (st', vs, 2))))
          else Some (Inr (put_char 37 st, args, 1)))"

partial_function (option) write_loop ::
  "bool \<Rightarrow> u64 \<Rightarrow> u64 \<Rightarrow> u64 \<Rightarrow> u64 list \<Rightarrow> mem \<times> u64 \<times> u64 \<Rightarrow> (c_error + mem \<times> u64) option" where
  "write_loop guids tmp len f args st =
     (let m = fst st; ret = snd (snd st)
      in if m f \<noteq> 0 \<and> ret < len
         then if m f = 37
              then Option.bind (write_spec guids tmp (m (f + 1)) args st) (\<lambda>r.
                     case r of Inl e \<Rightarrow> Some (Inl e)
                     | Inr (st', args', adv) \<Rightarrow> write_loop guids tmp len (f + adv) args' st')
              else write_loop guids tmp len (f + 1) args (put_char (m f) st)
         else Some (Inr (m, ret)))"

definition write_f :: "mem \<Rightarrow> u64 \<Rightarrow> u64 \<Rightarrow> u64 \<Rightarrow> u64 \<Rightarrow> u64 list \<Rightarrow> (c_error + mem \<times> u64) option" where
  "write_f m tmp dest len format args = write_loop True tmp len format args (m, dest, 0)"

definition str_write_f :: "mem \<Rightarrow> u64 \<Rightarrow> u64 \<Rightarrow> u64 \<Rightarrow> u64 \<Rightarrow> u64 list \<Rightarrow> (c_error + mem \<times> u64) option" where
  "str_write_f m tmp dest len format args = write_f m tmp dest len format args"

text \<open>\<^verbatim>\<open>__read_f\<close> parses nothing and returns 0.\<close>

definition read_f :: "mem \<Rightarrow> u64 \<Rightarrow> u64 \<Rightarrow> u64 list \<Rightarrow> u64" where
  "read_f m src format args = 0"

definition str_read_f :: "mem \<Rightarrow> u64 \<Rightarrow> u64 \<Rightarrow> u64 list \<Rightarrow> u64" where
  "str_read_f m src format args = read_f m src format args"

section \<open>Memory against a constant\<close>

text \<open>Comparison of memory with the characters of a constant, in the order of the loops.\<close>

primrec match_bytes :: "mem \<Rightarrow> u64 \<Rightarrow> u8 list \<Rightarrow> bool" where
  "match_bytes m a [] = True"
| "match_bytes m a (c # chs) = (if m a \<noteq> c then False else match_bytes m (a + 1) chs)"

end
