(* ===== verification/Heap.thy ===== *)
theory Heap
  imports Lib "HOL-Library.Monad_Syntax"
begin

text \<open>
  The heap allocator \<^verbatim>\<open>src/src/boot/bios/bbp/loader/heap.c\<close> and
  \<^verbatim>\<open>heap.h\<close>, on raw memory: blocks with a boundary tag at each end, 63 segregated free
  lists threaded through the free blocks, and one sorted, doubly linked list of large blocks
  with chains of equal size (the "tree"). Pointers are addresses and 0 is the null pointer.
  A loop over links, and the spin on the heap lock, need not end: the functions with such a
  loop return an option and \<open>None\<close> is "does not return". The page allocator
  \<^verbatim>\<open>page_alloc\<close>, which the heap calls to grow, is the parameter \<open>pa\<close>.
\<close>

section \<open>Layout and macros\<close>

abbreviation (input) PAGE_SIZE :: u64 where "PAGE_SIZE \<equiv> 0x1000"

definition PAGE_ALIGN :: "u64 \<Rightarrow> u64" where
  "PAGE_ALIGN n = n AND NOT 0xFFF"

definition PAGE_SIZE_ALIGN :: "u64 \<Rightarrow> u64" where
  "PAGE_SIZE_ALIGN n = (n + 0xFFF) AND NOT 0xFFF"

definition HEAP_MAGIC :: u64 where
  "HEAP_MAGIC = 0xFFFFC0CAC01AFFFF"

abbreviation (input) HEAP_LIST_MIN :: u64 where "HEAP_LIST_MIN \<equiv> 48"
abbreviation (input) HEAP_LIST_MAX :: u64 where "HEAP_LIST_MAX \<equiv> 1056"
abbreviation (input) HEAP_LIST_COUNT :: nat where "HEAP_LIST_COUNT \<equiv> 63"
abbreviation (input) HEAP_OVERHEAD :: u64 where "HEAP_OVERHEAD \<equiv> 32"

definition HEAP_ALIGN :: "u64 \<Rightarrow> u64" where
  "HEAP_ALIGN a = a AND 0xFFFFFFFFFFFFFFF0"

definition HEAP_SIZE_ALIGN :: "u64 \<Rightarrow> u64" where
  "HEAP_SIZE_ALIGN s = (s + 0xF) AND 0xFFFFFFFFFFFFFFF0"

definition HEAP_BSIZE :: "u64 \<Rightarrow> u64" where
  "HEAP_BSIZE psize = HEAP_SIZE_ALIGN psize + HEAP_OVERHEAD"

definition HEAP_PSIZE :: "u64 \<Rightarrow> u64" where
  "HEAP_PSIZE bsize = HEAP_ALIGN bsize - HEAP_OVERHEAD"

text \<open>\<^verbatim>\<open>heap_header_t\<close> is \<^verbatim>\<open>magic, size\<close>; \<^verbatim>\<open>heap_footer_t\<close> is \<^verbatim>\<open>magic, header\<close>.\<close>

definition HEAP_GET_SIZE :: "mem \<Rightarrow> u64 \<Rightarrow> u64" where
  "HEAP_GET_SIZE m h = HEAP_ALIGN (load64 m (h + 8))"

definition HEAP_GET_FOOTER :: "mem \<Rightarrow> u64 \<Rightarrow> u64" where
  "HEAP_GET_FOOTER m h = h + HEAP_GET_SIZE m h - 16"

definition HEAP_GET_HEADER :: "mem \<Rightarrow> u64 \<Rightarrow> u64" where
  "HEAP_GET_HEADER m f = load64 m (f + 8)"

definition HEAP_PAYLOAD_HEADER :: "u64 \<Rightarrow> u64" where
  "HEAP_PAYLOAD_HEADER p = p - 16"

definition HEAP_GET_PAYLOAD :: "u64 \<Rightarrow> u64" where
  "HEAP_GET_PAYLOAD h = h + 16"

definition HEAP_CHECK_HEADER :: "mem \<Rightarrow> u64 \<Rightarrow> bool" where
  "HEAP_CHECK_HEADER m h \<longleftrightarrow>
     load64 m h = HEAP_MAGIC \<and> load64 m (HEAP_GET_FOOTER m h) = HEAP_MAGIC"

definition HEAP_CHECK_FOOTER :: "mem \<Rightarrow> u64 \<Rightarrow> bool" where
  "HEAP_CHECK_FOOTER m f \<longleftrightarrow>
     load64 m f = HEAP_MAGIC \<and> load64 m (HEAP_GET_HEADER m f) = HEAP_MAGIC"

text \<open>The list index is assigned to an \<^verbatim>\<open>int8\<close>.\<close>

definition HEAP_SIZE_IDX :: "u64 \<Rightarrow> int" where
  "HEAP_SIZE_IDX s =
     (if s \<le> HEAP_LIST_MAX then sint (ucast (HEAP_ALIGN (s - HEAP_OVERHEAD) div 16) :: u8) else - 1)"

definition HEAP_IS_PAGE_ALIGNED :: "u64 \<Rightarrow> bool" where
  "HEAP_IS_PAGE_ALIGNED p \<longleftrightarrow> p AND 0xFFF = 0"

definition HEAP_GET_USED :: "mem \<Rightarrow> u64 \<Rightarrow> u64" where
  "HEAP_GET_USED m h = load64 m (h + 8) AND 1"

definition HEAP_SET_USED :: "mem \<Rightarrow> u64 \<Rightarrow> u64 \<Rightarrow> mem" where
  "HEAP_SET_USED m h u = store64 m (h + 8) ((load64 m (h + 8) AND NOT 1) OR (u AND 1))"

definition HEAP_LEFT_FOOTER :: "u64 \<Rightarrow> u64" where
  "HEAP_LEFT_FOOTER h = h - 16"

definition HEAP_RIGHT_HEADER :: "mem \<Rightarrow> u64 \<Rightarrow> u64" where
  "HEAP_RIGHT_HEADER m h = h + HEAP_GET_SIZE m h"

text \<open>\<^verbatim>\<open>heap_t\<close>: start, end and maximum address, the flags word and the 64 list heads;
  the last head is the root of the tree.\<close>

definition start_addr :: "mem \<Rightarrow> u64 \<Rightarrow> u64" where
  "start_addr m heap = load64 m heap"

definition end_addr :: "mem \<Rightarrow> u64 \<Rightarrow> u64" where
  "end_addr m heap = load64 m (heap + 8)"

definition free_slot :: "u64 \<Rightarrow> int \<Rightarrow> u64" where
  "free_slot heap i = heap + 32 + 8 * of_int i"

definition tree_slot :: "u64 \<Rightarrow> u64" where
  "tree_slot heap = free_slot heap (int HEAP_LIST_COUNT)"

abbreviation (input) SIZEOF_HEAP_T :: u64 where "SIZEOF_HEAP_T \<equiv> 544"

text \<open>Links of \<^verbatim>\<open>free_item_t\<close> (lists) and of \<^verbatim>\<open>free_node_t\<close> (tree).\<close>

definition prev_block :: "mem \<Rightarrow> u64 \<Rightarrow> u64" where "prev_block m b = load64 m (b + 16)"
definition next_block :: "mem \<Rightarrow> u64 \<Rightarrow> u64" where "next_block m b = load64 m (b + 24)"
definition set_prev :: "mem \<Rightarrow> u64 \<Rightarrow> u64 \<Rightarrow> mem" where "set_prev m b v = store64 m (b + 16) v"
definition set_next :: "mem \<Rightarrow> u64 \<Rightarrow> u64 \<Rightarrow> mem" where "set_next m b v = store64 m (b + 24) v"

definition smaller_block :: "mem \<Rightarrow> u64 \<Rightarrow> u64" where "smaller_block m b = load64 m (b + 16)"
definition larger_block :: "mem \<Rightarrow> u64 \<Rightarrow> u64" where "larger_block m b = load64 m (b + 24)"
definition child_block :: "mem \<Rightarrow> u64 \<Rightarrow> u64" where "child_block m b = load64 m (b + 32)"
definition parent_block :: "mem \<Rightarrow> u64 \<Rightarrow> u64" where "parent_block m b = load64 m (b + 40)"
definition set_smaller :: "mem \<Rightarrow> u64 \<Rightarrow> u64 \<Rightarrow> mem" where "set_smaller m b v = store64 m (b + 16) v"
definition set_larger :: "mem \<Rightarrow> u64 \<Rightarrow> u64 \<Rightarrow> mem" where "set_larger m b v = store64 m (b + 24) v"
definition set_child :: "mem \<Rightarrow> u64 \<Rightarrow> u64 \<Rightarrow> mem" where "set_child m b v = store64 m (b + 32) v"
definition set_parent :: "mem \<Rightarrow> u64 \<Rightarrow> u64 \<Rightarrow> mem" where "set_parent m b v = store64 m (b + 40) v"

lemmas link_defs = prev_block_def next_block_def set_prev_def set_next_def
  smaller_block_def larger_block_def child_block_def parent_block_def
  set_smaller_def set_larger_def set_child_def set_parent_def

section \<open>The lock\<close>

text \<open>\<^verbatim>\<open>locked\<close> is bit 0 of the flags word. Nothing else runs while the code spins.\<close>

definition heap_locked :: "mem \<Rightarrow> u64 \<Rightarrow> bool" where
  "heap_locked m heap \<longleftrightarrow> load64 m (heap + 24) AND 1 \<noteq> 0"

partial_function (option) heap_wait_lock :: "mem \<Rightarrow> u64 \<Rightarrow> mem option" where
  "heap_wait_lock m heap =
     (if heap_locked m heap then heap_wait_lock m heap
      else Some (store64 m (heap + 24) (load64 m (heap + 24) OR 1)))"

definition heap_unlock :: "mem \<Rightarrow> u64 \<Rightarrow> mem" where
  "heap_unlock m heap = store64 m (heap + 24) (load64 m (heap + 24) AND NOT 1)"

section \<open>The tree of large blocks\<close>

partial_function (option) tree_insert_loop :: "mem \<Rightarrow> u64 \<Rightarrow> u64 \<Rightarrow> u64 \<Rightarrow> mem option" where
  "tree_insert_loop m free_block bsize parent =
    (let block_size = HEAP_GET_SIZE m parent in
     if block_size > bsize then
       if smaller_block m parent = 0 then
         Some (set_larger (set_smaller m parent free_block) free_block parent)
       else if HEAP_GET_SIZE m (smaller_block m parent) < bsize then
         (let m = set_smaller m free_block (smaller_block m parent);
              m = set_larger m (smaller_block m parent) free_block;
              m = set_smaller m parent free_block
          in Some (set_larger m free_block parent))
       else tree_insert_loop m free_block bsize (smaller_block m parent)
     else if block_size < bsize then
       if larger_block m parent = 0 then
         Some (set_smaller (set_larger m parent free_block) free_block parent)
       else if HEAP_GET_SIZE m (larger_block m parent) > bsize then
         (let m = set_larger m free_block (larger_block m parent);
              m = set_smaller m (larger_block m parent) free_block;
              m = set_larger m parent free_block
          in Some (set_smaller m free_block parent))
       else tree_insert_loop m free_block bsize (larger_block m parent)
     else
       (let m = (if child_block m parent \<noteq> 0
                 then let m = set_parent m (child_block m parent) free_block
                      in set_child m free_block (child_block m parent)
                 else m);
            m = set_child m parent free_block
        in Some (set_parent m free_block parent)))"

definition heap_tree_insert :: "mem \<Rightarrow> u64 \<Rightarrow> u64 \<Rightarrow> (mem \<times> bool) option" where
  "heap_tree_insert m tree block =
    (let bsize = HEAP_GET_SIZE m block in
     if bsize \<ge> 48 then
       (let m = set_parent m block 0; m = set_child m block 0;
            m = set_smaller m block 0; m = set_larger m block 0
        in if load64 m tree = 0 then Some (store64 m tree block, True)
           else do { m' \<leftarrow> tree_insert_loop m block bsize (load64 m tree); Some (m', True) })
     else Some (m, False))"

definition heap_tree_delete :: "mem \<Rightarrow> u64 \<Rightarrow> u64 \<Rightarrow> mem" where
  "heap_tree_delete m tree block =
    (let m =
      (if parent_block m block \<noteq> 0 then
        (let m = set_child m (parent_block m block) (child_block m block)
         in if child_block m block \<noteq> 0
            then set_parent m (child_block m block) (parent_block m block) else m)
       else
        (let (m, replacement) =
          (if child_block m block \<noteq> 0 then
            (let m = (if larger_block m block \<noteq> 0
                      then set_smaller m (larger_block m block) (child_block m block) else m);
                 m = set_larger m (child_block m block) (larger_block m block);
                 m = (if smaller_block m block \<noteq> 0
                      then set_larger m (smaller_block m block) (child_block m block) else m);
                 m = set_smaller m (child_block m block) (smaller_block m block)
             in (m, child_block m block))
           else
            (let (m, r) = (if larger_block m block \<noteq> 0
                           then let m = set_smaller m (larger_block m block) (smaller_block m block)
                                in (m, larger_block m block) else (m, 0))
             in if smaller_block m block \<noteq> 0
                then let m = set_larger m (smaller_block m block) (larger_block m block)
                     in (m, smaller_block m block) else (m, r)))
         in if load64 m tree = block then store64 m tree replacement else m));
      m = set_child m block 0; m = set_parent m block 0; m = set_larger m block 0
     in set_smaller m block 0)"

text \<open>The test shared by the aligned searches: can the block be split at the next page
  boundary of its payload? The subtractions are on \<^verbatim>\<open>uint64\<close>.\<close>

definition aligned_left :: "u64 \<Rightarrow> u64" where
  "aligned_left block = (PAGE_SIZE_ALIGN (HEAP_GET_PAYLOAD block) - 16) - block"

definition aligned_fit :: "mem \<Rightarrow> u64 \<Rightarrow> u64 \<Rightarrow> bool" where
  "aligned_fit m block bsize \<longleftrightarrow>
     aligned_left block \<ge> HEAP_LIST_MIN \<and> HEAP_GET_SIZE m block - aligned_left block \<ge> bsize"

partial_function (option) larger_walk :: "mem \<Rightarrow> u64 \<Rightarrow> u64 \<Rightarrow> u64 option" where
  "larger_walk m b bsize =
     (if HEAP_GET_SIZE m b < bsize \<and> larger_block m b \<noteq> 0
      then larger_walk m (larger_block m b) bsize else Some b)"

partial_function (option) smaller_walk :: "mem \<Rightarrow> u64 \<Rightarrow> u64 \<Rightarrow> u64 option" where
  "smaller_walk m b bsize =
     (if HEAP_GET_SIZE m b > bsize \<and> smaller_block m b \<noteq> 0
         \<and> HEAP_GET_SIZE m (smaller_block m b) \<ge> bsize
      then smaller_walk m (smaller_block m b) bsize else Some b)"

partial_function (option) child_walk :: "mem \<Rightarrow> u64 \<Rightarrow> u64 \<Rightarrow> u64 option" where
  "child_walk m b bsize =
     (if b \<noteq> 0 then
        if HEAP_IS_PAGE_ALIGNED (HEAP_GET_PAYLOAD b) then Some b
        else if aligned_fit m b bsize then Some b
        else child_walk m (child_block m b) bsize
      else Some 0)"

partial_function (option) aligned_walk :: "mem \<Rightarrow> u64 \<Rightarrow> u64 \<Rightarrow> u64 option" where
  "aligned_walk m b bsize =
     (if b \<noteq> 0 then
        do { r \<leftarrow> child_walk m b bsize;
             if r \<noteq> 0 then Some r else aligned_walk m (larger_block m b) bsize }
      else Some 0)"

definition heap_tree_search_aligned :: "mem \<Rightarrow> u64 \<Rightarrow> u64 \<Rightarrow> u64 option" where
  "heap_tree_search_aligned m tree bsize =
     (if load64 m tree = 0 then Some 0
      else do { b \<leftarrow> larger_walk m (load64 m tree) bsize;
                if HEAP_GET_SIZE m b < bsize then Some 0 else aligned_walk m b bsize })"

definition heap_tree_search :: "mem \<Rightarrow> u64 \<Rightarrow> u64 \<Rightarrow> u64 option" where
  "heap_tree_search m tree bsize =
     (if load64 m tree = 0 then Some 0
      else do { b \<leftarrow> larger_walk m (load64 m tree) bsize;
                if HEAP_GET_SIZE m b < bsize then Some 0 else smaller_walk m b bsize })"

section \<open>Blocks\<close>

definition heap_create_block :: "mem \<Rightarrow> u64 \<Rightarrow> u64 \<Rightarrow> mem" where
  "heap_create_block m ptr bsize =
    (let m = store64 m ptr HEAP_MAGIC;
         m = store64 m (ptr + 8) bsize;
         footer = HEAP_GET_FOOTER m ptr;
         m = store64 m (footer + 8) ptr
     in store64 m footer HEAP_MAGIC)"

definition heap_split_block :: "mem \<Rightarrow> u64 \<Rightarrow> u64 \<Rightarrow> mem \<times> u64" where
  "heap_split_block m block offset =
    (let block_size = HEAP_GET_SIZE m block;
         offset = HEAP_ALIGN offset;
         leftover_size = block_size - offset
     in if leftover_size \<ge> HEAP_LIST_MIN
        then let leftover = block + offset;
                 m = heap_create_block m leftover leftover_size
             in (heap_create_block m block offset, leftover)
        else (m, 0))"

section \<open>Searching, inserting and removing\<close>

text \<open>The inner loop of the aligned list search: the last block of a list is not examined.\<close>

partial_function (option) list_aligned_walk :: "mem \<Rightarrow> u64 \<Rightarrow> u64 \<Rightarrow> u64 option" where
  "list_aligned_walk m b bsize =
     (if next_block m b \<noteq> 0 then
        if HEAP_IS_PAGE_ALIGNED (HEAP_GET_PAYLOAD b) then Some b
        else if aligned_fit m b bsize then Some b
        else list_aligned_walk m (next_block m b) bsize
      else Some 0)"

function search_lists :: "mem \<Rightarrow> u64 \<Rightarrow> u64 \<Rightarrow> bool \<Rightarrow> nat \<Rightarrow> u64 option" where
  "search_lists m heap bsize al list_idx =
     (if list_idx < HEAP_LIST_COUNT then
        let b = load64 m (free_slot heap (int list_idx)) in
        if b \<noteq> 0 then
          if \<not> al \<or> HEAP_IS_PAGE_ALIGNED (HEAP_GET_PAYLOAD b) then Some b
          else do { r \<leftarrow> list_aligned_walk m b bsize;
                    if r \<noteq> 0 then Some r else search_lists m heap bsize al (Suc list_idx) }
        else search_lists m heap bsize al (Suc list_idx)
      else Some 0)"
  by pat_completeness auto
termination
  by (relation "measure (\<lambda>(m, heap, bsize, al, i). HEAP_LIST_COUNT - i)") auto

declare search_lists.simps [simp del]

definition heap_search :: "mem \<Rightarrow> u64 \<Rightarrow> u64 \<Rightarrow> bool \<Rightarrow> u64 option" where
  "heap_search m heap bsize al =
     do { r \<leftarrow> (if HEAP_SIZE_IDX bsize \<ge> 0
               then search_lists m heap bsize al (nat (HEAP_SIZE_IDX bsize)) else Some 0);
          if r \<noteq> 0 then Some r
          else if al then heap_tree_search_aligned m (tree_slot heap) bsize
          else heap_tree_search m (tree_slot heap) bsize }"

definition list_remove :: "mem \<Rightarrow> u64 \<Rightarrow> u64 \<Rightarrow> mem" where
  "list_remove m slot b =
    (let m = (if prev_block m b = 0 then
                if next_block m b = 0 then store64 m slot 0
                else let m = set_prev m (next_block m b) 0 in store64 m slot (next_block m b)
              else
                if next_block m b \<noteq> 0 then
                  let m = set_prev m (next_block m b) (prev_block m b)
                  in set_next m (prev_block m b) (next_block m b)
                else set_next m (prev_block m b) 0);
         m = set_next m b 0
     in set_prev m b 0)"

definition heap_remove :: "mem \<Rightarrow> u64 \<Rightarrow> u64 \<Rightarrow> mem" where
  "heap_remove m heap block =
    (let list_idx = HEAP_SIZE_IDX (HEAP_GET_SIZE m block) in
     if list_idx \<ge> 0 then list_remove m (free_slot heap list_idx) block
     else heap_tree_delete m (tree_slot heap) block)"

definition list_push :: "mem \<Rightarrow> u64 \<Rightarrow> u64 \<Rightarrow> mem" where
  "list_push m slot b =
    (let m = set_prev m b 0;
         m = set_next m b (load64 m slot);
         m = (if next_block m b \<noteq> 0 then set_prev m (next_block m b) b else m)
     in store64 m slot b)"

definition heap_insert :: "mem \<Rightarrow> u64 \<Rightarrow> u64 \<Rightarrow> mem option" where
  "heap_insert m heap block =
    (let list_idx = HEAP_SIZE_IDX (HEAP_GET_SIZE m block) in
     if list_idx \<ge> 0 then Some (list_push m (free_slot heap list_idx) block)
     else do { (m, _) \<leftarrow> heap_tree_insert m (tree_slot heap) block; Some m })"

section \<open>Merging and growing\<close>

definition heap_merge_left :: "mem \<Rightarrow> u64 \<Rightarrow> u64 \<Rightarrow> mem \<times> u64" where
  "heap_merge_left m heap block =
    (if block > start_addr m heap then
       let prev_footer = HEAP_LEFT_FOOTER block in
       if HEAP_CHECK_FOOTER m prev_footer \<and> HEAP_GET_USED m (HEAP_GET_HEADER m prev_footer) = 0 then
         let free_left = HEAP_GET_HEADER m prev_footer;
             m = heap_remove m heap free_left
         in (heap_create_block m free_left (HEAP_GET_SIZE m free_left + HEAP_GET_SIZE m block),
             free_left)
       else (m, block)
     else (m, block))"

definition heap_merge_right :: "mem \<Rightarrow> u64 \<Rightarrow> u64 \<Rightarrow> mem" where
  "heap_merge_right m heap block =
    (if HEAP_GET_FOOTER m block + 16 < end_addr m heap then
       let next_header = HEAP_RIGHT_HEADER m block in
       if HEAP_CHECK_HEADER m next_header \<and> HEAP_GET_USED m next_header = 0 then
         let m = heap_remove m heap next_header
         in heap_create_block m block (HEAP_GET_SIZE m block + HEAP_GET_SIZE m next_header)
       else m
     else m)"

type_synonym page_allocator = "mem \<Rightarrow> u64 \<Rightarrow> u64 \<Rightarrow> (mem \<times> u64) option"

definition heap_extend :: "page_allocator \<Rightarrow> mem \<Rightarrow> u64 \<Rightarrow> u64 \<Rightarrow> (mem \<times> u64) option" where
  "heap_extend pa m heap bsize =
    (let block = end_addr m heap in
     do { (m, alloc_size) \<leftarrow> pa m (end_addr m heap) bsize;
          if alloc_size > 0 then
            let m = store64 m (heap + 8) (end_addr m heap + alloc_size);
                m = heap_create_block m block alloc_size
            in Some (heap_merge_left m heap block)
          else Some (m, 0) })"

section \<open>The operations\<close>

primrec clear_slots :: "nat \<Rightarrow> mem \<Rightarrow> u64 \<Rightarrow> mem" where
  "clear_slots 0 m heap = store64 m (free_slot heap 0) 0"
| "clear_slots (Suc i) m heap = store64 (clear_slots i m heap) (free_slot heap (int (Suc i))) 0"

definition heap_create :: "mem \<Rightarrow> u64 \<Rightarrow> u64 \<Rightarrow> u64 \<Rightarrow> (mem \<times> u64) option" where
  "heap_create m start sz max_size =
    (let heap = start;
         start = start + SIZEOF_HEAP_T;
         sz = sz - SIZEOF_HEAP_T;
         max_size = max_size - SIZEOF_HEAP_T;
         m = store64 m heap start;
         m = store64 m (heap + 8) (start + sz);
         m = store64 m (heap + 16) (start + max_size);
         m = store64 m (heap + 24) 0;
         m = clear_slots HEAP_LIST_COUNT m heap;
         block = start_addr m heap;
         m = heap_create_block m block sz
     in do { m \<leftarrow> heap_insert m heap block; Some (m, heap) })"

text \<open>The middle of \<^verbatim>\<open>heap_alloc\<close>: carve the aligned block out of \<open>b\<close>.\<close>

definition carve_aligned :: "mem \<Rightarrow> u64 \<Rightarrow> u64 \<Rightarrow> (mem \<times> u64) option" where
  "carve_aligned m heap b =
    (let block_size = HEAP_GET_SIZE m b;
         block_offset = PAGE_SIZE_ALIGN (HEAP_GET_PAYLOAD b) - 16;
         left_size = block_offset - b;
         right_size = block_size - left_size;
         m = heap_create_block m b left_size;
         m = heap_create_block m block_offset right_size
     in do { m \<leftarrow> heap_insert m heap b; Some (m, block_offset) })"

definition heap_alloc :: "page_allocator \<Rightarrow> mem \<Rightarrow> u64 \<Rightarrow> u64 \<Rightarrow> bool \<Rightarrow> (mem \<times> u64) option" where
  "heap_alloc pa m heap sz al =
    do { m \<leftarrow> heap_wait_lock m heap;
         if sz > 0 then
           (let bsize = HEAP_BSIZE (HEAP_SIZE_ALIGN sz) in
            do { b \<leftarrow> heap_search m heap bsize al;
                 (m, b) \<leftarrow> (if b = 0 then heap_extend pa m heap bsize
                           else Some (heap_remove m heap b, b));
                 if b \<noteq> 0 then
                   do { (m, b) \<leftarrow> (if al \<and> \<not> HEAP_IS_PAGE_ALIGNED (HEAP_GET_PAYLOAD b)
                                  then carve_aligned m heap b else Some (m, b));
                        let (m, other) = heap_split_block m b bsize;
                        m \<leftarrow> (if other \<noteq> 0 then heap_insert m heap other else Some m);
                        let m = HEAP_SET_USED m b 1;
                        Some (heap_unlock m heap, HEAP_GET_PAYLOAD b) }
                 else Some (heap_unlock m heap, 0) })
         else Some (heap_unlock m heap, 0) }"

definition heap_free :: "mem \<Rightarrow> u64 \<Rightarrow> u64 \<Rightarrow> mem option" where
  "heap_free m heap ptr =
    (if ptr \<noteq> 0 then
       let b = HEAP_PAYLOAD_HEADER ptr in
       if HEAP_CHECK_HEADER m b then
         do { m \<leftarrow> heap_wait_lock m heap;
              let m = HEAP_SET_USED m b 0;
              let (m, b) = heap_merge_left m heap b;
              let m = heap_merge_right m heap b;
              m \<leftarrow> heap_insert m heap b;
              Some (heap_unlock m heap) }
       else Some m
     else Some m)"

definition heap_alloc_size :: "mem \<Rightarrow> u64 \<Rightarrow> u64" where
  "heap_alloc_size m ptr =
    (if ptr \<noteq> 0 then
       let b = HEAP_PAYLOAD_HEADER ptr in
       if HEAP_CHECK_HEADER m b then HEAP_PSIZE (HEAP_GET_SIZE m b) else 0
     else 0)"

definition heap_realloc ::
  "page_allocator \<Rightarrow> mem \<Rightarrow> u64 \<Rightarrow> u64 \<Rightarrow> u64 \<Rightarrow> bool \<Rightarrow> (mem \<times> u64) option" where
  "heap_realloc pa m heap ptr sz al =
    (let psize = HEAP_ALIGN sz;
         bsize = HEAP_BSIZE psize;
         psize_now = heap_alloc_size m ptr
     in if psize_now > psize then Some (m, ptr)
        else do { m \<leftarrow> heap_wait_lock m heap;
                  (m, ptr_new) \<leftarrow> heap_alloc pa m heap bsize al;
                  let m = mem_copy m ptr_new ptr psize_now;
                  m \<leftarrow> heap_free m heap ptr;
                  Some (heap_unlock m heap, ptr_new) })"

end
