(* ===== verification/HeapBlocks.thy ===== *)
theory HeapBlocks
  imports Heap
begin

text \<open>
  Boundary tags: what \<^verbatim>\<open>heap_create_block\<close> and \<^verbatim>\<open>heap_split_block\<close> write, what
  they leave unchanged, and the arithmetic of \<^verbatim>\<open>heap.h\<close>'s size macros.
\<close>

section \<open>Cells at offsets\<close>

lemma apart_offset [frame]:
  "apart (p + c) (p + d) \<longleftrightarrow> apart c d"
  "apart p (p + d) \<longleftrightarrow> apart 0 d"
  "apart (p + c) p \<longleftrightarrow> apart c 0"
  by (simp_all add: apart_def)

lemma apart_numeral: "apart (8 :: u64) 0" "apart (0 :: u64) 8" "apart (16 :: u64) 8"
  by (simp_all add: apart_def)

section \<open>Sizes\<close>

lemma HEAP_ALIGN_le: "HEAP_ALIGN a \<le> a"
  by (simp add: HEAP_ALIGN_def word_and_le2)

lemma HEAP_ALIGN_idem [simp]: "HEAP_ALIGN (HEAP_ALIGN a) = HEAP_ALIGN a"
  by (simp add: HEAP_ALIGN_def ac_simps)

lemma HEAP_ALIGN_shift: "HEAP_ALIGN a = push_bit 4 (drop_bit 4 a)"
proof -
  have m: "(0xFFFFFFFFFFFFFFF0 :: u64) = NOT (mask 4)" by (simp add: mask_eq_exp_minus_1)
  show ?thesis unfolding HEAP_ALIGN_def m
    by (rule bit_word_eqI) (auto simp: bit_simps)
qed

lemma HEAP_ALIGN_mod: "unat (HEAP_ALIGN a) = unat a div 16 * 16"
proof -
  have "unat a div 16 * 16 < 2 ^ 64" using unat64_lt[of a] by simp
  then show ?thesis
    by (simp add: HEAP_ALIGN_shift push_bit_eq_mult drop_bit_eq_div unat_word_ariths unat_div)
qed

lemma HEAP_ALIGN_max: "unat (HEAP_ALIGN a) \<le> 2 ^ 64 - 16"
  using unat64_lt[of a] by (simp add: HEAP_ALIGN_mod)

lemma HEAP_ALIGN_fixI: "16 dvd unat a \<Longrightarrow> HEAP_ALIGN a = a"
  by (rule word_unat_eq_iff [THEN iffD2]) (simp add: HEAP_ALIGN_mod)

lemma HEAP_ALIGN_dvd: "16 dvd unat (HEAP_ALIGN a)"
  by (simp add: HEAP_ALIGN_mod)

lemma align_even: "HEAP_ALIGN s = s \<Longrightarrow> s AND 1 = 0"
proof -
  assume "HEAP_ALIGN s = s"
  moreover have "HEAP_ALIGN s AND 1 = 0" by (simp add: HEAP_ALIGN_def and.assoc)
  ultimately show ?thesis by simp
qed

section \<open>Creating a block\<close>

lemma tag_apart:
  assumes "32 \<le> HEAP_ALIGN s"
  shows "apart (HEAP_ALIGN s - 16) 0" "apart (HEAP_ALIGN s - 16) 8"
    "apart (HEAP_ALIGN s - 8) 0" "apart (HEAP_ALIGN s - 8) 8"
    "apart (HEAP_ALIGN s - 8) (HEAP_ALIGN s - 16)"
proof -
  define n where "n = HEAP_ALIGN s"
  have 1: "32 \<le> unat n" using assms by (simp add: n_def word_le_nat_alt)
  have 2: "unat n \<le> 2 ^ 64 - 16" unfolding n_def by (rule HEAP_ALIGN_max)
  from 1 2 show "apart (HEAP_ALIGN s - 16) 0" "apart (HEAP_ALIGN s - 16) 8"
    "apart (HEAP_ALIGN s - 8) 0" "apart (HEAP_ALIGN s - 8) 8"
    unfolding n_def [symmetric] apart_def by unat_arith+
  show "apart (HEAP_ALIGN s - 8) (HEAP_ALIGN s - 16)"
    by (simp add: apart_def)
qed

lemma heap_create_block_eq:
  "heap_create_block m p s =
     store64 (store64 (store64 (store64 m p HEAP_MAGIC) (p + 8) s)
       (p + (HEAP_ALIGN s - 8)) p) (p + (HEAP_ALIGN s - 16)) HEAP_MAGIC"
  by (simp add: heap_create_block_def HEAP_GET_FOOTER_def HEAP_GET_SIZE_def Let_def algebra_simps)

text \<open>A well-formed block: aligned size of at least 32, both magic numbers, footer link.\<close>

definition block :: "mem \<Rightarrow> u64 \<Rightarrow> u64 \<Rightarrow> bool" where
  "block m p s \<longleftrightarrow> HEAP_GET_SIZE m p = s \<and> 32 \<le> s \<and> HEAP_CHECK_HEADER m p \<and>
     HEAP_GET_HEADER m (HEAP_GET_FOOTER m p) = p"

text \<open>The 32 bytes a block's tags occupy.\<close>

definition tag_bytes :: "u64 \<Rightarrow> u64 \<Rightarrow> u64 set" where
  "tag_bytes p s = addrs p 16 \<union> addrs (p + (s - 16)) 16"

lemma addrs_split: "addrs a (n + k) \<subseteq> addrs a n \<union> addrs (a + of_nat n) k"
proof
  fix x assume "x \<in> addrs a (n + k)"
  then have u: "unat (x - a) < n + k" by (simp add: addrs_def)
  show "x \<in> addrs a n \<union> addrs (a + of_nat n) k"
  proof (cases "unat (x - a) < n")
    case False
    have e: "x - (a + of_nat n) = (x - a) - of_nat n" by simp
    have "unat (of_nat n :: u64) \<le> n" by (simp add: unat_of_nat)
    moreover have "of_nat n \<le> x - a"
      using False by (meson \<open>unat (of_nat n) \<le> n\<close> le_trans not_le word_le_nat_alt)
    moreover have "unat (of_nat n :: u64) = n"
      using False unat64_lt[of "x - a"] by (intro unat_of_nat_small) simp
    ultimately have "unat (x - (a + of_nat n)) = unat (x - a) - n"
      unfolding e by (simp only: unat_sub)
    then show ?thesis using u False by (simp add: addrs_def)
  qed (simp add: addrs_def)
qed

lemma sub_addrs: "x \<in> addrs (a + of_nat k) n \<Longrightarrow> x \<in> addrs a (k + n)"
proof -
  assume "x \<in> addrs (a + of_nat k) n"
  then have u: "unat (x - (a + of_nat k)) < n" by (simp add: addrs_def)
  have "unat (x - a) \<le> unat (x - (a + of_nat k)) + unat (of_nat k :: u64)"
    using unat_plus_le[of "x - (a + of_nat k)" "of_nat k"] by simp
  moreover have "unat (of_nat k :: u64) \<le> k" by (simp add: unat_of_nat)
  ultimately show ?thesis using u by (simp add: addrs_def)
qed

lemma heap_create_block_frame [frame]:
  assumes "x \<notin> tag_bytes p (HEAP_ALIGN s)"
  shows "heap_create_block m p s x = m x"
proof -
  have "x \<notin> addrs p 8" using assms addrs_mono[of 8 16 p] by (auto simp: tag_bytes_def)
  moreover have "x \<notin> addrs (p + 8) 8"
    using assms sub_addrs[of x p 8 8] by (auto simp: tag_bytes_def)
  moreover have "x \<notin> addrs (p + (HEAP_ALIGN s - 16)) 8"
    using assms addrs_mono[of 8 16 "p + (HEAP_ALIGN s - 16)"] by (auto simp: tag_bytes_def)
  moreover have "x \<notin> addrs (p + (HEAP_ALIGN s - 8)) 8"
  proof -
    have "p + (HEAP_ALIGN s - 8) = p + (HEAP_ALIGN s - 16) + of_nat 8" by simp
    then show ?thesis
      using assms sub_addrs[of x "p + (HEAP_ALIGN s - 16)" 8 8]
      unfolding tag_bytes_def by (metis Un_iff numeral_Bit0)
  qed
  ultimately show ?thesis by (simp add: heap_create_block_eq store64_other)
qed

lemma heap_create_block_tags:
  assumes "32 \<le> HEAP_ALIGN s"
  shows "load64 (heap_create_block m p s) (p + 8) = s"
    and "block (heap_create_block m p s) p (HEAP_ALIGN s)"
proof -
  note a = tag_apart[OF assms] apart_numeral
  let ?m = "heap_create_block m p s"
  have 0: "load64 ?m p = HEAP_MAGIC" and 1: "load64 ?m (p + 8) = s"
    and 2: "load64 ?m (p + (HEAP_ALIGN s - 16)) = HEAP_MAGIC"
    and 3: "load64 ?m (p + (HEAP_ALIGN s - 8)) = p"
    by (simp_all add: heap_create_block_eq frame a a [THEN apart_sym [THEN iffD1]])
  show "load64 ?m (p + 8) = s" by (rule 1)
  have f: "HEAP_GET_FOOTER ?m p = p + (HEAP_ALIGN s - 16)"
    by (simp add: HEAP_GET_FOOTER_def HEAP_GET_SIZE_def 1)
  have "p + (HEAP_ALIGN s - 16) + 8 = p + (HEAP_ALIGN s - 8)" by simp
  with 0 1 2 3 assms show "block ?m p (HEAP_ALIGN s)"
    unfolding block_def HEAP_CHECK_HEADER_def HEAP_GET_HEADER_def f
    by (simp only: HEAP_GET_SIZE_def)
qed

section \<open>Blocks side by side\<close>

lemma addrs_adjacent:
  assumes "n + k \<le> 2 ^ 64"
  shows "addrs a n \<inter> addrs (a + of_nat n) k = {}"
proof -
  have False if 1: "unat (x - a) < n" and 2: "unat (x - (a + of_nat n)) < k" for x
  proof -
    have n: "unat (of_nat n :: u64) = n \<or> n = 2 ^ 64"
      using assms by (cases "n = 2 ^ 64") (auto simp: unat_of_nat take_bit_nat_eq_self)
    show False
    proof (cases "n = 2 ^ 64")
      case True
      then show False using 2 assms by simp
    next
      case False
      with n have u: "unat (of_nat n :: u64) = n" by simp
      have e: "x - (a + of_nat n) = (x - a) - of_nat n" by simp
      have "unat ((x - a) - of_nat n) = unat (x - a) + 2 ^ 64 - n"
        using 1 u by (subst unat_sub_if') simp
      then show False using 2 assms unfolding e by simp
    qed
  qed
  then show ?thesis by (auto simp: addrs_def)
qed

lemma tag_bytes_subset: "32 \<le> s \<Longrightarrow> tag_bytes p s \<subseteq> addrs p (unat s)"
proof
  fix x assume s: "32 \<le> s" and "x \<in> tag_bytes p s"
  then have s32: "32 \<le> unat s" by (simp add: word_le_nat_alt)
  from \<open>x \<in> tag_bytes p s\<close> consider "x \<in> addrs p 16" | "x \<in> addrs (p + (s - 16)) 16"
    by (auto simp: tag_bytes_def)
  then show "x \<in> addrs p (unat s)"
  proof cases
    case 1
    then show ?thesis using s32 addrs_mono[of 16 "unat s" p] by auto
  next
    case 2
    have u: "unat (s - 16) = unat s - 16" using s32 by unat_arith
    have "s - 16 = of_nat (unat s - 16)" unfolding u [symmetric] by simp
    then have "x \<in> addrs p (unat s - 16 + 16)" using 2 by (metis sub_addrs)
    then show ?thesis using s32 by simp
  qed
qed

lemma block_cells:
  assumes "load64 m' p = load64 m p" "load64 m' (p + 8) = load64 m (p + 8)"
    "load64 m' (p + (s - 16)) = load64 m (p + (s - 16))" "load64 m' (p + (s - 8)) = load64 m (p + (s - 8))"
    and blk: "block m p s"
  shows "block m' p s"
proof -
  have s: "HEAP_GET_SIZE m p = s" "HEAP_GET_SIZE m' p = s"
    using blk assms(2) by (simp_all add: block_def HEAP_GET_SIZE_def)
  have f: "HEAP_GET_FOOTER m p = p + (s - 16)" "HEAP_GET_FOOTER m' p = p + (s - 16)"
    using s by (simp_all add: HEAP_GET_FOOTER_def)
  have f8: "p + (s - 16) + 8 = p + (s - 8)" by simp
  from blk show ?thesis
    unfolding block_def HEAP_CHECK_HEADER_def HEAP_GET_HEADER_def f f8 by (simp only: s assms)
qed

lemma block_frame:
  assumes "\<And>x. x \<in> tag_bytes p s \<Longrightarrow> m' x = m x" "block m p s"
  shows "block m' p s"
proof (rule block_cells[OF _ _ _ _ assms(2)])
  show "load64 m' p = load64 m p"
    by (rule load64_cong) (use assms(1) addrs_mono[of 8 16 p] in \<open>auto simp: tag_bytes_def\<close>)
  show "load64 m' (p + 8) = load64 m (p + 8)"
    by (rule load64_cong) (use assms(1) sub_addrs[of _ p 8 8] in \<open>auto simp: tag_bytes_def\<close>)
  show "load64 m' (p + (s - 16)) = load64 m (p + (s - 16))"
    by (rule load64_cong) (use assms(1) addrs_mono[of 8 16 "p + (s - 16)"] in \<open>auto simp: tag_bytes_def\<close>)
  show "load64 m' (p + (s - 8)) = load64 m (p + (s - 8))"
  proof (rule load64_cong)
    fix x assume "x \<in> addrs (p + (s - 8)) 8"
    moreover have "p + (s - 8) = p + (s - 16) + of_nat 8" by simp
    ultimately have "x \<in> addrs (p + (s - 16)) (8 + 8)" by (metis sub_addrs)
    then show "m' x = m x" using assms(1) by (simp add: tag_bytes_def)
  qed
qed

lemma block_aligned: "block m p s \<Longrightarrow> HEAP_ALIGN s = s"
  by (auto simp: block_def HEAP_GET_SIZE_def)

text \<open>A run of blocks, one after the other, with the given sizes.\<close>

primrec tiles :: "mem \<Rightarrow> u64 \<Rightarrow> u64 list \<Rightarrow> u64 \<Rightarrow> bool" where
  "tiles m a [] e \<longleftrightarrow> a = e"
| "tiles m a (s # ss) e \<longleftrightarrow> block m a s \<and> tiles m (a + s) ss e"

section \<open>Properties\<close>

lemma split_block_tiles:
  assumes blk: "tiles m b [s] e" and off: "HEAP_ALIGN off = off" "32 \<le> off" "off \<le> s"
  shows "(if 48 \<le> s - off
    then \<exists>m'. heap_split_block m b off = (m', b + off) \<and> tiles m' b [off, s - off] e \<and>
           (\<forall>x. x \<notin> tag_bytes b off \<union> tag_bytes (b + off) (s - off) \<longrightarrow> m' x = m x)
    else heap_split_block m b off = (m, 0))"
proof -
  from blk have b: "block m b s" and e: "b + s = e" by auto
  have al: "HEAP_ALIGN (s - off) = s - off"
  proof (rule HEAP_ALIGN_fixI)
    have "16 dvd unat s" "16 dvd unat off"
      using HEAP_ALIGN_dvd[of s] HEAP_ALIGN_dvd[of off] block_aligned[OF b] off by auto
    then show "16 dvd unat (s - off)" using off by (simp add: unat_sub dvd_diff_nat)
  qed
  have gs: "HEAP_GET_SIZE m b = s" using b by (simp add: block_def)
  show ?thesis
  proof (cases "48 \<le> s - off")
    case False
    then show ?thesis by (simp add: heap_split_block_def gs off Let_def)
  next
    case True
    then have big: "32 \<le> s - off" by unat_arith
    let ?m1 = "heap_create_block m (b + off) (s - off)"
    let ?m2 = "heap_create_block ?m1 b off"
    have "block ?m1 (b + off) (s - off)"
      using heap_create_block_tags(2)[of "s - off" m "b + off"] al big by simp
    moreover have dj: "tag_bytes b off \<inter> tag_bytes (b + off) (s - off) = {}"
    proof -
      have "unat off + unat (s - off) \<le> 2 ^ 64" using off unat64_lt[of s] by (simp add: unat_sub word_le_nat_alt)
      then have "addrs b (unat off) \<inter> addrs (b + off) (unat (s - off)) = {}"
        using addrs_adjacent[of "unat off" "unat (s - off)" b] by simp
      then show ?thesis using tag_bytes_subset[OF off(2)] tag_bytes_subset[OF big] by blast
    qed
    moreover have "?m2 x = ?m1 x" if "x \<in> tag_bytes (b + off) (s - off)" for x
      by (rule heap_create_block_frame) (use that dj off in auto)
    ultimately have "block ?m2 (b + off) (s - off)" by (intro block_frame[of _ _ ?m2 ?m1]) auto
    moreover have "block ?m2 b off"
      using heap_create_block_tags(2)[of off ?m1 b] off by simp
    moreover have "?m2 x = m x" if "x \<notin> tag_bytes b off \<union> tag_bytes (b + off) (s - off)" for x
      using that off al by (simp add: heap_create_block_frame)
    ultimately show ?thesis
      using True e by (simp add: heap_split_block_def gs off Let_def)
  qed
qed

text \<open>Splitting tiles: on a well-formed block of size \<open>s\<close>, \<^verbatim>\<open>heap_split_block\<close> at an
  aligned offset of at least 32 that lies inside the block either leaves memory alone and
  returns null (when fewer than 48 bytes would remain) or turns the block into two adjacent
  well-formed blocks that end where the old one ended, returns the right one, and writes only
  the boundary tags of the two.\<close>

theorem heap_split_block_tiles:
  assumes blk: "tiles m b [s] e" and off: "HEAP_ALIGN off = off" "32 \<le> off" "off \<le> s"
  shows "(if 48 \<le> s - off
    then \<exists>m'. heap_split_block m b off = (m', b + off) \<and> tiles m' b [off, s - off] e \<and>
           (\<forall>x. x \<notin> tag_bytes b off \<union> tag_bytes (b + off) (s - off) \<longrightarrow> m' x = m x)
    else heap_split_block m b off = (m, 0))"
  by (rule split_block_tiles[OF assms])

theorem heap_split_block_tiles_witness:
  "\<exists>m m'. heap_split_block m 0x1000 48 = (m', 0x1030) \<and> tiles m' 0x1000 [48, 208] 0x1100"
proof -
  let ?m = "heap_create_block (\<lambda>_. 0) 0x1000 256"
  have "block ?m 0x1000 256"
    using heap_create_block_tags(2)[of 256 "\<lambda>_. 0" "0x1000"] by (simp add: HEAP_ALIGN_def)
  then have "tiles ?m 0x1000 [256] 0x1100" by simp
  from heap_split_block_tiles[OF this, where off = 48] show ?thesis
    by (auto simp: HEAP_ALIGN_def)
qed

end
