(* ===== verification/DList.thy ===== *)
theory DList
  imports Main
begin

text \<open>
  Families of doubly linked, null-terminated lists threaded through a store. The heap and the
  page allocator keep their segregated free lists this way: an array of list heads, a
  \<^verbatim>\<open>prev_block\<close> and a \<^verbatim>\<open>next_block\<close> field in each free block. The locale
  names what the list code needs of the store (a field reads back what was stored in it, and a
  store changes no other field as long as the blocks and heads do not overlap) and shows once
  that pushing and unlinking refine \<open>Cons\<close> and \<open>remove1\<close> on the lists of blocks.
\<close>

section \<open>Segments of a linked list\<close>

text \<open>\<open>seg nx pv p a xs q b\<close>: starting at \<open>a\<close>, whose predecessor is \<open>p\<close>, the blocks
  \<open>xs\<close> follow, \<open>q\<close> is the last block before \<open>b\<close>.\<close>

primrec seg :: "('a::zero \<Rightarrow> 'a) \<Rightarrow> ('a \<Rightarrow> 'a) \<Rightarrow> 'a \<Rightarrow> 'a \<Rightarrow> 'a list \<Rightarrow> 'a \<Rightarrow> 'a \<Rightarrow> bool" where
  "seg nx pv p a [] q b \<longleftrightarrow> p = q \<and> a = b"
| "seg nx pv p a (x # xs) q b \<longleftrightarrow> a = x \<and> x \<noteq> 0 \<and> pv x = p \<and> seg nx pv x (nx x) xs q b"

lemma seg_append:
  "seg nx pv p a (xs @ ys) q b \<longleftrightarrow> (\<exists>r c. seg nx pv p a xs r c \<and> seg nx pv r c ys q b)"
  by (induction xs arbitrary: p a) auto

lemma seg_cong:
  "(\<And>x. x \<in> set xs \<Longrightarrow> nx x = nx' x \<and> pv x = pv' x) \<Longrightarrow>
   seg nx pv p a xs q b = seg nx' pv' p a xs q b"
  by (induction xs arbitrary: p a) auto

lemma seg_snoc:
  "seg nx pv p a (xs @ [y]) q b \<longleftrightarrow> (\<exists>r. seg nx pv p a xs r y \<and> y \<noteq> 0 \<and> pv y = r \<and> q = y \<and> b = nx y)"
  by (auto simp: seg_append)

lemma seg_nonzero: "seg nx pv p a xs q b \<Longrightarrow> 0 \<notin> set xs"
  by (induction xs arbitrary: p a) auto

text \<open>A whole list: it starts with predecessor 0 and runs into 0.\<close>

definition dll :: "('a::zero \<Rightarrow> 'a) \<Rightarrow> ('a \<Rightarrow> 'a) \<Rightarrow> 'a \<Rightarrow> 'a list \<Rightarrow> bool" where
  "dll nx pv h xs \<longleftrightarrow> (\<exists>q. seg nx pv 0 h xs q 0)"

lemma dll_Nil [simp]: "dll nx pv h [] \<longleftrightarrow> h = 0"
  by (auto simp: dll_def)

lemma dll_cong:
  "(\<And>x. x \<in> set xs \<Longrightarrow> nx x = nx' x \<and> pv x = pv' x) \<Longrightarrow> dll nx pv h xs = dll nx' pv' h xs"
  unfolding dll_def using seg_cong[of xs nx nx' pv pv'] by fastforce

lemma dll_nonzero: "dll nx pv h xs \<Longrightarrow> 0 \<notin> set xs"
  by (auto simp: dll_def dest: seg_nonzero)

lemma dll_split:
  "dll nx pv h (ys @ b # zs) \<longleftrightarrow>
     (\<exists>q. seg nx pv 0 h ys (pv b) b \<and> b \<noteq> 0 \<and> seg nx pv b (nx b) zs q 0)"
  by (auto simp: dll_def seg_append)

lemma dll_head: "dll nx pv h (x # xs) \<Longrightarrow> h = x \<and> pv x = 0"
  by (auto simp: dll_def)

lemma dll_next:
  "dll nx pv h (ys @ b # zs) \<Longrightarrow> nx b = (if zs = [] then 0 else hd zs)"
  by (cases zs) (auto simp: dll_split)

lemma dll_prev:
  "dll nx pv h (ys @ b # zs) \<Longrightarrow> pv b = (if ys = [] then 0 else last ys)"
  by (cases ys rule: rev_cases) (auto simp: dll_split seg_snoc dest: dll_head)

text \<open>Linking a block in, and taking one out, at any position. The hypotheses say what the
  stores of the code leave in the two link fields.\<close>

lemma dll_insert:
  assumes l: "dll nx pv h (ys @ zs)" and b: "b \<noteq> 0" "b \<notin> set (ys @ zs)" and d: "distinct (ys @ zs)"
    and nx: "\<And>x. x \<in> set (ys @ b # zs) \<Longrightarrow> nx' x = (if x = b then (if zs = [] then 0 else hd zs)
               else if ys \<noteq> [] \<and> x = last ys then b else nx x)"
    and pv: "\<And>x. x \<in> set (ys @ b # zs) \<Longrightarrow> pv' x = (if x = b then (if ys = [] then 0 else last ys)
               else if zs \<noteq> [] \<and> x = hd zs then b else pv x)"
  shows "dll nx' pv' (if ys = [] then b else h) (ys @ b # zs)"
proof -
  from l obtain r c q where 1: "seg nx pv 0 h ys r c" and 2: "seg nx pv r c zs q 0"
    by (auto simp: dll_def seg_append)
  have A: "seg nx' pv' 0 (if ys = [] then b else h) ys (if ys = [] then 0 else last ys) b"
  proof (cases ys rule: rev_cases)
    case (snoc us u)
    have "seg nx pv 0 h us r' u = seg nx' pv' 0 h us r' u" for r'
      by (rule seg_cong) (use snoc d b nx pv in auto)
    then show ?thesis using 1 snoc b d nx[of u] pv[of u] by (auto simp: seg_snoc)
  qed simp
  have B: "seg nx' pv' b (if zs = [] then 0 else hd zs) zs (if zs = [] then b else q) 0"
  proof (cases zs)
    case (Cons z zs')
    have "z \<notin> set ys" "z \<noteq> b" using d b Cons by auto
    have l: "ys \<noteq> [] \<Longrightarrow> last ys \<notin> set zs" using d by (metis distinct_append disjoint_iff last_in_set)
    note \<open>z \<notin> set ys\<close> \<open>z \<noteq> b\<close>
    moreover have "seg nx pv z (nx z) zs' q 0 = seg nx' pv' z (nx z) zs' q 0"
      by (rule seg_cong) (use Cons d b nx pv l in auto)
    ultimately show ?thesis using 2 Cons l nx[of z] pv[of z] by auto
  qed simp
  from A B b nx[of b] pv[of b] show ?thesis by (auto simp: dll_split intro!: exI)
qed

lemma dll_delete:
  assumes l: "dll nx pv h (ys @ b # zs)" and d: "distinct (ys @ b # zs)"
    and nx: "\<And>x. x \<in> set (ys @ zs) \<Longrightarrow> nx' x = (if x = pv b then nx b else nx x)"
    and pv: "\<And>x. x \<in> set (ys @ zs) \<Longrightarrow> pv' x = (if x = nx b then pv b else pv x)"
  shows "dll nx' pv' (if ys = [] then nx b else h) (ys @ zs)"
proof -
  from l obtain q where 1: "seg nx pv 0 h ys (pv b) b" and 2: "seg nx pv b (nx b) zs q 0"
    by (auto simp: dll_split)
  have nb: "nx b = (if zs = [] then 0 else hd zs)" by (rule dll_next[OF l])
  have pb: "pv b = (if ys = [] then 0 else last ys)" by (rule dll_prev[OF l])
  have nz: "0 \<notin> set (ys @ zs)" using dll_nonzero[OF l] by auto
  have ends: "pv b = 0 \<or> pv b \<in> set ys" "nx b = 0 \<or> nx b \<in> set zs" using pb nb by auto
  have A: "seg nx' pv' 0 (if ys = [] then nx b else h) ys (pv b) (nx b)"
  proof (cases ys rule: rev_cases)
    case Nil then show ?thesis using pb by simp
  next
    case (snoc us u)
    have "seg nx pv 0 h us r u = seg nx' pv' 0 h us r u" for r
      by (rule seg_cong) (use snoc d nx pv pb ends nz in auto)
    moreover have "u \<noteq> nx b" "pv b = u" using snoc ends d nz pb by auto
    ultimately show ?thesis using 1 snoc nx[of u] pv[of u] by (auto simp: seg_snoc)
  qed
  have B: "seg nx' pv' (pv b) (nx b) zs (if zs = [] then pv b else q) 0"
  proof (cases zs)
    case Nil then show ?thesis using nb by simp
  next
    case (Cons z zs')
    have "seg nx pv z (nx z) zs' q 0 = seg nx' pv' z (nx z) zs' q 0"
      by (rule seg_cong) (use Cons d nx pv nb ends nz in auto)
    moreover have "z \<noteq> pv b" "nx b = z" "z \<noteq> 0" using Cons ends d nz nb by auto
    ultimately show ?thesis using 2 Cons nx[of z] pv[of z] by auto
  qed
  from A B show ?thesis unfolding dll_def seg_append by blast
qed

section \<open>The interface and the two operations\<close>

locale dlist =
  fixes getp getn :: "'s \<Rightarrow> 'a::zero \<Rightarrow> 'a"
    and setp setn :: "'s \<Rightarrow> 'a \<Rightarrow> 'a \<Rightarrow> 's"
    and geth :: "'s \<Rightarrow> 'h \<Rightarrow> 'a"
    and seth :: "'s \<Rightarrow> 'h \<Rightarrow> 'a \<Rightarrow> 's"
    and ok :: "'h set \<Rightarrow> 'a set \<Rightarrow> bool"
  assumes getp_setp: "ok H N \<Longrightarrow> a \<in> N \<Longrightarrow> b \<in> N \<Longrightarrow> getp (setp s a v) b = (if a = b then v else getp s b)"
    and getn_setn: "ok H N \<Longrightarrow> a \<in> N \<Longrightarrow> b \<in> N \<Longrightarrow> getn (setn s a v) b = (if a = b then v else getn s b)"
    and getp_setn: "ok H N \<Longrightarrow> a \<in> N \<Longrightarrow> b \<in> N \<Longrightarrow> getp (setn s a v) b = getp s b"
    and getn_setp: "ok H N \<Longrightarrow> a \<in> N \<Longrightarrow> b \<in> N \<Longrightarrow> getn (setp s a v) b = getn s b"
    and geth_seth: "ok H N \<Longrightarrow> h \<in> H \<Longrightarrow> k \<in> H \<Longrightarrow> geth (seth s h v) k = (if h = k then v else geth s k)"
    and geth_set: "ok H N \<Longrightarrow> h \<in> H \<Longrightarrow> a \<in> N \<Longrightarrow> geth (setp s a v) h = geth s h \<and> geth (setn s a v) h = geth s h"
    and get_seth: "ok H N \<Longrightarrow> h \<in> H \<Longrightarrow> a \<in> N \<Longrightarrow> getp (seth s h v) a = getp s a \<and> getn (seth s h v) a = getn s a"
begin

definition push :: "'s \<Rightarrow> 'h \<Rightarrow> 'a \<Rightarrow> 's" where
  "push s h b =
    (let s = setp s b 0;
         s = setn s b (geth s h);
         s = (if getn s b \<noteq> 0 then setp s (getn s b) b else s)
     in seth s h b)"

definition unlink :: "'s \<Rightarrow> 'h \<Rightarrow> 'a \<Rightarrow> 's" where
  "unlink s h b =
    (let s = (if getp s b = 0 then
                if getn s b = 0 then seth s h 0
                else let s = setp s (getn s b) 0 in seth s h (getn s b)
              else
                if getn s b \<noteq> 0 then
                  let s = setp s (getn s b) (getp s b)
                  in setn s (getp s b) (getn s b)
                else setn s (getp s b) 0);
         s = setn s b 0
     in setp s b 0)"

text \<open>The family: every head in \<open>H\<close> leads to its list, the lists share no block.\<close>

definition family :: "'s \<Rightarrow> 'h set \<Rightarrow> ('h \<Rightarrow> 'a list) \<Rightarrow> bool" where
  "family s H L \<longleftrightarrow>
     (\<forall>h\<in>H. dll (getn s) (getp s) (geth s h) (L h) \<and> distinct (L h)) \<and>
     (\<forall>h\<in>H. \<forall>k\<in>H. h \<noteq> k \<longrightarrow> set (L h) \<inter> set (L k) = {})"

lemmas laws = getp_setp getn_setn getp_setn getn_setp geth_seth geth_set get_seth

lemma push_get:
  assumes ok: "ok H N" and h: "h \<in> H" and b: "b \<in> N" and hd: "geth s h = 0 \<or> geth s h \<in> N" "geth s h \<noteq> b"
  shows "a \<in> N \<Longrightarrow> getp (push s h b) a = (if a = b then 0 else if a = geth s h \<and> a \<noteq> 0 then b else getp s a)"
    and "a \<in> N \<Longrightarrow> getn (push s h b) a = (if a = b then geth s h else getn s a)"
    and "k \<in> H \<Longrightarrow> geth (push s h b) k = (if k = h then b else geth s k)"
  using assms by (auto simp: push_def Let_def laws[OF ok])

lemma push_family:
  assumes ok: "ok H N" and L: "family s H L" and N: "\<And>h. h \<in> H \<Longrightarrow> set (L h) \<subseteq> N"
    and h: "h \<in> H" and b: "b \<in> N" "b \<noteq> 0" "\<And>k. k \<in> H \<Longrightarrow> b \<notin> set (L k)"
  shows "family (push s h b) H (L(h := b # L h))"
proof -
  have lst: "dll (getn s) (getp s) (geth s k) (L k)" "distinct (L k)" if "k \<in> H" for k
    using L that by (auto simp: family_def)
  have hd: "geth s h = 0 \<or> geth s h \<in> set (L h)"
    using lst(1)[OF h] by (cases "L h") (auto dest: dll_head)
  then have hd1: "geth s h = 0 \<or> geth s h \<in> N" and hd2: "geth s h \<noteq> b"
    using N[OF h] b h by auto
  note g = push_get[OF ok h b(1) hd1 hd2]
  have other: "dll (getn (push s h b)) (getp (push s h b)) (geth (push s h b) k) (L k)"
    if k: "k \<in> H" "k \<noteq> h" for k
  proof -
    have "geth s h \<notin> set (L k) \<or> geth s h = 0" using hd L k h by (auto simp: family_def)
    moreover have "x \<noteq> b" "x \<in> N" if "x \<in> set (L k)" for x using that b k N by auto
    ultimately have "dll (getn (push s h b)) (getp (push s h b)) (geth s k) (L k)
        = dll (getn s) (getp s) (geth s k) (L k)"
      by (intro dll_cong) (auto simp: g)
    then show ?thesis using lst k by (simp add: g)
  qed
  have y: "L h \<noteq> [] \<Longrightarrow> geth s h = hd (L h)" "L h = [] \<Longrightarrow> geth s h = 0"
    using lst(1)[OF h] by (cases "L h"; auto dest: dll_head)+
  have mine: "dll (getn (push s h b)) (getp (push s h b)) b (b # L h)"
  proof -
    have nz: "0 \<notin> set (L h)" using dll_nonzero[OF lst(1)[OF h]] .
    have "dll (getn (push s h b)) (getp (push s h b)) (if [] = ([] :: 'a list) then b else geth s h)
       ([] @ b # L h)"
    proof (rule dll_insert[where nx = "getn s" and pv = "getp s"])
      fix x assume "x \<in> set ([] @ b # L h)"
      then have "x \<in> N" "x = b \<or> x \<in> set (L h) \<and> x \<noteq> b \<and> x \<noteq> 0" using b N[OF h] nz h by auto
      then show "getn (push s h b) x = (if x = b then if L h = [] then 0 else hd (L h)
            else if [] \<noteq> ([] :: 'a list) \<and> x = last [] then b else getn s x)"
        and "getp (push s h b) x = (if x = b then if [] = ([] :: 'a list) then 0 else last []
            else if L h \<noteq> [] \<and> x = hd (L h) then b else getp s x)"
        using y nz by (cases "L h = []"; auto simp: g)+
    qed (use lst[OF h] b h in auto)
    then show ?thesis by simp
  qed
  have "geth (push s h b) h = b" by (simp add: g h)
  with other mine b lst L h show ?thesis by (auto simp: family_def fun_upd_def)
qed

lemma unlink_get:
  assumes ok: "ok H N" and h: "h \<in> H" and b: "b \<in> N"
    and p: "getp s b = 0 \<or> getp s b \<in> N" "getp s b \<noteq> b"
    and n: "getn s b = 0 \<or> getn s b \<in> N" "getn s b \<noteq> b"
  shows "a \<in> N \<Longrightarrow> getp (unlink s h b) a
      = (if a = b then 0 else if a = getn s b \<and> a \<noteq> 0 then getp s b else getp s a)"
    and "a \<in> N \<Longrightarrow> getn (unlink s h b) a
      = (if a = b then 0 else if a = getp s b \<and> a \<noteq> 0 then getn s b else getn s a)"
    and "k \<in> H \<Longrightarrow> geth (unlink s h b) k = (if k = h \<and> getp s b = 0 then getn s b else geth s k)"
  using assms by (auto simp: unlink_def Let_def laws[OF ok])

lemma unlink_family:
  assumes ok: "ok H N" and L: "family s H L" and N: "\<And>h. h \<in> H \<Longrightarrow> set (L h) \<subseteq> N"
    and h: "h \<in> H" and b: "b \<in> set (L h)"
  shows "family (unlink s h b) H (L(h := remove1 b (L h)))"
    and "getp (unlink s h b) b = 0 \<and> getn (unlink s h b) b = 0"
proof -
  have lst: "dll (getn s) (getp s) (geth s k) (L k)" "distinct (L k)" if "k \<in> H" for k
    using L that by (auto simp: family_def)
  obtain ys zs where sp: "L h = ys @ b # zs" using b by (meson split_list)
  have d: "distinct (ys @ b # zs)" using lst[OF h] sp by simp
  then have rm: "remove1 b (L h) = ys @ zs" by (simp add: sp remove1_append)
  from lst(1)[OF h] obtain q where
    s1: "seg (getn s) (getp s) 0 (geth s h) ys (getp s b) b" and bz: "b \<noteq> 0"
    and s2: "seg (getn s) (getp s) b (getn s b) zs q 0"
    by (auto simp: sp dll_split)
  have pb: "getp s b = (if ys = [] then 0 else last ys)" "ys = [] \<Longrightarrow> geth s h = b"
    using s1 by (cases ys rule: rev_cases; auto simp: seg_snoc)+
  have nb: "getn s b = (if zs = [] then 0 else hd zs)"
    using s2 by (cases zs) auto
  have ends: "getp s b = 0 \<or> getp s b \<in> set ys" "getn s b = 0 \<or> getn s b \<in> set zs"
    using pb(1) nb by (auto intro: last_in_set hd_in_set)
  have nz: "0 \<notin> set ys" "0 \<notin> set zs" using s1 s2 by (auto dest: seg_nonzero)
  have inN: "set ys \<subseteq> N" "b \<in> N" "set zs \<subseteq> N" using N[OF h] sp by auto
  have p: "getp s b = 0 \<or> getp s b \<in> N" "getp s b \<noteq> b"
    using pb inN d bz by (auto dest: last_in_set)
  have n: "getn s b = 0 \<or> getn s b \<in> N" "getn s b \<noteq> b"
    using nb inN d bz by (auto dest: hd_in_set)
  note g = unlink_get[OF ok h inN(2) p n]
  show "getp (unlink s h b) b = 0 \<and> getn (unlink s h b) b = 0"
    using inN by (simp add: g)
  let ?n = "getn (unlink s h b)" and ?p = "getp (unlink s h b)"
  have other: "dll ?n ?p (geth (unlink s h b) k) (L k)" if k: "k \<in> H" "k \<noteq> h" for k
  proof -
    have dj: "set (L k) \<inter> set (ys @ b # zs) = {}" using L k h sp unfolding family_def by metis
    have "x \<in> N \<and> x \<noteq> b \<and> (x = getp s b \<longrightarrow> x = 0) \<and> (x = getn s b \<longrightarrow> x = 0)"
      if "x \<in> set (L k)" for x
      using that dj N[OF k(1)] pb nb by (auto split: if_splits)
    then have "dll ?n ?p (geth s k) (L k) = dll (getn s) (getp s) (geth s k) (L k)"
      by (intro dll_cong) (auto simp: g)
    then show ?thesis using lst k by (simp add: g)
  qed
  have hz: "geth (unlink s h b) h = (if ys = [] then getn s b else geth s h)"
  proof (cases ys)
    case (Cons u us)
    then have "last ys \<in> set ys" by simp
    then show ?thesis using pb(1) nz Cons h by (auto simp: g)
  qed (use h pb in \<open>simp add: g\<close>)
  have "dll ?n ?p (geth (unlink s h b) h) (ys @ zs)"
    unfolding hz
  proof (rule dll_delete[OF lst(1)[OF h, unfolded sp] d])
    fix x assume "x \<in> set (ys @ zs)"
    then have "x \<in> N" "x \<noteq> b" "x \<noteq> 0" using inN d nz by auto
    then show "?n x = (if x = getp s b then getn s b else getn s x)"
      and "?p x = (if x = getn s b then getp s b else getp s x)" by (simp_all add: g)
  qed
  moreover have "distinct (ys @ zs)" using d by simp
  moreover have "set (ys @ zs) \<inter> set (L k) = {} \<and> set (L k) \<inter> set (ys @ zs) = {}"
    if "k \<in> H" "k \<noteq> h" for k
  proof -
    have "set (L h) \<inter> set (L k) = {}" using L that h unfolding family_def by metis
    then show ?thesis using sp by auto
  qed
  ultimately show "family (unlink s h b) H (L(h := remove1 b (L h)))"
    using other lst L h unfolding family_def rm by simp
qed

end

end
