(* ===== verification/HeapLists.thy ===== *)
theory HeapLists
  imports HeapBlocks DList
begin

text \<open>
  The segregated free lists of the heap as an instance of the list interface of DList:
  \<^verbatim>\<open>heap_insert\<close> and \<^verbatim>\<open>heap_remove\<close> on blocks that belong to a list refine
  \<open>Cons\<close> and \<open>remove1\<close>, and \<^verbatim>\<open>heap_search\<close> without alignment takes the first block of
  the first non-empty list that is large enough.
\<close>

section \<open>The interface on the heap's fields\<close>

text \<open>Link fields of different blocks, and list heads, do not overlap.\<close>

definition lists_sep :: "u64 set \<Rightarrow> u64 set \<Rightarrow> bool" where
  "lists_sep H N \<longleftrightarrow>
     (\<forall>a\<in>N. \<forall>b\<in>N. a \<noteq> b \<longrightarrow> apart (a + 16) (b + 16) \<and> apart (a + 16) (b + 24) \<and> apart (a + 24) (b + 24)) \<and>
     (\<forall>h\<in>H. \<forall>a\<in>N. apart (a + 16) h \<and> apart (a + 24) h) \<and>
     (\<forall>h\<in>H. \<forall>k\<in>H. h \<noteq> k \<longrightarrow> apart h k)"

lemma link_apart: "apart (16 :: u64) 24" "apart (24 :: u64) 16"
  by (simp_all add: apart_def)

interpretation hl: dlist prev_block next_block set_prev set_next load64 store64 lists_sep
proof unfold_locales
  fix H N and a b v :: u64 and s :: mem
  assume ok: "lists_sep H N" and "a \<in> N" "b \<in> N"
  then have *: "a \<noteq> b \<Longrightarrow> apart (b + 16) (a + 16) \<and> apart (b + 24) (a + 24)
      \<and> apart (b + 16) (a + 24) \<and> apart (b + 24) (a + 16)"
    using apart_sym unfolding lists_sep_def by metis
  show "prev_block (set_prev s a v) b = (if a = b then v else prev_block s b)"
    and "next_block (set_next s a v) b = (if a = b then v else next_block s b)"
    using * by (simp_all add: link_defs frame)
  show "prev_block (set_next s a v) b = prev_block s b"
    and "next_block (set_prev s a v) b = next_block s b"
    using * by (cases "a = b"; simp add: link_defs frame link_apart)+
next
  fix H N and h k v a :: u64 and s :: mem
  assume ok: "lists_sep H N" and h: "h \<in> H"
  show "k \<in> H \<Longrightarrow> load64 (store64 s h v) k = (if h = k then v else load64 s k)"
    using ok h apart_sym unfolding lists_sep_def by (metis load64_store64 load64_store64_apart)
  assume "a \<in> N"
  then have "apart (a + 16) h" "apart (a + 24) h" "apart h (a + 16)" "apart h (a + 24)"
    using ok h apart_sym unfolding lists_sep_def by metis+
  then show "load64 (set_prev s a v) h = load64 s h \<and> load64 (set_next s a v) h = load64 s h"
    and "prev_block (store64 s h v) a = prev_block s a \<and> next_block (store64 s h v) a = next_block s a"
    by (simp_all add: link_defs frame)
qed

lemma list_push_eq: "list_push m slot b = hl.push m slot b"
  by (simp add: list_push_def hl.push_def)

lemma list_remove_eq: "list_remove m slot b = hl.unlink m slot b"
  by (simp add: list_remove_def hl.unlink_def)

text \<open>The 63 list heads, and the lists they lead to (\<open>L\<close> is indexed by the head's address).\<close>

definition slots :: "u64 \<Rightarrow> u64 set" where
  "slots heap = free_slot heap ` {0..<63}"

definition free_lists :: "mem \<Rightarrow> u64 \<Rightarrow> (u64 \<Rightarrow> u64 list) \<Rightarrow> bool" where
  "free_lists m heap L \<longleftrightarrow>
     (\<forall>h\<in>slots heap. dll (next_block m) (prev_block m) (load64 m h) (L h) \<and> distinct (L h)) \<and>
     (\<forall>h\<in>slots heap. \<forall>k\<in>slots heap. h \<noteq> k \<longrightarrow> set (L h) \<inter> set (L k) = {})"

lemma free_lists_eq: "free_lists m heap L = hl.family m (slots heap) L"
  by (simp add: free_lists_def hl.family_def)

lemma slot_in: "0 \<le> i \<Longrightarrow> i < 63 \<Longrightarrow> free_slot heap i \<in> slots heap"
  by (auto simp: slots_def)

section \<open>The list index\<close>

lemma HEAP_SIZE_IDX_eq:
  assumes "32 \<le> s" "s \<le> 1056"
  shows "HEAP_SIZE_IDX s = int ((unat s - 32) div 16)"
proof -
  let ?q = "HEAP_ALIGN (s - HEAP_OVERHEAD) div 16"
  have u: "unat (s - 32) = unat s - 32" using assms by (simp add: unat_sub)
  have "unat s \<le> 1056" using assms by (simp add: word_le_nat_alt)
  then have q: "unat ?q = (unat s - 32) div 16" "unat ?q \<le> 64"
    by (simp_all add: unat_div HEAP_ALIGN_mod u)
  have "sint (ucast ?q :: u8) = int (unat ?q)" by (rule sint_ucast_byte) (use q in simp)
  then show ?thesis using assms q by (simp add: HEAP_SIZE_IDX_def)
qed

lemma HEAP_SIZE_IDX_large: "1056 < s \<Longrightarrow> HEAP_SIZE_IDX s = - 1"
  unfolding HEAP_SIZE_IDX_def by (meson not_le)

section \<open>Where the blocks lie\<close>

text \<open>The blocks lie behind the \<^verbatim>\<open>heap_t\<close> structure, at least 48 bytes (the smallest
  block) apart.\<close>

definition heap_layout :: "u64 \<Rightarrow> u64 set \<Rightarrow> bool" where
  "heap_layout heap N \<longleftrightarrow> unat heap + 544 \<le> 2 ^ 64 \<and>
     (\<forall>a\<in>N. unat heap + 544 \<le> unat a \<and> unat a + 48 \<le> 2 ^ 64) \<and>
     (\<forall>a\<in>N. \<forall>b\<in>N. a \<noteq> b \<longrightarrow> unat a + 48 \<le> unat b \<or> unat b + 48 \<le> unat a)"

lemma apartI: "unat a + 8 \<le> unat b \<Longrightarrow> unat b + 8 \<le> 2 ^ 64 \<Longrightarrow> apart a b \<and> apart b a"
  for a b :: u64
proof -
  assume ab: "unat a + 8 \<le> unat b" "unat b + 8 \<le> 2 ^ 64"
  then have "unat (b - a) = unat b - unat a" "unat (a - b) = 2 ^ 64 + unat a - unat b"
    by (simp_all add: unat_sub_if')
  with ab have "8 \<le> unat (b - a)" "8 \<le> unat (a - b)" by linarith+
  then show ?thesis by (simp add: apart_def word_le_nat_alt)
qed

lemma unat_offset: "unat a + 48 \<le> 2 ^ 64 \<Longrightarrow> c \<le> 40 \<Longrightarrow> unat (a + c) = unat a + unat c" for a c :: u64
  by (simp add: unat_word_ariths word_le_nat_alt)

lemma unat_slot:
  assumes "unat heap + 544 \<le> 2 ^ 64" "0 \<le> i" "i < 64"
  shows "unat (free_slot heap i) = unat heap + 32 + 8 * nat i"
proof -
  have 1: "unat (of_int i :: u64) = nat i"
  proof -
    have "of_int i = (of_nat (nat i) :: u64)" using assms(2) by simp
    moreover have "unat (of_nat (nat i) :: u64) = nat i" by (rule unat_of_nat_small) (use assms in simp)
    ultimately show ?thesis by simp
  qed
  have 2: "unat (8 * of_int i :: u64) = 8 * nat i"
    using 1 assms by (simp add: unat_word_ariths)
  then show ?thesis
    using assms unfolding free_slot_def by (simp add: unat_word_ariths 2 add.assoc)
qed

lemma cells_apart:
  assumes lay: "heap_layout heap N" and a: "a \<in> N" "c \<le> 40"
  shows "b \<in> N \<Longrightarrow> a \<noteq> b \<Longrightarrow> d \<le> 40 \<Longrightarrow> apart (a + c) (b + d)"
    and "0 \<le> i \<Longrightarrow> i < 64 \<Longrightarrow> apart (a + c) (free_slot heap i)"
proof -
  have A: "unat heap + 544 \<le> unat a" "unat a + 48 \<le> 2 ^ 64" "unat heap + 544 \<le> 2 ^ 64"
    using lay a by (auto simp: heap_layout_def)
  have c: "unat (a + c) = unat a + unat c" "unat c \<le> 40"
    using A a by (auto simp: unat_offset word_le_nat_alt)
  {
    assume b: "b \<in> N" "a \<noteq> b" "d \<le> 40"
    then have "unat (b + d) = unat b + unat d" "unat d \<le> 40" "unat b + 48 \<le> 2 ^ 64"
      using lay by (auto simp: heap_layout_def unat_offset word_le_nat_alt)
    moreover have "unat a + 48 \<le> unat b \<or> unat b + 48 \<le> unat a" using lay a b by (auto simp: heap_layout_def)
    ultimately show "apart (a + c) (b + d)"
      using apartI[of "a + c" "b + d"] apartI[of "b + d" "a + c"] c A by linarith
  }
  assume i: "0 \<le> i" "i < 64"
  then have "unat (free_slot heap i) = unat heap + 32 + 8 * nat i" "nat i < 64"
    using unat_slot[OF A(3)] by auto
  then show "apart (a + c) (free_slot heap i)"
    using apartI[of "free_slot heap i" "a + c"] c A by linarith
qed

lemma heap_layout_lists: "heap_layout heap N \<Longrightarrow> lists_sep (slots heap) N"
proof -
  assume lay: "heap_layout heap N"
  then have top: "unat heap + 544 \<le> 2 ^ 64" by (simp add: heap_layout_def)
  have "apart h k" if "h \<in> slots heap" "k \<in> slots heap" "h \<noteq> k" for h k
  proof -
    obtain i j where ij: "h = free_slot heap i" "k = free_slot heap j" "0 \<le> i" "i < 63" "0 \<le> j" "j < 63"
      using \<open>h \<in> slots heap\<close> \<open>k \<in> slots heap\<close> unfolding slots_def by fastforce
    then have "nat i \<noteq> nat j" using that(3) by (metis nat_eq_iff2 eq_nat_nat_iff)
    moreover have "unat h = unat heap + 32 + 8 * nat i" "unat k = unat heap + 32 + 8 * nat j"
      "nat i < 63" "nat j < 63"
      using ij unat_slot[OF top] by auto
    ultimately show ?thesis using apartI[of h k] apartI[of k h] top by linarith
  qed
  then show ?thesis
    using cells_apart[OF lay] unfolding lists_sep_def slots_def by auto
qed

text \<open>Memory with one block of 64 bytes and empty lists.\<close>

lemma one_block:
  fixes m :: mem
  defines "m \<equiv> store64 (\<lambda>_. 0) 0x10008 64"
  shows "free_lists m 0x1000 (\<lambda>_. [])" "heap_layout 0x1000 {0x10000}"
    "HEAP_SIZE_IDX (HEAP_GET_SIZE m 0x10000) = 2"
proof -
  show lay: "heap_layout 0x1000 {0x10000}" by (simp add: heap_layout_def)
  have "load64 m h = 0" if h: "h \<in> slots 0x1000" for h
  proof -
    obtain i where i: "h = free_slot 0x1000 i" "0 \<le> i" "i < 63"
      using h unfolding slots_def by fastforce
    have "apart (0x10000 + 8) h" using cells_apart(2)[OF lay, of "0x10000" 8 i] i by simp
    then have "apart h 0x10008" by (simp add: apart_sym)
    then show ?thesis by (simp add: m_def frame)
  qed
  then show "free_lists m 0x1000 (\<lambda>_. [])" by (simp add: free_lists_def)
  show "HEAP_SIZE_IDX (HEAP_GET_SIZE m 0x10000) = 2"
    by (simp add: m_def HEAP_GET_SIZE_def HEAP_ALIGN_def HEAP_SIZE_IDX_eq)
qed

section \<open>Properties\<close>

text \<open>Pushing refines \<open>Cons\<close>: when the block's list index is within the 63 lists,
  \<^verbatim>\<open>heap_insert\<close> returns, the block becomes the head of its list and every other list of
  the heap is unchanged.\<close>

theorem heap_insert_list:
  assumes "free_lists m heap L" and lay: "heap_layout heap N" and "\<forall>h\<in>slots heap. set (L h) \<subseteq> N"
    and "b \<in> N" "b \<noteq> 0" "\<forall>h\<in>slots heap. b \<notin> set (L h)"
    and i: "HEAP_SIZE_IDX (HEAP_GET_SIZE m b) = i" "0 \<le> i" "i < 63"
  shows "\<exists>m'. heap_insert m heap b = Some m' \<and>
     free_lists m' heap (L(free_slot heap i := b # L (free_slot heap i)))"
proof -
  note sep = heap_layout_lists[OF lay]
  have "heap_insert m heap b = Some (hl.push m (free_slot heap i) b)"
    using i by (simp add: heap_insert_def list_push_eq Let_def)
  moreover have "hl.family (hl.push m (free_slot heap i) b) (slots heap)
      (L(free_slot heap i := b # L (free_slot heap i)))"
    by (rule hl.push_family[OF sep])
       (use assms slot_in[OF i(2,3)] in \<open>auto simp: free_lists_eq [symmetric]\<close>)
  ultimately show ?thesis by (simp add: free_lists_eq)
qed

theorem heap_insert_list_witness:
  "\<exists>m m'. heap_insert m 0x1000 0x10000 = Some m' \<and>
     free_lists m' 0x1000 ((\<lambda>_. [])(free_slot 0x1000 2 := [0x10000]))"
proof -
  obtain m where m: "free_lists m 0x1000 (\<lambda>_. [])" "heap_layout 0x1000 {0x10000}"
    "HEAP_SIZE_IDX (HEAP_GET_SIZE m 0x10000) = 2"
    using one_block by blast
  from heap_insert_list[OF m(1,2) _ _ _ _ m(3)] show ?thesis by auto
qed

text \<open>Unlinking refines \<open>remove1\<close>: \<^verbatim>\<open>heap_remove\<close> of a block that is anywhere in its
  list takes exactly that block out, keeps the order of the others, leaves every other list
  unchanged and clears the block's own links.\<close>

theorem heap_remove_list:
  assumes "free_lists m heap L" and lay: "heap_layout heap N" and "\<forall>h\<in>slots heap. set (L h) \<subseteq> N"
    and b: "b \<in> set (L (free_slot heap i))"
    and i: "HEAP_SIZE_IDX (HEAP_GET_SIZE m b) = i" "0 \<le> i" "i < 63"
  shows "free_lists (heap_remove m heap b) heap
      (L(free_slot heap i := remove1 b (L (free_slot heap i)))) \<and>
     prev_block (heap_remove m heap b) b = 0 \<and> next_block (heap_remove m heap b) b = 0"
proof -
  have "heap_remove m heap b = hl.unlink m (free_slot heap i) b"
    using i by (simp add: heap_remove_def list_remove_eq Let_def)
  moreover have "hl.family m (slots heap) L" using assms(1) by (simp add: free_lists_eq)
  ultimately show ?thesis
    using hl.unlink_family[of "slots heap" N m L "free_slot heap i" b] heap_layout_lists[OF lay] assms(3) b
      slot_in[OF i(2,3)]
    by (simp add: free_lists_eq)
qed

theorem heap_remove_list_witness:
  "\<exists>m. free_lists (heap_remove m 0x1000 0x10000) 0x1000 (\<lambda>_. [])"
proof -
  obtain m where m: "free_lists m 0x1000 (\<lambda>_. [])" and lay: "heap_layout 0x1000 {0x10000}"
    and i: "HEAP_SIZE_IDX (HEAP_GET_SIZE m 0x10000) = 2"
    using one_block by blast
  let ?s = "free_slot 0x1000 2"
  have sep: "lists_sep (slots 0x1000) {0x10000}" by (rule heap_layout_lists[OF lay])
  let ?m = "hl.push m ?s 0x10000"
  have fam: "hl.family ?m (slots 0x1000) ((\<lambda>_. [])(?s := [0x10000]))"
    using hl.push_family[OF sep, of m "\<lambda>_. []" ?s "0x10000"] m slot_in[of 2] by (simp add: free_lists_eq)
  have c: "apart 0x10008 ?s" "apart ?s 0x10010"
    using cells_apart(2)[OF lay, of "0x10000" 8 2] cells_apart(2)[OF lay, of "0x10000" 16 2]
      cells_apart(2)[OF lay, of "0x10000" 24 2] apart_sym by (simp_all; metis)+
  have "load64 m ?s = 0" using m slot_in[of 2] by (simp add: free_lists_def)
  then have "HEAP_GET_SIZE ?m 0x10000 = HEAP_GET_SIZE m 0x10000"
    using c sep by (simp add: hl.push_def link_defs HEAP_GET_SIZE_def frame Let_def apart_def)
  with i have "HEAP_SIZE_IDX (HEAP_GET_SIZE ?m 0x10000) = 2" by simp
  from heap_remove_list[OF fam[folded free_lists_eq] lay _ _ this] slot_in[of 2]
  show ?thesis by (auto simp: fun_upd_idem)
qed

end
