(* ===== verification/HeapTree.thy ===== *)
theory HeapTree
  imports HeapLists
begin

text \<open>
  The "tree" of large blocks: a doubly linked list sorted by size, entered at a root that may
  be any of its blocks, where each block heads a chain of further blocks of the same size.
  Insertion keeps the list sorted, the search is best fit, and deletion is right for a block
  without a chain; a block that heads a chain is replaced by one whose parent link still
  points to the deleted block.
\<close>

section \<open>Fields\<close>

definition node_offsets :: "u64 set" where
  "node_offsets = {8, 16, 24, 32, 40}"

text \<open>The fields of different nodes do not overlap, nor does the cell that holds the root.\<close>

definition nodes_sep :: "u64 \<Rightarrow> u64 set \<Rightarrow> bool" where
  "nodes_sep t N \<longleftrightarrow>
     (\<forall>a\<in>N. \<forall>b\<in>N. a \<noteq> b \<longrightarrow> (\<forall>c\<in>node_offsets. \<forall>d\<in>node_offsets. apart (a + c) (b + d))) \<and>
     (\<forall>a\<in>N. \<forall>c\<in>node_offsets. apart (a + c) t)"

lemma node_load_store:
  assumes "nodes_sep t N" "a \<in> N" "b \<in> N" "c \<in> node_offsets" "d \<in> node_offsets"
  shows "load64 (store64 m (a + c) v) (b + d) = (if a = b \<and> c = d then v else load64 m (b + d))"
proof (cases "a = b")
  case True
  have "c \<noteq> d \<Longrightarrow> apart d c"
    using assms(4,5) by (auto simp: node_offsets_def apart_def)
  with True show ?thesis by (auto simp: frame)
next
  case False
  then have "apart (b + d) (a + c)" using assms unfolding nodes_sep_def by metis
  with False show ?thesis by (simp add: frame)
qed

lemma node_root:
  assumes "nodes_sep t N" "a \<in> N" "c \<in> node_offsets"
  shows "load64 (store64 m (a + c) v) t = load64 m t"
    and "load64 (store64 m t v) (a + c) = load64 m (a + c)"
proof -
  have "apart (a + c) t" "apart t (a + c)" using assms apart_sym unfolding nodes_sep_def by metis+
  then show "load64 (store64 m (a + c) v) t = load64 m t"
    "load64 (store64 m t v) (a + c) = load64 m (a + c)" by (simp_all add: frame)
qed

lemma node_offsets_simps: "8 \<in> node_offsets" "16 \<in> node_offsets" "24 \<in> node_offsets"
  "32 \<in> node_offsets" "40 \<in> node_offsets"
  by (simp_all add: node_offsets_def)

lemma node_get_set:
  assumes "nodes_sep t N" "a \<in> N" "b \<in> N"
  shows "smaller_block (set_smaller m a v) b = (if a = b then v else smaller_block m b)"
    "smaller_block (set_larger m a v) b = smaller_block m b"
    "smaller_block (set_child m a v) b = smaller_block m b"
    "smaller_block (set_parent m a v) b = smaller_block m b"
    "larger_block (set_larger m a v) b = (if a = b then v else larger_block m b)"
    "larger_block (set_smaller m a v) b = larger_block m b"
    "larger_block (set_child m a v) b = larger_block m b"
    "larger_block (set_parent m a v) b = larger_block m b"
    "child_block (set_child m a v) b = (if a = b then v else child_block m b)"
    "child_block (set_smaller m a v) b = child_block m b"
    "child_block (set_larger m a v) b = child_block m b"
    "child_block (set_parent m a v) b = child_block m b"
    "parent_block (set_parent m a v) b = (if a = b then v else parent_block m b)"
    "parent_block (set_smaller m a v) b = parent_block m b"
    "parent_block (set_larger m a v) b = parent_block m b"
    "parent_block (set_child m a v) b = parent_block m b"
    "HEAP_GET_SIZE (set_smaller m a v) b = HEAP_GET_SIZE m b"
    "HEAP_GET_SIZE (set_larger m a v) b = HEAP_GET_SIZE m b"
    "HEAP_GET_SIZE (set_child m a v) b = HEAP_GET_SIZE m b"
    "HEAP_GET_SIZE (set_parent m a v) b = HEAP_GET_SIZE m b"
  by (simp_all add: link_defs HEAP_GET_SIZE_def node_load_store[OF assms] node_offsets_simps)

lemma node_set_root:
  assumes "nodes_sep t N" "a \<in> N"
  shows "load64 (set_smaller m a v) t = load64 m t" "load64 (set_larger m a v) t = load64 m t"
    "load64 (set_child m a v) t = load64 m t" "load64 (set_parent m a v) t = load64 m t"
    "smaller_block (store64 m t v) a = smaller_block m a" "larger_block (store64 m t v) a = larger_block m a"
    "child_block (store64 m t v) a = child_block m a" "parent_block (store64 m t v) a = parent_block m a"
    "HEAP_GET_SIZE (store64 m t v) a = HEAP_GET_SIZE m a"
  by (simp_all add: link_defs HEAP_GET_SIZE_def node_root[OF assms] node_offsets_simps)

section \<open>The representation\<close>

text \<open>\<open>xs\<close> is the sorted list of chain heads, \<open>ch x\<close> the rest of the chain of \<open>x\<close>.\<close>

definition tree_rep :: "mem \<Rightarrow> u64 \<Rightarrow> u64 list \<Rightarrow> (u64 \<Rightarrow> u64 list) \<Rightarrow> bool" where
  "tree_rep m t xs ch \<longleftrightarrow>
     (if xs = [] then load64 m t = 0 else load64 m t \<in> set xs) \<and>
     dll (larger_block m) (smaller_block m) (if xs = [] then 0 else hd xs) xs \<and>
     sorted_wrt (<) (map (HEAP_GET_SIZE m) xs) \<and>
     (\<forall>x\<in>set xs. dll (child_block m) (parent_block m) x (x # ch x) \<and> distinct (x # ch x) \<and>
        (\<forall>c\<in>set (ch x). HEAP_GET_SIZE m c = HEAP_GET_SIZE m x \<and> smaller_block m c = 0 \<and> larger_block m c = 0))"

definition tree_blocks :: "u64 list \<Rightarrow> (u64 \<Rightarrow> u64 list) \<Rightarrow> u64 set" where
  "tree_blocks xs ch = (\<Union>x\<in>set xs. insert x (set (ch x)))"

lemma tree_blocks_insert:
  assumes "b \<notin> tree_blocks (ys @ zs) ch"
  shows "tree_blocks (ys @ b # zs) (ch(b := [])) = insert b (tree_blocks (ys @ zs) ch)"
proof -
  have "(\<Union>x\<in>A. insert x (set ((ch(b := [])) x))) = (\<Union>x\<in>A. insert x (set (ch x)))" if "b \<notin> A" for A
    using that by (intro SUP_cong) auto
  moreover have "b \<notin> set ys" "b \<notin> set zs" using assms by (auto simp: tree_blocks_def)
  ultimately show ?thesis by (simp add: tree_blocks_def Un_ac)
qed

section \<open>Insertion\<close>

text \<open>What linking \<open>b\<close> in between \<open>ys\<close> and \<open>zs\<close> does to the fields.\<close>

definition linked :: "mem \<Rightarrow> mem \<Rightarrow> u64 \<Rightarrow> u64 set \<Rightarrow> u64 list \<Rightarrow> u64 \<Rightarrow> u64 list \<Rightarrow> bool" where
  "linked m m' t N ys b zs \<longleftrightarrow> load64 m' t = load64 m t \<and> (\<forall>x\<in>N.
     larger_block m' x = (if x = b then (if zs = [] then 0 else hd zs)
        else if ys \<noteq> [] \<and> x = last ys then b else larger_block m x) \<and>
     smaller_block m' x = (if x = b then (if ys = [] then 0 else last ys)
        else if zs \<noteq> [] \<and> x = hd zs then b else smaller_block m x) \<and>
     child_block m' x = child_block m x \<and> parent_block m' x = parent_block m x \<and>
     HEAP_GET_SIZE m' x = HEAP_GET_SIZE m x)"

text \<open>\<open>b\<close> of size \<open>s\<close> belongs between \<open>ys\<close> and \<open>zs\<close>.\<close>

definition insertable :: "mem \<Rightarrow> u64 \<Rightarrow> u64 set \<Rightarrow> u64 \<Rightarrow> u64 \<Rightarrow> u64 list \<Rightarrow> u64 list \<Rightarrow> bool" where
  "insertable m t N b s ys zs \<longleftrightarrow> nodes_sep t N \<and> set (ys @ zs) \<subseteq> N \<and> b \<in> N \<and> b \<notin> set (ys @ zs) \<and>
     (\<exists>h. dll (larger_block m) (smaller_block m) h (ys @ zs)) \<and> distinct (ys @ zs) \<and>
     smaller_block m b = 0 \<and> larger_block m b = 0 \<and>
     (\<forall>y\<in>set ys. HEAP_GET_SIZE m y < s) \<and> (\<forall>z\<in>set zs. s < HEAP_GET_SIZE m z)"

lemma insert_down:
  assumes "insertable m t N b s ys zs" and "zs = us @ p # vs"
  shows "\<exists>m'. tree_insert_loop m b s p = Some m' \<and> linked m m' t N ys b zs"
proof -
  from assms(1) obtain h where sep: "nodes_sep t N" and N: "set (ys @ zs) \<subseteq> N" "b \<in> N" "b \<notin> set (ys @ zs)"
    and l: "dll (larger_block m) (smaller_block m) h (ys @ zs)" and d: "distinct (ys @ zs)"
    and b0: "smaller_block m b = 0" "larger_block m b = 0"
    and small: "\<forall>y\<in>set ys. HEAP_GET_SIZE m y < s" and large: "\<forall>z\<in>set zs. s < HEAP_GET_SIZE m z"
    by (auto simp: insertable_def)
  show ?thesis using assms(2)
proof (induction us arbitrary: p vs rule: rev_induct)
  case Nil
  have pv: "smaller_block m p = (if ys = [] then 0 else last ys)"
    using dll_prev[of _ _ _ ys p vs] l Nil by simp
  have nz: "0 \<notin> set (ys @ zs)" by (rule dll_nonzero[OF l])
  have p: "p \<in> N" "p \<noteq> b" "s < HEAP_GET_SIZE m p" using Nil N large by auto
  show ?case
  proof (cases "ys = []")
    case True
    with pv p b0 N Nil show ?thesis
      by (subst tree_insert_loop.simps) (auto simp: linked_def node_get_set[OF sep] node_set_root[OF sep])
  next
    case False
    then have u: "last ys \<in> N" "last ys \<noteq> b" "last ys \<noteq> 0" "HEAP_GET_SIZE m (last ys) < s" "last ys \<noteq> p"
      using N nz small d Nil by (auto dest: last_in_set)
    with False pv p b0 N Nil show ?thesis
      by (subst tree_insert_loop.simps)
         (auto simp: linked_def Let_def node_get_set[OF sep] node_set_root[OF sep])
  qed
next
  case (snoc u us)
  have pv: "smaller_block m p = u"
    using dll_prev[of _ _ _ "ys @ us @ [u]" p vs] l snoc.prems by simp
  have nz: "0 \<notin> set (ys @ zs)" by (rule dll_nonzero[OF l])
  have "s < HEAP_GET_SIZE m p" "\<not> HEAP_GET_SIZE m u < s" "u \<noteq> 0"
    using snoc.prems large nz by (auto dest: less_not_sym)
  then have "tree_insert_loop m b s p = tree_insert_loop m b s u"
    by (subst tree_insert_loop.simps) (simp add: pv Let_def)
  with snoc.IH[of u "p # vs"] snoc.prems show ?case by simp
qed
qed

lemma insert_up:
  assumes "insertable m t N b s ys zs" and "ys = us @ p # vs"
  shows "\<exists>m'. tree_insert_loop m b s p = Some m' \<and> linked m m' t N ys b zs"
proof -
  from assms(1) obtain h where sep: "nodes_sep t N" and N: "set (ys @ zs) \<subseteq> N" "b \<in> N" "b \<notin> set (ys @ zs)"
    and l: "dll (larger_block m) (smaller_block m) h (ys @ zs)" and d: "distinct (ys @ zs)"
    and b0: "smaller_block m b = 0" "larger_block m b = 0"
    and small: "\<forall>y\<in>set ys. HEAP_GET_SIZE m y < s" and large: "\<forall>z\<in>set zs. s < HEAP_GET_SIZE m z"
    by (auto simp: insertable_def)
  show ?thesis using assms(2)
proof (induction vs arbitrary: us p)
  case Nil
  have nx: "larger_block m p = (if zs = [] then 0 else hd zs)"
    using dll_next[of _ _ _ us p zs] l Nil by simp
  have nz: "0 \<notin> set (ys @ zs)" by (rule dll_nonzero[OF l])
  have p: "p \<in> N" "p \<noteq> b" "HEAP_GET_SIZE m p < s" using Nil N small by auto
  then have q: "\<not> s < HEAP_GET_SIZE m p" by simp
  show ?case
  proof (cases "zs = []")
    case True
    with nx p q b0 N Nil show ?thesis
      by (subst tree_insert_loop.simps) (auto simp: linked_def node_get_set[OF sep] node_set_root[OF sep])
  next
    case False
    then have u: "hd zs \<in> N" "hd zs \<noteq> b" "hd zs \<noteq> 0" "s < HEAP_GET_SIZE m (hd zs)" "hd zs \<noteq> p"
      using N nz large d Nil by (auto dest: hd_in_set)
    with False nx p q b0 N Nil show ?thesis
      by (subst tree_insert_loop.simps)
         (auto simp: linked_def Let_def node_get_set[OF sep] node_set_root[OF sep])
  qed
next
  case (Cons v vs)
  have nx: "larger_block m p = v"
    using dll_next[of _ _ _ us p "v # vs @ zs"] l Cons.prems by simp
  have nz: "0 \<notin> set (ys @ zs)" by (rule dll_nonzero[OF l])
  have "HEAP_GET_SIZE m p < s" "\<not> s < HEAP_GET_SIZE m p" "\<not> s < HEAP_GET_SIZE m v" "v \<noteq> 0"
    using Cons.prems small nz by (auto dest: less_not_sym)
  then have "tree_insert_loop m b s p = tree_insert_loop m b s v"
    by (subst tree_insert_loop.simps) (simp add: nx Let_def del: not_less)
  with Cons.IH[of "us @ [p]" v] Cons.prems show ?case by simp
qed
qed

lemma insert_linked:
  assumes "insertable m t N b s ys zs" "p \<in> set (ys @ zs)"
  shows "\<exists>m'. tree_insert_loop m b s p = Some m' \<and> linked m m' t N ys b zs"
  using assms insert_up[OF assms(1)] insert_down[OF assms(1)] by (auto dest: split_list)

text \<open>When a block of the same size is there, the walk ends at it and the chain grows.\<close>

definition chained :: "mem \<Rightarrow> mem \<Rightarrow> u64 \<Rightarrow> u64 set \<Rightarrow> u64 \<Rightarrow> u64 \<Rightarrow> bool" where
  "chained m m' t N b p \<longleftrightarrow> load64 m' t = load64 m t \<and> (\<forall>x\<in>N.
     child_block m' x = (if x = b then child_block m p else if x = p then b else child_block m x) \<and>
     parent_block m' x = (if x = b then p else if x = child_block m p \<and> x \<noteq> 0 then b else parent_block m x) \<and>
     larger_block m' x = larger_block m x \<and> smaller_block m' x = smaller_block m x \<and>
     HEAP_GET_SIZE m' x = HEAP_GET_SIZE m x)"

lemma insert_at_equal:
  assumes sep: "nodes_sep t N" and p: "p \<in> N" "b \<in> N" "p \<noteq> b" "HEAP_GET_SIZE m p = s"
    and c: "child_block m p = 0 \<or> child_block m p \<in> N" "child_block m p \<noteq> b" "child_block m p \<noteq> p"
    and b0: "child_block m b = 0"
  shows "\<exists>m'. tree_insert_loop m b s p = Some m' \<and> chained m m' t N b p"
  using p c b0
  by (subst tree_insert_loop.simps)
     (auto simp: chained_def Let_def node_get_set[OF sep] node_set_root[OF sep])

lemma insert_walk_equal:
  assumes l: "dll (larger_block m) (smaller_block m) h (ys @ q # zs)"
    and q: "HEAP_GET_SIZE m q = s"
    and small: "\<forall>y\<in>set ys. HEAP_GET_SIZE m y < s" and large: "\<forall>z\<in>set zs. s < HEAP_GET_SIZE m z"
    and p: "p \<in> set (ys @ q # zs)"
  shows "tree_insert_loop m b s p = tree_insert_loop m b s q"
proof -
  have nz: "0 \<notin> set (ys @ q # zs)" by (rule dll_nonzero[OF l])
  have down: "tree_insert_loop m b s p = tree_insert_loop m b s q" if "zs = us @ p # vs" for us p vs
    using that
  proof (induction us arbitrary: p vs rule: rev_induct)
    case Nil
    have "smaller_block m p = q" using dll_prev[of _ _ h "ys @ [q]" p vs] l Nil by simp
    moreover have "s < HEAP_GET_SIZE m p" "q \<noteq> 0" using Nil large nz by auto
    ultimately show ?case using q by (subst tree_insert_loop.simps) (simp add: Let_def)
  next
    case (snoc u us)
    have "smaller_block m p = u"
      using dll_prev[of _ _ h "ys @ q # us @ [u]" p vs] l snoc.prems by simp
    moreover have "s < HEAP_GET_SIZE m p" "\<not> HEAP_GET_SIZE m u < s" "u \<noteq> 0"
      using snoc.prems large nz by (auto dest: less_not_sym)
    ultimately have "tree_insert_loop m b s p = tree_insert_loop m b s u"
      by (subst tree_insert_loop.simps) (simp add: Let_def)
    with snoc.IH[of u "p # vs"] snoc.prems show ?case by simp
  qed
  have up: "tree_insert_loop m b s p = tree_insert_loop m b s q" if "ys = us @ p # vs" for us p vs
    using that
  proof (induction vs arbitrary: us p)
    case Nil
    have "larger_block m p = q" using dll_next[of _ _ h us p "q # zs"] l Nil by simp
    moreover have "HEAP_GET_SIZE m p < s" "\<not> s < HEAP_GET_SIZE m p" "q \<noteq> 0"
      using Nil small nz by (auto dest: less_not_sym)
    ultimately show ?case using q by (subst tree_insert_loop.simps) (simp add: Let_def del: not_less)
  next
    case (Cons v vs)
    have "larger_block m p = v"
      using dll_next[of _ _ h us p "v # vs @ q # zs"] l Cons.prems by simp
    moreover have "HEAP_GET_SIZE m p < s" "\<not> s < HEAP_GET_SIZE m p" "\<not> s < HEAP_GET_SIZE m v" "v \<noteq> 0"
      using Cons.prems small nz by (auto dest: less_not_sym)
    ultimately have "tree_insert_loop m b s p = tree_insert_loop m b s v"
      by (subst tree_insert_loop.simps) (simp add: Let_def del: not_less)
    with Cons.IH[of "us @ [p]" v] Cons.prems show ?case by simp
  qed
  from p show ?thesis using up down by (auto dest!: split_list)
qed

lemma split_by_size:
  fixes f :: "'a \<Rightarrow> u64"
  shows "sorted_wrt (<) (map f xs) \<Longrightarrow>
    (\<exists>ys zs. xs = ys @ zs \<and> (\<forall>y\<in>set ys. f y < s) \<and> (\<forall>z\<in>set zs. s < f z)) \<or>
    (\<exists>ys q zs. xs = ys @ q # zs \<and> f q = s \<and> (\<forall>y\<in>set ys. f y < s) \<and> (\<forall>z\<in>set zs. s < f z))"
proof (induction xs)
  case Nil then show ?case by simp
next
  case (Cons x xs)
  consider "f x < s" | "f x = s" | "s < f x" by (meson less_linear)
  then show ?case
  proof cases
    case 1
    have "sorted_wrt (<) (map f xs)" using Cons.prems by simp
    from Cons.IH[OF this] show ?thesis
    proof (elim disjE exE conjE)
      fix ys zs assume "xs = ys @ zs" "\<forall>y\<in>set ys. f y < s" "\<forall>z\<in>set zs. s < f z"
      then have "x # xs = (x # ys) @ zs" "\<forall>y\<in>set (x # ys). f y < s" "\<forall>z\<in>set zs. s < f z" using 1 by auto
      then show ?thesis by blast
    next
      fix ys q zs assume "xs = ys @ q # zs" "f q = s" "\<forall>y\<in>set ys. f y < s" "\<forall>z\<in>set zs. s < f z"
      then have "x # xs = (x # ys) @ q # zs" "f q = s" "\<forall>y\<in>set (x # ys). f y < s" "\<forall>z\<in>set zs. s < f z"
        using 1 by auto
      then show ?thesis by blast
    qed
  next
    case 2
    then have "\<forall>z\<in>set xs. s < f z" using Cons.prems by auto
    with 2 show ?thesis by (metis append_Nil empty_iff empty_set)
  next
    case 3
    then have "\<forall>z\<in>set (x # xs). s < f z" using Cons.prems by (auto intro: less_trans)
    then show ?thesis by (metis append_Nil empty_iff empty_set)
  qed
qed

text \<open>Clearing the links of a block that is not in the tree.\<close>

definition clear_node :: "mem \<Rightarrow> u64 \<Rightarrow> mem" where
  "clear_node m b = set_larger (set_smaller (set_child (set_parent m b 0) b 0) b 0) b 0"

lemma clear_node_get:
  assumes "nodes_sep t N" "b \<in> N"
  shows "load64 (clear_node m b) t = load64 m t"
    "x \<in> N \<Longrightarrow> smaller_block (clear_node m b) x = (if x = b then 0 else smaller_block m x)"
    "x \<in> N \<Longrightarrow> larger_block (clear_node m b) x = (if x = b then 0 else larger_block m x)"
    "x \<in> N \<Longrightarrow> child_block (clear_node m b) x = (if x = b then 0 else child_block m x)"
    "x \<in> N \<Longrightarrow> parent_block (clear_node m b) x = (if x = b then 0 else parent_block m x)"
    "x \<in> N \<Longrightarrow> HEAP_GET_SIZE (clear_node m b) x = HEAP_GET_SIZE m x"
  using assms by (simp_all add: clear_node_def node_get_set[OF assms(1)] node_set_root[OF assms(1)])

definition same_fields :: "mem \<Rightarrow> mem \<Rightarrow> u64 set \<Rightarrow> bool" where
  "same_fields m m' A \<longleftrightarrow> (\<forall>x\<in>A. larger_block m' x = larger_block m x \<and> smaller_block m' x = smaller_block m x \<and>
     child_block m' x = child_block m x \<and> parent_block m' x = parent_block m x \<and>
     HEAP_GET_SIZE m' x = HEAP_GET_SIZE m x)"

lemma chain_cong:
  assumes "\<And>x. x \<in> insert p (set cs) \<Longrightarrow> child_block m' x = child_block m x \<and> parent_block m' x = parent_block m x"
  shows "dll (child_block m') (parent_block m') p (p # cs) = dll (child_block m) (parent_block m) p (p # cs)"
  by (rule dll_cong) (use assms in auto)

lemma tree_rep_cong:
  assumes "same_fields m m' (tree_blocks xs ch)" "load64 m' t = load64 m t"
  shows "tree_rep m' t xs ch = tree_rep m t xs ch"
proof -
  have f: "x \<in> set xs \<or> (\<exists>p\<in>set xs. x \<in> set (ch p)) \<Longrightarrow> larger_block m' x = larger_block m x \<and>
     smaller_block m' x = smaller_block m x \<and> child_block m' x = child_block m x \<and>
     parent_block m' x = parent_block m x \<and> HEAP_GET_SIZE m' x = HEAP_GET_SIZE m x" for x
    using assms(1) by (auto simp: same_fields_def tree_blocks_def)
  have 1: "dll (larger_block m') (smaller_block m') h xs = dll (larger_block m) (smaller_block m) h xs" for h
    by (rule dll_cong) (use f in auto)
  have 2: "map (HEAP_GET_SIZE m') xs = map (HEAP_GET_SIZE m) xs" using f by simp
  have 3: "dll (child_block m') (parent_block m') x (x # ch x) = dll (child_block m) (parent_block m) x (x # ch x)"
    if "x \<in> set xs" for x by (rule chain_cong) (use that f in auto)
  have 4: "(\<forall>c\<in>set (ch x). HEAP_GET_SIZE m' c = HEAP_GET_SIZE m' x \<and> smaller_block m' c = 0 \<and> larger_block m' c = 0)
    = (\<forall>c\<in>set (ch x). HEAP_GET_SIZE m c = HEAP_GET_SIZE m x \<and> smaller_block m c = 0 \<and> larger_block m c = 0)"
    if x: "x \<in> set xs" for x
  proof (rule ball_cong[OF refl])
    fix c assume "c \<in> set (ch x)"
    then have "c \<in> set xs \<or> (\<exists>p\<in>set xs. c \<in> set (ch p))" using x by blast
    from f[OF this] f[OF disjI1[OF x]] show "(HEAP_GET_SIZE m' c = HEAP_GET_SIZE m' x \<and> smaller_block m' c = 0 \<and> larger_block m' c = 0)
      = (HEAP_GET_SIZE m c = HEAP_GET_SIZE m x \<and> smaller_block m c = 0 \<and> larger_block m c = 0)"
      by simp
  qed
  show ?thesis unfolding tree_rep_def 1 2 assms(2) using 3 4 by simp
qed

lemma tree_rep_distinct: "tree_rep m t xs ch \<Longrightarrow> distinct xs"
proof -
  assume "tree_rep m t xs ch"
  then have "sorted_wrt (<) (map (HEAP_GET_SIZE m) xs)" by (simp add: tree_rep_def)
  then have "distinct (map (HEAP_GET_SIZE m) xs)" by (simp add: strict_sorted_iff)
  then show ?thesis by (simp add: distinct_map)
qed

lemma tree_repD:
  assumes "tree_rep m t xs ch" "x \<in> set xs"
  shows "xs \<noteq> []" "load64 m t \<in> set xs" "dll (larger_block m) (smaller_block m) (hd xs) xs"
    "sorted_wrt (<) (map (HEAP_GET_SIZE m) xs)" "inj_on (HEAP_GET_SIZE m) (set xs)"
    "dll (child_block m) (parent_block m) x (x # ch x)" "distinct (x # ch x)"
    "c \<in> set (ch x) \<Longrightarrow> HEAP_GET_SIZE m c = HEAP_GET_SIZE m x \<and> smaller_block m c = 0 \<and> larger_block m c = 0"
proof -
  from assms(2) show ne: "xs \<noteq> []" by auto
  show "load64 m t \<in> set xs" "dll (larger_block m) (smaller_block m) (hd xs) xs"
    "sorted_wrt (<) (map (HEAP_GET_SIZE m) xs)" "dll (child_block m) (parent_block m) x (x # ch x)"
    "distinct (x # ch x)"
    "c \<in> set (ch x) \<Longrightarrow> HEAP_GET_SIZE m c = HEAP_GET_SIZE m x \<and> smaller_block m c = 0 \<and> larger_block m c = 0"
    using assms ne unfolding tree_rep_def by simp_all
  then show "inj_on (HEAP_GET_SIZE m) (set xs)" by (simp add: strict_sorted_iff distinct_map)
qed

lemma tree_rep_chain_head:
  assumes "tree_rep m t xs ch" "x \<in> set xs" "c \<in> set (ch x)"
  shows "c \<notin> set xs"
proof
  assume c: "c \<in> set xs"
  have "HEAP_GET_SIZE m c = HEAP_GET_SIZE m x" "c \<noteq> x"
    using tree_repD(7)[OF assms(1,2)] tree_repD(8)[OF assms] assms(3) by auto
  then show False using c assms(2) tree_repD(5)[OF assms(1,2)] by (auto dest: inj_onD)
qed

lemma tree_rep_linked:
  assumes rep: "tree_rep m t (ys @ zs) ch" and N: "tree_blocks (ys @ zs) ch \<subseteq> N" and b: "b \<in> N" "b \<notin> tree_blocks (ys @ zs) ch" "b \<noteq> 0"
    and ln: "linked m m' t N ys b zs" and r: "load64 m' t \<in> set (ys @ zs)"
    and c: "child_block m b = 0" "parent_block m b = 0"
    and sz: "\<forall>y\<in>set ys. HEAP_GET_SIZE m y < HEAP_GET_SIZE m b" "\<forall>z\<in>set zs. HEAP_GET_SIZE m b < HEAP_GET_SIZE m z"
  shows "tree_rep m' t (ys @ b # zs) (ch(b := []))"
proof -
  have inN: "x \<in> N \<and> x \<noteq> b" if "x \<in> set (ys @ zs) \<or> (\<exists>p\<in>set (ys @ zs). x \<in> set (ch p))" for x
    using that N b by (auto simp: tree_blocks_def)
  have d: "distinct (ys @ zs)" by (rule tree_rep_distinct[OF rep])
  have l: "dll (larger_block m) (smaller_block m) (if ys @ zs = [] then 0 else hd (ys @ zs)) (ys @ zs)"
    using rep by (auto simp: tree_rep_def split: if_splits)
  let ?h = "if ys @ zs = [] then 0 else hd (ys @ zs)"
  have "dll (larger_block m') (smaller_block m') (if ys = [] then b else ?h) (ys @ b # zs)"
  proof (rule dll_insert[OF l b(3) _ d])
    fix x assume "x \<in> set (ys @ b # zs)"
    then have "x \<in> N" using inN b by auto
    then show "larger_block m' x = (if x = b then if zs = [] then 0 else hd zs
           else if ys \<noteq> [] \<and> x = last ys then b else larger_block m x)"
      and "smaller_block m' x = (if x = b then if ys = [] then 0 else last ys
           else if zs \<noteq> [] \<and> x = hd zs then b else smaller_block m x)"
      using ln by (auto simp: linked_def)
  qed (use inN in auto)
  moreover have "(if ys = [] then b else ?h) = hd (ys @ b # zs)" by simp
  ultimately have 1: "dll (larger_block m') (smaller_block m') (hd (ys @ b # zs)) (ys @ b # zs)" by simp
  have size: "HEAP_GET_SIZE m' x = HEAP_GET_SIZE m x" if "x \<in> N" for x using ln that by (simp add: linked_def)
  have "map (HEAP_GET_SIZE m') (ys @ b # zs) = map (HEAP_GET_SIZE m) (ys @ b # zs)"
    using inN b size by auto
  moreover have "sorted_wrt (<) (map (HEAP_GET_SIZE m) (ys @ b # zs))"
    using rep sz by (auto simp: tree_rep_def sorted_wrt_append split: if_splits intro: less_trans)
  ultimately have 2: "sorted_wrt (<) (map (HEAP_GET_SIZE m') (ys @ b # zs))" by (simp only:)
  have 3: "dll (child_block m') (parent_block m') x (x # (ch(b := [])) x) \<and> distinct (x # (ch(b := [])) x) \<and>
        (\<forall>c\<in>set ((ch(b := [])) x). HEAP_GET_SIZE m' c = HEAP_GET_SIZE m' x \<and> smaller_block m' c = 0 \<and> larger_block m' c = 0)"
    if x: "x \<in> set (ys @ b # zs)" for x
  proof (cases "x = b")
    case True
    then show ?thesis using ln b c by (simp add: dll_def linked_def)
  next
    case False
    then have x: "x \<in> set (ys @ zs)" using x by auto
    with rep have old: "dll (child_block m) (parent_block m) x (x # ch x)" "distinct (x # ch x)"
      "\<forall>c\<in>set (ch x). HEAP_GET_SIZE m c = HEAP_GET_SIZE m x \<and> smaller_block m c = 0 \<and> larger_block m c = 0"
      by (auto simp: tree_rep_def split: if_splits)
    have "dll (child_block m') (parent_block m') x (x # ch x)"
      using old(1) by (subst chain_cong[where m = m]) (use ln inN x in \<open>auto simp: linked_def\<close>)
    moreover have "HEAP_GET_SIZE m' c = HEAP_GET_SIZE m' x \<and> smaller_block m' c = 0 \<and> larger_block m' c = 0"
      if c: "c \<in> set (ch x)" for c
    proof -
      have "c \<in> N" "c \<noteq> b" "HEAP_GET_SIZE m c = HEAP_GET_SIZE m x" using c x inN old(3) by auto
      moreover have "c \<noteq> hd zs \<or> zs = []" "c \<noteq> last ys \<or> ys = []"
        using tree_rep_chain_head[OF rep x c] by (metis Un_iff hd_in_set last_in_set set_append)+
      ultimately show ?thesis using ln c x old(3) inN size by (auto simp: linked_def)
    qed
    ultimately show ?thesis using old(2) False by simp
  qed
  show ?thesis using 1 2 3 r by (auto simp: tree_rep_def)
qed

lemma tree_rep_chained:
  assumes rep: "tree_rep m t xs ch" and N: "tree_blocks xs ch \<subseteq> N"
    and b: "b \<in> N" "b \<notin> tree_blocks xs ch" "b \<noteq> 0"
    and q: "q \<in> set xs" "HEAP_GET_SIZE m b = HEAP_GET_SIZE m q"
    and cn: "chained m m' t N b q"
    and l: "larger_block m b = 0" "smaller_block m b = 0"
  shows "tree_rep m' t xs (ch(q := b # ch q))"
proof -
  have inN: "x \<in> N \<and> x \<noteq> b" if "x \<in> set xs \<or> (\<exists>p\<in>set xs. x \<in> set (ch p))" for x
    using that N b by (auto simp: tree_blocks_def)
  have sm: "larger_block m' x = larger_block m x" "smaller_block m' x = smaller_block m x"
    "HEAP_GET_SIZE m' x = HEAP_GET_SIZE m x" if "x \<in> N" for x using cn that by (simp_all add: chained_def)
  have chn: "dll (child_block m) (parent_block m) x (x # ch x)" "distinct (x # ch x)"
    "\<And>c. c \<in> set (ch x) \<Longrightarrow> HEAP_GET_SIZE m c = HEAP_GET_SIZE m x \<and> smaller_block m c = 0 \<and> larger_block m c = 0"
    if "x \<in> set xs" for x using tree_repD(6-8)[OF rep that] by simp_all
  have 1: "dll (larger_block m') (smaller_block m') h xs = dll (larger_block m) (smaller_block m) h xs" for h
    by (rule dll_cong) (use sm inN in auto)
  have 2: "map (HEAP_GET_SIZE m') xs = map (HEAP_GET_SIZE m) xs" using sm inN by auto
  have cq: "child_block m q = (if ch q = [] then 0 else hd (ch q))"
    using dll_next[of _ _ q "[]" q "ch q"] chn(1)[OF q(1)] by simp
  have 3: "dll (child_block m') (parent_block m') q ([q] @ b # ch q)"
  proof -
    have "dll (child_block m') (parent_block m') (if [q] = [] then b else q) ([q] @ b # ch q)"
    proof (rule dll_insert[where nx = "child_block m" and pv = "parent_block m"])
      fix x assume "x \<in> set ([q] @ b # ch q)"
      then have "x \<in> N" using inN b q by auto
      moreover have "0 \<notin> set (q # ch q)" by (rule dll_nonzero[OF chn(1)[OF q(1)]])
      moreover have "q \<noteq> b" using inN q by auto
      ultimately show "child_block m' x = (if x = b then if ch q = [] then 0 else hd (ch q)
             else if [q] \<noteq> [] \<and> x = last [q] then b else child_block m x)"
        and "parent_block m' x = (if x = b then if [q] = [] then 0 else last [q]
             else if ch q \<noteq> [] \<and> x = hd (ch q) then b else parent_block m x)"
        using cn cq by (cases "ch q"; auto simp: chained_def)+
    qed (use chn[OF q(1)] b inN q in auto)
    then show ?thesis by simp
  qed
  have 4: "dll (child_block m') (parent_block m') x (x # ch x)" if x: "x \<in> set xs" "x \<noteq> q" for x
  proof -
    have "child_block m' y = child_block m y \<and> parent_block m' y = parent_block m y"
      if "y \<in> insert x (set (ch x))" for y
    proof -
      have "HEAP_GET_SIZE m y = HEAP_GET_SIZE m x" "y \<in> N" "y \<noteq> b" using that chn[OF x(1)] x(1) inN by auto
      moreover have "HEAP_GET_SIZE m x \<noteq> HEAP_GET_SIZE m q"
        using tree_repD(5)[OF rep q(1)] x q by (auto dest: inj_onD)
      ultimately have "y \<noteq> q" "ch q \<noteq> [] \<Longrightarrow> y \<noteq> hd (ch q)" using chn(3)[OF q(1), of y] by auto
      then show ?thesis using cn cq \<open>y \<in> N\<close> \<open>y \<noteq> b\<close> by (auto simp: chained_def)
    qed
    from chain_cong[OF this] chn(1)[OF x(1)] show ?thesis by simp
  qed
  have "load64 m' t = load64 m t" using cn by (simp add: chained_def)
  then have root: "load64 m' t \<in> set xs" "xs \<noteq> []" using tree_repD(1,2)[OF rep q(1)] by simp_all
  have old: "dll (larger_block m) (smaller_block m) (hd xs) xs" "sorted_wrt (<) (map (HEAP_GET_SIZE m) xs)"
    by (rule tree_repD(3,4)[OF rep q(1)])+
  have "dll (child_block m') (parent_block m') x (x # (ch(q := b # ch q)) x) \<and> distinct (x # (ch(q := b # ch q)) x) \<and>
        (\<forall>c\<in>set ((ch(q := b # ch q)) x). HEAP_GET_SIZE m' c = HEAP_GET_SIZE m' x \<and> smaller_block m' c = 0 \<and> larger_block m' c = 0)"
    if x: "x \<in> set xs" for x
  proof -
    have "HEAP_GET_SIZE m' c = HEAP_GET_SIZE m' x \<and> smaller_block m' c = 0 \<and> larger_block m' c = 0"
      if "c \<in> set (ch x) \<or> x = q \<and> c = b" for c
    proof -
      have "x \<in> N" "c \<in> N" using that x inN b by auto
      then show ?thesis using that chn(3)[OF x] l q sm by auto
    qed
    moreover have "distinct (x # (ch(q := b # ch q)) x)" using chn(2)[OF x] inN[of q] inN[of b] q x by auto
    ultimately show ?thesis using 3 4 x by auto
  qed
  then show ?thesis using old root unfolding tree_rep_def 1 2 by simp
qed

lemma heap_tree_insert_eq:
  assumes sep: "nodes_sep t N" and b: "b \<in> N" "48 \<le> HEAP_GET_SIZE m b"
  shows "heap_tree_insert m t b =
    (if load64 m t = 0 then Some (store64 (clear_node m b) t b, True)
     else do { m' \<leftarrow> tree_insert_loop (clear_node m b) b (HEAP_GET_SIZE m b) (load64 m t); Some (m', True) })"
  using b by (simp add: heap_tree_insert_def Let_def clear_node_def [symmetric] clear_node_get[OF sep b(1)])

section \<open>Search\<close>

lemma larger_walk_list:
  assumes "dll (larger_block m) (smaller_block m) h (ys @ p # zs)"
  shows "larger_walk m p s = Some (case dropWhile (\<lambda>x. HEAP_GET_SIZE m x < s) (p # zs) of
      [] \<Rightarrow> last (p # zs) | x # _ \<Rightarrow> x)"
  using assms
proof (induction zs arbitrary: ys p)
  case Nil
  have "larger_block m p = 0" using dll_next[OF Nil] by simp
  then show ?case by (subst larger_walk.simps) simp
next
  case (Cons z zs)
  have "larger_block m p = z" using dll_next[OF Cons.prems] by simp
  moreover have "z \<noteq> 0" using dll_nonzero[OF Cons.prems] by auto
  moreover have "larger_walk m z s = Some (case dropWhile (\<lambda>x. HEAP_GET_SIZE m x < s) (z # zs) of
      [] \<Rightarrow> last (z # zs) | x # _ \<Rightarrow> x)"
    using Cons.IH[of "ys @ [p]" z] Cons.prems by simp
  ultimately show ?case by (subst larger_walk.simps, cases "dropWhile (\<lambda>x. HEAP_GET_SIZE m x < s) zs")
      (simp_all del: dropWhile_eq_Nil_conv)
qed

lemma smaller_walk_list:
  assumes "dll (larger_block m) (smaller_block m) h (ys @ us @ p # vs)"
    and "\<forall>y\<in>set ys. HEAP_GET_SIZE m y < s" "\<forall>u\<in>set (us @ [p]). s \<le> HEAP_GET_SIZE m u"
    and "sorted_wrt (<) (map (HEAP_GET_SIZE m) (us @ [p]))"
  shows "smaller_walk m p s = Some (hd (us @ [p]))"
  using assms
proof (induction us arbitrary: p vs rule: rev_induct)
  case Nil
  have pv: "smaller_block m p = (if ys = [] then 0 else last ys)"
    using dll_prev[of _ _ h ys p vs] Nil.prems(1) by simp
  show ?case
  proof (cases "ys = []")
    case False
    then have "\<not> s \<le> HEAP_GET_SIZE m (last ys)" using Nil.prems(2) by (meson last_in_set not_le)
    then show ?thesis using pv False by (subst smaller_walk.simps) simp
  qed (use pv in \<open>subst smaller_walk.simps, simp\<close>)
next
  case (snoc u us)
  have "smaller_block m p = u"
    using dll_prev[of _ _ h "ys @ us @ [u]" p vs] snoc.prems(1) by simp
  moreover have "u \<noteq> 0" using dll_nonzero[OF snoc.prems(1)] by auto
  moreover have "s < HEAP_GET_SIZE m p" "s \<le> HEAP_GET_SIZE m u"
  proof -
    have "HEAP_GET_SIZE m u < HEAP_GET_SIZE m p" using snoc.prems(4) by (simp add: sorted_wrt_append)
    moreover show "s \<le> HEAP_GET_SIZE m u" using snoc.prems(3) by simp
    ultimately show "s < HEAP_GET_SIZE m p" by (rule le_less_trans[rotated])
  qed
  moreover have "smaller_walk m u s = Some (hd (us @ [u]))"
    by (rule snoc.IH[of u "p # vs"])
       (use snoc.prems in \<open>auto simp: sorted_wrt_append\<close>)
  ultimately show ?case by (subst smaller_walk.simps) (simp add: hd_append)
qed

section \<open>Deletion\<close>

lemma delete_head_get:
  assumes sep: "nodes_sep t N" and b: "b \<in> N" "parent_block m b = 0" "child_block m b = 0"
    and l: "larger_block m b = 0 \<or> larger_block m b \<in> N" "larger_block m b \<noteq> b"
    and s: "smaller_block m b = 0 \<or> smaller_block m b \<in> N" "smaller_block m b \<noteq> b"
    and d: "smaller_block m b = 0 \<or> smaller_block m b \<noteq> larger_block m b"
  shows "x \<in> N \<Longrightarrow> larger_block (heap_tree_delete m t b) x = (if x = b then 0
      else if x = smaller_block m b \<and> x \<noteq> 0 then larger_block m b else larger_block m x)"
    "x \<in> N \<Longrightarrow> smaller_block (heap_tree_delete m t b) x = (if x = b then 0
      else if x = larger_block m b \<and> x \<noteq> 0 then smaller_block m b else smaller_block m x)"
    "x \<in> N \<Longrightarrow> child_block (heap_tree_delete m t b) x = (if x = b then 0 else child_block m x)"
    "x \<in> N \<Longrightarrow> parent_block (heap_tree_delete m t b) x = (if x = b then 0 else parent_block m x)"
    "x \<in> N \<Longrightarrow> HEAP_GET_SIZE (heap_tree_delete m t b) x = HEAP_GET_SIZE m x"
    "load64 (heap_tree_delete m t b) t = (if load64 m t = b
      then (if smaller_block m b \<noteq> 0 then smaller_block m b else larger_block m b) else load64 m t)"
proof -
  note N = node_get_set[OF sep] node_set_root[OF sep]
  let ?L = "larger_block m b" and ?S = "smaller_block m b"
  let ?m1 = "if ?L \<noteq> 0 then set_smaller m ?L ?S else m"
  let ?m2 = "if ?S \<noteq> 0 then set_larger ?m1 ?S ?L else ?m1"
  let ?m3 = "if load64 m t = b then store64 ?m2 t (if ?S \<noteq> 0 then ?S else ?L) else ?m2"
  have 1: "smaller_block ?m1 b = ?S" "larger_block ?m1 b = ?L" "load64 ?m1 t = load64 m t"
    using b l by (auto simp: N)
  have 2: "load64 ?m2 t = load64 m t" using 1 s by (auto simp: N)
  have eq: "heap_tree_delete m t b = set_smaller (set_larger (set_parent (set_child ?m3 b 0) b 0) b 0) b 0"
    using b l s
    by (cases "?L = 0"; cases "?S = 0"; cases "load64 m t = b")
       (simp_all add: heap_tree_delete_def N)
  have g1: "larger_block ?m1 x = larger_block m x" "child_block ?m1 x = child_block m x"
    "parent_block ?m1 x = parent_block m x" "HEAP_GET_SIZE ?m1 x = HEAP_GET_SIZE m x"
    "smaller_block ?m1 x = (if x = ?L \<and> x \<noteq> 0 then ?S else smaller_block m x)" if "x \<in> N" for x
    using l that by (cases "?L = 0"; simp add: N)+
  have g2: "smaller_block ?m2 x = smaller_block ?m1 x" "child_block ?m2 x = child_block m x"
    "parent_block ?m2 x = parent_block m x" "HEAP_GET_SIZE ?m2 x = HEAP_GET_SIZE m x"
    "larger_block ?m2 x = (if x = ?S \<and> x \<noteq> 0 then ?L else larger_block m x)" if x: "x \<in> N" for x
    using s g1[OF x] by (cases "?S = 0"; simp add: N x del: if_split)+
  have g3: "smaller_block ?m3 x = smaller_block ?m1 x" "child_block ?m3 x = child_block m x"
    "parent_block ?m3 x = parent_block m x" "HEAP_GET_SIZE ?m3 x = HEAP_GET_SIZE m x"
    "larger_block ?m3 x = (if x = ?S \<and> x \<noteq> 0 then ?L else larger_block m x)" if x: "x \<in> N" for x
    using g2[OF x] by (cases "load64 m t = b"; simp add: N x del: if_split)+
  show "x \<in> N \<Longrightarrow> larger_block (heap_tree_delete m t b) x = (if x = b then 0
      else if x = smaller_block m b \<and> x \<noteq> 0 then larger_block m b else larger_block m x)"
    "x \<in> N \<Longrightarrow> smaller_block (heap_tree_delete m t b) x = (if x = b then 0
      else if x = larger_block m b \<and> x \<noteq> 0 then smaller_block m b else smaller_block m x)"
    "x \<in> N \<Longrightarrow> child_block (heap_tree_delete m t b) x = (if x = b then 0 else child_block m x)"
    "x \<in> N \<Longrightarrow> parent_block (heap_tree_delete m t b) x = (if x = b then 0 else parent_block m x)"
    "x \<in> N \<Longrightarrow> HEAP_GET_SIZE (heap_tree_delete m t b) x = HEAP_GET_SIZE m x"
    unfolding eq using b(1) g3 g1 by (simp_all add: N)
  show "load64 (heap_tree_delete m t b) t = (if load64 m t = b
      then (if smaller_block m b \<noteq> 0 then smaller_block m b else larger_block m b) else load64 m t)"
    unfolding eq using b(1) 2 by (simp add: N)
qed

lemma delete_member_get:
  assumes sep: "nodes_sep t N" and b: "b \<in> N" "parent_block m b \<in> N" "parent_block m b \<noteq> 0" "parent_block m b \<noteq> b"
    and c: "child_block m b = 0 \<or> child_block m b \<in> N" "child_block m b \<noteq> b"
    and z: "larger_block m b = 0" "smaller_block m b = 0"
  shows "x \<in> N \<Longrightarrow> child_block (heap_tree_delete m t b) x = (if x = b then 0
      else if x = parent_block m b then child_block m b else child_block m x)"
    "x \<in> N \<Longrightarrow> parent_block (heap_tree_delete m t b) x = (if x = b then 0
      else if x = child_block m b \<and> x \<noteq> 0 then parent_block m b else parent_block m x)"
    "x \<in> N \<Longrightarrow> larger_block (heap_tree_delete m t b) x = larger_block m x"
    "x \<in> N \<Longrightarrow> smaller_block (heap_tree_delete m t b) x = smaller_block m x"
    "x \<in> N \<Longrightarrow> HEAP_GET_SIZE (heap_tree_delete m t b) x = HEAP_GET_SIZE m x"
    "load64 (heap_tree_delete m t b) t = load64 m t"
  using assms
  by (auto simp: heap_tree_delete_def Let_def node_get_set[OF sep] node_set_root[OF sep])

lemma tree_delete_head:
  assumes rep: "tree_rep m t xs ch" and sep: "nodes_sep t N" and N: "tree_blocks xs ch \<subseteq> N"
    and b: "b \<in> set xs" "ch b = []"
  shows "tree_rep (heap_tree_delete m t b) t (remove1 b xs) ch"
    and "x \<in> N \<Longrightarrow> HEAP_GET_SIZE (heap_tree_delete m t b) x = HEAP_GET_SIZE m x"
proof -
  let ?m = "heap_tree_delete m t b"
  obtain ys zs where xs: "xs = ys @ b # zs" using split_list[OF b(1)] by blast
  note D = tree_repD[OF rep b(1)]
  have d: "distinct xs" by (rule tree_rep_distinct[OF rep])
  have l: "dll (larger_block m) (smaller_block m) (hd xs) (ys @ b # zs)" using D(3) xs by simp
  have L: "larger_block m b = (if zs = [] then 0 else hd zs)" by (rule dll_next[OF l])
  have S: "smaller_block m b = (if ys = [] then 0 else last ys)" by (rule dll_prev[OF l])
  have nz: "0 \<notin> set xs" using dll_nonzero[OF D(3)] .
  have inN: "set xs \<subseteq> N" "b \<in> N" using N b by (auto simp: tree_blocks_def)
  have ends: "zs = [] \<or> hd zs \<in> set zs" "ys = [] \<or> last ys \<in> set ys"
    by (metis hd_in_set, metis last_in_set)
  have pc: "parent_block m b = 0" "child_block m b = 0"
    using D(6) b(2) by (auto simp: dll_def)
  have LN: "larger_block m b = 0 \<or> larger_block m b \<in> N" "larger_block m b \<noteq> b"
    and SN: "smaller_block m b = 0 \<or> smaller_block m b \<in> N" "smaller_block m b \<noteq> b"
    and LS: "smaller_block m b = 0 \<or> smaller_block m b \<noteq> larger_block m b"
    using L S ends inN d xs nz by auto
  note g = delete_head_get[OF sep inN(2) pc LN SN LS]
  show sz: "HEAP_GET_SIZE ?m x = HEAP_GET_SIZE m x" if "x \<in> N" for x using that by (rule g)
  have rm: "remove1 b xs = ys @ zs" using xs d by (simp add: remove1_append)
  have blk: "x \<in> N \<and> x \<noteq> b" if "x \<in> set (ys @ zs) \<or> (\<exists>p\<in>set (ys @ zs). x \<in> set (ch p))" for x
  proof -
    have "x \<in> tree_blocks xs ch" using that xs by (auto simp: tree_blocks_def)
    moreover have "x \<noteq> b" using that d xs tree_rep_chain_head[OF rep, of _ x] by auto
    ultimately show ?thesis using N by auto
  qed
  have A: "dll (larger_block ?m) (smaller_block ?m) (if ys = [] then larger_block m b else hd xs) (ys @ zs)"
  proof (rule dll_delete[OF l d[unfolded xs]])
    fix x assume "x \<in> set (ys @ zs)"
    then have "x \<in> N" "x \<noteq> b" "x \<noteq> 0" using blk nz xs by auto
    then show "larger_block ?m x = (if x = smaller_block m b then larger_block m b else larger_block m x)"
      and "smaller_block ?m x = (if x = larger_block m b then smaller_block m b else smaller_block m x)"
      by (simp_all add: g)
  qed
  have hd: "(if ys = [] then larger_block m b else hd xs) = (if ys @ zs = [] then 0 else hd (ys @ zs))"
    using L xs by auto
  have "map (HEAP_GET_SIZE ?m) (ys @ zs) = map (HEAP_GET_SIZE m) (ys @ zs)"
    using blk sz by (intro map_cong) auto
  moreover have "sorted_wrt (<) (map (HEAP_GET_SIZE m) (ys @ zs))" using D(4) xs by (simp add: sorted_wrt_append)
  ultimately have B: "sorted_wrt (<) (map (HEAP_GET_SIZE ?m) (ys @ zs))" by (simp only:)
  have C: "if ys @ zs = [] then load64 ?m t = 0 else load64 ?m t \<in> set (ys @ zs)"
    using D(2) xs ends L S nz by (auto simp: g)
  have E: "dll (child_block ?m) (parent_block ?m) x (x # ch x) \<and> distinct (x # ch x) \<and>
        (\<forall>c\<in>set (ch x). HEAP_GET_SIZE ?m c = HEAP_GET_SIZE ?m x \<and> smaller_block ?m c = 0 \<and> larger_block ?m c = 0)"
    if x: "x \<in> set (ys @ zs)" for x
  proof -
    have xx: "x \<in> set xs" using x xs by auto
    note Dx = tree_repD[OF rep xx]
    have "dll (child_block ?m) (parent_block ?m) x (x # ch x)"
    proof -
      have "child_block ?m y = child_block m y \<and> parent_block ?m y = parent_block m y"
        if y: "y \<in> insert x (set (ch x))" for y
      proof -
        have "y \<in> set (ys @ zs) \<or> (\<exists>p\<in>set (ys @ zs). y \<in> set (ch p))" using y x by blast
        then show ?thesis using blk by (simp add: g)
      qed
      from chain_cong[OF this] Dx(6) show ?thesis by simp
    qed
    moreover have "HEAP_GET_SIZE ?m c = HEAP_GET_SIZE ?m x \<and> smaller_block ?m c = 0 \<and> larger_block ?m c = 0"
      if c: "c \<in> set (ch x)" for c
    proof -
      have "c \<notin> set xs" by (rule tree_rep_chain_head[OF rep xx c])
      then have "c = 0 \<or> c \<noteq> larger_block m b" "c = 0 \<or> c \<noteq> smaller_block m b"
        using L S xs ends by auto
      moreover have "c \<in> set (ys @ zs) \<or> (\<exists>p\<in>set (ys @ zs). c \<in> set (ch p))" using c x by blast
      ultimately show ?thesis using Dx(8)[OF c] blk[of c] blk[OF disjI1[OF x]] by (auto simp: g)
    qed
    ultimately show ?thesis using Dx(7) by blast
  qed
  show "tree_rep ?m t (remove1 b xs) ch"
    unfolding rm tree_rep_def using A[unfolded hd] B C E by blast
qed

lemma tree_delete_member:
  assumes rep: "tree_rep m t xs ch" and sep: "nodes_sep t N" and N: "tree_blocks xs ch \<subseteq> N"
    and q: "q \<in> set xs" and b: "b \<in> set (ch q)"
  shows "tree_rep (heap_tree_delete m t b) t xs (ch(q := remove1 b (ch q)))"
    and "x \<in> N \<Longrightarrow> HEAP_GET_SIZE (heap_tree_delete m t b) x = HEAP_GET_SIZE m x"
proof -
  let ?m = "heap_tree_delete m t b"
  obtain us vs where cq: "ch q = us @ b # vs" using split_list[OF b] by blast
  note D = tree_repD[OF rep q]
  have l: "dll (child_block m) (parent_block m) q ((q # us) @ b # vs)" using D(6) cq by simp
  have d: "distinct ((q # us) @ b # vs)" using D(7) cq by simp
  have nz: "0 \<notin> set (q # us @ b # vs)" using dll_nonzero[OF l] by simp
  have C: "child_block m b = (if vs = [] then 0 else hd vs)" using dll_next[OF l] .
  have P: "parent_block m b = last (q # us)" using dll_prev[OF l] by simp
  have "insert q (set (ch q)) \<subseteq> tree_blocks xs ch" using q by (auto simp: tree_blocks_def)
  then have inN: "set (q # us @ b # vs) \<subseteq> N" using N cq by auto
  have ends: "vs = [] \<or> hd vs \<in> set vs" "last (q # us) \<in> set (q # us)"
    by (metis hd_in_set, metis last_in_set list.distinct(1))
  have PN: "parent_block m b \<in> N" "parent_block m b \<noteq> 0" "parent_block m b \<noteq> b"
    using P ends(2) inN nz d by (auto simp del: last.simps)
  have CN: "child_block m b = 0 \<or> child_block m b \<in> N" "child_block m b \<noteq> b"
    using C ends(1) inN nz d by auto
  have bN: "b \<in> N" and z: "larger_block m b = 0" "smaller_block m b = 0"
    using inN D(8)[OF b] by auto
  note g = delete_member_get[OF sep bN PN CN z]
  show sz: "HEAP_GET_SIZE ?m x = HEAP_GET_SIZE m x" if "x \<in> N" for x using that by (rule g)
  have rm: "remove1 b (ch q) = us @ vs" using cq d by (simp add: remove1_append)
  have blk: "x \<in> N" if "x \<in> set xs \<or> (\<exists>p\<in>set xs. x \<in> set (ch p))" for x
    using that N by (auto simp: tree_blocks_def)
  have 1: "dll (larger_block ?m) (smaller_block ?m) h xs = dll (larger_block m) (smaller_block m) h xs" for h
    by (rule dll_cong) (use blk in \<open>simp add: g\<close>)
  have 2: "map (HEAP_GET_SIZE ?m) xs = map (HEAP_GET_SIZE m) xs" using blk by (intro map_cong) (auto simp: g)
  have 3: "dll (child_block ?m) (parent_block ?m) q (q # us @ vs)"
  proof -
    have "dll (child_block ?m) (parent_block ?m) (if q # us = [] then child_block m b else q) ((q # us) @ vs)"
    proof (rule dll_delete[OF l d])
      fix x assume "x \<in> set ((q # us) @ vs)"
      then have "x \<in> N" "x \<noteq> b" "x \<noteq> 0" using inN d nz by auto
      then show "child_block ?m x = (if x = parent_block m b then child_block m b else child_block m x)"
        and "parent_block ?m x = (if x = child_block m b then parent_block m b else parent_block m x)"
        by (simp_all add: g)
    qed
    then show ?thesis by simp
  qed
  have 4: "dll (child_block ?m) (parent_block ?m) x (x # ch x)" if x: "x \<in> set xs" "x \<noteq> q" for x
  proof -
    have "child_block ?m y = child_block m y \<and> parent_block ?m y = parent_block m y"
      if y: "y \<in> insert x (set (ch x))" for y
    proof -
      have "HEAP_GET_SIZE m y = HEAP_GET_SIZE m x" "y \<in> N" using y tree_repD(8)[OF rep x(1), of y] x(1) blk by auto
      moreover have "HEAP_GET_SIZE m x \<noteq> HEAP_GET_SIZE m q"
        using tree_repD(5)[OF rep q] x q by (auto dest: inj_onD)
      moreover have "HEAP_GET_SIZE m c = HEAP_GET_SIZE m q" if "c \<in> set (q # us @ b # vs)" for c
        using that D(8)[of c] cq by auto
      ultimately have "y \<notin> set (q # us @ b # vs)" by metis
      then have "y \<noteq> b" "y \<noteq> parent_block m b" "y = 0 \<or> y \<noteq> child_block m b"
        using P C ends by (auto simp del: last.simps)
      then show ?thesis using \<open>y \<in> N\<close> by (auto simp: g)
    qed
    from chain_cong[OF this] tree_repD(6)[OF rep x(1)] show ?thesis by simp
  qed
  have E: "dll (child_block ?m) (parent_block ?m) x (x # (ch(q := us @ vs)) x) \<and> distinct (x # (ch(q := us @ vs)) x) \<and>
        (\<forall>c\<in>set ((ch(q := us @ vs)) x). HEAP_GET_SIZE ?m c = HEAP_GET_SIZE ?m x \<and> smaller_block ?m c = 0 \<and> larger_block ?m c = 0)"
    if x: "x \<in> set xs" for x
  proof -
    have "HEAP_GET_SIZE ?m c = HEAP_GET_SIZE ?m x \<and> smaller_block ?m c = 0 \<and> larger_block ?m c = 0"
      if "c \<in> set (ch x)" for c
    proof -
      have "c \<in> N" "x \<in> N" using that x blk by blast+
      then show ?thesis using tree_repD(8)[OF rep x that] by (simp add: g)
    qed
    moreover have "set ((ch(q := us @ vs)) x) \<subseteq> set (ch x)" using cq by auto
    moreover have "distinct (x # (ch(q := us @ vs)) x)" using tree_repD(7)[OF rep x] d by auto
    ultimately show ?thesis using 3 4[OF x] by (cases "x = q") auto
  qed
  show "tree_rep ?m t xs (ch(q := remove1 b (ch q)))"
    using D(1,2,3,4) E unfolding rm tree_rep_def 1 2 by (simp add: g)
qed

section \<open>Properties\<close>

lemma tree_insert_rep:
  assumes rep: "tree_rep m t xs ch" and sep: "nodes_sep t N" and N: "tree_blocks xs ch \<subseteq> N"
    and b: "b \<in> N" "b \<notin> tree_blocks xs ch" "b \<noteq> 0" and s: "48 \<le> HEAP_GET_SIZE m b"
  shows "\<exists>m' xs' ch'. heap_tree_insert m t b = Some (m', True) \<and> tree_rep m' t xs' ch' \<and>
     tree_blocks xs' ch' = insert b (tree_blocks xs ch) \<and>
     (\<forall>x\<in>N. HEAP_GET_SIZE m' x = HEAP_GET_SIZE m x)"
proof (cases "xs = []")
  case True
  let ?m = "store64 (clear_node m b) t b"
  have "load64 m t = 0" using rep True by (simp add: tree_rep_def)
  then have "heap_tree_insert m t b = Some (?m, True)" by (simp add: heap_tree_insert_eq[OF sep b(1) s])
  moreover have "tree_rep ?m t [b] (ch(b := []))"
    using b by (simp add: tree_rep_def dll_def node_set_root[OF sep] clear_node_get[OF sep b(1)])
  moreover have "tree_blocks [b] (ch(b := [])) = insert b (tree_blocks xs ch)"
    using True by (simp add: tree_blocks_def)
  moreover have "\<forall>x\<in>N. HEAP_GET_SIZE ?m x = HEAP_GET_SIZE m x"
    using b by (simp add: node_set_root[OF sep] clear_node_get[OF sep b(1)])
  ultimately show ?thesis by blast
next
  case False
  let ?m = "clear_node m b" and ?s = "HEAP_GET_SIZE m b"
  note cl = clear_node_get[OF sep b(1)]
  have rep1: "tree_rep ?m t xs ch"
    using rep by (subst tree_rep_cong[where m = m])
      (use N b in \<open>auto simp: same_fields_def cl subset_iff\<close>)
  have size: "HEAP_GET_SIZE ?m x = HEAP_GET_SIZE m x" if "x \<in> N" for x using that by (simp add: cl)
  obtain q0 where q0: "q0 \<in> set xs" using False by (cases xs) auto
  note D = tree_repD[OF rep1 q0]
  have root: "load64 m t \<in> set xs" using D(2) by (simp add: cl)
  then have "load64 m t \<noteq> 0" using dll_nonzero[OF D(3)] by metis
  then have ins: "heap_tree_insert m t b =
      do { m' \<leftarrow> tree_insert_loop ?m b ?s (load64 m t); Some (m', True) }"
    by (simp add: heap_tree_insert_eq[OF sep b(1) s])
  from split_by_size[OF D(4), of ?s] show ?thesis
  proof (elim disjE exE conjE)
    fix ys zs
    assume xs: "xs = ys @ zs" and sm: "\<forall>y\<in>set ys. HEAP_GET_SIZE ?m y < ?s"
      and lg: "\<forall>z\<in>set zs. ?s < HEAP_GET_SIZE ?m z"
    have "insertable ?m t N b ?s ys zs"
      using sep N b D(3) sm lg tree_rep_distinct[OF rep1] xs
      by (auto simp: insertable_def cl tree_blocks_def)
    then obtain m' where m': "tree_insert_loop ?m b ?s (load64 m t) = Some m'" "linked ?m m' t N ys b zs"
      using insert_linked[of ?m t N b ?s ys zs "load64 m t"] root xs by blast
    have "tree_rep m' t (ys @ b # zs) (ch(b := []))"
    proof (rule tree_rep_linked[OF _ _ b(1) _ b(3) m'(2)])
      show "load64 m' t \<in> set (ys @ zs)" using m'(2) root xs by (simp add: linked_def cl)
    qed (use rep1 N b sm lg xs in \<open>simp_all add: cl\<close>)
    moreover have "tree_blocks (ys @ b # zs) (ch(b := [])) = insert b (tree_blocks xs ch)"
      using tree_blocks_insert[OF b(2)[unfolded xs]] xs by simp
    moreover have "\<forall>x\<in>N. HEAP_GET_SIZE m' x = HEAP_GET_SIZE m x" using m'(2) by (simp add: linked_def cl)
    ultimately show ?thesis using ins m'(1) by auto
  next
    fix ys q zs
    assume xs: "xs = ys @ q # zs" and q: "HEAP_GET_SIZE ?m q = ?s"
      and sm: "\<forall>y\<in>set ys. HEAP_GET_SIZE ?m y < ?s" and lg: "\<forall>z\<in>set zs. ?s < HEAP_GET_SIZE ?m z"
    have q1: "q \<in> set xs" using xs by simp
    have inN: "x \<in> N \<and> x \<noteq> b" if "x = q \<or> x \<in> set (ch q)" for x
      using that q1 N b by (auto simp: tree_blocks_def)
    note dq = tree_repD(6,7)[OF rep1 q1]
    have cq: "child_block ?m q = (if ch q = [] then 0 else hd (ch q))"
      using dll_next[of _ _ q "[]" q "ch q"] dq(1) by simp
    have "tree_insert_loop ?m b ?s (load64 m t) = tree_insert_loop ?m b ?s q"
      by (rule insert_walk_equal[OF D(3)[unfolded xs] q sm lg]) (rule root[unfolded xs])
    moreover have "\<exists>m'. tree_insert_loop ?m b ?s q = Some m' \<and> chained ?m m' t N b q"
    proof (rule insert_at_equal[OF sep _ b(1) _ q])
      show "child_block ?m q = 0 \<or> child_block ?m q \<in> N" "child_block ?m q \<noteq> b" "child_block ?m q \<noteq> q"
        using cq inN dq b(3) dll_nonzero[OF dq(1)] by (cases "ch q"; auto)+
    qed (use inN b in \<open>simp_all add: cl\<close>)
    ultimately obtain m' where m': "tree_insert_loop ?m b ?s (load64 m t) = Some m'" "chained ?m m' t N b q"
      by auto
    have "tree_rep m' t xs (ch(q := b # ch q))"
      by (rule tree_rep_chained[OF rep1 N b q1 _ m'(2)]) (use b q in \<open>simp_all add: cl\<close>)
    moreover have "tree_blocks xs (ch(q := b # ch q)) = insert b (tree_blocks xs ch)"
      using q1 by (auto simp: tree_blocks_def split: if_splits)
    moreover have "\<forall>x\<in>N. HEAP_GET_SIZE m' x = HEAP_GET_SIZE m x" using m'(2) by (simp add: chained_def cl)
    ultimately show ?thesis using ins m'(1) by auto
  qed
qed

text \<open>C7. Insertion refines set insertion and keeps the order: on a well-formed tree,
  \<^verbatim>\<open>heap_tree_insert\<close> of a block outside it always returns (the walk over the links ends),
  reports success, leaves a well-formed tree (heads strictly sorted by size, doubly linked,
  chains of equal size) whose blocks are the old ones and the new one, and changes no size.\<close>

theorem heap_tree_insert_sorted:
  assumes rep: "tree_rep m t xs ch" and sep: "nodes_sep t N" and N: "tree_blocks xs ch \<subseteq> N"
    and b: "b \<in> N" "b \<notin> tree_blocks xs ch" "b \<noteq> 0" and s: "48 \<le> HEAP_GET_SIZE m b"
  shows "\<exists>m' xs' ch'. heap_tree_insert m t b = Some (m', True) \<and> tree_rep m' t xs' ch' \<and>
     tree_blocks xs' ch' = insert b (tree_blocks xs ch) \<and>
     (\<forall>x\<in>N. HEAP_GET_SIZE m' x = HEAP_GET_SIZE m x)"
  by (rule tree_insert_rep[OF assms])

theorem heap_tree_insert_sorted_witness:
  "\<exists>m m' xs' ch'. heap_tree_insert m 0x1000 0x10000 = Some (m', True) \<and>
     tree_rep m' 0x1000 xs' ch' \<and> tree_blocks xs' ch' = {0x10000}"
proof -
  let ?m = "store64 (\<lambda>_. 0) 0x10008 0x800"
  have "tree_rep ?m 0x1000 [] (\<lambda>_. [])" by (simp add: tree_rep_def frame apart_def)
  moreover have "nodes_sep 0x1000 {0x10000}" by (simp add: nodes_sep_def node_offsets_def apart_def)
  moreover have "48 \<le> HEAP_GET_SIZE ?m 0x10000" by (simp add: HEAP_GET_SIZE_def HEAP_ALIGN_def)
  ultimately show ?thesis
    using heap_tree_insert_sorted[of ?m "0x1000" "[]" "\<lambda>_. []" "{0x10000}" "0x10000"]
    by (auto simp: tree_blocks_def)
qed

text \<open>The order of the tree splits at \<open>s\<close>: \<open>us\<close> are the smaller heads, \<open>r\<close> is the smallest one
  that is large enough. Wherever the walk to larger blocks leaves \<open>us\<close>, the walk back ends at \<open>r\<close>.\<close>

lemma smaller_walk_ends:
  assumes l: "dll (larger_block m) (smaller_block m) h (us @ r # vs)"
    and o: "sorted_wrt (<) (map (HEAP_GET_SIZE m) (us @ r # vs))"
    and us: "\<forall>y\<in>set us. HEAP_GET_SIZE m y < s" and r: "s \<le> HEAP_GET_SIZE m r" and w: "w \<in> set (r # vs)"
  shows "smaller_walk m w s = Some r"
proof -
  from w obtain ws ws' where ws: "(ws @ [w]) @ ws' = r # vs" by (metis append.assoc append_Cons append_Nil split_list)
  have "smaller_walk m w s = Some (hd (ws @ [w]))"
  proof (rule smaller_walk_list)
    show "dll (larger_block m) (smaller_block m) h (us @ ws @ w # ws')" using l ws by simp
    have "\<forall>v\<in>set vs. HEAP_GET_SIZE m r < HEAP_GET_SIZE m v" using o by (simp add: sorted_wrt_append)
    moreover have "set (ws @ [w]) \<subseteq> set (r # vs)" by (metis ws set_append Un_upper1)
    ultimately show "\<forall>u\<in>set (ws @ [w]). s \<le> HEAP_GET_SIZE m u" using r by (auto intro: less_imp_le le_less_trans)
    have "sorted_wrt (<) (map (HEAP_GET_SIZE m) (us @ (ws @ [w]) @ ws'))" using o ws by simp
    then show "sorted_wrt (<) (map (HEAP_GET_SIZE m) (ws @ [w]))" by (simp add: sorted_wrt_append)
  qed (rule us)
  moreover have "hd (ws @ [w]) = r" using ws by (cases ws) auto
  ultimately show ?thesis by simp
qed

lemma larger_walk_ends:
  assumes l: "dll (larger_block m) (smaller_block m) h (us @ r # vs)" and p: "p \<in> set (us @ r # vs)"
    and o: "sorted_wrt (<) (map (HEAP_GET_SIZE m) (us @ r # vs))"
    and us: "\<forall>y\<in>set us. HEAP_GET_SIZE m y < s" and r: "s \<le> HEAP_GET_SIZE m r"
  shows "\<exists>w\<in>set (r # vs). larger_walk m p s = Some w \<and> s \<le> HEAP_GET_SIZE m w"
proof -
  have big: "s \<le> HEAP_GET_SIZE m w" if "w \<in> set (r # vs)" for w
    using that r o by (auto simp: sorted_wrt_append intro: less_imp_le le_less_trans)
  consider us1 us2 where "us = us1 @ p # us2" | ws ws' where "r # vs = ws @ p # ws'"
    using p by (metis UnE set_append split_list)
  then show ?thesis
  proof cases
    case 1
    have "dropWhile (\<lambda>x. HEAP_GET_SIZE m x < s) (p # us2 @ r # vs) = r # vs"
      using us r 1 by (simp add: dropWhile_append3)
    moreover have "dll (larger_block m) (smaller_block m) h (us1 @ p # us2 @ r # vs)" using l 1 by simp
    ultimately show ?thesis using larger_walk_list[of m h us1 p "us2 @ r # vs" s] r by simp
  next
    case 2
    then have pw: "p \<in> set (r # vs)" by simp
    have "dll (larger_block m) (smaller_block m) h ((us @ ws) @ p # ws')" using l 2 by simp
    from larger_walk_list[OF this, of s] show ?thesis using pw big[OF pw] by auto
  qed
qed

lemma tree_search_rep:
  assumes rep: "tree_rep m t xs ch"
  shows "\<exists>r. heap_tree_search m t s = Some r \<and>
    (if \<forall>x\<in>tree_blocks xs ch. HEAP_GET_SIZE m x < s then r = 0
     else r \<in> tree_blocks xs ch \<and> s \<le> HEAP_GET_SIZE m r \<and>
       (\<forall>x\<in>tree_blocks xs ch. s \<le> HEAP_GET_SIZE m x \<longrightarrow> HEAP_GET_SIZE m r \<le> HEAP_GET_SIZE m x))"
proof (cases "xs = []")
  case True
  then show ?thesis using rep by (simp add: tree_rep_def heap_tree_search_def tree_blocks_def)
next
  case False
  then obtain q0 where q0: "q0 \<in> set xs" by (cases xs) auto
  note D = tree_repD[OF rep q0]
  let ?f = "HEAP_GET_SIZE m" and ?p = "load64 m t"
  have heads: "x \<in> tree_blocks xs ch \<Longrightarrow> \<exists>p\<in>set xs. ?f x = ?f p" for x
    using tree_repD(8)[OF rep] by (auto simp: tree_blocks_def)
  have sub: "set xs \<subseteq> tree_blocks xs ch" by (auto simp: tree_blocks_def)
  have "?p \<noteq> 0" using D(2) dll_nonzero[OF D(3)] by metis
  then have srch: "heap_tree_search m t s = do { b \<leftarrow> larger_walk m ?p s;
                if ?f b < s then Some 0 else smaller_walk m b s }"
    by (simp add: heap_tree_search_def)
  show ?thesis
  proof (cases "dropWhile (\<lambda>x. ?f x < s) xs")
    case Nil
    then have all: "\<forall>x\<in>set xs. ?f x < s" by (simp add: dropWhile_eq_Nil_conv)
    obtain ys zs where xs: "xs = ys @ ?p # zs" using split_list[OF D(2)] by blast
    have "dropWhile (\<lambda>x. ?f x < s) (?p # zs) = []" using all xs by (metis UnCI dropWhile_eq_Nil_conv set_append)
    with larger_walk_list[OF D(3)[unfolded xs], of s] have "larger_walk m ?p s = Some (last (?p # zs))"
      by (simp only: list.case)
    moreover have "?f (last (?p # zs)) < s" using all xs by (metis UnCI last_in_set list.distinct(1) set_append)
    ultimately have "heap_tree_search m t s = Some 0" by (simp add: srch)
    moreover have "\<forall>x\<in>tree_blocks xs ch. ?f x < s" using all heads by metis
    ultimately show ?thesis by simp
  next
    case (Cons r vs)
    define us where "us = takeWhile (\<lambda>x. ?f x < s) xs"
    have xs: "xs = us @ r # vs" unfolding us_def using Cons by (metis takeWhile_dropWhile_id)
    have us: "\<forall>y\<in>set us. ?f y < s" unfolding us_def by (auto dest: set_takeWhileD)
    have r: "s \<le> ?f r" using Cons by (metis dropWhile_eq_Cons_conv not_less)
    obtain w where w: "w \<in> set (r # vs)" "larger_walk m ?p s = Some w" "s \<le> ?f w"
      using larger_walk_ends[OF D(3)[unfolded xs] D(2)[unfolded xs] D(4)[unfolded xs] us r] by blast
    then have "heap_tree_search m t s = Some r"
      using smaller_walk_ends[OF D(3)[unfolded xs] D(4)[unfolded xs] us r w(1)] by (simp add: srch not_less[symmetric])
    moreover have "?f r \<le> ?f x" if x: "x \<in> tree_blocks xs ch" "s \<le> ?f x" for x
    proof -
      obtain v where v: "v \<in> set xs" "?f x = ?f v" using heads[OF x(1)] by blast
      have "v \<notin> set us" using us v(2) x(2) by (metis not_le)
      then show ?thesis using v D(4) xs by (auto simp: sorted_wrt_append dest: less_imp_le)
    qed
    moreover have "r \<in> tree_blocks xs ch" using xs sub by auto
    ultimately show ?thesis using r by (auto simp: not_less)
  qed
qed

text \<open>C8. Best fit: on a well-formed tree, \<^verbatim>\<open>heap_tree_search\<close> always returns, gives null
  exactly when no block of the tree is large enough, and otherwise gives a block of the tree
  of the smallest size that is at least the requested one.\<close>

theorem heap_tree_search_best_fit:
  assumes rep: "tree_rep m t xs ch"
  shows "\<exists>r. heap_tree_search m t s = Some r \<and>
    (if \<forall>x\<in>tree_blocks xs ch. HEAP_GET_SIZE m x < s then r = 0
     else r \<in> tree_blocks xs ch \<and> s \<le> HEAP_GET_SIZE m r \<and>
       (\<forall>x\<in>tree_blocks xs ch. s \<le> HEAP_GET_SIZE m x \<longrightarrow> HEAP_GET_SIZE m r \<le> HEAP_GET_SIZE m x))"
  by (rule tree_search_rep[OF assms])

theorem heap_tree_search_best_fit_witness:
  "\<exists>m. heap_tree_search m 0x1000 0x700 = Some 0x10000 \<and> heap_tree_search m 0x1000 0x900 = Some 0"
proof -
  let ?m = "store64 (store64 (\<lambda>_. 0) 0x10008 0x800) 0x1000 0x10000"
  have s: "HEAP_GET_SIZE ?m 0x10000 = 0x800" by (simp add: HEAP_GET_SIZE_def HEAP_ALIGN_def frame apart_def)
  have "tree_rep ?m 0x1000 [0x10000] (\<lambda>_. [])"
    by (simp add: tree_rep_def dll_def link_defs frame apart_def)
  from heap_tree_search_best_fit[OF this, of "0x700"] heap_tree_search_best_fit[OF this, of "0x900"]
  show ?thesis by (auto simp: tree_blocks_def s)
qed

lemma tree_delete_rep:
  assumes rep: "tree_rep m t xs ch" and sep: "nodes_sep t N" and N: "tree_blocks xs ch \<subseteq> N"
    and b: "b \<in> tree_blocks xs ch" "b \<in> set xs \<Longrightarrow> ch b = []"
  shows "\<exists>xs' ch'. tree_rep (heap_tree_delete m t b) t xs' ch' \<and>
     tree_blocks xs' ch' = tree_blocks xs ch - {b} \<and>
     (\<forall>x\<in>N. HEAP_GET_SIZE (heap_tree_delete m t b) x = HEAP_GET_SIZE m x)"
proof (cases "b \<in> set xs")
  case True
  note del = tree_delete_head[OF rep sep N True b(2)[OF True]]
  have "b \<notin> set (ch x)" if "x \<in> set xs" for x using tree_rep_chain_head[OF rep that, of b] True by auto
  then have "tree_blocks (remove1 b xs) ch = tree_blocks xs ch - {b}"
    using tree_rep_distinct[OF rep] b(2)[OF True] by (auto simp: tree_blocks_def)
  with del show ?thesis by blast
next
  case False
  then obtain q where q: "q \<in> set xs" "b \<in> set (ch q)" using b(1) by (auto simp: tree_blocks_def)
  note del = tree_delete_member[OF rep sep N q]
  have other: "b \<notin> set (ch x)" if x: "x \<in> set xs" "x \<noteq> q" for x
    using tree_repD(8)[OF rep x(1), of b] tree_repD(8)[OF rep q(1,2)] tree_repD(5)[OF rep q(1)] x q
    by (auto dest: inj_onD)
  have "distinct (ch q)" using tree_repD(7)[OF rep q(1)] by simp
  then have "set (remove1 b (ch q)) = set (ch q) - {b}" by simp
  then have "tree_blocks xs (ch(q := remove1 b (ch q))) = tree_blocks xs ch - {b}"
    using other False q by (auto simp: tree_blocks_def split: if_splits)
  with del show ?thesis by blast
qed

text \<open>Deletion refines set difference for a block without a chain below it and for any
  block inside a chain: the tree stays well-formed (order, links, chains, root), exactly that
  block is gone and no size changes.\<close>

theorem heap_tree_delete_blocks:
  assumes rep: "tree_rep m t xs ch" and sep: "nodes_sep t N" and N: "tree_blocks xs ch \<subseteq> N"
    and b: "b \<in> tree_blocks xs ch" "b \<in> set xs \<Longrightarrow> ch b = []"
  shows "\<exists>xs' ch'. tree_rep (heap_tree_delete m t b) t xs' ch' \<and>
     tree_blocks xs' ch' = tree_blocks xs ch - {b} \<and>
     (\<forall>x\<in>N. HEAP_GET_SIZE (heap_tree_delete m t b) x = HEAP_GET_SIZE m x)"
  by (rule tree_delete_rep[OF assms])

text \<open>A tree of two blocks of the same size, the second in the chain of the first.\<close>

lemma two_blocks:
  fixes m :: mem
  defines "m \<equiv> store64 (store64 (store64 (store64 (store64 (\<lambda>_. 0) 0x10008 0x800) 0x20008 0x800)
    0x10020 0x20000) 0x20028 0x10000) 0x1000 0x10000"
  shows "tree_rep m 0x1000 [0x10000] (\<lambda>_. [0x20000])" "nodes_sep 0x1000 {0x10000, 0x20000}"
    "HEAP_GET_SIZE m 0x20000 = 0x800"
  by (simp_all add: m_def tree_rep_def dll_def link_defs frame apart_def HEAP_GET_SIZE_def HEAP_ALIGN_def
    nodes_sep_def node_offsets_def)

theorem heap_tree_delete_blocks_witness:
  "\<exists>m xs' ch'. tree_rep (heap_tree_delete m 0x1000 0x20000) 0x1000 xs' ch' \<and> tree_blocks xs' ch' = {0x10000}"
proof -
  obtain m where two: "tree_rep m 0x1000 [0x10000] (\<lambda>_. [0x20000])" "nodes_sep 0x1000 {0x10000, 0x20000}"
    using two_blocks by blast
  have bl: "tree_blocks [0x10000] (\<lambda>_. [0x20000 :: u64]) = {0x10000, 0x20000}" by (auto simp: tree_blocks_def)
  have df: "{0x10000, 0x20000} - {0x20000 :: u64} = {0x10000}" by auto
  from heap_tree_delete_blocks[OF two, of "0x20000"] obtain xs' ch' where
    "tree_rep (heap_tree_delete m 0x1000 0x20000) 0x1000 xs' ch'" "tree_blocks xs' ch' = {0x10000}"
    by (auto simp: bl df)
  then show ?thesis by blast
qed

text \<open>C10. Deleting a block that heads a chain leaves its successor's parent link pointing at the
  deleted block. When the two blocks of equal size of a tree are taken out one after the other,
  taking out the second writes 0 into the payload of the first, whatever its new owner stored
  there (\<open>v\<close>, at payload offset 16), and leaves the second block in the tree, so the search
  hands it out again.\<close>

theorem heap_tree_delete_stale_parent:
  fixes m :: mem and t b c s v :: u64
  assumes rep: "tree_rep m t [b] (\<lambda>_. [c])" and sep: "nodes_sep t {b, c}" and s: "s \<le> HEAP_GET_SIZE m c"
  defines "m1 \<equiv> heap_tree_delete m t b"
  defines "m2 \<equiv> heap_tree_delete (store64 m1 (HEAP_GET_PAYLOAD b + 16) v) t c"
  shows "parent_block m1 c = b \<and> load64 m2 (HEAP_GET_PAYLOAD b + 16) = 0 \<and>
    heap_tree_search m2 t s = Some c"
proof -
  note N = node_get_set[OF sep] node_set_root[OF sep]
  have root: "load64 m t = b" using rep by (simp add: tree_rep_def)
  have chn: "child_block m b = c" "parent_block m b = 0" "parent_block m c = b" "child_block m c = 0"
    and nz: "b \<noteq> 0" "c \<noteq> 0" "b \<noteq> c" and ls: "larger_block m b = 0" "smaller_block m b = 0"
    "larger_block m c = 0" "smaller_block m c = 0"
    using rep by (auto simp: tree_rep_def dll_def)
  have m1: "m1 = set_smaller (set_larger (set_parent (set_child
      (store64 (set_smaller (set_larger m c 0) c 0) t c) b 0) b 0) b 0) b 0"
    unfolding m1_def heap_tree_delete_def using root chn nz ls by (simp add: N)
  have pay: "store64 m1 (HEAP_GET_PAYLOAD b + 16) v = set_child m1 b v"
    by (simp add: HEAP_GET_PAYLOAD_def set_child_def algebra_simps)
  let ?m = "set_child m1 b v"
  have p: "parent_block m1 c = b" using nz chn by (simp add: m1 N)
  have m2: "m2 = set_smaller (set_larger (set_parent (set_child (set_child ?m b 0) c 0) c 0) c 0) c 0"
    unfolding m2_def pay heap_tree_delete_def using nz chn p by (simp add: m1 N)
  have r2: "load64 m2 t = c" by (simp add: m2 m1 N node_root[OF sep] link_defs node_offsets_simps)
  have c2: "HEAP_GET_SIZE m2 c = HEAP_GET_SIZE m c" "larger_block m2 c = 0" "smaller_block m2 c = 0"
    using nz by (simp_all add: m2 m1 N)
  have "child_block m2 b = 0" using nz by (simp add: m2 N)
  then have "load64 m2 (HEAP_GET_PAYLOAD b + 16) = 0"
    by (simp add: HEAP_GET_PAYLOAD_def child_block_def algebra_simps)
  moreover have "heap_tree_search m2 t s = Some c"
    using s nz r2 c2 by (simp add: heap_tree_search_def larger_walk.simps smaller_walk.simps)
  ultimately show ?thesis using p by simp
qed

theorem heap_tree_delete_stale_parent_witness:
  "\<exists>m. heap_tree_search (heap_tree_delete (store64 (heap_tree_delete m 0x1000 0x10000) 0x10020 42)
      0x1000 0x20000) 0x1000 0x700 = Some 0x20000"
proof -
  note two = two_blocks
  from heap_tree_delete_stale_parent[OF two(1,2), of "0x700" 42] two(3) show ?thesis
    by (auto simp: HEAP_GET_PAYLOAD_def)
qed

end
