(* ===== verification/HeapOps.thy ===== *)
theory HeapOps
  imports HeapTree
begin

text \<open>
  The public operations: the lock protocol and where it deadlocks, the state
  \<^verbatim>\<open>heap_create\<close> sets up, the two block sizes whose list index falls outside the 63
  lists, and the aligned search that accepts a block which ends before the page boundary.
\<close>

section \<open>The lock\<close>

lemma heap_wait_lock_Some:
  assumes "heap_wait_lock m heap = Some m'"
  shows "\<not> heap_locked m heap"
  by (rule heap_wait_lock.raw_induct[where P = "\<lambda>m heap r. \<not> heap_locked m heap", OF _ assms])
     (auto split: if_splits)

lemma heap_wait_lock_locked: "heap_locked m heap \<Longrightarrow> heap_wait_lock m heap = None"
  using heap_wait_lock_Some[of m heap] by (cases "heap_wait_lock m heap") auto

lemma heap_wait_lock_free:
  "\<not> heap_locked m heap \<Longrightarrow>
   heap_wait_lock m heap = Some (store64 m (heap + 24) (load64 m (heap + 24) OR 1))"
  by (subst heap_wait_lock.simps) simp

lemma or_1_and_1: "(x OR 1) AND 1 = (1 :: u64)"
  by (rule bit_word_eqI) (auto simp: bit_simps)

lemma and_not_1_and_1: "(x AND NOT 1) AND 1 = (0 :: u64)"
  by (rule bit_word_eqI) (auto simp: bit_simps)

lemma heap_wait_lock_locks: "heap_wait_lock m heap = Some m' \<Longrightarrow> heap_locked m' heap"
  using heap_wait_lock_Some[of m heap m'] heap_wait_lock_free[of m heap]
  by (auto simp: heap_locked_def or_1_and_1)

lemma heap_unlock_unlocks: "\<not> heap_locked (heap_unlock m heap) heap"
  unfolding heap_locked_def heap_unlock_def load64_store64 and_not_1_and_1 by simp

text \<open>What holds of every result a computation can return.\<close>

definition returns_only :: "('a \<Rightarrow> bool) \<Rightarrow> 'a option \<Rightarrow> bool" where
  "returns_only P r \<longleftrightarrow> (\<forall>x. r = Some x \<longrightarrow> P x)"

lemma returns_only_rules:
  "(\<And>x. returns_only P (f x)) \<Longrightarrow> returns_only P (Option.bind a f)"
  "returns_only P c \<Longrightarrow> returns_only P d \<Longrightarrow> returns_only P (if q then c else d)"
  "(\<And>x y. returns_only P (g x y)) \<Longrightarrow> returns_only P (case p of (x, y) \<Rightarrow> g x y)"
  "P z \<Longrightarrow> returns_only P (Some z)"
  by (auto simp: returns_only_def bind_eq_Some_conv split: prod.splits)

lemma heap_alloc_unlocks: "returns_only (\<lambda>(m', r). \<not> heap_locked m' heap) (heap_alloc pa m heap sz al)"
  unfolding heap_alloc_def Let_def
  by (intro returns_only_rules) (simp_all add: heap_unlock_unlocks)

lemma heap_free_unlocks:
  "ptr \<noteq> 0 \<Longrightarrow> HEAP_CHECK_HEADER m (HEAP_PAYLOAD_HEADER ptr) \<Longrightarrow>
   returns_only (\<lambda>m'. \<not> heap_locked m' heap) (heap_free m heap ptr)"
  unfolding heap_free_def Let_def
  by (simp, intro returns_only_rules) (simp_all add: heap_unlock_unlocks)

lemma aligned_fit_wraps:
  assumes "HEAP_GET_SIZE m b < aligned_left b" "48 \<le> aligned_left b" "aligned_left b < 0x1000"
    and "bsize \<le> 2 ^ 63"
  shows "aligned_fit m b bsize"
proof -
  have u: "unat (HEAP_GET_SIZE m b) < unat (aligned_left b)" "unat (aligned_left b) < 0x1000"
    using assms by (auto simp: word_less_nat_alt)
  then have "unat (HEAP_GET_SIZE m b - aligned_left b)
      = 2 ^ 64 + unat (HEAP_GET_SIZE m b) - unat (aligned_left b)" by (simp add: unat_sub_if')
  then have "9223372036854775808 \<le> unat (HEAP_GET_SIZE m b - aligned_left b)" using u by simp
  then have "2 ^ 63 \<le> HEAP_GET_SIZE m b - aligned_left b" by (simp add: word_le_nat_alt)
  then show ?thesis using assms by (simp add: aligned_fit_def)
qed

section \<open>The fresh heap\<close>

lemma clear_slots_frame: "(\<And>i. 0 \<le> i \<Longrightarrow> i \<le> int n \<Longrightarrow> apart a (free_slot heap i)) \<Longrightarrow>
    load64 (clear_slots n m heap) a = load64 m a"
  by (induction n) (simp_all add: frame)

lemma slots_apart:
  assumes "unat heap + 544 \<le> 2 ^ 64" "0 \<le> i" "i < 64" "0 \<le> j" "j < 64" "i \<noteq> j"
  shows "apart (free_slot heap i) (free_slot heap j)"
proof -
  have "nat i \<noteq> nat j" "nat i < 64" "nat j < 64" using assms by auto
  then show ?thesis
    using unat_slot[OF assms(1-3)] unat_slot[OF assms(1,4,5)] assms(1)
      apartI[of "free_slot heap i" "free_slot heap j"] apartI[of "free_slot heap j" "free_slot heap i"]
    by linarith
qed

lemma clear_slots_zero:
  assumes "unat heap + 544 \<le> 2 ^ 64" "n < 64" "0 \<le> i" "i \<le> int n"
  shows "load64 (clear_slots n m heap) (free_slot heap i) = 0"
  using assms
proof (induction n)
  case 0
  then show ?case by simp
next
  case (Suc n)
  show ?case
  proof (cases "i = int (Suc n)")
    case False
    then have "apart (free_slot heap i) (free_slot heap (int (Suc n)))"
      using Suc.prems by (intro slots_apart) auto
    then show ?thesis using Suc False by (simp add: frame del: of_nat_Suc)
  qed simp
qed

lemma slot_below:
  assumes "unat heap + 544 \<le> 2 ^ 64" "0 \<le> i" "i < 64" "unat a + 8 \<le> unat heap + 32"
  shows "apart a (free_slot heap i)"
  using unat_slot[OF assms(1-3)] assms apartI[of a "free_slot heap i"] by linarith

lemma heap_layout_nodes: "heap_layout heap N \<Longrightarrow> nodes_sep (tree_slot heap) N"
proof -
  assume lay: "heap_layout heap N"
  have "c \<le> 40" if "c \<in> node_offsets" for c using that by (auto simp: node_offsets_def)
  then show ?thesis
    using cells_apart[OF lay] by (simp add: nodes_sep_def tree_slot_def)
qed

lemma clear_node_frame:
  "(\<And>c. c \<in> {16, 24, 32, 40} \<Longrightarrow> apart a (b + c)) \<Longrightarrow> load64 (clear_node m b) a = load64 m a"
  by (simp add: clear_node_def link_defs frame)

lemma load64_block_frame:
  assumes "addrs a 8 \<inter> tag_bytes p (HEAP_ALIGN s) = {}"
  shows "load64 (heap_create_block m p s) a = load64 m a"
  by (rule load64_cong) (use assms heap_create_block_frame in blast)

section \<open>Properties\<close>

text \<open>C11. The lock protocol: an operation entered while the lock is held never returns, and
  whenever \<^verbatim>\<open>heap_alloc\<close>, or \<^verbatim>\<open>heap_free\<close> of a valid block, does return, on any
  path and whatever the page allocator did, the lock is free again.\<close>

theorem heap_lock_protocol:
  "(heap_locked m heap \<longrightarrow> heap_alloc pa m heap sz al = None \<and>
      (ptr \<noteq> 0 \<and> HEAP_CHECK_HEADER m (HEAP_PAYLOAD_HEADER ptr) \<longrightarrow> heap_free m heap ptr = None)) \<and>
   (heap_alloc pa m heap sz al = Some (m', r) \<longrightarrow> \<not> heap_locked m' heap) \<and>
   (ptr \<noteq> 0 \<and> HEAP_CHECK_HEADER m (HEAP_PAYLOAD_HEADER ptr) \<and> heap_free m heap ptr = Some m''
      \<longrightarrow> \<not> heap_locked m'' heap)"
proof (intro conjI impI)
  assume "heap_locked m heap"
  then have w: "heap_wait_lock m heap = None" by (rule heap_wait_lock_locked)
  then show "heap_alloc pa m heap sz al = None" by (simp add: heap_alloc_def)
  assume "ptr \<noteq> 0 \<and> HEAP_CHECK_HEADER m (HEAP_PAYLOAD_HEADER ptr)"
  with w show "heap_free m heap ptr = None" by (simp add: heap_free_def Let_def)
next
  assume "heap_alloc pa m heap sz al = Some (m', r)"
  then show "\<not> heap_locked m' heap"
    using heap_alloc_unlocks[of heap pa m sz al] by (simp add: returns_only_def)
next
  assume "ptr \<noteq> 0 \<and> HEAP_CHECK_HEADER m (HEAP_PAYLOAD_HEADER ptr) \<and> heap_free m heap ptr = Some m''"
  then show "\<not> heap_locked m'' heap"
    using heap_free_unlocks[of ptr m heap] by (simp add: returns_only_def)
qed

theorem heap_lock_protocol_witness:
  "\<exists>m. heap_locked m 0x1000 \<and> heap_alloc (\<lambda>_ _ _. None) m 0x1000 8 False = None"
proof -
  let ?m = "store64 (\<lambda>_. 0) 0x1018 1"
  have "heap_locked ?m 0x1000" by (simp add: heap_locked_def)
  with heap_lock_protocol[of ?m "0x1000" "\<lambda>_ _ _. None" 8 False] show ?thesis by blast
qed

text \<open>C12. \<^verbatim>\<open>heap_realloc\<close> can only shrink: it takes the heap lock and then calls
  \<^verbatim>\<open>heap_alloc\<close>, which waits for the same lock, so unless the block is already larger
  than the requested size the call never returns.\<close>

theorem heap_realloc_grow_deadlock:
  assumes "heap_alloc_size m ptr \<le> HEAP_ALIGN sz"
  shows "heap_realloc pa m heap ptr sz al = None"
proof (cases "heap_wait_lock m heap")
  case None
  with assms show ?thesis by (simp add: heap_realloc_def Let_def not_less [symmetric])
next
  case (Some m1)
  then have "heap_alloc pa m1 heap (HEAP_BSIZE (HEAP_ALIGN sz)) al = None"
    using heap_wait_lock_locked[OF heap_wait_lock_locks] by (simp add: heap_alloc_def)
  with Some assms show ?thesis by (simp add: heap_realloc_def Let_def not_less [symmetric])
qed

theorem heap_realloc_grow_deadlock_witness:
  "\<exists>m. heap_alloc_size m 0x10010 = 32 \<and>
     heap_realloc (\<lambda>_ _ _. None) m 0x1000 0x10010 64 False = None"
proof -
  let ?m = "heap_create_block (\<lambda>_. 0) 0x10000 64"
  have "block ?m 0x10000 64"
    using heap_create_block_tags(2)[of 64 "\<lambda>_. 0" "0x10000"] by (simp add: HEAP_ALIGN_def)
  then have "heap_alloc_size ?m 0x10010 = 32"
    by (simp add: heap_alloc_size_def HEAP_PAYLOAD_HEADER_def block_def HEAP_PSIZE_def HEAP_ALIGN_def)
  with heap_realloc_grow_deadlock[of ?m "0x10010" 64 "\<lambda>_ _ _. None" "0x1000" False]
  show ?thesis by (auto simp: HEAP_ALIGN_def)
qed

text \<open>C13. Two block sizes have a list index outside the 63 lists. A free block of 1040 bytes is
  entered under index 63, the root of the tree of large blocks, and a free block of 1056 bytes
  under index 64, past the array: \<^verbatim>\<open>heap_insert\<close> then overwrites the magic number of
  the first block of the heap, which no longer passes the sanity check. Every smaller block
  size gets an index between 1 and 62.\<close>

theorem heap_list_index_overflow:
  "(\<forall>s. 48 \<le> s \<and> s < 1040 \<longrightarrow> 1 \<le> HEAP_SIZE_IDX s \<and> HEAP_SIZE_IDX s \<le> 62) \<and>
   free_slot heap (HEAP_SIZE_IDX 1040) = tree_slot heap \<and>
   free_slot heap (HEAP_SIZE_IDX 1056) = heap + SIZEOF_HEAP_T \<and>
   (HEAP_GET_SIZE m b = 1056 \<and> b \<noteq> HEAP_MAGIC \<longrightarrow>
     (\<exists>m'. heap_insert m heap b = Some m' \<and> \<not> HEAP_CHECK_HEADER m' (heap + SIZEOF_HEAP_T)))"
proof (intro conjI allI impI)
  fix s :: u64
  assume "48 \<le> s \<and> s < 1040"
  then have s: "48 \<le> unat s" "unat s < 1040" "32 \<le> s" "s \<le> 1056"
    by (auto simp: word_le_nat_alt word_less_nat_alt)
  then have "HEAP_SIZE_IDX s = int ((unat s - 32) div 16)" by (simp add: HEAP_SIZE_IDX_eq)
  moreover have "1 \<le> (unat s - 32) div 16" "(unat s - 32) div 16 \<le> 62" using s by auto
  ultimately show "1 \<le> HEAP_SIZE_IDX s" "HEAP_SIZE_IDX s \<le> 62" by linarith+
next
  have i: "HEAP_SIZE_IDX 1040 = 63" "HEAP_SIZE_IDX 1056 = 64" by (simp_all add: HEAP_SIZE_IDX_eq)
  then show "free_slot heap (HEAP_SIZE_IDX 1040) = tree_slot heap"
    "free_slot heap (HEAP_SIZE_IDX 1056) = heap + SIZEOF_HEAP_T"
    by (simp_all add: tree_slot_def free_slot_def)
  assume b: "HEAP_GET_SIZE m b = 1056 \<and> b \<noteq> HEAP_MAGIC"
  have "free_slot heap 64 = heap + 544" by (simp add: free_slot_def)
  then obtain m0 where "heap_insert m heap b = Some (store64 m0 (heap + 544) b)"
    using b i by (simp add: heap_insert_def list_push_def Let_def)
  then show "\<exists>m'. heap_insert m heap b = Some m' \<and> \<not> HEAP_CHECK_HEADER m' (heap + SIZEOF_HEAP_T)"
    using b by (simp add: HEAP_CHECK_HEADER_def)
qed

theorem heap_list_index_overflow_witness:
  "\<exists>m m'. HEAP_GET_SIZE m 0x10000 = 1056 \<and> heap_insert m 0x1000 0x10000 = Some m' \<and>
     \<not> HEAP_CHECK_HEADER m' 0x1220"
proof -
  let ?m = "store64 (\<lambda>_. 0) 0x10008 1056"
  have "HEAP_GET_SIZE ?m 0x10000 = 1056" by (simp add: HEAP_GET_SIZE_def HEAP_ALIGN_def)
  with heap_list_index_overflow[of "0x1000" ?m "0x10000"] show ?thesis
    by (auto simp: HEAP_MAGIC_def)
qed

text \<open>The aligned search hands out blocks that do not reach the page boundary: the
  subtraction that computes the right-hand part wraps around, so a block that ends before the
  page boundary of its payload passes the test, is returned by \<^verbatim>\<open>heap_search\<close>, and the
  block \<^verbatim>\<open>heap_alloc\<close> carves out of it starts at or past its end, in memory that belongs
  to other blocks.\<close>

theorem heap_aligned_search_short_block:
  assumes b: "load64 m (tree_slot heap) = b" "b \<noteq> 0" "1056 < bsize" "bsize \<le> HEAP_GET_SIZE m b"
    and na: "\<not> HEAP_IS_PAGE_ALIGNED (HEAP_GET_PAYLOAD b)"
    and short: "HEAP_GET_SIZE m b < aligned_left b" "aligned_left b < 0x1000"
  shows "heap_search m heap bsize True = Some b \<and>
    (\<forall>m' p. carve_aligned m heap b = Some (m', p) \<longrightarrow>
       p = b + aligned_left b \<and> HEAP_GET_SIZE m b \<le> p - b)"
proof
  have "48 \<le> aligned_left b" using b(3,4) short by unat_arith
  moreover have "bsize \<le> 2 ^ 63" using b short by unat_arith
  ultimately have fit: "aligned_fit m b bsize" using aligned_fit_wraps short by blast
  have "HEAP_SIZE_IDX bsize < 0" using b by (simp add: HEAP_SIZE_IDX_large)
  moreover have "larger_walk m b bsize = Some b" using b by (subst larger_walk.simps) (simp add: not_less [symmetric])
  moreover have "\<not> HEAP_GET_SIZE m b < bsize" using b by (meson not_le)
  moreover have "aligned_walk m b bsize = Some b"
    using b na fit by (subst aligned_walk.simps) (simp add: child_walk.simps)
  ultimately show "heap_search m heap bsize True = Some b"
    using b by (simp add: heap_search_def heap_tree_search_aligned_def)
  show "\<forall>m' p. carve_aligned m heap b = Some (m', p) \<longrightarrow>
       p = b + aligned_left b \<and> HEAP_GET_SIZE m b \<le> p - b"
    using short by (auto simp: carve_aligned_def Let_def aligned_left_def bind_eq_Some_conv)
qed

theorem heap_aligned_search_short_block_witness:
  "\<exists>m. HEAP_GET_SIZE m 0x10010 = 0x800 \<and> heap_search m 0x1000 0x500 True = Some 0x10010"
proof -
  let ?m = "store64 (store64 (\<lambda>_. 0) 0x10018 0x800) (tree_slot 0x1000) 0x10010"
  have t: "tree_slot 0x1000 = 0x1218" by (simp add: tree_slot_def free_slot_def)
  have s: "HEAP_GET_SIZE ?m 0x10010 = 0x800"
    unfolding t by (simp add: HEAP_GET_SIZE_def HEAP_ALIGN_def frame apart_def)
  have l: "aligned_left 0x10010 = 0xFE0" by (simp add: aligned_left_def PAGE_SIZE_ALIGN_def HEAP_GET_PAYLOAD_def)
  from heap_aligned_search_short_block[of ?m "0x1000" "0x10010" "0x500"] s l show ?thesis
    by (auto simp: HEAP_IS_PAGE_ALIGNED_def HEAP_GET_PAYLOAD_def)
qed

text \<open>The stores that make a block the only one of the tree: its four links and the root. They
  leave everything below the block alone, and its tags.\<close>

lemma root_store_low:
  assumes "unat a + 8 \<le> unat b" "unat b + 48 \<le> 2 ^ 64" "apart a t"
  shows "load64 (store64 (clear_node m b) t b) a = load64 m a"
proof -
  have "load64 (clear_node m b) a = load64 m a"
  proof (rule clear_node_frame)
    fix c :: u64 assume "c \<in> {16, 24, 32, 40}"
    then have "c \<le> 40" by auto
    then have "unat (b + c) = unat b + unat c" "unat c \<le> 40"
      using assms(2) by (auto simp: unat_offset word_le_nat_alt)
    then show "apart a (b + c)" using apartI[of a "b + c"] assms(1,2) by linarith
  qed
  then show ?thesis unfolding load64_store64_apart[OF assms(3)] .
qed

lemma root_store_tag:
  assumes d: "unat d \<le> 8 \<or> 48 \<le> unat d" and b: "unat b + unat d + 8 \<le> 2 ^ 64" "unat b + 48 \<le> 2 ^ 64"
    and t: "unat t + 8 \<le> unat b"
  shows "load64 (store64 (clear_node m b) t b) (b + d) = load64 m (b + d)"
proof -
  have bd: "unat (b + d) = unat b + unat d" using b by (simp add: unat_word_ariths)
  have ap: "apart (b + d) t" using apartI[of t "b + d"] bd t b(1) by linarith
  have "load64 (clear_node m b) (b + d) = load64 m (b + d)"
  proof (rule clear_node_frame)
    fix c :: u64 assume "c \<in> {16, 24, 32, 40}"
    then have "unat (b + c) = unat b + unat c" "16 \<le> unat c" "unat c \<le> 40"
      using b(2) by (auto simp: unat_word_ariths)
    then show "apart (b + d) (b + c)"
      using apartI[of "b + c" "b + d"] apartI[of "b + d" "b + c"] bd d b by linarith
  qed
  then show ?thesis unfolding load64_store64_apart[OF ap] .
qed

lemma root_store_block:
  assumes blk: "block m b s" and s: "64 \<le> unat s" "unat b + unat s \<le> 2 ^ 64" and t: "unat t + 8 \<le> unat b"
  shows "block (store64 (clear_node m b) t b) b s"
    and "load64 (store64 (clear_node m b) t b) (b + 8) = load64 m (b + 8)"
proof -
  let ?m = "store64 (clear_node m b) t b"
  have tag: "load64 ?m (b + d) = load64 m (b + d)" if "unat d \<le> 8 \<or> 48 \<le> unat d" "unat d + 8 \<le> unat s" for d
    by (rule root_store_tag) (use that s t in auto)
  have w: "unat (s - 16) = unat s - 16" "unat (s - 8) = unat s - 8" using s by (simp_all add: unat_sub word_le_nat_alt)
  show eight: "load64 ?m (b + 8) = load64 m (b + 8)" by (rule tag) (use s in simp_all)
  show "block ?m b s"
  proof (rule block_cells[OF _ eight _ _ blk])
    have "load64 ?m (b + 0) = load64 m (b + 0)" by (rule tag) (use s in simp_all)
    then show "load64 ?m b = load64 m b" by (simp only: add_0_right)
    show "load64 ?m (b + (s - 16)) = load64 m (b + (s - 16))" by (rule tag; unfold w; use s in linarith)
    show "load64 ?m (b + (s - 8)) = load64 m (b + (s - 8))" by (rule tag; unfold w; use s in linarith)
  qed
qed

text \<open>What \<^verbatim>\<open>heap_create\<close> has written before it inserts its block: bounds, lock, lists and tags.\<close>

definition fresh_cells :: "mem \<Rightarrow> u64 \<Rightarrow> u64 \<Rightarrow> u64 \<Rightarrow> mem" where
  "fresh_cells m start sz max_size =
     heap_create_block (clear_slots HEAP_LIST_COUNT (store64 (store64 (store64 (store64 m start (start + 544))
       (start + 8) (start + 544 + (sz - 544))) (start + 16) (start + 544 + (max_size - 544))) (start + 24) 0) start)
       (start + 544) (sz - 544)"

lemma fresh_cells_get:
  assumes top: "unat start + unat sz \<le> 2 ^ 64" and sz: "1600 < unat sz" and al: "HEAP_ALIGN (sz - 544) = sz - 544"
  shows "load64 (fresh_cells m start sz max_size) start = start + 544"
    "load64 (fresh_cells m start sz max_size) (start + 8) = start + sz"
    "load64 (fresh_cells m start sz max_size) (start + 24) = 0"
    "0 \<le> i \<Longrightarrow> i < 64 \<Longrightarrow> load64 (fresh_cells m start sz max_size) (free_slot start i) = 0"
    "block (fresh_cells m start sz max_size) (start + 544) (sz - 544)"
    "load64 (fresh_cells m start sz max_size) (start + 544 + 8) = sz - 544"
proof -
  let ?b = "start + 544" and ?s = "sz - 544"
  let ?m0 = "store64 (store64 (store64 (store64 m start ?b) (start + 8) (?b + ?s))
     (start + 16) (?b + (max_size - 544))) (start + 24) 0"
  let ?m1 = "clear_slots HEAP_LIST_COUNT ?m0 start"
  let ?m2 = "fresh_cells m start sz max_size"
  have m2: "?m2 = heap_create_block ?m1 ?b ?s" by (simp only: fresh_cells_def)
  have t544: "unat start + 544 \<le> 2 ^ 64" using top sz by linarith
  have us: "unat ?s = unat sz - 544" using sz by (simp add: unat_sub word_le_nat_alt)
  have ub: "unat ?b = unat start + 544" using top sz by (simp add: unat_word_ariths)
  have big: "32 \<le> ?s" using sz us by (simp add: word_le_nat_alt)
  have cell: "unat (start + 8) = unat start + 8" "unat (start + 24) = unat start + 24"
    using t544 by (simp_all add: unat_word_ariths)
  have tags: "tag_bytes ?b ?s \<subseteq> addrs ?b (unat ?s)" by (rule tag_bytes_subset[OF big])
  have out: "addrs a 8 \<inter> tag_bytes ?b (HEAP_ALIGN ?s) = {}" if "unat a + 8 \<le> unat start + 544" for a
    unfolding al using addrs_disjointI(1)[of a 8 ?b "unat ?s"] that ub us top sz tags by auto
  have keep: "load64 ?m2 a = load64 ?m0 a" if "unat a + 8 \<le> unat start + 32" for a
    using that slot_below[OF t544 _ _ that] unfolding m2
    by (subst load64_block_frame[OF out]) (auto intro!: clear_slots_frame)
  show "load64 ?m2 (free_slot start i) = 0" if "0 \<le> i" "i < 64"
    using that unat_slot[OF t544 that] clear_slots_zero[OF t544, of 63 i] unfolding m2
    by (subst load64_block_frame[OF out]) auto
  have ap: "apart start (start + 24)" "apart start (start + 16)" "apart start (start + 8)"
    "apart (start + 8) (start + 24)" "apart (start + 8) (start + 16)"
    by (simp_all add: frame apart_def)
  show "load64 ?m2 start = ?b" "load64 ?m2 (start + 8) = start + sz" "load64 ?m2 (start + 24) = 0"
    using keep[of start] keep[of "start + 8"] keep[of "start + 24"] cell ap by (simp_all add: frame)
  show "block ?m2 ?b ?s" "load64 ?m2 (?b + 8) = ?s"
    using heap_create_block_tags[of ?s ?m1 ?b] al big unfolding m2 by simp_all
qed

lemma heap_create_returns:
  assumes top: "unat start + unat sz \<le> 2 ^ 64" and sz: "1600 < sz" "HEAP_ALIGN sz = sz"
  shows "\<exists>m'. heap_create m start sz max_size = Some (m', start) \<and>
    \<not> heap_locked m' start \<and> start_addr m' start = start + 544 \<and> end_addr m' start = start + sz \<and>
    free_lists m' start (\<lambda>_. []) \<and>
    tree_rep m' (tree_slot start) [start + 544] (\<lambda>_. []) \<and>
    block m' (start + 544) (sz - 544) \<and> HEAP_GET_USED m' (start + 544) = 0"
proof -
  let ?b = "start + 544" and ?s = "sz - 544" and ?t = "tree_slot start"
  let ?m2 = "fresh_cells m start sz max_size"
  let ?m3 = "store64 (clear_node ?m2 ?b) ?t ?b"
  have u: "1600 < unat sz" using sz by (simp add: word_less_nat_alt)
  have t544: "unat start + 544 \<le> 2 ^ 64" using top u by linarith
  have us: "unat ?s = unat sz - 544" using u by (simp add: unat_sub word_le_nat_alt)
  have ub: "unat ?b = unat start + 544" using top u by (simp add: unat_word_ariths)
  have ts: "unat ?t = unat start + 536" using unat_slot[OF t544, of 63] by (simp add: tree_slot_def)
  have al: "HEAP_ALIGN ?s = ?s"
  proof (rule HEAP_ALIGN_fixI)
    have "16 dvd unat sz" using sz(2) HEAP_ALIGN_dvd[of sz] by simp
    then show "16 dvd unat ?s" unfolding us by (rule dvd_diff_nat) simp
  qed
  note g = fresh_cells_get[where m = m and max_size = max_size, OF top u al]
  have big: "1056 < ?s" "48 \<le> ?s" using u us by (simp_all add: word_less_nat_alt word_le_nat_alt)
  have gs: "HEAP_GET_SIZE ?m2 ?b = ?s" using g(5) by (simp add: block_def)
  have sep: "nodes_sep ?t {?b}"
    by (rule heap_layout_nodes) (use t544 top u ub in \<open>simp add: heap_layout_def\<close>)
  have "load64 ?m2 ?t = 0" using g(4)[of 63] by (simp add: tree_slot_def)
  then have ins: "heap_insert ?m2 start ?b = Some ?m3"
    using big gs heap_tree_insert_eq[OF sep, of ?b ?m2]
    by (simp add: heap_insert_def HEAP_SIZE_IDX_large Let_def)
  have "start_addr (clear_slots HEAP_LIST_COUNT (store64 (store64 (store64 (store64 m start ?b) (start + 8) (?b + ?s))
     (start + 16) (?b + (max_size - 544))) (start + 24) 0) start) start = ?b"
    using slot_below[OF t544, of _ start] by (subst start_addr_def, subst clear_slots_frame) (auto simp: frame apart_def)
  with ins have cr: "heap_create m start sz max_size = Some (?m3, start)"
    by (simp add: heap_create_def Let_def fresh_cells_def)
  have low: "load64 ?m3 a = load64 ?m2 a" if "unat a + 8 \<le> unat start + 544" "apart a ?t" for a
    by (rule root_store_low) (use that ub us u top in auto)
  have below: "apart a ?t" if "unat a + 8 \<le> unat start + 32" for a
    using slot_below[OF t544 _ _ that, of 63] by (simp add: tree_slot_def)
  have cell: "unat (start + 8) = unat start + 8" "unat (start + 24) = unat start + 24"
    using t544 by (simp_all add: unat_word_ariths)
  have "load64 ?m3 (start + 24) = 0" "load64 ?m3 start = ?b" "load64 ?m3 (start + 8) = start + sz"
    using low below g cell by simp_all
  then have state: "\<not> heap_locked ?m3 start" "start_addr ?m3 start = start + 544" "end_addr ?m3 start = start + sz"
    by (simp_all add: heap_locked_def start_addr_def end_addr_def)
  have "load64 ?m3 h = 0" if h: "h \<in> slots start" for h
  proof -
    obtain i where i: "h = free_slot start i" "0 \<le> i" "i < 63" using h unfolding slots_def by fastforce
    have "apart h ?t" unfolding tree_slot_def i(1) using i t544 by (intro slots_apart) auto
    moreover have "unat h + 8 \<le> unat start + 544" using i unat_slot[OF t544, of i] by simp
    ultimately show ?thesis using low g(4) i by simp
  qed
  then have lists: "free_lists ?m3 start (\<lambda>_. [])" by (simp add: free_lists_def)
  have "?b \<noteq> 0" using ub by (metis add_is_0 unat_0 zero_neq_numeral)
  then have tree: "tree_rep ?m3 ?t [?b] (\<lambda>_. [])"
    by (simp add: tree_rep_def dll_def node_set_root[OF sep] clear_node_get[OF sep])
  have blk: "block ?m3 ?b ?s" "load64 ?m3 (?b + 8) = load64 ?m2 (?b + 8)"
    by (rule root_store_block[OF g(5)]; use us ub ts u top in simp)+
  have "HEAP_GET_USED ?m3 ?b = 0" using align_even[OF al] blk(2) g(6) by (simp add: HEAP_GET_USED_def)
  then show ?thesis using cr state lists tree blk(1) by blast
qed

text \<open>The fresh heap: \<^verbatim>\<open>heap_create\<close> on an aligned region of more than 1600 bytes
  (the loader passes one page) returns the heap at the start of the region with the lock
  free, the bounds of the region behind the \<^verbatim>\<open>heap_t\<close> structure, 63 empty lists, and
  one well-formed block that fills the region and is the only block of the tree.\<close>

theorem heap_create_fresh:
  assumes top: "unat start + unat sz \<le> 2 ^ 64" and sz: "1600 < sz" "HEAP_ALIGN sz = sz"
  shows "\<exists>m'. heap_create m start sz max_size = Some (m', start) \<and>
    \<not> heap_locked m' start \<and> start_addr m' start = start + 544 \<and> end_addr m' start = start + sz \<and>
    free_lists m' start (\<lambda>_. []) \<and>
    tree_rep m' (tree_slot start) [start + 544] (\<lambda>_. []) \<and>
    block m' (start + 544) (sz - 544)"
  using heap_create_returns[OF assms, of m max_size] by blast

theorem heap_create_fresh_witness:
  "\<exists>m'. heap_create (\<lambda>_. 0) 0x103000 0x1000 0x3200000 = Some (m', 0x103000) \<and>
     block m' 0x103220 0xDE0 \<and> tree_rep m' (tree_slot 0x103000) [0x103220] (\<lambda>_. [])"
  using heap_create_fresh[of "0x103000" "0x1000" "\<lambda>_. 0" "0x3200000"]
  by (auto simp: HEAP_ALIGN_def)

end
