(* ===== verification/HeapFrames.thy ===== *)
theory HeapFrames
  imports HeapOps
begin

text \<open>
  What the operations on free blocks write: the list heads, the root, and the links inside free
  blocks, never a boundary tag. With these frames the two structures of free blocks, the lists
  and the tree, become one invariant \<open>free_ok\<close> over the set of free blocks.
\<close>

section \<open>Writes confined to a set\<close>

definition within :: "u64 set \<Rightarrow> mem \<Rightarrow> mem \<Rightarrow> bool" where
  "within A m m' \<longleftrightarrow> (\<forall>x. x \<notin> A \<longrightarrow> m' x = m x)"

lemma within_refl [intro, simp]: "within A m m"
  by (simp add: within_def)

lemma within_trans: "within A m m' \<Longrightarrow> within A m' m'' \<Longrightarrow> within A m m''"
  by (simp add: within_def)

lemma within_mono: "within A m m' \<Longrightarrow> A \<subseteq> B \<Longrightarrow> within B m m'"
  by (auto simp: within_def)

lemma within_store: "addrs a 8 \<subseteq> A \<Longrightarrow> within A m m' \<Longrightarrow> within A m (store64 m' a v)"
  unfolding within_def by (metis store64_other subsetD)

lemma within_load: "within A m m' \<Longrightarrow> addrs a 8 \<inter> A = {} \<Longrightarrow> load64 m' a = load64 m a"
  by (rule load64_cong) (auto simp: within_def)

lemma within_UnI: "within A m m' \<Longrightarrow> within B m' m'' \<Longrightarrow> within (A \<union> B) m m''"
  by (auto simp: within_def)

lemma addrs_sub: "addrs (a + of_nat i) n \<subseteq> addrs a (i + n)"
  using sub_addrs by blast

lemma link_sub: "addrs (a + 16) 8 \<subseteq> addrs (a + 16) 16" "addrs (a + 24) 8 \<subseteq> addrs (a + 16) 16"
  "addrs (a + 16) 8 \<subseteq> addrs (a + 16) 32" "addrs (a + 24) 8 \<subseteq> addrs (a + 16) 32"
  "addrs (a + 32) 8 \<subseteq> addrs (a + 16) 32" "addrs (a + 40) 8 \<subseteq> addrs (a + 16) 32"
proof -
  have *: "addrs (a + 16 + of_nat i) 8 \<subseteq> addrs (a + 16) n" if "i + 8 \<le> n" for i n
    using addrs_sub[of "a + 16" i 8] addrs_mono[OF that] by (rule order_trans)
  show "addrs (a + 16) 8 \<subseteq> addrs (a + 16) 16" "addrs (a + 24) 8 \<subseteq> addrs (a + 16) 16"
    "addrs (a + 16) 8 \<subseteq> addrs (a + 16) 32" "addrs (a + 24) 8 \<subseteq> addrs (a + 16) 32"
    "addrs (a + 32) 8 \<subseteq> addrs (a + 16) 32" "addrs (a + 40) 8 \<subseteq> addrs (a + 16) 32"
    using *[of 0 16] *[of 8 16] *[of 0 32] *[of 8 32] *[of 16 32] *[of 24 32] by (simp_all add: add.assoc)
qed

section \<open>Lists\<close>

definition list_cells :: "u64 set \<Rightarrow> u64 set \<Rightarrow> u64 set" where
  "list_cells H N = (\<Union>h\<in>H. addrs h 8) \<union> (\<Union>b\<in>N. addrs (b + 16) 16)"

lemma list_cells_store:
  "h \<in> H \<Longrightarrow> within (list_cells H N) m m' \<Longrightarrow> within (list_cells H N) m (store64 m' h v)"
  "a \<in> N \<Longrightarrow> within (list_cells H N) m m' \<Longrightarrow> within (list_cells H N) m (set_prev m' a v)"
  "a \<in> N \<Longrightarrow> within (list_cells H N) m m' \<Longrightarrow> within (list_cells H N) m (set_next m' a v)"
  unfolding link_defs using link_sub[of a] by (blast intro: within_store list_cells_def[THEN equalityD2, THEN subsetD])+

lemma list_push_within:
  assumes sep: "lists_sep H N" and h: "h \<in> H" and b: "b \<in> N" and hd: "load64 m h = 0 \<or> load64 m h \<in> N"
  shows "within (list_cells H N) m (list_push m h b)"
proof -
  have "next_block (set_next (set_prev m b 0) b (load64 (set_prev m b 0) h)) b = load64 m h"
    using b h by (simp add: hl.laws[OF sep])
  then show ?thesis unfolding list_push_def Let_def using h b hd
    by (auto intro!: list_cells_store)
qed

lemma list_remove_within:
  assumes sep: "lists_sep H N" and h: "h \<in> H" and b: "b \<in> N"
    and p: "prev_block m b = 0 \<or> prev_block m b \<in> N" "prev_block m b \<noteq> b"
    and n: "next_block m b = 0 \<or> next_block m b \<in> N" "next_block m b \<noteq> b"
  shows "within (list_cells H N) m (list_remove m h b)"
proof -
  have "prev_block (set_prev m (next_block m b) v) b = prev_block m b"
    "next_block (set_prev m (next_block m b) v) b = next_block m b" if "next_block m b \<noteq> 0" for v
    using that n b by (auto simp: hl.laws[OF sep])
  then show ?thesis unfolding list_remove_def Let_def using h b p n
    by (auto intro!: list_cells_store)
qed

section \<open>The tree\<close>

definition tree_cells :: "u64 \<Rightarrow> u64 set \<Rightarrow> u64 set" where
  "tree_cells t N = addrs t 8 \<union> (\<Union>b\<in>N. addrs (b + 16) 32)"

lemma tree_cells_store:
  "within (tree_cells t N) m m' \<Longrightarrow> within (tree_cells t N) m (store64 m' t v)"
  "a \<in> N \<Longrightarrow> within (tree_cells t N) m m' \<Longrightarrow> within (tree_cells t N) m (set_smaller m' a v)"
  "a \<in> N \<Longrightarrow> within (tree_cells t N) m m' \<Longrightarrow> within (tree_cells t N) m (set_larger m' a v)"
  "a \<in> N \<Longrightarrow> within (tree_cells t N) m m' \<Longrightarrow> within (tree_cells t N) m (set_child m' a v)"
  "a \<in> N \<Longrightarrow> within (tree_cells t N) m m' \<Longrightarrow> within (tree_cells t N) m (set_parent m' a v)"
proof -
  show "within (tree_cells t N) m m' \<Longrightarrow> within (tree_cells t N) m (store64 m' t v)"
    by (rule within_store) (auto simp: tree_cells_def)
  assume "a \<in> N" and w: "within (tree_cells t N) m m'"
  then have "addrs (a + 16) 32 \<subseteq> tree_cells t N" by (auto simp: tree_cells_def)
  note * = within_store[OF order_trans[OF _ this] w]
  show "within (tree_cells t N) m (set_smaller m' a v)" "within (tree_cells t N) m (set_larger m' a v)"
    "within (tree_cells t N) m (set_child m' a v)" "within (tree_cells t N) m (set_parent m' a v)"
    unfolding link_defs by (rule *, rule link_sub)+
qed

text \<open>All links of the nodes stay among the nodes.\<close>

definition closed :: "mem \<Rightarrow> u64 \<Rightarrow> u64 set \<Rightarrow> bool" where
  "closed m t N \<longleftrightarrow> load64 m t \<in> insert 0 N \<and> (\<forall>x\<in>N. smaller_block m x \<in> insert 0 N \<and>
     larger_block m x \<in> insert 0 N \<and> child_block m x \<in> insert 0 N \<and> parent_block m x \<in> insert 0 N)"

lemma closed_set:
  assumes "nodes_sep t N" "a \<in> N" "v \<in> insert 0 N" "closed m t N"
  shows "closed (set_smaller m a v) t N" "closed (set_larger m a v) t N"
    "closed (set_child m a v) t N" "closed (set_parent m a v) t N"
  using assms by (auto simp: closed_def node_get_set[OF assms(1)] node_set_root[OF assms(1)])

lemma clear_node_within: "a \<in> N \<Longrightarrow> within (tree_cells t N) m (clear_node m a)"
  unfolding clear_node_def by (intro tree_cells_store within_refl)

lemma tree_insert_loop_within:
  assumes "tree_insert_loop m b s p = Some m'" and sep: "nodes_sep t N" and b: "b \<in> N" and p: "p \<in> N"
    and cl: "closed m t N"
  shows "within (tree_cells t N) m m'"
proof -
  note gs = node_get_set[OF sep]
  have "b \<in> N \<longrightarrow> p \<in> N \<longrightarrow> closed m t N \<longrightarrow> within (tree_cells t N) m m'"
  proof (rule tree_insert_loop.raw_induct[where
        P = "\<lambda>m b s p m'. b \<in> N \<longrightarrow> p \<in> N \<longrightarrow> closed m t N \<longrightarrow> within (tree_cells t N) m m'",
        OF _ assms(1)], goal_cases)
    case (1 loop m b s p m')
    show ?case
    proof (intro impI)
      assume nodes: "b \<in> N" "p \<in> N" and cl: "closed m t N"
      then have f: "smaller_block m p \<noteq> 0 \<Longrightarrow> smaller_block m p \<in> N" "larger_block m p \<noteq> 0 \<Longrightarrow> larger_block m p \<in> N"
        "child_block m p \<noteq> 0 \<Longrightarrow> child_block m p \<in> N" unfolding closed_def by blast+
      have ih: "loop m b s q = Some m' \<Longrightarrow> q \<in> N \<Longrightarrow> within (tree_cells t N) m m'" for q
        using 1(1) nodes(1) cl by blast
      show "within (tree_cells t N) m m'"
        using 1(2) f ih nodes by (auto simp: Let_def gs split: if_splits intro!: tree_cells_store)
    qed
  qed
  then show ?thesis using b p cl by blast
qed

lemma heap_tree_insert_within:
  assumes ins: "heap_tree_insert m t b = Some (m', r)" and sep: "nodes_sep t N" and b: "b \<in> N"
    and s: "48 \<le> HEAP_GET_SIZE m b" and cl: "closed (clear_node m b) t N"
  shows "within (tree_cells t N) m m'"
proof (cases "load64 m t = 0")
  case True
  then show ?thesis
    using ins heap_tree_insert_eq[OF sep b s] clear_node_within[OF b, of t m] tree_cells_store(1) by auto
next
  case False
  then obtain m1 where m1: "tree_insert_loop (clear_node m b) b (HEAP_GET_SIZE m b) (load64 m t) = Some m1" "m' = m1"
    using ins heap_tree_insert_eq[OF sep b s] by (auto split: Option.bind_splits)
  have "load64 m t \<in> N" using cl False by (auto simp: closed_def clear_node_get[OF sep b])
  from tree_insert_loop_within[OF m1(1) sep b this cl]
  show ?thesis unfolding m1(2) using clear_node_within[OF b, of t m] within_trans by blast
qed

lemma heap_tree_delete_within:
  assumes sep: "nodes_sep t N" and b: "b \<in> N" and cl: "closed m t N"
    and ne: "smaller_block m b \<noteq> b" "larger_block m b \<noteq> b" "child_block m b \<noteq> b" "parent_block m b \<noteq> b"
  shows "within (tree_cells t N) m (heap_tree_delete m t b)"
proof -
  note gs = node_get_set[OF sep]
  have f: "smaller_block m b \<noteq> 0 \<Longrightarrow> smaller_block m b \<in> N" "larger_block m b \<noteq> 0 \<Longrightarrow> larger_block m b \<in> N"
    "child_block m b \<noteq> 0 \<Longrightarrow> child_block m b \<in> N" "parent_block m b \<noteq> 0 \<Longrightarrow> parent_block m b \<in> N"
    using cl b unfolding closed_def by blast+
  show ?thesis
    by (cases "parent_block m b = 0"; cases "child_block m b = 0"; cases "smaller_block m b = 0";
        cases "larger_block m b = 0")
       (use b f ne in \<open>auto simp: heap_tree_delete_def Let_def gs intro!: tree_cells_store\<close>)
qed

text \<open>A represented tree is closed.\<close>

lemma dll_closed: "dll nx pv h xs \<Longrightarrow> x \<in> set xs \<Longrightarrow> nx x \<in> insert 0 (set xs) \<and> pv x \<in> insert 0 (set xs)"
proof -
  assume d: "dll nx pv h xs" and x: "x \<in> set xs"
  obtain ys zs where xs: "xs = ys @ x # zs" using split_list[OF x] by blast
  have "nx x = (if zs = [] then 0 else hd zs)" by (rule dll_next[OF d[unfolded xs]])
  moreover have "pv x = (if ys = [] then 0 else last ys)" by (rule dll_prev[OF d[unfolded xs]])
  ultimately show ?thesis unfolding xs by (cases "zs = []"; cases "ys = []"; simp)
qed

lemma dll_nonself:
  assumes "dll nx pv h xs" "distinct xs" "x \<in> set xs"
  shows "nx x \<noteq> x \<and> pv x \<noteq> x"
proof -
  obtain ys zs where xs: "xs = ys @ x # zs" using split_list[OF assms(3)] by blast
  have "nx x = (if zs = [] then 0 else hd zs)" by (rule dll_next[OF assms(1)[unfolded xs]])
  moreover have "pv x = (if ys = [] then 0 else last ys)" by (rule dll_prev[OF assms(1)[unfolded xs]])
  moreover have "x \<noteq> 0" using dll_nonzero[OF assms(1)] assms(3) by metis
  ultimately show ?thesis using assms(2) unfolding xs by (cases "zs = []"; cases "ys = []"; auto)
qed

lemma tree_rep_closed:
  assumes rep: "tree_rep m t xs ch"
  shows "closed m t (tree_blocks xs ch)"
proof -
  have "load64 m t \<in> insert 0 (tree_blocks xs ch)"
    using rep by (auto simp: tree_rep_def tree_blocks_def split: if_splits)
  moreover have "smaller_block m x \<in> insert 0 (tree_blocks xs ch) \<and> larger_block m x \<in> insert 0 (tree_blocks xs ch) \<and>
      child_block m x \<in> insert 0 (tree_blocks xs ch) \<and> parent_block m x \<in> insert 0 (tree_blocks xs ch)"
    if x: "x \<in> tree_blocks xs ch" for x
  proof -
    obtain p where p: "p \<in> set xs" "x \<in> set (p # ch p)" using x by (auto simp: tree_blocks_def)
    note D = tree_repD[OF rep p(1)]
    have "set (p # ch p) \<subseteq> tree_blocks xs ch" "set xs \<subseteq> tree_blocks xs ch"
      using p(1) by (auto simp: tree_blocks_def)
    moreover have "child_block m x \<in> insert 0 (set (p # ch p)) \<and> parent_block m x \<in> insert 0 (set (p # ch p))"
      by (rule dll_closed[OF D(6) p(2)])
    moreover have "larger_block m x \<in> insert 0 (set xs) \<and> smaller_block m x \<in> insert 0 (set xs)"
    proof (cases "x = p")
      case True then show ?thesis using dll_closed[OF D(3) p(1)] by simp
    next
      case False then show ?thesis using D(8)[of x] p(2) by simp
    qed
    ultimately show ?thesis by blast
  qed
  ultimately show ?thesis unfolding closed_def by blast
qed

lemma tree_rep_nonself:
  assumes rep: "tree_rep m t xs ch" and x: "x \<in> tree_blocks xs ch"
  shows "smaller_block m x \<noteq> x" "larger_block m x \<noteq> x" "child_block m x \<noteq> x" "parent_block m x \<noteq> x"
proof -
  obtain p where p: "p \<in> set xs" "x \<in> set (p # ch p)" using x by (auto simp: tree_blocks_def)
  note D = tree_repD[OF rep p(1)]
  have "child_block m x \<noteq> x \<and> parent_block m x \<noteq> x" by (rule dll_nonself[OF D(6,7) p(2)])
  then show "child_block m x \<noteq> x" "parent_block m x \<noteq> x" by simp_all
  have "x \<noteq> 0" using dll_nonzero[OF D(6)] p(2) by metis
  then have "larger_block m x \<noteq> x \<and> smaller_block m x \<noteq> x"
    using dll_nonself[OF D(3) tree_rep_distinct[OF rep] p(1)] D(8)[of x] p(2) by (cases "x = p") auto
  then show "smaller_block m x \<noteq> x" "larger_block m x \<noteq> x" by simp_all
qed

section \<open>Geometry\<close>

lemma in_addrs_nat: "unat a + n \<le> 2 ^ 64 \<Longrightarrow> x \<in> addrs a n \<longleftrightarrow> unat a \<le> unat x \<and> unat x < unat a + n"
proof
  assume top: "unat a + n \<le> 2 ^ 64" and x: "unat a \<le> unat x \<and> unat x < unat a + n"
  then have "unat (x - a) = unat x - unat a" by (simp add: unat_sub word_le_nat_alt)
  then show "x \<in> addrs a n" using x by (simp add: addrs_def less_diff_conv2)
qed (rule addrs_nowrap)

lemma lay_blocks:
  assumes "heap_layout heap F" "a \<in> F" "b \<in> F" "a \<noteq> b"
  shows "addrs a 48 \<inter> addrs b 48 = {}"
proof -
  have "unat a + 48 \<le> unat b \<or> unat b + 48 \<le> unat a" "unat a + 48 \<le> 2 ^ 64" "unat b + 48 \<le> 2 ^ 64"
    using assms by (auto simp: heap_layout_def)
  then show ?thesis using addrs_disjointI(1)[of a 48 b 48] addrs_disjointI(2)[of b 48 a 48] by blast
qed

lemma lay_heap:
  assumes "heap_layout heap F" "a \<in> F"
  shows "addrs heap 544 \<inter> addrs a 48 = {}"
  using assms by (intro addrs_disjointI(1)) (auto simp: heap_layout_def)

lemma cell_sub: "addrs (a + 8) 8 \<subseteq> addrs a 48" "addrs (a + 16) 16 \<subseteq> addrs a 48" "addrs (a + 16) 32 \<subseteq> addrs a 48"
  "addrs (a + 16) 8 \<subseteq> addrs a 48" "addrs (a + 24) 8 \<subseteq> addrs a 48" "addrs (a + 32) 8 \<subseteq> addrs a 48" "addrs (a + 40) 8 \<subseteq> addrs a 48"
proof -
  have *: "addrs (a + of_nat i) n \<subseteq> addrs a 48" if "i + n \<le> 48" for i n
    using addrs_sub[of a i n] addrs_mono[OF that] by (rule order_trans)
  show "addrs (a + 8) 8 \<subseteq> addrs a 48" "addrs (a + 16) 16 \<subseteq> addrs a 48" "addrs (a + 16) 32 \<subseteq> addrs a 48"
    "addrs (a + 16) 8 \<subseteq> addrs a 48" "addrs (a + 24) 8 \<subseteq> addrs a 48" "addrs (a + 32) 8 \<subseteq> addrs a 48" "addrs (a + 40) 8 \<subseteq> addrs a 48"
    using *[of 8 8] *[of 16 16] *[of 16 32] *[of 16 8] *[of 24 8] *[of 32 8] *[of 40 8] by simp_all
qed

lemma cell_own: "addrs (a + 8) 8 \<inter> addrs (a + 16) 32 = {}" "addrs (a + 8) 8 \<inter> addrs (a + 16) 16 = {}"
proof -
  have "addrs (a + 8) 8 \<inter> addrs (a + 8 + 8) 32 = {}" using addrs_adjacent[of 8 32 "a + 8"] by simp
  then show "addrs (a + 8) 8 \<inter> addrs (a + 16) 32 = {}" by (simp add: add.assoc)
  then show "addrs (a + 8) 8 \<inter> addrs (a + 16) 16 = {}" using addrs_mono[of 16 32 "a + 16"] by auto
qed

lemma slot_sub:
  assumes "unat heap + 544 \<le> 2 ^ 64" "0 \<le> i" "i < 64"
  shows "addrs (free_slot heap i) 8 \<subseteq> addrs (heap + 32) 512" "addrs (heap + 32) 512 \<subseteq> addrs heap 544"
proof -
  have u: "unat (heap + 32) = unat heap + 32" using assms(1) by (simp add: unat_word_ariths)
  show "addrs (free_slot heap i) 8 \<subseteq> addrs (heap + 32) 512"
    using unat_slot[OF assms] assms u by (auto simp: in_addrs_nat)
  show "addrs (heap + 32) 512 \<subseteq> addrs heap 544"
    using addrs_sub[of heap 32 512] by simp
qed

section \<open>The free blocks\<close>

definition slot_of :: "mem \<Rightarrow> u64 \<Rightarrow> u64 \<Rightarrow> u64" where
  "slot_of m heap b = free_slot heap (HEAP_SIZE_IDX (HEAP_GET_SIZE m b))"

definition small :: "u64 \<Rightarrow> bool" where
  "small s \<longleftrightarrow> 48 \<le> s \<and> s < 1040"

text \<open>The free blocks are \<open>F\<close>: each is of a size that has a list, and is in it, or larger than
  the lists hold, and in the tree. Nothing is free with 1040 or 1056 bytes.\<close>

definition free_ok :: "mem \<Rightarrow> u64 \<Rightarrow> u64 set \<Rightarrow> bool" where
  "free_ok m heap F \<longleftrightarrow> heap_layout heap F \<and>
     (\<forall>b\<in>F. b \<noteq> 0 \<and> (small (HEAP_GET_SIZE m b) \<or> 1056 < HEAP_GET_SIZE m b)) \<and>
     (\<exists>L xs ch. free_lists m heap L \<and> tree_rep m (tree_slot heap) xs ch \<and>
        (\<forall>h\<in>slots heap. set (L h) = {b \<in> F. small (HEAP_GET_SIZE m b) \<and> slot_of m heap b = h}) \<and>
        tree_blocks xs ch = {b \<in> F. 1056 < HEAP_GET_SIZE m b})"

text \<open>What operations on them write.\<close>

definition free_cells :: "mem \<Rightarrow> u64 \<Rightarrow> u64 set \<Rightarrow> u64 set" where
  "free_cells m heap F =
     addrs (heap + 32) 512 \<union> (\<Union>b\<in>F. addrs (b + 16) (if 1056 < HEAP_GET_SIZE m b then 32 else 16))"

lemma small_not_large: "small s \<Longrightarrow> \<not> 1056 < s"
  by (simp add: small_def word_less_nat_alt)

lemma small_idx:
  assumes "small s" "HEAP_ALIGN s = s"
  shows "HEAP_SIZE_IDX s = int ((unat s - 32) div 16)" "0 \<le> HEAP_SIZE_IDX s" "HEAP_SIZE_IDX s < 63"
proof -
  have u: "48 \<le> unat s" "unat s < 1040" using assms by (simp_all add: small_def word_le_nat_alt word_less_nat_alt)
  show e: "HEAP_SIZE_IDX s = int ((unat s - 32) div 16)"
    by (rule HEAP_SIZE_IDX_eq) (use u in \<open>simp_all add: word_le_nat_alt\<close>)
  show "0 \<le> HEAP_SIZE_IDX s" "HEAP_SIZE_IDX s < 63" using u unfolding e by simp_all
qed

lemma size_aligned: "HEAP_ALIGN (HEAP_GET_SIZE m b) = HEAP_GET_SIZE m b"
  by (simp add: HEAP_GET_SIZE_def)

lemma slot_of_in: "small (HEAP_GET_SIZE m b) \<Longrightarrow> slot_of m heap b \<in> slots heap"
  unfolding slot_of_def by (rule slot_in) (rule small_idx(2,3)[OF _ size_aligned], assumption)+

lemma free_ok_layout: "free_ok m heap F \<Longrightarrow> heap_layout heap F"
  by (simp add: free_ok_def)

lemma layout_mono: "heap_layout heap F \<Longrightarrow> G \<subseteq> F \<Longrightarrow> heap_layout heap G"
  unfolding heap_layout_def by blast

lemma layout_top: "heap_layout heap F \<Longrightarrow> unat heap + 544 \<le> 2 ^ 64"
  by (simp add: heap_layout_def)

lemma slot_cell:
  "heap_layout heap F \<Longrightarrow> h \<in> slots heap \<Longrightarrow> addrs h 8 \<subseteq> addrs (heap + 32) 512"
  "heap_layout heap F \<Longrightarrow> addrs (tree_slot heap) 8 \<subseteq> addrs (heap + 32) 512"
  using slot_sub(1)[OF layout_top, of heap F 63] slot_sub(1)[OF layout_top, of heap F]
  unfolding slots_def tree_slot_def by fastforce+

lemma tree_slot_apart: "heap_layout heap F \<Longrightarrow> h \<in> slots heap \<Longrightarrow> addrs h 8 \<inter> addrs (tree_slot heap) 8 = {}"
proof -
  assume lay: "heap_layout heap F" and "h \<in> slots heap"
  then obtain i where i: "h = free_slot heap i" "0 \<le> i" "i < 63" unfolding slots_def by fastforce
  then have "apart h (tree_slot heap)"
    unfolding tree_slot_def i(1) using layout_top[OF lay] by (intro slots_apart) auto
  then show ?thesis by (rule apart_disjoint)
qed

text \<open>A change that leaves the heads and the cells of the free blocks alone keeps \<open>free_ok\<close>.\<close>

lemma free_fields_cong:
  assumes "\<forall>x\<in>addrs a 48. m' x = m x"
  shows "HEAP_GET_SIZE m' a = HEAP_GET_SIZE m a" "prev_block m' a = prev_block m a" "next_block m' a = next_block m a"
    "smaller_block m' a = smaller_block m a" "larger_block m' a = larger_block m a"
    "child_block m' a = child_block m a" "parent_block m' a = parent_block m a"
proof -
  have c: "load64 m' b = load64 m b" if "addrs b 8 \<subseteq> addrs a 48" for b
    by (rule load64_cong) (use that assms in blast)
  show "HEAP_GET_SIZE m' a = HEAP_GET_SIZE m a" "prev_block m' a = prev_block m a" "next_block m' a = next_block m a"
    "smaller_block m' a = smaller_block m a" "larger_block m' a = larger_block m a"
    "child_block m' a = child_block m a" "parent_block m' a = parent_block m a"
    by (simp_all add: HEAP_GET_SIZE_def link_defs c cell_sub)
qed

lemma free_ok_cong:
  assumes ok: "free_ok m heap F" and h: "\<And>x. x \<in> addrs (heap + 32) 512 \<Longrightarrow> m' x = m x"
    and b: "\<And>a x. a \<in> F \<Longrightarrow> x \<in> addrs a 48 \<Longrightarrow> m' x = m x"
  shows "free_ok m' heap F"
proof -
  obtain L xs ch where L: "free_lists m heap L" and T: "tree_rep m (tree_slot heap) xs ch"
    and Ls: "\<forall>h\<in>slots heap. set (L h) = {b \<in> F. small (HEAP_GET_SIZE m b) \<and> slot_of m heap b = h}"
    and Ts: "tree_blocks xs ch = {b \<in> F. 1056 < HEAP_GET_SIZE m b}"
    using ok unfolding free_ok_def by blast
  note lay = free_ok_layout[OF ok]
  have "\<forall>x\<in>addrs a 48. m' x = m x" if "a \<in> F" for a using b[OF that] by blast
  note g = free_fields_cong[OF this]
  have hd: "load64 m' k = load64 m k" if "k \<in> slots heap \<or> k = tree_slot heap" for k
    by (rule load64_cong) (use that slot_cell[OF lay] h in blast)
  have "free_lists m' heap L"
  proof -
    have "dll (next_block m') (prev_block m') (load64 m k) (L k) = dll (next_block m) (prev_block m) (load64 m k) (L k)"
      if "k \<in> slots heap" for k
      by (rule dll_cong) (use Ls that g in auto)
    then show ?thesis using L hd by (simp add: free_lists_def)
  qed
  moreover have "tree_rep m' (tree_slot heap) xs ch"
  proof (subst tree_rep_cong[of m])
    show "same_fields m m' (tree_blocks xs ch)" using g Ts by (simp add: same_fields_def)
  qed (use T hd in simp_all)
  moreover have s: "HEAP_GET_SIZE m' x = HEAP_GET_SIZE m x" if "x \<in> F" for x using g that by blast
  then have "slot_of m' heap x = slot_of m heap x" if "x \<in> F" for x using that by (simp add: slot_of_def)
  ultimately show ?thesis
    using ok Ls Ts s unfolding free_ok_def
    by (intro conjI exI[of _ L] exI[of _ xs] exI[of _ ch]) (auto simp: cong: conj_cong)
qed

text \<open>Nothing in the lists overlaps the tree.\<close>

lemma list_tree_apart:
  assumes lay: "heap_layout heap F" and A: "A \<subseteq> F" and x: "x \<in> F" "x \<notin> A"
  shows "addrs x 48 \<inter> list_cells (slots heap) A = {}" "addrs x 48 \<inter> tree_cells (tree_slot heap) A = {}"
proof -
  have "addrs x 48 \<inter> addrs (a + 16) n = {}" if "a \<in> A" "n = 16 \<or> n = 32" for a n
    using lay_blocks[OF lay x(1), of a] that A x(2) cell_sub[of a] by blast
  moreover have "addrs x 48 \<inter> addrs (heap + 32) 512 = {}"
    using lay_heap[OF lay x(1)] slot_sub(2)[OF layout_top[OF lay], of 0] by auto
  ultimately show "addrs x 48 \<inter> list_cells (slots heap) A = {}" "addrs x 48 \<inter> tree_cells (tree_slot heap) A = {}"
    using slot_cell[OF lay] unfolding list_cells_def tree_cells_def by fast+
qed

lemma cell_in_heap: "heap_layout heap F \<Longrightarrow> addrs (heap + 32) 512 \<inter> addrs (a + 16) 32 = {}" if "a \<in> F"
  using lay_heap[of heap F a] that cell_sub(3)[of a] slot_sub(2)[of heap 0] layout_top[of heap F] by auto

text \<open>An operation on the lists of the small blocks \<open>A\<close> keeps the tree, and one on the tree
  of the large blocks \<open>A\<close> keeps the lists.\<close>

lemma list_op_keeps_tree:
  assumes lay: "heap_layout heap F" and A: "A \<subseteq> F" and w: "within (list_cells (slots heap) A) m m'"
    and T: "tree_rep m (tree_slot heap) xs ch" and TF: "tree_blocks xs ch \<subseteq> F" "tree_blocks xs ch \<inter> A = {}"
  shows "tree_rep m' (tree_slot heap) xs ch"
proof (subst tree_rep_cong[of m])
  have "\<forall>y\<in>addrs x 48. m' y = m y" if "x \<in> tree_blocks xs ch" for x
    using list_tree_apart(1)[OF lay A, of x] that TF w unfolding within_def by blast
  from free_fields_cong[OF this] show "same_fields m m' (tree_blocks xs ch)"
    by (simp add: same_fields_def)
  have "addrs (tree_slot heap) 8 \<inter> addrs (a + 16) 16 = {}" if "a \<in> A" for a
    using cell_in_heap[OF _ lay, of a] that A addrs_mono[of 16 32 "a + 16"] slot_cell(2)[OF lay] by auto
  then have "addrs (tree_slot heap) 8 \<inter> list_cells (slots heap) A = {}"
    using tree_slot_apart[OF lay] unfolding list_cells_def by blast
  then show "load64 m' (tree_slot heap) = load64 m (tree_slot heap)" by (rule within_load[OF w])
qed (rule T)

lemma tree_op_keeps_lists:
  assumes lay: "heap_layout heap F" and A: "A \<subseteq> F" and w: "within (tree_cells (tree_slot heap) A) m m'"
    and L: "free_lists m heap L" and LF: "\<And>h. h \<in> slots heap \<Longrightarrow> set (L h) \<subseteq> F - A"
  shows "free_lists m' heap L"
proof -
  have "\<forall>y\<in>addrs x 48. m' y = m y" if "h \<in> slots heap" "x \<in> set (L h)" for h x
    using list_tree_apart(2)[OF lay A, of x] that LF w unfolding within_def by blast
  note g = free_fields_cong[OF this]
  have "addrs h 8 \<inter> addrs (a + 16) 32 = {}" if "h \<in> slots heap" "a \<in> A" for h a
    using cell_in_heap[OF _ lay, of a] that A slot_cell(1)[OF lay] by blast
  then have "addrs h 8 \<inter> tree_cells (tree_slot heap) A = {}" if "h \<in> slots heap" for h
    using tree_slot_apart[OF lay that] that unfolding tree_cells_def by blast
  then have hd: "load64 m' h = load64 m h" if "h \<in> slots heap" for h using within_load[OF w] that by blast
  have "dll (next_block m') (prev_block m') (load64 m h) (L h) = dll (next_block m) (prev_block m) (load64 m h) (L h)"
    if "h \<in> slots heap" for h
    by (rule dll_cong) (use g[OF that] in auto)
  then show ?thesis using L hd by (simp add: free_lists_def)
qed

lemma op_keeps_size:
  assumes lay: "heap_layout heap F" and A: "A \<subseteq> F" and x: "x \<in> F"
    and w: "within (list_cells (slots heap) A) m m' \<or> within (tree_cells (tree_slot heap) A) m m'"
  shows "HEAP_GET_SIZE m' x = HEAP_GET_SIZE m x"
proof -
  have "addrs (x + 8) 8 \<inter> addrs (a + 16) n = {}" if "a \<in> A" "n = 16 \<or> n = 32" for a n
    using lay_blocks[OF lay x, of a] that A cell_sub[of a] cell_sub(1)[of x] cell_own[of x] by (cases "a = x") blast+
  moreover have "addrs (x + 8) 8 \<inter> addrs (heap + 32) 512 = {}"
    using lay_heap[OF lay x] slot_sub(2)[OF layout_top[OF lay], of 0] cell_sub(1)[of x] by auto
  ultimately have "addrs (x + 8) 8 \<inter> list_cells (slots heap) A = {}" "addrs (x + 8) 8 \<inter> tree_cells (tree_slot heap) A = {}"
    using slot_cell[OF lay] unfolding list_cells_def tree_cells_def by fast+
  with w have "load64 m' (x + 8) = load64 m (x + 8)" using within_load by blast
  then show ?thesis by (simp add: HEAP_GET_SIZE_def)
qed

lemma cells_free:
  assumes lay: "heap_layout heap F" and A: "A \<subseteq> F"
  shows "\<forall>a\<in>A. small (HEAP_GET_SIZE m a) \<Longrightarrow> list_cells (slots heap) A \<subseteq> free_cells m heap F"
    and "\<forall>a\<in>A. 1056 < HEAP_GET_SIZE m a \<Longrightarrow> tree_cells (tree_slot heap) A \<subseteq> free_cells m heap F"
proof -
  have "addrs (a + 16) (if 1056 < HEAP_GET_SIZE m a then 32 else 16) \<subseteq> free_cells m heap F" if "a \<in> A" for a
    using that A unfolding free_cells_def by blast
  moreover have "addrs (heap + 32) 512 \<subseteq> free_cells m heap F" by (simp add: free_cells_def)
  ultimately show "\<forall>a\<in>A. small (HEAP_GET_SIZE m a) \<Longrightarrow> list_cells (slots heap) A \<subseteq> free_cells m heap F"
    "\<forall>a\<in>A. 1056 < HEAP_GET_SIZE m a \<Longrightarrow> tree_cells (tree_slot heap) A \<subseteq> free_cells m heap F"
    using slot_cell[OF lay] small_not_large unfolding list_cells_def tree_cells_def
    by (simp_all add: UN_subset_iff) (metis order_trans)+
qed

lemma free_okE:
  assumes "free_ok m heap F"
  obtains L xs ch where "free_lists m heap L" "tree_rep m (tree_slot heap) xs ch"
    "\<And>h. h \<in> slots heap \<Longrightarrow> set (L h) = {b \<in> F. small (HEAP_GET_SIZE m b) \<and> slot_of m heap b = h}"
    "tree_blocks xs ch = {b \<in> F. 1056 < HEAP_GET_SIZE m b}"
  using assms unfolding free_ok_def by blast

lemma free_okI:
  assumes "heap_layout heap F" "\<And>b. b \<in> F \<Longrightarrow> b \<noteq> 0 \<and> (small (HEAP_GET_SIZE m b) \<or> 1056 < HEAP_GET_SIZE m b)"
    "free_lists m heap L" "tree_rep m (tree_slot heap) xs ch"
    "\<And>h. h \<in> slots heap \<Longrightarrow> set (L h) = {b \<in> F. small (HEAP_GET_SIZE m b) \<and> slot_of m heap b = h}"
    "tree_blocks xs ch = {b \<in> F. 1056 < HEAP_GET_SIZE m b}"
  shows "free_ok m heap F"
  using assms unfolding free_ok_def by blast

text \<open>Taking a block out. A large block must be the only one of its size: the head of a chain
  would leave a stale link behind.\<close>

lemma free_remove_small:
  assumes ok: "free_ok m heap F" and b: "b \<in> F" "small (HEAP_GET_SIZE m b)"
  shows "free_ok (heap_remove m heap b) heap (F - {b}) \<and> within (free_cells m heap F) m (heap_remove m heap b) \<and>
    (\<forall>x\<in>F. HEAP_GET_SIZE (heap_remove m heap b) x = HEAP_GET_SIZE m x)"
proof -
  obtain L xs ch where L: "free_lists m heap L" and T: "tree_rep m (tree_slot heap) xs ch"
    and Ls: "\<And>h. h \<in> slots heap \<Longrightarrow> set (L h) = {b \<in> F. small (HEAP_GET_SIZE m b) \<and> slot_of m heap b = h}"
    and Ts: "tree_blocks xs ch = {b \<in> F. 1056 < HEAP_GET_SIZE m b}"
    by (rule free_okE[OF ok]) blast
  let ?A = "{x \<in> F. small (HEAP_GET_SIZE m x)}" and ?h = "slot_of m heap b" and ?m = "heap_remove m heap b"
  note lay = free_ok_layout[OF ok]
  have A: "?A \<subseteq> F" by blast
  note sep = heap_layout_lists[OF layout_mono[OF lay A]]
  have h: "?h \<in> slots heap" by (rule slot_of_in[OF b(2)])
  have bh: "b \<in> set (L ?h)" using Ls[OF h] b by simp
  have eq: "?m = list_remove m ?h b"
    using small_idx(2)[OF b(2) size_aligned] by (simp add: heap_remove_def slot_of_def Let_def)
  have d: "dll (next_block m) (prev_block m) (load64 m ?h) (L ?h)" "distinct (L ?h)"
    using L h by (auto simp: free_lists_def)
  have N: "set (L k) \<subseteq> ?A" if "k \<in> slots heap" for k using Ls[OF that] by auto
  have w: "within (list_cells (slots heap) ?A) m ?m"
    unfolding eq using list_remove_within[OF sep h] dll_closed[OF d(1) bh] dll_nonself[OF d bh] N[OF h] b by blast
  have sz: "HEAP_GET_SIZE ?m x = HEAP_GET_SIZE m x" if "x \<in> F" for x
    using op_keeps_size[OF lay A that] w by blast
  have L': "free_lists ?m heap (L(?h := remove1 b (L ?h)))"
    using hl.unlink_family(1)[of "slots heap" ?A m L ?h b] sep L N h bh
    unfolding eq list_remove_eq by (simp add: free_lists_eq)
  have T': "tree_rep ?m (tree_slot heap) xs ch"
    by (rule list_op_keeps_tree[OF lay A w T]) (use Ts small_not_large in auto)
  have "free_ok ?m heap (F - {b})"
  proof (rule free_okI[OF layout_mono[OF lay] _ L' T'])
    show "tree_blocks xs ch = {x \<in> F - {b}. 1056 < HEAP_GET_SIZE ?m x}"
      using Ts sz small_not_large[OF b(2)] by auto
    show "x \<noteq> 0 \<and> (small (HEAP_GET_SIZE ?m x) \<or> 1056 < HEAP_GET_SIZE ?m x)" if "x \<in> F - {b}" for x
      using ok that sz by (simp add: free_ok_def)
    fix k assume k: "k \<in> slots heap"
    have "set (remove1 b (L ?h)) = set (L ?h) - {b}" using d(2) by simp
    then show "set ((L(?h := remove1 b (L ?h))) k) = {x \<in> F - {b}. small (HEAP_GET_SIZE ?m x) \<and> slot_of ?m heap x = k}"
      using Ls[OF k] sz by (auto simp: slot_of_def)
  qed blast
  moreover have "within (free_cells m heap F) m ?m" by (rule within_mono[OF w cells_free(1)[OF lay A]]) simp
  ultimately show ?thesis using sz by blast
qed

lemma free_remove_large:
  assumes ok: "free_ok m heap F" and b: "b \<in> F" "1056 < HEAP_GET_SIZE m b"
    and one: "\<forall>c\<in>F. HEAP_GET_SIZE m c = HEAP_GET_SIZE m b \<longrightarrow> c = b"
  shows "free_ok (heap_remove m heap b) heap (F - {b}) \<and> within (free_cells m heap F) m (heap_remove m heap b) \<and>
    (\<forall>x\<in>F. HEAP_GET_SIZE (heap_remove m heap b) x = HEAP_GET_SIZE m x)"
proof -
  obtain L xs ch where L: "free_lists m heap L" and T: "tree_rep m (tree_slot heap) xs ch"
    and Ls: "\<And>h. h \<in> slots heap \<Longrightarrow> set (L h) = {b \<in> F. small (HEAP_GET_SIZE m b) \<and> slot_of m heap b = h}"
    and Ts: "tree_blocks xs ch = {b \<in> F. 1056 < HEAP_GET_SIZE m b}"
    by (rule free_okE[OF ok]) blast
  let ?A = "{x \<in> F. 1056 < HEAP_GET_SIZE m x}" and ?t = "tree_slot heap" and ?m = "heap_remove m heap b"
  note lay = free_ok_layout[OF ok]
  have A: "?A \<subseteq> F" by blast
  note sep = heap_layout_nodes[OF layout_mono[OF lay A]]
  have bA: "b \<in> ?A" using b by blast
  have eq: "?m = heap_tree_delete m ?t b"
    using HEAP_SIZE_IDX_large[OF b(2)] by (simp add: heap_remove_def Let_def)
  have bx: "b \<in> tree_blocks xs ch" using Ts bA by simp
  have chb: "ch b = []" if "b \<in> set xs"
  proof (rule ccontr)
    assume "ch b \<noteq> []"
    then obtain c where c: "c \<in> set (ch b)" by (cases "ch b") auto
    then have "c \<in> F" using Ts that by (auto simp: tree_blocks_def)
    moreover have "HEAP_GET_SIZE m c = HEAP_GET_SIZE m b" using tree_repD(8)[OF T that c] by simp
    moreover have "c \<noteq> b" using tree_repD(7)[OF T that] c by auto
    ultimately show False using one by blast
  qed
  have w: "within (tree_cells ?t ?A) m ?m"
    unfolding eq using heap_tree_delete_within[OF sep bA] tree_rep_closed[OF T] tree_rep_nonself[OF T bx] Ts by simp
  have sz: "HEAP_GET_SIZE ?m x = HEAP_GET_SIZE m x" if "x \<in> F" for x
    using op_keeps_size[OF lay A that] w by blast
  obtain xs' ch' where T': "tree_rep ?m ?t xs' ch'" "tree_blocks xs' ch' = tree_blocks xs ch - {b}"
    using tree_delete_rep[OF T sep _ bx chb] Ts unfolding eq by blast
  have L': "free_lists ?m heap L"
    by (rule tree_op_keeps_lists[OF lay A w L]) (use Ls small_not_large in auto)
  have "free_ok ?m heap (F - {b})"
  proof (rule free_okI[OF layout_mono[OF lay] _ L' T'(1)])
    show "tree_blocks xs' ch' = {x \<in> F - {b}. 1056 < HEAP_GET_SIZE ?m x}" using Ts T'(2) sz by auto
    show "x \<noteq> 0 \<and> (small (HEAP_GET_SIZE ?m x) \<or> 1056 < HEAP_GET_SIZE ?m x)" if "x \<in> F - {b}" for x
      using ok that sz by (simp add: free_ok_def)
    fix k assume k: "k \<in> slots heap"
    show "set (L k) = {x \<in> F - {b}. small (HEAP_GET_SIZE ?m x) \<and> slot_of ?m heap x = k}"
      using Ls[OF k] sz b small_not_large by (auto simp: slot_of_def)
  qed blast
  moreover have "within (free_cells m heap F) m ?m" by (rule within_mono[OF w cells_free(2)[OF lay A]]) simp
  ultimately show ?thesis using sz by blast
qed

end
