(* ===== verification/HeapAlloc.thy ===== *)
theory HeapAlloc
  imports HeapFrames
begin

text \<open>
  \<^verbatim>\<open>heap_alloc\<close> on the whole heap. The heap is a run of blocks, used and free, from the end
  of its \<^verbatim>\<open>heap_t\<close> structure to its end address; the free ones are in the structures of
  HeapFrames. An allocation takes the smallest block that fits, splits it, and leaves every
  other block of the run, and the contents of every used one, as they were.
\<close>

section \<open>Entering a block\<close>

lemma free_insert_small:
  assumes ok: "free_ok m heap F" and lay: "heap_layout heap (insert b F)"
    and b: "b \<notin> F" "b \<noteq> 0" "small (HEAP_GET_SIZE m b)"
  shows "\<exists>m'. heap_insert m heap b = Some m' \<and> free_ok m' heap (insert b F) \<and>
    within (free_cells m heap (insert b F)) m m' \<and> (\<forall>x\<in>insert b F. HEAP_GET_SIZE m' x = HEAP_GET_SIZE m x)"
proof -
  obtain L xs ch where L: "free_lists m heap L" and T: "tree_rep m (tree_slot heap) xs ch"
    and Ls: "\<And>h. h \<in> slots heap \<Longrightarrow> set (L h) = {b \<in> F. small (HEAP_GET_SIZE m b) \<and> slot_of m heap b = h}"
    and Ts: "tree_blocks xs ch = {b \<in> F. 1056 < HEAP_GET_SIZE m b}"
    by (rule free_okE[OF ok]) blast
  let ?F = "insert b F" and ?h = "slot_of m heap b"
  let ?A = "{x \<in> ?F. small (HEAP_GET_SIZE m x)}" and ?m = "list_push m ?h b"
  have A: "?A \<subseteq> ?F" by blast
  note sep = heap_layout_lists[OF layout_mono[OF lay A]]
  have h: "?h \<in> slots heap" by (rule slot_of_in[OF b(3)])
  have eq: "heap_insert m heap b = Some ?m"
    using small_idx(2)[OF b(3) size_aligned] by (simp add: heap_insert_def slot_of_def Let_def)
  have N: "set (L k) \<subseteq> ?A" "b \<notin> set (L k)" if "k \<in> slots heap" for k using Ls[OF that] b by auto
  have "dll (next_block m) (prev_block m) (load64 m ?h) (L ?h)" using L h by (simp add: free_lists_def)
  then have "load64 m ?h = 0 \<or> load64 m ?h \<in> set (L ?h)" by (cases "L ?h") (auto dest: dll_head)
  then have w: "within (list_cells (slots heap) ?A) m ?m"
    by (intro list_push_within[OF sep h]) (use N[OF h] b in blast)+
  have sz: "HEAP_GET_SIZE ?m x = HEAP_GET_SIZE m x" if "x \<in> ?F" for x
    using op_keeps_size[OF lay A that] w by blast
  have L': "free_lists ?m heap (L(?h := b # L ?h))"
    using hl.push_family[of "slots heap" ?A m L ?h b] sep L N h b
    unfolding list_push_eq by (simp add: free_lists_eq)
  have T': "tree_rep ?m (tree_slot heap) xs ch"
    by (rule list_op_keeps_tree[OF lay A w T]) (use Ts small_not_large b in auto)
  have "free_ok ?m heap ?F"
  proof (rule free_okI[OF lay _ L' T'])
    show "tree_blocks xs ch = {x \<in> ?F. 1056 < HEAP_GET_SIZE ?m x}"
      using Ts sz small_not_large[OF b(3)] by auto
    show "x \<noteq> 0 \<and> (small (HEAP_GET_SIZE ?m x) \<or> 1056 < HEAP_GET_SIZE ?m x)" if "x \<in> ?F" for x
      using ok that sz b by (auto simp: free_ok_def)
    fix k assume k: "k \<in> slots heap"
    show "set ((L(?h := b # L ?h)) k) = {x \<in> ?F. small (HEAP_GET_SIZE ?m x) \<and> slot_of ?m heap x = k}"
      using Ls[OF k] sz b by (auto simp: slot_of_def)
  qed
  moreover have "within (free_cells m heap ?F) m ?m" by (rule within_mono[OF w cells_free(1)[OF lay A]]) simp
  ultimately show ?thesis using eq sz by blast
qed

lemma free_insert_large:
  assumes ok: "free_ok m heap F" and lay: "heap_layout heap (insert b F)"
    and b: "b \<notin> F" "b \<noteq> 0" "1056 < HEAP_GET_SIZE m b"
  shows "\<exists>m'. heap_insert m heap b = Some m' \<and> free_ok m' heap (insert b F) \<and>
    within (free_cells m heap (insert b F)) m m' \<and> (\<forall>x\<in>insert b F. HEAP_GET_SIZE m' x = HEAP_GET_SIZE m x)"
proof -
  obtain L xs ch where L: "free_lists m heap L" and T: "tree_rep m (tree_slot heap) xs ch"
    and Ls: "\<And>h. h \<in> slots heap \<Longrightarrow> set (L h) = {b \<in> F. small (HEAP_GET_SIZE m b) \<and> slot_of m heap b = h}"
    and Ts: "tree_blocks xs ch = {b \<in> F. 1056 < HEAP_GET_SIZE m b}"
    by (rule free_okE[OF ok]) blast
  let ?F = "insert b F" and ?t = "tree_slot heap"
  let ?A = "{x \<in> ?F. 1056 < HEAP_GET_SIZE m x}"
  have A: "?A \<subseteq> ?F" by blast
  have At: "?A = insert b (tree_blocks xs ch)" using Ts b by auto
  note sep = heap_layout_nodes[OF layout_mono[OF lay A]]
  have bA: "b \<in> ?A" "b \<notin> tree_blocks xs ch" using b Ts by auto
  have s48: "48 \<le> HEAP_GET_SIZE m b" using b(3) by (auto simp: word_le_nat_alt word_less_nat_alt)
  obtain m' xs' ch' where ins: "heap_tree_insert m ?t b = Some (m', True)" and T': "tree_rep m' ?t xs' ch'"
    and B: "tree_blocks xs' ch' = insert b (tree_blocks xs ch)"
    using tree_insert_rep[OF T sep _ bA b(2) s48] At by blast
  have eq: "heap_insert m heap b = Some m'"
    using HEAP_SIZE_IDX_large[OF b(3)] ins by (simp add: heap_insert_def Let_def)
  have "closed (clear_node m b) ?t (insert b (tree_blocks xs ch))"
    using tree_rep_closed[OF T] unfolding closed_def
    by (auto simp: clear_node_get[OF sep[unfolded At] insertI1])
  then have w: "within (tree_cells ?t ?A) m m'" unfolding At[symmetric] by (rule heap_tree_insert_within[OF ins sep bA(1) s48])
  have sz: "HEAP_GET_SIZE m' x = HEAP_GET_SIZE m x" if "x \<in> ?F" for x
    using op_keeps_size[OF lay A that] w by blast
  have L': "free_lists m' heap L"
    by (rule tree_op_keeps_lists[OF lay A w L]) (use Ls small_not_large b in auto)
  have "free_ok m' heap ?F"
  proof (rule free_okI[OF lay _ L' T'])
    show "tree_blocks xs' ch' = {x \<in> ?F. 1056 < HEAP_GET_SIZE m' x}" using Ts B sz b by auto
    show "x \<noteq> 0 \<and> (small (HEAP_GET_SIZE m' x) \<or> 1056 < HEAP_GET_SIZE m' x)" if "x \<in> ?F" for x
      using ok that sz b by (auto simp: free_ok_def)
    fix k assume k: "k \<in> slots heap"
    show "set (L k) = {x \<in> ?F. small (HEAP_GET_SIZE m' x) \<and> slot_of m' heap x = k}"
      using Ls[OF k] sz b small_not_large by (auto simp: slot_of_def)
  qed
  moreover have "within (free_cells m heap ?F) m m'" by (rule within_mono[OF w cells_free(2)[OF lay A]]) simp
  ultimately show ?thesis using eq sz by blast
qed

section \<open>Best fit\<close>

lemma search_lists_first:
  "\<exists>r. search_lists m heap s False i = Some r \<and>
     (if \<exists>j. i \<le> j \<and> j < 63 \<and> load64 m (free_slot heap (int j)) \<noteq> 0
      then \<exists>j. i \<le> j \<and> j < 63 \<and> r = load64 m (free_slot heap (int j)) \<and> r \<noteq> 0 \<and>
        (\<forall>k. i \<le> k \<and> k < j \<longrightarrow> load64 m (free_slot heap (int k)) = 0)
      else r = 0)"
proof (induction "63 - i" arbitrary: i rule: less_induct)
  case less
  let ?h = "\<lambda>j. load64 m (free_slot heap (int j))"
  consider "63 \<le> i" | "i < 63" "?h i \<noteq> 0" | "i < 63" "?h i = 0" by linarith
  then show ?case
  proof cases
    case 1
    then show ?thesis by (subst search_lists.simps) auto
  next
    case 2
    then show ?thesis by (subst search_lists.simps) (auto intro!: exI[of _ i])
  next
    case 3
    then have step: "search_lists m heap s False i = search_lists m heap s False (Suc i)"
      by (subst search_lists.simps) simp
    have le: "i \<le> j \<longleftrightarrow> j = i \<or> Suc i \<le> j" for j by auto
    have "63 - Suc i < 63 - i" using 3 by simp
    from less[OF this] show ?thesis unfolding step using 3 unfolding le by (auto split: if_splits)
  qed
qed

definition size_idx :: "u64 \<Rightarrow> nat" where
  "size_idx s = (unat s - 32) div 16"

lemma size_idx_less:
  assumes "HEAP_ALIGN s = s" "HEAP_ALIGN s' = s'" "32 \<le> s" "32 \<le> s'"
  shows "size_idx s \<le> size_idx s' \<longleftrightarrow> s \<le> s'"
proof -
  obtain k k' where "unat s = 16 * k" "unat s' = 16 * k'"
    using HEAP_ALIGN_dvd[of s] HEAP_ALIGN_dvd[of s'] assms by (auto elim!: dvdE)
  then show ?thesis using assms(3,4) unfolding size_idx_def word_le_nat_alt by auto
qed

lemma slot_of_eq: "small (HEAP_GET_SIZE m b) \<Longrightarrow> slot_of m heap b = free_slot heap (int (size_idx (HEAP_GET_SIZE m b)))"
  by (simp add: slot_of_def size_idx_def small_idx(1) size_aligned)

lemma size_idx_small: "small s \<Longrightarrow> size_idx s < 63"
  by (auto simp: small_def size_idx_def word_le_nat_alt word_less_nat_alt)

lemma slot_inj:
  assumes "unat heap + 544 \<le> 2 ^ 64" "i < 64" "j < 64"
  shows "free_slot heap (int i) = free_slot heap (int j) \<longleftrightarrow> i = j"
proof
  assume e: "free_slot heap (int i) = free_slot heap (int j)"
  have "unat (free_slot heap (int k)) = unat heap + 32 + 8 * k" if "k < 64" for k
    using unat_slot[OF assms(1) of_nat_0_le_iff, of k] that by (simp only: nat_int)
  from this[OF assms(2)] this[OF assms(3)] show "i = j" unfolding e by linarith
qed simp

lemma head_block:
  assumes ok: "free_ok m heap F" and j: "j < 63"
  defines "r \<equiv> load64 m (free_slot heap (int j))"
  shows "r \<noteq> 0 \<Longrightarrow> r \<in> F \<and> small (HEAP_GET_SIZE m r) \<and> size_idx (HEAP_GET_SIZE m r) = j"
    and "r = 0 \<Longrightarrow> x \<in> F \<Longrightarrow> small (HEAP_GET_SIZE m x) \<Longrightarrow> size_idx (HEAP_GET_SIZE m x) \<noteq> j"
proof -
  let ?h = "free_slot heap (int j)"
  obtain L where L: "free_lists m heap L"
    and Ls: "\<And>h. h \<in> slots heap \<Longrightarrow> set (L h) = {b \<in> F. small (HEAP_GET_SIZE m b) \<and> slot_of m heap b = h}"
    by (rule free_okE[OF ok]) blast
  note top = layout_top[OF free_ok_layout[OF ok]]
  have h: "?h \<in> slots heap" using slot_in[of "int j"] j by simp
  have d: "dll (next_block m) (prev_block m) r (L ?h)" using L h by (simp add: free_lists_def r_def)
  have idx: "slot_of m heap x = ?h \<longleftrightarrow> size_idx (HEAP_GET_SIZE m x) = j" if "small (HEAP_GET_SIZE m x)" for x
    using slot_of_eq[OF that] slot_inj[OF top] size_idx_small[OF that] j by simp
  show "r \<in> F \<and> small (HEAP_GET_SIZE m r) \<and> size_idx (HEAP_GET_SIZE m r) = j" if "r \<noteq> 0"
  proof -
    have "r \<in> set (L ?h)" using d that by (cases "L ?h") (auto dest: dll_head)
    then show ?thesis using Ls[OF h] idx by blast
  qed
  show "size_idx (HEAP_GET_SIZE m x) \<noteq> j" if "r = 0" "x \<in> F" "small (HEAP_GET_SIZE m x)"
  proof -
    have "L ?h = []" using d that(1) dll_head by (cases "L ?h") (fastforce dest: dll_nonzero)+
    then show ?thesis using Ls[OF h] idx that by fastforce
  qed
qed

lemma free_search:
  assumes ok: "free_ok m heap F" and s: "HEAP_ALIGN s = s" "48 \<le> s"
  shows "\<exists>r. heap_search m heap s False = Some r \<and>
    (if \<exists>x\<in>F. s \<le> HEAP_GET_SIZE m x
     then r \<in> F \<and> s \<le> HEAP_GET_SIZE m r \<and> (\<forall>x\<in>F. s \<le> HEAP_GET_SIZE m x \<longrightarrow> HEAP_GET_SIZE m r \<le> HEAP_GET_SIZE m x)
     else r = 0)"
proof -
  obtain xs ch where T: "tree_rep m (tree_slot heap) xs ch"
    and Ts: "tree_blocks xs ch = {b \<in> F. 1056 < HEAP_GET_SIZE m b}"
    by (rule free_okE[OF ok]) blast
  obtain t where t: "heap_tree_search m (tree_slot heap) s = Some t" and
    tr: "if \<forall>x\<in>tree_blocks xs ch. HEAP_GET_SIZE m x < s then t = 0
     else t \<in> tree_blocks xs ch \<and> s \<le> HEAP_GET_SIZE m t \<and>
       (\<forall>x\<in>tree_blocks xs ch. s \<le> HEAP_GET_SIZE m x \<longrightarrow> HEAP_GET_SIZE m t \<le> HEAP_GET_SIZE m x)"
    using tree_search_rep[OF T] by blast
  let ?Z = "HEAP_GET_SIZE m"
  have F: "x \<noteq> 0" "small (?Z x) \<or> 1056 < ?Z x" if "x \<in> F" for x using ok that by (auto simp: free_ok_def)
  have s32: "32 \<le> s" using s(2) by (auto simp: word_le_nat_alt)
  have le: "size_idx s \<le> size_idx (?Z x) \<longleftrightarrow> s \<le> ?Z x"
    "size_idx (?Z y) \<le> size_idx (?Z x) \<longleftrightarrow> ?Z y \<le> ?Z x"
    if "small (?Z x)" "small (?Z y)" for x y
    using that s32 by (intro size_idx_less s size_aligned; auto simp: small_def word_le_nat_alt)+
  show ?thesis
  proof (cases "\<exists>x\<in>F. small (?Z x) \<and> s \<le> ?Z x")
    case True
    then obtain x where x: "x \<in> F" "small (?Z x)" "s \<le> ?Z x" by blast
    have "s \<le> 1056" using x by (auto simp: small_def word_le_nat_alt word_less_nat_alt)
    then have i: "HEAP_SIZE_IDX s = int (size_idx s)" by (simp add: size_idx_def HEAP_SIZE_IDX_eq[OF s32])
    let ?h = "\<lambda>j. load64 m (free_slot heap (int j))"
    have "?h (size_idx (?Z x)) \<noteq> 0" using head_block(2)[OF ok size_idx_small[OF x(2)] _ x(1,2)] by blast
    then have "\<exists>j. size_idx s \<le> j \<and> j < 63 \<and> ?h j \<noteq> 0" using le(1) x size_idx_small by blast
    then obtain j where j: "size_idx s \<le> j" "j < 63" "?h j \<noteq> 0" "search_lists m heap s False (size_idx s) = Some (?h j)"
      "\<forall>k. size_idx s \<le> k \<and> k < j \<longrightarrow> ?h k = 0"
      using search_lists_first[of m heap s "size_idx s"] by auto
    have r: "?h j \<in> F" "small (?Z (?h j))" "size_idx (?Z (?h j)) = j" using head_block(1)[OF ok j(2,3)] by blast+
    have "?Z (?h j) \<le> ?Z y" if y: "y \<in> F" "s \<le> ?Z y" for y
      using F(2)[OF y(1)]
    proof
      assume sm: "small (?Z y)"
      have "?h (size_idx (?Z y)) \<noteq> 0" using head_block(2)[OF ok size_idx_small[OF sm] _ y(1) sm] by blast
      then have "j \<le> size_idx (?Z y)" using j(5) le(1)[OF sm sm] y(2) by (meson not_le)
      then show ?thesis using le(2)[OF sm r(2)] r(3) by simp
    next
      assume "1056 < ?Z y" then show ?thesis using r(2) by (auto simp: small_def word_le_nat_alt word_less_nat_alt)
    qed
    then show ?thesis using j i r le(1)[OF r(2,2)] x by (auto simp: heap_search_def)
  next
    case False
    have "heap_search m heap s False = Some t"
    proof (cases "s \<le> 1056")
      case True
      then have i: "HEAP_SIZE_IDX s = int (size_idx s)" by (simp add: size_idx_def HEAP_SIZE_IDX_eq[OF s32])
      have "search_lists m heap s False (size_idx s) = Some 0"
        using search_lists_first[of m heap s "size_idx s"] head_block(1)[OF ok] False le(1) by (auto split: if_splits) metis
      then show ?thesis using i t by (simp add: heap_search_def)
    next
      case False
      then show ?thesis using t by (simp add: heap_search_def HEAP_SIZE_IDX_def)
    qed
    moreover have "x \<in> tree_blocks xs ch" if "x \<in> F" "s \<le> ?Z x" for x using F(2) False Ts that by blast
    ultimately show ?thesis using tr Ts by (auto split: if_splits simp: not_less)
  qed
qed

end
