(* ===== verification/HeapRun.thy ===== *)
theory HeapRun
  imports HeapAlloc
begin

text \<open>
  The heap as a run of blocks: the abstract state is a map from the address of a block to its
  size and whether it is in use. The steps of \<^verbatim>\<open>heap_alloc\<close> and \<^verbatim>\<open>heap_free\<close> are
  shown one by one to keep memory in agreement with such a map.
\<close>

section \<open>The run of blocks\<close>

type_synonym run = "u64 \<rightharpoonup> u64 \<times> bool"

definition run_ok :: "u64 \<Rightarrow> u64 \<Rightarrow> run \<Rightarrow> bool" where
  "run_ok heap e B \<longleftrightarrow> unat heap + 544 \<le> unat e \<and>
     (\<forall>b s u. B b = Some (s, u) \<longrightarrow>
        unat heap + 544 \<le> unat b \<and> 48 \<le> unat s \<and> HEAP_ALIGN s = s \<and> unat b + unat s \<le> unat e) \<and>
     (\<forall>b s u c t v. B b = Some (s, u) \<longrightarrow> B c = Some (t, v) \<longrightarrow> b \<noteq> c \<longrightarrow>
        unat b + unat s \<le> unat c \<or> unat c + unat t \<le> unat b) \<and>
     (\<forall>x. unat heap + 544 \<le> x \<longrightarrow> x < unat e \<longrightarrow>
        (\<exists>b s u. B b = Some (s, u) \<and> unat b \<le> x \<and> x < unat b + unat s))"

definition tagged :: "mem \<Rightarrow> run \<Rightarrow> bool" where
  "tagged m B \<longleftrightarrow> (\<forall>b s u. B b = Some (s, u) \<longrightarrow> block m b s \<and> HEAP_GET_USED m b = of_bool u)"

definition free_set :: "run \<Rightarrow> u64 set" where
  "free_set B = {b. \<exists>s. B b = Some (s, False)}"

lemma run_bounds:
  assumes "run_ok heap e B" "B b = Some (s, u)"
  shows "unat heap + 544 \<le> unat b" "48 \<le> unat s" "HEAP_ALIGN s = s" "unat b + unat s \<le> unat e" "unat b + unat s < 2 ^ 64"
  using assms unat64_lt[of e] unfolding run_ok_def by (fastforce, fastforce, fastforce, fastforce, fastforce)

lemma run_apart:
  assumes "run_ok heap e B" "B b = Some (s, u)" "B c = Some (t, v)" "b \<noteq> c"
  shows "unat b + unat s \<le> unat c \<or> unat c + unat t \<le> unat b"
  using assms unfolding run_ok_def by blast

lemma run_cover:
  assumes "run_ok heap e B" "unat heap + 544 \<le> x" "x < unat e"
  obtains b s u where "B b = Some (s, u)" "unat b \<le> x" "x < unat b + unat s"
  using assms unfolding run_ok_def by blast

lemma run_extents:
  assumes ok: "run_ok heap e B" and b: "B b = Some (s, u)"
  shows "B c = Some (t, v) \<Longrightarrow> b \<noteq> c \<Longrightarrow> addrs b (unat s) \<inter> addrs c (unat t) = {}"
    and "addrs heap 544 \<inter> addrs b (unat s) = {}"
proof -
  show "addrs b (unat s) \<inter> addrs c (unat t) = {}" if c: "B c = Some (t, v)" "b \<noteq> c"
    using run_apart[OF ok b c] run_bounds(5)[OF ok b] run_bounds(5)[OF ok c(1)]
      addrs_disjointI(1)[of b "unat s" c "unat t"] addrs_disjointI(1)[of c "unat t" b "unat s"] by auto
  show "addrs heap 544 \<inter> addrs b (unat s) = {}"
    using run_bounds(1,5)[OF ok b] by (intro addrs_disjointI(1)) auto
qed

lemma run_top: "run_ok heap e B \<Longrightarrow> unat heap + 544 \<le> 2 ^ 64"
proof -
  assume "run_ok heap e B"
  then have "unat heap + 544 \<le> unat e" by (simp add: run_ok_def)
  then show ?thesis using unat64_lt[of e] by simp
qed

lemma run_layout:
  assumes ok: "run_ok heap e B" and N: "N \<subseteq> dom B"
  shows "heap_layout heap N"
  unfolding heap_layout_def
proof (intro conjI ballI impI)
  show "unat heap + 544 \<le> 2 ^ 64" by (rule run_top[OF ok])
  fix a assume "a \<in> N"
  then obtain s u where a: "B a = Some (s, u)" using N by fast
  show "unat heap + 544 \<le> unat a" "unat a + 48 \<le> 2 ^ 64" using run_bounds[OF ok a] by auto
  fix b assume "b \<in> N" and ne: "a \<noteq> b"
  then obtain t v where b: "B b = Some (t, v)" using N by fast
  show "unat a + 48 \<le> unat b \<or> unat b + 48 \<le> unat a"
    using run_apart[OF ok a b ne] run_bounds(2)[OF ok a] run_bounds(2)[OF ok b] by linarith
qed

lemma run_cell: "run_ok heap e B \<Longrightarrow> B b = Some (s, u) \<Longrightarrow> addrs b 48 \<subseteq> addrs b (unat s)"
  using run_bounds(2) addrs_mono by metis

lemma tags_in:
  assumes "32 \<le> unat s"
  shows "tag_bytes b s \<subseteq> addrs b (unat s)" "addrs (b + 8) 8 \<subseteq> tag_bytes b s"
proof -
  show "tag_bytes b s \<subseteq> addrs b (unat s)" using tag_bytes_subset[of s b] assms by (simp add: word_le_nat_alt)
  show "addrs (b + 8) 8 \<subseteq> tag_bytes b s" using addrs_sub[of b 8 8] by (auto simp: tag_bytes_def)
qed

lemma tagged_keep:
  assumes ok: "run_ok heap e B" and tg: "tagged m B" and w: "within A m m'"
    and A: "\<And>b s u. B b = Some (s, u) \<Longrightarrow> tag_bytes b s \<inter> A = {}"
  shows "tagged m' B"
  unfolding tagged_def
proof (intro allI impI)
  fix b s u assume b: "B b = Some (s, u)"
  have s: "32 \<le> unat s" using run_bounds(2)[OF ok b] by simp
  have eq: "m' x = m x" if "x \<in> tag_bytes b s" for x using that A[OF b] w unfolding within_def by blast
  have "load64 m' (b + 8) = load64 m (b + 8)" by (rule load64_cong) (use eq tags_in(2)[OF s] in blast)
  then show "block m' b s \<and> HEAP_GET_USED m' b = of_bool u"
    using block_frame[OF eq] tg b by (auto simp: tagged_def HEAP_GET_USED_def)
qed

lemma tagged_size: "tagged m B \<Longrightarrow> B b = Some (s, u) \<Longrightarrow> HEAP_GET_SIZE m b = s"
  by (auto simp: tagged_def block_def)

text \<open>The links of free blocks are apart from all boundary tags.\<close>

lemma free_cells_tags:
  assumes ok: "run_ok heap e B" and tg: "tagged m B" and F: "F \<subseteq> dom B" and b: "B b = Some (s, u)"
  shows "tag_bytes b s \<inter> free_cells m heap F = {}"
proof -
  have s: "32 \<le> unat s" using run_bounds(2)[OF ok b] by simp
  note in_b = tags_in(1)[OF s, of b]
  note top = run_top[OF ok]
  have h: "tag_bytes b s \<inter> addrs (heap + 32) 512 = {}"
    using run_extents(2)[OF ok b] in_b slot_sub(2)[OF top, of 0] by auto
  have c: "tag_bytes b s \<inter> addrs (c + 16) (if 1056 < HEAP_GET_SIZE m c then 32 else 16) = {}" if cF: "c \<in> F" for c
  proof -
    obtain t v where c: "B c = Some (t, v)" using cF F by fast
    let ?n = "if 1056 < t then 32 else 16 :: nat"
    have sz: "HEAP_GET_SIZE m c = t" by (rule tagged_size[OF tg c])
    note bc = run_bounds[OF ok c]
    have n: "unat (c + 16) = unat c + 16" "16 + ?n + 16 \<le> unat t"
      using bc by (auto simp: unat_word_ariths word_less_nat_alt)
    have sub: "addrs (c + 16) ?n \<subseteq> addrs c (unat t)"
      using addrs_sub[of c 16 ?n] addrs_mono[of "16 + ?n" "unat t" c] n(2) by auto
    show ?thesis
    proof (cases "c = b")
      case False
      then have "addrs b (unat s) \<inter> addrs c (unat t) = {}" using run_extents(1)[OF ok b c] by simp
      then show ?thesis using in_b sub unfolding sz by blast
    next
      case True
      then have "t = s" using b c by simp
      have u16: "unat (c + (t - 16)) = unat c + unat t - 16" using bc
        by (simp add: unat_word_ariths unat_sub word_le_nat_alt)
      have "addrs c 16 \<inter> addrs (c + 16) ?n = {}" by (rule addrs_disjointI(1)) (use n bc in auto)
      moreover have "addrs (c + 16) ?n \<inter> addrs (c + (t - 16)) 16 = {}"
        by (rule addrs_disjointI(1)) (use n u16 bc in auto)
      ultimately show ?thesis unfolding tag_bytes_def True[symmetric] \<open>t = s\<close>[symmetric] sz by blast
    qed
  qed
  show ?thesis using h c unfolding free_cells_def by blast
qed


section \<open>Splitting and joining blocks of the run\<close>

definition run_split :: "run \<Rightarrow> u64 \<Rightarrow> u64 \<Rightarrow> run" where
  "run_split B b off = (case B b of
     Some (s, u) \<Rightarrow> if 48 \<le> s - off then B(b \<mapsto> (off, u), b + off \<mapsto> (s - off, False)) else B
   | None \<Rightarrow> B)"

definition run_join :: "run \<Rightarrow> u64 \<Rightarrow> u64 \<Rightarrow> run" where
  "run_join B a b = (case (B a, B b) of
     (Some (s, _), Some (t, _)) \<Rightarrow> B(b := None, a \<mapsto> (s + t, False)) | _ \<Rightarrow> B)"

lemma run_okI:
  assumes "unat heap + 544 \<le> unat e"
    and "\<And>b s u. B b = Some (s, u) \<Longrightarrow>
      unat heap + 544 \<le> unat b \<and> 48 \<le> unat s \<and> HEAP_ALIGN s = s \<and> unat b + unat s \<le> unat e"
    and "\<And>b s u c t v. B b = Some (s, u) \<Longrightarrow> B c = Some (t, v) \<Longrightarrow> b \<noteq> c \<Longrightarrow>
      unat b + unat s \<le> unat c \<or> unat c + unat t \<le> unat b"
    and "\<And>x. unat heap + 544 \<le> x \<Longrightarrow> x < unat e \<Longrightarrow> \<exists>b s u. B b = Some (s, u) \<and> unat b \<le> x \<and> x < unat b + unat s"
  shows "run_ok heap e B"
  using assms unfolding run_ok_def by blast

lemma run_e: "run_ok heap e B \<Longrightarrow> unat heap + 544 \<le> unat e"
  by (simp add: run_ok_def)

lemma align_diff: "HEAP_ALIGN s = s \<Longrightarrow> HEAP_ALIGN n = n \<Longrightarrow> n \<le> s \<Longrightarrow> HEAP_ALIGN (s - n) = s - n"
  by (rule HEAP_ALIGN_fixI) (metis HEAP_ALIGN_dvd dvd_diff_nat unat_sub)

lemma align_add:
  assumes "HEAP_ALIGN s = s" "HEAP_ALIGN t = t" "unat s + unat t < 2 ^ 64"
  shows "HEAP_ALIGN (s + t) = s + t"
proof (rule HEAP_ALIGN_fixI)
  have "16 dvd unat s" "16 dvd unat t" using assms(1,2) HEAP_ALIGN_dvd[of s] HEAP_ALIGN_dvd[of t] by simp_all
  moreover have "unat (s + t) = unat s + unat t" using assms(3) by (simp add: unat_word_ariths)
  ultimately show "16 dvd unat (s + t)" by simp
qed

lemma run_use:
  assumes ok: "run_ok heap e B" and b: "B b = Some (s, u)"
  shows "run_ok heap e (B(b \<mapsto> (s, v)))"
proof (rule run_okI[OF run_e[OF ok]])
  have eq: "(\<exists>w. (B(b \<mapsto> (s, v))) c = Some (t, w)) \<longleftrightarrow> (\<exists>w. B c = Some (t, w))" for c t
    using b by auto
  fix c t w assume "(B(b \<mapsto> (s, v))) c = Some (t, w)"
  then obtain w' where c: "B c = Some (t, w')" using eq by blast
  show "unat heap + 544 \<le> unat c \<and> 48 \<le> unat t \<and> HEAP_ALIGN t = t \<and> unat c + unat t \<le> unat e"
    using run_bounds[OF ok c] by blast
  fix d r x assume "(B(b \<mapsto> (s, v))) d = Some (r, x)" and ne: "c \<noteq> d"
  then obtain x' where d: "B d = Some (r, x')" using eq by blast
  show "unat c + unat t \<le> unat d \<or> unat d + unat r \<le> unat c" by (rule run_apart[OF ok c d ne])
next
  fix x assume "unat heap + 544 \<le> x" "x < unat e"
  then obtain c t w where "B c = Some (t, w)" "unat c \<le> x" "x < unat c + unat t" by (rule run_cover[OF ok])
  then show "\<exists>c t w. (B(b \<mapsto> (s, v))) c = Some (t, w) \<and> unat c \<le> x \<and> x < unat c + unat t"
    using b by (cases "c = b") auto
qed

lemma run_split_ok:
  assumes ok: "run_ok heap e B" and b: "B b = Some (s, u)"
    and off: "HEAP_ALIGN off = off" "48 \<le> off" "off \<le> s" "48 \<le> s - off"
  shows "run_ok heap e (run_split B b off)" "b + off \<notin> dom B" "unat (b + off) = unat b + unat off"
    "unat (s - off) = unat s - unat off"
proof -
  note bb = run_bounds[OF ok b]
  have u: "48 \<le> unat off" "unat off \<le> unat s" using off by (simp_all add: word_le_nat_alt)
  show us: "unat (s - off) = unat s - unat off" using off by (simp add: unat_sub)
  have l: "48 \<le> unat s - unat off" using off(4) us by (simp add: word_le_nat_alt)
  show ub: "unat (b + off) = unat b + unat off" using bb u by (simp add: unat_word_ariths)
  then have ne: "b + off \<noteq> b" using u by auto
  show "b + off \<notin> dom B"
  proof
    assume "b + off \<in> dom B"
    then obtain t v where "B (b + off) = Some (t, v)" by auto
    from run_apart[OF ok b this] run_bounds(2)[OF ok this] ub ne l u show False by auto
  qed
  let ?B = "B(b \<mapsto> (off, u), b + off \<mapsto> (s - off, False))"
  have part: "\<exists>d r x. B d = Some (r, x) \<and> unat d \<le> unat c \<and> unat c + unat t \<le> unat d + unat r \<and>
      48 \<le> unat t \<and> HEAP_ALIGN t = t \<and> (d = c \<or> d = b \<and> c = b + off) \<and> (c = b \<longrightarrow> t = off) \<and> (c = b + off \<longrightarrow> d = b)"
    if "?B c = Some (t, v)" for c t v
    using that b ub us u l bb(2,3) off align_diff[OF bb(3) off(1,3)] run_bounds(2,3)[OF ok, of c] ne
      \<open>b + off \<notin> dom B\<close> by (auto split: if_splits simp: dom_def)
  have "run_ok heap e ?B"
  proof (rule run_okI[OF run_e[OF ok]])
    fix c t v assume c: "?B c = Some (t, v)"
    from part[OF c] obtain d r x where d: "B d = Some (r, x)" "unat d \<le> unat c" "unat c + unat t \<le> unat d + unat r"
      "48 \<le> unat t" "HEAP_ALIGN t = t" "d = c \<or> d = b \<and> c = b + off" "c = b \<longrightarrow> t = off" "c = b + off \<longrightarrow> d = b" by blast
    show "unat heap + 544 \<le> unat c \<and> 48 \<le> unat t \<and> HEAP_ALIGN t = t \<and> unat c + unat t \<le> unat e"
      using d run_bounds[OF ok d(1)] by linarith
    fix c' t' v' assume c': "?B c' = Some (t', v')" and cc: "c \<noteq> c'"
    from part[OF c'] obtain d' r' x' where d': "B d' = Some (r', x')" "unat d' \<le> unat c'" "unat c' + unat t' \<le> unat d' + unat r'"
      "d' = c' \<or> d' = b \<and> c' = b + off" "c' = b \<longrightarrow> t' = off" "c' = b + off \<longrightarrow> d' = b" by blast
    show "unat c + unat t \<le> unat c' \<or> unat c' + unat t' \<le> unat c"
    proof (cases "d = d'")
      case False
      then show ?thesis using run_apart[OF ok d(1) d'(1)] d d' by linarith
    next
      case True
      then have "c = b \<and> t = off \<and> c' = b + off \<or> c' = b \<and> t' = off \<and> c = b + off" using d d' cc by auto
      then show ?thesis using ub by auto
    qed
  next
    fix x assume "unat heap + 544 \<le> x" "x < unat e"
    then obtain c t w where c: "B c = Some (t, w)" "unat c \<le> x" "x < unat c + unat t" by (rule run_cover[OF ok])
    have nc: "c \<noteq> b + off" using c(1) \<open>b + off \<notin> dom B\<close> by auto
    show "\<exists>c t w. ?B c = Some (t, w) \<and> unat c \<le> x \<and> x < unat c + unat t"
    proof (cases "c = b")
      case False then show ?thesis using c nc by (intro exI[of _ c] exI[of _ t] exI[of _ w]) simp
    next
      case True
      then have "t = s" using b c(1) by simp
      show ?thesis
      proof (cases "x < unat b + unat off")
        case True then show ?thesis using c(2) \<open>c = b\<close> ne by (intro exI[of _ b] exI[of _ off] exI[of _ u]) simp
      next
        case False then show ?thesis using c(3) \<open>c = b\<close> \<open>t = s\<close> ub us u
          by (intro exI[of _ "b + off"] exI[of _ "s - off"] exI[of _ False]) simp
      qed
    qed
  qed
  then show "run_ok heap e (run_split B b off)" using b off by (simp add: run_split_def)
qed

lemma run_join_ok:
  assumes ok: "run_ok heap e B" and a: "B a = Some (s, u)" and b: "B (a + s) = Some (t, v)"
  shows "run_ok heap e (run_join B a (a + s))" "unat (a + s) = unat a + unat s" "unat (s + t) = unat s + unat t"
proof -
  note ba = run_bounds[OF ok a] and bb = run_bounds[OF ok b]
  show us: "unat (a + s) = unat a + unat s" using ba by (simp add: unat_word_ariths)
  show st: "unat (s + t) = unat s + unat t" using bb us by (simp add: unat_word_ariths)
  have ne: "a + s \<noteq> a" using us ba by auto
  let ?B = "B(a + s := None, a \<mapsto> (s + t, False))"
  have al: "HEAP_ALIGN (s + t) = s + t" by (rule align_add) (use ba bb us in auto)
  have old: "c = a \<and> r = s + t \<or> c \<noteq> a \<and> c \<noteq> a + s \<and> B c = Some (r, w)" if "?B c = Some (r, w)" for c r w
    using that by (auto split: if_splits)
  have far: "unat a + unat (s + t) \<le> unat c \<or> unat c + unat r \<le> unat a"
    if c: "c \<noteq> a" "c \<noteq> a + s" "B c = Some (r, w)" for c r w
    using run_apart[OF ok a c(3)] run_apart[OF ok b c(3)] c us st run_bounds(2)[OF ok c(3)] ba(2) by auto
  have "run_ok heap e ?B"
  proof (rule run_okI[OF run_e[OF ok]])
    fix c r w assume c: "?B c = Some (r, w)"
    show "unat heap + 544 \<le> unat c \<and> 48 \<le> unat r \<and> HEAP_ALIGN r = r \<and> unat c + unat r \<le> unat e"
      using old[OF c] run_bounds(1-4)[OF ok, of c r w] ba bb us st al by auto
    fix c' r' w' assume c': "?B c' = Some (r', w')" and cc: "c \<noteq> c'"
    show "unat c + unat r \<le> unat c' \<or> unat c' + unat r' \<le> unat c"
      using old[OF c] old[OF c'] cc far[of c r w] far[of c' r' w'] run_apart[OF ok, of c r w c' r' w'] by blast
  next
    fix x assume "unat heap + 544 \<le> x" "x < unat e"
    then obtain c r w where c: "B c = Some (r, w)" "unat c \<le> x" "x < unat c + unat r" by (rule run_cover[OF ok])
    show "\<exists>c r w. ?B c = Some (r, w) \<and> unat c \<le> x \<and> x < unat c + unat r"
    proof (cases "c = a \<or> c = a + s")
      case False then show ?thesis using c by (intro exI[of _ c] exI[of _ r] exI[of _ w]) simp
    next
      case True
      then have "unat a \<le> x \<and> x < unat a + unat (s + t)" using c a b us st by auto
      then show ?thesis by (intro exI[of _ a] exI[of _ "s + t"] exI[of _ False]) simp
    qed
  qed
  then show "run_ok heap e (run_join B a (a + s))" using a b by (simp add: run_join_def)
qed


section \<open>The steps\<close>

text \<open>In the middle of an operation, \<open>F\<close> are the free blocks that are in the lists and the tree,
  \<open>W\<close> is where the operation may write, and \<open>m0\<close> the memory it started from.\<close>

definition working :: "mem \<Rightarrow> u64 set \<Rightarrow> u64 \<Rightarrow> u64 \<Rightarrow> run \<Rightarrow> u64 set \<Rightarrow> mem \<Rightarrow> bool" where
  "working m0 W heap e B F m \<longleftrightarrow> within W m0 m \<and> addrs heap 544 \<subseteq> W \<and>
     (\<forall>b s. B b = Some (s, False) \<longrightarrow> addrs b (unat s) \<subseteq> W) \<and>
     start_addr m heap = heap + 544 \<and> end_addr m heap = e \<and>
     run_ok heap e B \<and> tagged m B \<and> F \<subseteq> free_set B \<and> free_ok m heap F"

lemma workingD:
  assumes "working m0 W heap e B F m"
  shows "within W m0 m" "addrs heap 544 \<subseteq> W" "\<And>b s. B b = Some (s, False) \<Longrightarrow> addrs b (unat s) \<subseteq> W"
    "start_addr m heap = heap + 544" "end_addr m heap = e" "run_ok heap e B" "tagged m B"
    "F \<subseteq> free_set B" "F \<subseteq> dom B" "free_ok m heap F"
  using assms unfolding working_def by (auto simp: free_set_def)

lemma working_step:
  assumes wk: "working m0 W heap e B F m" and w: "within A m m'" "A \<subseteq> W" "A \<inter> addrs heap 16 = {}"
    and B': "run_ok heap e B'" "tagged m' B'" "F' \<subseteq> free_set B'" "free_ok m' heap F'"
    "\<And>b s. B' b = Some (s, False) \<Longrightarrow> addrs b (unat s) \<subseteq> W"
  shows "working m0 W heap e B' F' m'"
proof -
  have "addrs heap 8 \<subseteq> addrs heap 16" "addrs (heap + 8) 8 \<subseteq> addrs heap 16"
    using addrs_mono[of 8 16 heap] addrs_sub[of heap 8 8] by auto
  then have "load64 m' heap = load64 m heap" "load64 m' (heap + 8) = load64 m (heap + 8)"
    using within_load[OF w(1)] w(3) by blast+
  moreover have "within W m0 m'" using within_trans[OF workingD(1)[OF wk] within_mono[OF w(1,2)]] .
  ultimately show ?thesis using workingD[OF wk] B' by (simp add: working_def start_addr_def end_addr_def)
qed

lemma heap_parts:
  assumes "unat heap + 544 \<le> 2 ^ 64"
  shows "addrs (heap + 24) 8 \<subseteq> addrs heap 544" "addrs (heap + 24) 8 \<inter> addrs heap 16 = {}"
    "addrs (heap + 24) 8 \<inter> addrs (heap + 32) 512 = {}" "addrs (heap + 32) 512 \<inter> addrs heap 16 = {}"
proof -
  have u: "unat (heap + 24) = unat heap + 24" "unat (heap + 32) = unat heap + 32"
    using assms by (simp_all add: unat_word_ariths)
  show "addrs (heap + 24) 8 \<subseteq> addrs heap 544" using addrs_sub[of heap 24 8] addrs_mono[of 32 544 heap] by auto
  show "addrs (heap + 24) 8 \<inter> addrs heap 16 = {}" "addrs (heap + 24) 8 \<inter> addrs (heap + 32) 512 = {}"
    "addrs (heap + 32) 512 \<inter> addrs heap 16 = {}"
    using addrs_disjointI(1)[of heap 16 "heap + 24" 8] addrs_disjointI(1)[of "heap + 24" 8 "heap + 32" 512]
      addrs_disjointI(1)[of heap 16 "heap + 32" 512] u assms by auto
qed

lemma work_lock:
  assumes wk: "working m0 W heap e B F m"
  shows "working m0 W heap e B F (store64 m (heap + 24) v)"
proof -
  note D = workingD[OF wk]
  note hp = heap_parts[OF run_top[OF D(6)]]
  have w: "within (addrs (heap + 24) 8) m (store64 m (heap + 24) v)" by (rule within_store) simp_all
  have ext: "addrs b (unat s) \<inter> addrs (heap + 24) 8 = {}" if "B b = Some (s, u)" for b s u
    using run_extents(2)[OF D(6) that] hp(1) by blast
  have tg: "tagged (store64 m (heap + 24) v) B"
  proof (rule tagged_keep[OF D(6,7) w])
    show "tag_bytes b s \<inter> addrs (heap + 24) 8 = {}" if "B b = Some (s, u)" for b s u
      using ext[OF that] tags_in(1)[of s b] run_bounds(2)[OF D(6) that] by fastforce
  qed
  have fr: "free_ok (store64 m (heap + 24) v) heap F"
  proof (rule free_ok_cong[OF D(10)])
    show "store64 m (heap + 24) v x = m x" if "x \<in> addrs (heap + 32) 512" for x
      using that hp(3) by (intro store64_other) blast
    show "store64 m (heap + 24) v x = m x" if aF: "a \<in> F" "x \<in> addrs a 48" for a x
    proof -
      obtain s u where a: "B a = Some (s, u)" using aF(1) D(9) by fast
      show ?thesis using ext[OF a] run_cell[OF D(6) a] aF(2) by (intro store64_other) blast
    qed
  qed
  show ?thesis by (rule working_step[OF wk w _ hp(2) D(6) tg D(8) fr D(3)]) (use hp(1) D(2) in blast)+
qed

text \<open>What the operations on the free blocks write.\<close>

lemma free_cells_in:
  assumes wk: "working m0 W heap e B F m" and F: "F' \<subseteq> free_set B"
  shows "free_cells m heap F' \<subseteq> W" "free_cells m heap F' \<inter> addrs heap 16 = {}"
proof -
  note D = workingD[OF wk]
  note top = run_top[OF D(6)]
  have h: "addrs (heap + 32) 512 \<subseteq> addrs heap 544" using slot_sub(2)[OF top, of 0] by simp
  have c: "addrs (b + 16) (if 1056 < HEAP_GET_SIZE m b then 32 else 16) \<subseteq> addrs b 48 \<and> addrs b 48 \<subseteq> W \<and>
      addrs b 48 \<inter> addrs heap 544 = {}" if bF: "b \<in> F'" for b
  proof -
    obtain s where b: "B b = Some (s, False)" using bF F by (auto simp: free_set_def)
    show ?thesis using cell_sub(2,3)[of b] run_cell[OF D(6) b] D(3)[OF b] run_extents(2)[OF D(6) b] by auto
  qed
  have "addrs heap 16 \<subseteq> addrs heap 544" by (rule addrs_mono) simp
  then show "free_cells m heap F' \<subseteq> W" "free_cells m heap F' \<inter> addrs heap 16 = {}"
    using c h D(2) heap_parts(4)[OF top] unfolding free_cells_def by blast+
qed

lemma work_remove:
  assumes wk: "working m0 W heap e B F m" and b: "b \<in> F"
    and one: "1056 < HEAP_GET_SIZE m b \<Longrightarrow> \<forall>c\<in>F. HEAP_GET_SIZE m c = HEAP_GET_SIZE m b \<longrightarrow> c = b"
  shows "working m0 W heap e B (F - {b}) (heap_remove m heap b)"
proof -
  note D = workingD[OF wk]
  have "small (HEAP_GET_SIZE m b) \<or> 1056 < HEAP_GET_SIZE m b" using D(10) b by (simp add: free_ok_def)
  then have r: "free_ok (heap_remove m heap b) heap (F - {b})" "within (free_cells m heap F) m (heap_remove m heap b)"
    using free_remove_small[OF D(10) b] free_remove_large[OF D(10) b] one by blast+
  have tg: "tagged (heap_remove m heap b) B"
    by (rule tagged_keep[OF D(6,7) r(2) free_cells_tags[OF D(6,7,9)]])
  show ?thesis
    by (rule working_step[OF wk r(2) free_cells_in[OF wk D(8)] D(6) tg _ r(1) D(3)]) (use D(8) in blast)+
qed

lemma work_insert:
  assumes wk: "working m0 W heap e B F m" and b: "B b = Some (s, False)" "b \<notin> F"
    and s: "s \<noteq> 1040" "s \<noteq> 1056"
  shows "\<exists>m'. heap_insert m heap b = Some m' \<and> working m0 W heap e B (insert b F) m'"
proof -
  note D = workingD[OF wk]
  note sz = tagged_size[OF D(7) b(1)] and bb = run_bounds[OF D(6) b(1)]
  have F: "insert b F \<subseteq> free_set B" using D(8) b(1) by (auto simp: free_set_def)
  then have dom: "insert b F \<subseteq> dom B" by (auto simp: free_set_def)
  have lay: "heap_layout heap (insert b F)" by (rule run_layout[OF D(6) dom])
  have b0: "b \<noteq> 0" using bb(1) by auto
  have "small s \<or> 1056 < s"
  proof -
    obtain k where k: "unat s = 16 * k" using bb(3) HEAP_ALIGN_dvd[of s] by (auto elim!: dvdE)
    have "unat s \<noteq> 1040" "unat s \<noteq> 1056" using s by (auto dest: arg_cong[where f = "of_nat :: nat \<Rightarrow> u64"])
    then show ?thesis using bb(2) k unfolding small_def word_le_nat_alt word_less_nat_alt by auto
  qed
  then obtain m' where m': "heap_insert m heap b = Some m'" "free_ok m' heap (insert b F)"
    "within (free_cells m heap (insert b F)) m m'"
    using free_insert_small[OF D(10) lay b(2) b0] free_insert_large[OF D(10) lay b(2) b0] unfolding sz by blast
  have tg: "tagged m' B" by (rule tagged_keep[OF D(6,7) m'(3) free_cells_tags[OF D(6,7) dom]])
  have "working m0 W heap e B (insert b F) m'"
    by (rule working_step[OF wk m'(3) free_cells_in[OF wk F] D(6) tg F m'(2) D(3)])
  then show ?thesis using m'(1) by blast
qed


text \<open>Writing boundary tags inside blocks that are not in the lists and the tree.\<close>

lemma work_tags:
  assumes wk: "working m0 W heap e B F m" and w: "within A m m'" and AE: "A \<subseteq> E" "E \<subseteq> W"
    and E: "addrs heap 544 \<inter> E = {}" "\<And>c t. B c = Some (t, False) \<Longrightarrow> c \<in> F \<Longrightarrow> addrs c (unat t) \<inter> E = {}"
    and B': "run_ok heap e B'" "tagged m' B'" "\<And>c t. c \<in> F \<Longrightarrow> B c = Some (t, False) \<Longrightarrow> B' c = Some (t, False)"
    "\<And>c t. B' c = Some (t, False) \<Longrightarrow> addrs c (unat t) \<subseteq> W"
  shows "working m0 W heap e B' F m'"
proof -
  note D = workingD[OF wk]
  have h: "addrs (heap + 32) 512 \<subseteq> addrs heap 544" "addrs heap 16 \<subseteq> addrs heap 544"
    using slot_sub(2)[OF run_top[OF D(6)], of 0] addrs_mono[of 16 544 heap] by simp_all
  have fr: "free_ok m' heap F"
  proof (rule free_ok_cong[OF D(10)])
    show "m' x = m x" if "x \<in> addrs (heap + 32) 512" for x
      using that w AE E(1) h unfolding within_def by blast
    show "m' x = m x" if aF: "a \<in> F" "x \<in> addrs a 48" for a x
    proof -
      obtain t where a: "B a = Some (t, False)" using aF(1) D(8) by (auto simp: free_set_def)
      show ?thesis using E(2)[OF a aF(1)] run_cell[OF D(6) a] aF(2) w AE unfolding within_def by blast
    qed
  qed
  have F: "F \<subseteq> free_set B'" using D(8) B'(3) by (auto simp: free_set_def)
  show ?thesis by (rule working_step[OF wk w _ _ B'(1,2) F fr B'(4)]) (use AE E(1) h in blast)+
qed

lemma create_tagged:
  assumes s: "HEAP_ALIGN s = s" "32 \<le> s"
  shows "block (heap_create_block m b s) b s \<and> HEAP_GET_USED (heap_create_block m b s) b = 0"
  using heap_create_block_tags[of s m b] s align_even[OF s(1)] by (simp add: HEAP_GET_USED_def)

lemma create_within: "HEAP_ALIGN s = s \<Longrightarrow> within (tag_bytes b s) m (heap_create_block m b s)"
  by (simp add: within_def heap_create_block_frame)

lemma work_split:
  assumes wk: "working m0 W heap e B F m" and b: "B b = Some (s, False)" "b \<notin> F"
    and off: "HEAP_ALIGN off = off" "48 \<le> off" "off \<le> s"
  shows "\<exists>m'. heap_split_block m b off = (m', if 48 \<le> s - off then b + off else 0) \<and>
    working m0 W heap e (run_split B b off) F m'"
proof (cases "48 \<le> s - off")
  case False
  then have "run_split B b off = B" using b by (simp add: run_split_def)
  moreover have "heap_split_block m b off = (m, 0)"
    using split_block_tiles[of m b s "b + s" off] workingD(7)[OF wk] b off False
    by (auto simp: tagged_def word_le_nat_alt)
  ultimately show ?thesis using False wk by auto
next
  case True
  note D = workingD[OF wk]
  note sp = run_split_ok[OF D(6) b(1) off True]
  have "tiles m b [s] (b + s)" using D(7) b by (simp add: tagged_def)
  moreover have o32: "32 \<le> off" "32 \<le> s - off" using off(2) True by (auto simp: word_le_nat_alt)
  ultimately obtain m' where m': "heap_split_block m b off = (m', b + off)" "tiles m' b [off, s - off] (b + s)"
    using split_block_tiles[of m b s "b + s" off] off True by auto
  let ?A = "tag_bytes b off \<union> tag_bytes (b + off) (s - off)" and ?E = "addrs b (unat s)"
  have al: "HEAP_ALIGN (s - off) = s - off" by (rule align_diff[OF run_bounds(3)[OF D(6) b(1)] off(1,3)])
  let ?m1 = "heap_create_block m (b + off) (s - off)"
  have eq: "m' = heap_create_block ?m1 b off"
    using m'(1) tagged_size[OF D(7) b(1)] True off by (simp add: heap_split_block_def Let_def)
  have w: "within ?A m m'" unfolding eq
    using within_UnI[OF create_within[OF al] create_within[OF off(1)]] by (simp add: Un_commute)
  have A: "?A \<subseteq> ?E"
  proof -
    have "addrs b (unat off) \<subseteq> ?E" using off(3) by (intro addrs_mono) (simp add: word_le_nat_alt)
    moreover have "addrs (b + off) (unat (s - off)) \<subseteq> ?E"
      using addrs_sub[of b "unat off" "unat (s - off)"] sp(4) off(3) by (simp add: word_le_nat_alt)
    ultimately show ?thesis using tag_bytes_subset[OF o32(1), of b] tag_bytes_subset[OF o32(2), of "b + off"] by blast
  qed
  have sub: "addrs b (unat off) \<subseteq> ?E" "addrs (b + off) (unat (s - off)) \<subseteq> ?E"
    using addrs_mono[of "unat off" "unat s" b] addrs_sub[of b "unat off" "unat (s - off)"] sp(4) off(3)
    by (simp_all add: word_le_nat_alt)
  let ?B = "run_split B b off"
  have B': "?B = B(b \<mapsto> (off, False), b + off \<mapsto> (s - off, False))" using b True by (simp add: run_split_def)
  have ne: "b + off \<noteq> b" using off(2) by (auto simp: word_le_nat_alt)
  have tags: "tagged m' ?B"
    unfolding tagged_def
  proof (intro allI impI)
    fix c t u assume c: "?B c = Some (t, u)"
    consider "c = b + off" "t = s - off" "u = False" | "c = b" "t = off" "u = False" | "c \<noteq> b" "B c = Some (t, u)"
      using c unfolding B' by (auto split: if_splits)
    then show "block m' c t \<and> HEAP_GET_USED m' c = of_bool u"
    proof cases
      case 1
      have "addrs (b + off) (unat (s - off)) \<inter> addrs b (unat off) = {}"
        using run_extents(1)[OF sp(1), of "b + off" "s - off" False b off False] ne unfolding B' by auto
      then have "addrs (b + off + 8) 8 \<inter> tag_bytes b off = {}"
        using tag_bytes_subset[OF o32(1), of b] tags_in[of "s - off" "b + off"] o32(2) by (fastforce simp: word_le_nat_alt)
      then have "load64 m' (b + off + 8) = load64 ?m1 (b + off + 8)"
        unfolding eq by (rule within_load[OF create_within[OF off(1)]])
      then show ?thesis using 1 m'(2) create_tagged[OF al o32(2), of m "b + off"] by (simp add: HEAP_GET_USED_def)
    next
      case 2 then show ?thesis using create_tagged[OF off(1) o32(1), of ?m1 b] unfolding eq by simp
    next
      case 3
      have "tag_bytes c t \<inter> ?A = {}"
        using run_extents(1)[OF D(6) b(1) 3(2)] 3(1) A tags_in(1)[of t c] run_bounds(2)[OF D(6) 3(2)] by fastforce
      then have k: "m' x = m x" if "x \<in> tag_bytes c t" for x using w that unfolding within_def by blast
      have "load64 m' (c + 8) = load64 m (c + 8)"
        by (rule load64_cong) (use k tags_in(2)[of t c] run_bounds(2)[OF D(6) 3(2)] in auto)
      then show ?thesis using block_frame[OF k] D(7) 3 by (auto simp: tagged_def HEAP_GET_USED_def)
    qed
  qed
  have "working m0 W heap e ?B F m'"
  proof (rule work_tags[OF wk w A D(3)[OF b(1)] run_extents(2)[OF D(6) b(1)] _ sp(1) tags])
    show "addrs c (unat t) \<inter> ?E = {}" if "B c = Some (t, False)" "c \<in> F" for c t
      using run_extents(1)[OF D(6) that(1) b(1)] that(2) b(2) by blast
    show "?B c = Some (t, False)" if "c \<in> F" "B c = Some (t, False)" for c t
      using that b(2) sp(2) unfolding B' by auto
    show "addrs c (unat t) \<subseteq> W" if "?B c = Some (t, False)" for c t
      using that D(3) sub D(3)[OF b(1)] unfolding B' by (auto split: if_splits)
  qed
  then show ?thesis using m'(1) True by auto
qed


lemma set_used_word:
  "HEAP_ALIGN ((x AND NOT 1) OR (u AND 1)) = HEAP_ALIGN x" "((x AND NOT 1) OR (u AND 1)) AND 1 = u AND 1"
proof -
  have m: "(0xFFFFFFFFFFFFFFF0 :: u64) = NOT (mask 4)" by (simp add: mask_eq_exp_minus_1)
  show "HEAP_ALIGN ((x AND NOT 1) OR (u AND 1)) = HEAP_ALIGN x"
    unfolding HEAP_ALIGN_def m by (rule bit_word_eqI) (auto simp: bit_simps)
  show "((x AND NOT 1) OR (u AND 1)) AND 1 = u AND 1"
    by (rule bit_word_eqI) (auto simp: bit_simps)
qed

lemma set_used_tagged:
  assumes blk: "block m b s"
  shows "block (HEAP_SET_USED m b (of_bool u)) b s \<and> HEAP_GET_USED (HEAP_SET_USED m b (of_bool u)) b = of_bool u"
proof -
  let ?m = "HEAP_SET_USED m b (of_bool u)"
  have s: "32 \<le> HEAP_ALIGN s" using blk block_aligned[OF blk] by (simp add: block_def)
  note ap = tag_apart[OF s, unfolded block_aligned[OF blk]]
  have sz: "HEAP_GET_SIZE ?m b = HEAP_GET_SIZE m b"
    unfolding HEAP_GET_SIZE_def HEAP_SET_USED_def load64_store64 set_used_word(1) by (rule refl)
  have gs: "HEAP_GET_SIZE m b = s" using blk by (simp add: block_def)
  have f: "HEAP_GET_FOOTER ?m b = b + (s - 16)" "HEAP_GET_FOOTER m b = b + (s - 16)"
    using sz gs by (simp_all add: HEAP_GET_FOOTER_def)
  have f8: "b + (s - 16) + 8 = b + (s - 8)" by simp
  have "load64 ?m b = load64 m b" "load64 ?m (b + (s - 16)) = load64 m (b + (s - 16))"
    "load64 ?m (b + (s - 8)) = load64 m (b + (s - 8))"
    using ap apart_numeral unfolding HEAP_SET_USED_def by (simp_all add: frame)
  then have "block ?m b s" using blk
    unfolding block_def HEAP_CHECK_HEADER_def HEAP_GET_HEADER_def f f8 sz by simp
  moreover have "HEAP_GET_USED ?m b = of_bool u"
    unfolding HEAP_GET_USED_def HEAP_SET_USED_def load64_store64 set_used_word(2) by simp
  ultimately show ?thesis by blast
qed

lemma work_use:
  assumes wk: "working m0 W heap e B F m" and b: "B b = Some (s, u)" "b \<notin> F" and W: "addrs b (unat s) \<subseteq> W"
  shows "working m0 W heap e (B(b \<mapsto> (s, v))) F (HEAP_SET_USED m b (of_bool v))"
proof -
  note D = workingD[OF wk]
  let ?m = "HEAP_SET_USED m b (of_bool v)" and ?A = "addrs (b + 8) 8"
  have s: "32 \<le> unat s" using run_bounds(2)[OF D(6) b(1)] by simp
  have A: "?A \<subseteq> addrs b (unat s)" using tags_in[OF s, of b] by blast
  have w: "within ?A m ?m" unfolding HEAP_SET_USED_def by (rule within_store) simp_all
  have tags: "tagged ?m (B(b \<mapsto> (s, v)))"
    unfolding tagged_def
  proof (intro allI impI)
    fix c t x assume c: "(B(b \<mapsto> (s, v))) c = Some (t, x)"
    show "block ?m c t \<and> HEAP_GET_USED ?m c = of_bool x"
    proof (cases "c = b")
      case True
      then have "t = s" "x = v" using c by simp_all
      moreover have "block m b s" using D(7) b(1) by (simp add: tagged_def)
      ultimately show ?thesis using set_used_tagged[of m b s v] True by blast
    next
      case False
      then have c: "B c = Some (t, x)" using c by simp
      have t: "32 \<le> unat t" using run_bounds(2)[OF D(6) c] by simp
      have "tag_bytes c t \<inter> ?A = {}"
        using run_extents(1)[OF D(6) b(1) c] False A tags_in(1)[OF t, of c] by blast
      then have k: "m' x = m x" if "x \<in> tag_bytes c t" "m' = ?m" for x m' using w that unfolding within_def by blast
      have "load64 ?m (c + 8) = load64 m (c + 8)"
        by (rule load64_cong) (use k tags_in(2)[OF t, of c] in blast)
      then show ?thesis using block_frame[OF k[OF _ refl]] D(7) c by (auto simp: tagged_def HEAP_GET_USED_def)
    qed
  qed
  show ?thesis
  proof (rule work_tags[OF wk w A W run_extents(2)[OF D(6) b(1)] _ run_use[OF D(6) b(1)] tags])
    show "addrs c (unat t) \<inter> addrs b (unat s) = {}" if "B c = Some (t, False)" "c \<in> F" for c t
      using run_extents(1)[OF D(6) that(1) b(1)] that(2) b(2) by blast
    show "(B(b \<mapsto> (s, v))) c = Some (t, False)" if "c \<in> F" "B c = Some (t, False)" for c t using that b(2) by auto
    show "addrs c (unat t) \<subseteq> W" if "(B(b \<mapsto> (s, v))) c = Some (t, False)" for c t
      using that D(3) W by (auto split: if_splits)
  qed
qed

lemma work_join:
  assumes wk: "working m0 W heap e B F m" and a: "B a = Some (s, False)" "a \<notin> F"
    and b: "B (a + s) = Some (t, False)" "a + s \<notin> F"
  shows "working m0 W heap e (run_join B a (a + s)) F (heap_create_block m a (s + t))"
proof -
  note D = workingD[OF wk]
  note jn = run_join_ok[OF D(6) a(1) b(1)]
  note ba = run_bounds[OF D(6) a(1)] and bb = run_bounds[OF D(6) b(1)]
  let ?m = "heap_create_block m a (s + t)" and ?E = "addrs a (unat s) \<union> addrs (a + s) (unat t)"
  have B': "run_join B a (a + s) = B(a + s := None, a \<mapsto> (s + t, False))" using a b by (simp add: run_join_def)
  have al: "HEAP_ALIGN (s + t) = s + t" by (rule align_add) (use ba bb jn(2) in auto)
  have st: "32 \<le> unat (s + t)" "32 \<le> s + t" using jn(3) ba(2) by (simp_all add: word_le_nat_alt)
  have E: "addrs a (unat (s + t)) \<subseteq> ?E" using addrs_split[of a "unat s" "unat t"] jn(3) by simp
  then have A: "tag_bytes a (s + t) \<subseteq> ?E" using tags_in(1)[OF st(1), of a] by blast
  have EW: "?E \<subseteq> W" using D(3)[OF a(1)] D(3)[OF b(1)] by blast
  have dj: "addrs c (unat r) \<inter> ?E = {}" if "B c = Some (r, x)" "c \<noteq> a" "c \<noteq> a + s" for c r x
    using run_extents(1)[OF D(6) that(1) a(1) that(2)] run_extents(1)[OF D(6) that(1) b(1) that(3)] by blast
  have tags: "tagged ?m (run_join B a (a + s))"
    unfolding tagged_def
  proof (intro allI impI)
    fix c r x assume "run_join B a (a + s) c = Some (r, x)"
    then consider "c = a" "r = s + t" "\<not> x" | "c \<noteq> a" "c \<noteq> a + s" "B c = Some (r, x)"
      unfolding B' by (auto split: if_splits)
    then show "block ?m c r \<and> HEAP_GET_USED ?m c = of_bool x"
    proof cases
      case 1 then show ?thesis using create_tagged[OF al st(2), of m a] by simp
    next
      case 2
      have r: "32 \<le> unat r" using run_bounds(2)[OF D(6) 2(3)] by simp
      have "tag_bytes c r \<inter> tag_bytes a (s + t) = {}" using dj[OF 2(3,1,2)] A tags_in(1)[OF r, of c] by blast
      then have k: "?m y = m y" if "y \<in> tag_bytes c r" for y
        using create_within[OF al, of a m] that unfolding within_def by blast
      have "load64 ?m (c + 8) = load64 m (c + 8)"
        by (rule load64_cong) (use k tags_in(2)[OF r, of c] in blast)
      then show ?thesis using block_frame[OF k] D(7) 2(3) by (auto simp: tagged_def HEAP_GET_USED_def)
    qed
  qed
  show ?thesis
  proof (rule work_tags[OF wk create_within[OF al] A EW _ _ jn(1) tags])
    show "addrs heap 544 \<inter> ?E = {}" using run_extents(2)[OF D(6) a(1)] run_extents(2)[OF D(6) b(1)] by blast
    show "addrs c (unat r) \<inter> ?E = {}" if "B c = Some (r, False)" "c \<in> F" for c r
      using dj[OF that(1)] that(2) a(2) b(2) by blast
    show "run_join B a (a + s) c = Some (r, False)" if "c \<in> F" "B c = Some (r, False)" for c r
      using that a(2) b(2) unfolding B' by auto
    show "addrs c (unat r) \<subseteq> W" if c: "run_join B a (a + s) c = Some (r, False)" for c r
    proof (cases "c = a")
      case True
      then have "r = s + t" using c unfolding B' by simp
      then show ?thesis using True E EW by blast
    next
      case False then show ?thesis using c D(3) unfolding B' by (auto split: if_splits)
    qed
  qed
qed

end
