(* ===== verification/HeapSpec.thy ===== *)
theory HeapSpec
  imports HeapRun
begin

text \<open>
  The contract of the heap. \<open>heap_ok\<close> relates memory to the run of blocks;
  \<^verbatim>\<open>heap_create\<close> establishes it, and \<^verbatim>\<open>heap_alloc\<close> and \<^verbatim>\<open>heap_free\<close> refine
  \<open>run_alloc\<close> and \<open>run_free\<close>, which only change the map of blocks. The sizes whose list
  index is outside the lists, and several large free blocks of one size, are excluded: HeapOps
  and HeapTree show what goes wrong with them.
\<close>

section \<open>The invariant and the abstract operations\<close>

definition heap_ok :: "mem \<Rightarrow> u64 \<Rightarrow> run \<Rightarrow> bool" where
  "heap_ok m heap B \<longleftrightarrow> \<not> heap_locked m heap \<and> start_addr m heap = heap + 544 \<and>
     run_ok heap (end_addr m heap) B \<and> tagged m B \<and> free_ok m heap (free_set B)"

text \<open>What an operation may write: the \<^verbatim>\<open>heap_t\<close> structure and the free blocks.\<close>

definition free_bytes :: "u64 \<Rightarrow> run \<Rightarrow> u64 set" where
  "free_bytes heap B = addrs heap 544 \<union> {x. \<exists>b s. B b = Some (s, False) \<and> x \<in> addrs b (unat s)}"

definition run_alloc :: "run \<Rightarrow> u64 \<Rightarrow> u64 \<Rightarrow> run" where
  "run_alloc B b n = (let B = run_split B b n in case B b of Some (s, _) \<Rightarrow> B(b \<mapsto> (s, True)) | None \<Rightarrow> B)"

text \<open>\<open>l\<close> is the free left neighbour of \<open>b\<close>, or \<open>b\<close> itself when there is none.\<close>

definition run_free :: "run \<Rightarrow> u64 \<Rightarrow> u64 \<Rightarrow> run" where
  "run_free B l b = (case B b of None \<Rightarrow> B | Some (s, _) \<Rightarrow>
     (let B = B(b \<mapsto> (s, False));
          B = (if l = b then B else run_join B l b)
      in case B (b + s) of Some (_, False) \<Rightarrow> run_join B l (b + s) | _ \<Rightarrow> B))"

lemma heap_ok_working:
  assumes ok: "heap_ok m heap B" and W: "free_bytes heap B \<subseteq> W"
  shows "working m W heap (end_addr m heap) B (free_set B) m"
  using assms unfolding heap_ok_def working_def free_bytes_def by auto

lemma working_heap_ok:
  "working m0 W heap e B (free_set B) m \<Longrightarrow> \<not> heap_locked m heap \<Longrightarrow> heap_ok m heap B \<and> within W m0 m"
  by (auto simp: working_def heap_ok_def)

lemma block_size:
  assumes "0 < sz" "unat sz \<le> 2 ^ 63"
  defines "n \<equiv> HEAP_BSIZE (HEAP_SIZE_ALIGN sz)"
  shows "HEAP_ALIGN n = n" "48 \<le> n" "unat sz + 32 \<le> unat n" "unat n < unat sz + 48"
proof -
  have e: "HEAP_SIZE_ALIGN x = HEAP_ALIGN (x + 15)" for x by (simp add: HEAP_SIZE_ALIGN_def HEAP_ALIGN_def)
  have u: "0 < unat sz" using assms(1) by (simp add: word_less_nat_alt)
  have 1: "unat (HEAP_SIZE_ALIGN sz) = (unat sz + 15) div 16 * 16"
    unfolding e HEAP_ALIGN_mod using assms(2) by (simp add: unat_word_ariths)
  have le: "(unat sz + 15) div 16 * 16 \<le> 2 ^ 63 + 15" using assms(2) by linarith
  have 2: "unat (HEAP_SIZE_ALIGN (HEAP_SIZE_ALIGN sz)) = (unat sz + 15) div 16 * 16"
  proof -
    have "unat (HEAP_SIZE_ALIGN sz + 15) = (unat sz + 15) div 16 * 16 + 15"
      using le by (simp add: unat_word_ariths 1)
    then show ?thesis unfolding e[of "HEAP_SIZE_ALIGN sz"] HEAP_ALIGN_mod by simp
  qed
  have 3: "unat n = (unat sz + 15) div 16 * 16 + 32"
    unfolding n_def HEAP_BSIZE_def using le by (simp add: unat_word_ariths 2)
  show "HEAP_ALIGN n = n" by (rule HEAP_ALIGN_fixI) (simp add: 3)
  show "48 \<le> n" "unat sz + 32 \<le> unat n" "unat n < unat sz + 48"
    using 3 u unfolding word_le_nat_alt by auto
qed

text \<open>No two of the large free blocks \<open>F\<close> have the same size.\<close>

definition one_size :: "run \<Rightarrow> u64 set \<Rightarrow> bool" where
  "one_size B F \<longleftrightarrow> (\<forall>a\<in>F. \<forall>c\<in>F. \<forall>t. B a = Some (t, False) \<and> B c = Some (t, False) \<and> 1056 < t \<longrightarrow> a = c)"

lemma work_take:
  assumes wk: "working m0 W heap e B F m" and one: "one_size B F" and b: "b \<in> F"
  shows "working m0 W heap e B (F - {b}) (heap_remove m heap b)"
proof (rule work_remove[OF wk b], intro ballI impI)
  note D = workingD[OF wk]
  fix c assume big: "1056 < HEAP_GET_SIZE m b" and c: "c \<in> F" "HEAP_GET_SIZE m c = HEAP_GET_SIZE m b"
  have "b \<in> free_set B" "c \<in> free_set B" using b c(1) D(8) by blast+
  then obtain s t where s: "B b = Some (s, False)" "B c = Some (t, False)" unfolding free_set_def by blast
  have "t = s" "1056 < s" using c(2) tagged_size[OF D(7) s(1)] tagged_size[OF D(7) s(2)] big by simp_all
  then show "c = b" using one b c(1) s unfolding one_size_def by blast
qed

section \<open>Placing an allocation in a block\<close>

lemma work_place:
  assumes wk: "working m0 W heap e B (free_set B - {b}) m" and b: "B b = Some (s, False)"
    and n: "HEAP_ALIGN n = n" "48 \<le> n" "n \<le> s" and hole: "s - n \<noteq> 1040" "s - n \<noteq> 1056"
  shows "\<exists>m1 k m2. heap_split_block m b n = (m1, k) \<and>
    (if k \<noteq> 0 then heap_insert m1 heap k else Some m1) = Some m2 \<and>
    working m0 W heap e (run_alloc B b n) (free_set (run_alloc B b n)) (heap_unlock (HEAP_SET_USED m2 b 1) heap)"
proof -
  note D = workingD[OF wk]
  let ?S = "run_split B b n" and ?k = "if 48 \<le> s - n then b + n else 0"
  obtain m1 where m1: "heap_split_block m b n = (m1, ?k)" "working m0 W heap e ?S (free_set B - {b}) m1"
    using work_split[OF wk b _ n] by blast
  have main: "\<exists>m2 t. (if ?k \<noteq> 0 then heap_insert m1 heap ?k else Some m1) = Some m2 \<and> ?S b = Some (t, False) \<and>
      working m0 W heap e ?S (free_set ?S - {b}) m2"
  proof (cases "48 \<le> s - n")
    case True
    note sp = run_split_ok[OF D(6) b n True]
    have S: "?S = B(b \<mapsto> (n, False), b + n \<mapsto> (s - n, False))" using b True by (simp add: run_split_def)
    have ne: "b + n \<noteq> b" using n(2) by (auto simp: word_le_nat_alt)
    have k: "?S (b + n) = Some (s - n, False)" unfolding S by simp
    have nk: "b + n \<notin> free_set B - {b}" using sp(2) by (auto simp: free_set_def)
    have "unat heap + 544 \<le> unat (b + n)" by (rule run_bounds(1)[OF sp(1) k])
    then have k0: "b + n \<noteq> 0" by (metis add_is_0 le_zero_eq unat_0 zero_neq_numeral)
    have "free_set ?S = insert (b + n) (insert b (free_set B))"
      using ne unfolding S free_set_def by (auto split: if_splits)
    then have fs: "free_set ?S - {b} = insert (b + n) (free_set B - {b})" using ne by auto
    obtain m2 where "heap_insert m1 heap (b + n) = Some m2" "working m0 W heap e ?S (insert (b + n) (free_set B - {b})) m2"
      using work_insert[OF m1(2) k nk hole] by blast
    moreover have "?S b = Some (n, False)" unfolding S using ne by simp
    ultimately show ?thesis using True k0 unfolding fs by simp
  next
    case False
    then have "?S = B" using b by (simp add: run_split_def)
    then show ?thesis using m1(2) b False by auto
  qed
  then obtain m2 t where m2: "(if ?k \<noteq> 0 then heap_insert m1 heap ?k else Some m1) = Some m2" "?S b = Some (t, False)"
    "working m0 W heap e ?S (free_set ?S - {b}) m2" by blast
  have al: "run_alloc B b n = ?S(b \<mapsto> (t, True))" using m2(2) by (simp add: run_alloc_def)
  have fs: "free_set (?S(b \<mapsto> (t, True))) = free_set ?S - {b}" by (auto simp: free_set_def)
  have "working m0 W heap e (?S(b \<mapsto> (t, True))) (free_set ?S - {b}) (HEAP_SET_USED m2 b (of_bool True))"
    by (rule work_use[OF m2(3,2) _ workingD(3)[OF m2(3,2)]]) simp
  then have "working m0 W heap e (run_alloc B b n) (free_set (run_alloc B b n)) (heap_unlock (HEAP_SET_USED m2 b 1) heap)"
    unfolding al fs heap_unlock_def by (intro work_lock) simp
  then show ?thesis using m1(1) m2(1) by blast
qed

lemma alloc_fits:
  assumes ok: "heap_ok m heap B" and sz: "0 < sz" "unat sz \<le> 2 ^ 63" and n: "n = HEAP_BSIZE (HEAP_SIZE_ALIGN sz)"
    and fit: "\<exists>a t. B a = Some (t, False) \<and> n \<le> t"
    and hole: "\<forall>a t. B a = Some (t, False) \<longrightarrow> t - n \<noteq> 1040 \<and> t - n \<noteq> 1056"
    and one: "one_size B (free_set B)"
  shows "\<exists>b s m'. B b = Some (s, False) \<and> n \<le> s \<and> (\<forall>a t. B a = Some (t, False) \<and> n \<le> t \<longrightarrow> s \<le> t) \<and>
    heap_alloc pa m heap sz False = Some (m', HEAP_GET_PAYLOAD b) \<and>
    heap_ok m' heap (run_alloc B b n) \<and> within (free_bytes heap B) m m'"
proof -
  note bs = block_size[OF sz, folded n]
  let ?e = "end_addr m heap" and ?W = "free_bytes heap B" and ?m = "store64 m (heap + 24) (load64 m (heap + 24) OR 1)"
  have un: "\<not> heap_locked m heap" using ok by (simp add: heap_ok_def)
  have wk: "working m ?W heap ?e B (free_set B) ?m" by (rule work_lock[OF heap_ok_working[OF ok order_refl]])
  note D = workingD[OF wk]
  have sz_of: "HEAP_GET_SIZE ?m a = t" if "B a = Some (t, u)" for a t u by (rule tagged_size[OF D(7) that])
  obtain a0 t0 where a0: "B a0 = Some (t0, False)" "n \<le> t0" using fit by blast
  have "\<exists>x\<in>free_set B. n \<le> HEAP_GET_SIZE ?m x"
    using a0 sz_of[OF a0(1)] by (intro bexI[of _ a0]) (simp_all add: free_set_def)
  then obtain b where b: "heap_search ?m heap n False = Some b" "b \<in> free_set B" "n \<le> HEAP_GET_SIZE ?m b"
    "\<forall>x\<in>free_set B. n \<le> HEAP_GET_SIZE ?m x \<longrightarrow> HEAP_GET_SIZE ?m b \<le> HEAP_GET_SIZE ?m x"
    using free_search[OF D(10) bs(1,2)] by auto
  then obtain s where s: "B b = Some (s, False)" by (auto simp: free_set_def)
  have ns: "n \<le> s" using b(3) sz_of[OF s] by simp
  have best: "s \<le> t" if "B a = Some (t, False)" "n \<le> t" for a t
    using b(4) that sz_of[OF s] sz_of[OF that(1)] unfolding free_set_def by blast
  have b0: "b \<noteq> 0" using run_bounds(1)[OF D(6) s] by auto
  have "working m ?W heap ?e B (free_set B - {b}) (heap_remove ?m heap b)" by (rule work_take[OF wk one b(2)])
  from work_place[OF this s bs(1,2) ns] hole s obtain m1 k m2 where p: "heap_split_block (heap_remove ?m heap b) b n = (m1, k)"
    "(if k \<noteq> 0 then heap_insert m1 heap k else Some m1) = Some m2"
    "working m ?W heap ?e (run_alloc B b n) (free_set (run_alloc B b n)) (heap_unlock (HEAP_SET_USED m2 b 1) heap)" by blast
  have "heap_alloc pa m heap sz False = Some (heap_unlock (HEAP_SET_USED m2 b 1) heap, HEAP_GET_PAYLOAD b)"
    using heap_wait_lock_free[OF un] sz(1) b(1) b0 p(1,2) by (simp add: heap_alloc_def Let_def n[symmetric])
  then show ?thesis using working_heap_ok[OF p(3) heap_unlock_unlocks] s ns best by blast
qed


section \<open>Merging\<close>

lemma run_pred_unique:
  assumes ok: "run_ok heap e B" and a: "B a = Some (s, u)" "B c = Some (t, v)" "a + s = c + t"
  shows "a = c"
proof (rule ccontr)
  assume "a \<noteq> c"
  note ba = run_bounds[OF ok a(1)] and bc = run_bounds[OF ok a(2)]
  have "unat (a + s) = unat a + unat s" "unat (c + t) = unat c + unat t" using ba bc by (simp_all add: unat_word_ariths)
  then show False using run_apart[OF ok a(1,2) \<open>a \<noteq> c\<close>] a(3) ba(2) bc(2) by simp
qed

lemma run_pred:
  assumes ok: "run_ok heap e B" and b: "B b = Some (s, u)" "unat heap + 544 < unat b"
  obtains c t v where "B c = Some (t, v)" "c + t = b" "c \<noteq> b"
proof -
  have "unat heap + 544 \<le> unat b - 1" "unat b - 1 < unat e" using b(2) run_bounds(2,4)[OF ok b(1)] by auto
  then obtain c t v where c: "B c = Some (t, v)" "unat c \<le> unat b - 1" "unat b - 1 < unat c + unat t"
    by (rule run_cover[OF ok])
  have ne: "c \<noteq> b" using c(2) b(2) by auto
  have "unat c + unat t = unat b"
    using run_apart[OF ok c(1) b(1) ne] c(2,3) run_bounds(2)[OF ok b(1)] by auto
  then have "c + t = b" using run_bounds(5)[OF ok c(1)] by (simp add: word_unat_eq_iff unat_word_ariths)
  then show thesis using that c(1) ne by blast
qed

lemma run_succ:
  assumes ok: "run_ok heap e B" and b: "B b = Some (s, u)" "unat b + unat s < unat e"
  obtains t v where "B (b + s) = Some (t, v)"
proof -
  have ub: "unat (b + s) = unat b + unat s" using run_bounds(5)[OF ok b(1)] by (simp add: unat_word_ariths)
  have "unat heap + 544 \<le> unat (b + s)" "unat (b + s) < unat e" using b(2) run_bounds(1)[OF ok b(1)] ub by auto
  then obtain c t v where c: "B c = Some (t, v)" "unat c \<le> unat (b + s)" "unat (b + s) < unat c + unat t"
    by (rule run_cover[OF ok])
  have "c \<noteq> b" using c ub b(1) by auto
  then have "unat c = unat (b + s)" using run_apart[OF ok c(1) b(1)] c ub run_bounds(2)[OF ok c(1)] by auto
  then show thesis using that c(1) by (simp add: word_unat_eq_iff[symmetric])
qed

lemma free_set_join:
  "B a = Some (s, u) \<Longrightarrow> B b = Some (t, v) \<Longrightarrow> a \<noteq> b \<Longrightarrow> free_set (run_join B a b) - {a} = free_set B - {b} - {a}"
  by (auto simp: free_set_def run_join_def split: if_splits)

lemma work_merge_left:
  assumes wk: "working m0 W heap e B (free_set B - {b}) m" and b: "B b = Some (s, False)"
    and one: "one_size B (free_set B - {b})"
    and l: "l = b \<and> (\<forall>a t. B a = Some (t, False) \<longrightarrow> a + t \<noteq> b) \<or> (\<exists>t. B l = Some (t, False) \<and> l + t = b)"
  defines "B' \<equiv> if l = b then B else run_join B l b"
  shows "\<exists>m'. heap_merge_left m heap b = (m', l) \<and> working m0 W heap e B' (free_set B' - {l}) m'"
proof -
  note D = workingD[OF wk]
  have u544: "unat (heap + 544) = unat heap + 544" using run_e[OF D(6)] unat64_lt[of e] by (simp add: unat_word_ariths)
  have lb: "l \<noteq> b \<Longrightarrow> \<exists>t. B l = Some (t, False) \<and> l + t = b" using l by blast
  show ?thesis
  proof (cases "heap + 544 < b")
    case False
    have "l = b"
    proof (rule ccontr)
      assume "l \<noteq> b"
      then obtain t where t: "B l = Some (t, False)" "l + t = b" using lb by blast
      then have "unat b = unat l + unat t" using run_bounds(5)[OF D(6) t(1)] by (auto simp: unat_word_ariths)
      then show False using run_bounds(1,2)[OF D(6) t(1)] False u544 by (simp add: word_less_nat_alt)
    qed
    then show ?thesis using False wk D(4) by (simp add: heap_merge_left_def B'_def)
  next
    case True
    then have "unat heap + 544 < unat b" using u544 by (simp add: word_less_nat_alt)
    from run_pred[OF D(6) b this] obtain c t v where c: "B c = Some (t, v)" "c + t = b" "c \<noteq> b" .
    have blk: "block m c t" "HEAP_GET_USED m c = of_bool v" using D(7) c(1) by (auto simp: tagged_def)
    have f: "HEAP_GET_FOOTER m c = HEAP_LEFT_FOOTER b"
      using blk(1) c(2) by (auto simp: HEAP_GET_FOOTER_def HEAP_LEFT_FOOTER_def block_def)
    have ch: "HEAP_CHECK_FOOTER m (HEAP_LEFT_FOOTER b)" "HEAP_GET_HEADER m (HEAP_LEFT_FOOTER b) = c"
      using blk(1) f by (simp_all add: block_def HEAP_CHECK_FOOTER_def HEAP_CHECK_HEADER_def)
    show ?thesis
    proof (cases v)
      assume v: v
      have "l = b"
      proof (rule ccontr)
        assume "l \<noteq> b"
        then obtain r where r: "B l = Some (r, False)" "l + r = b" using lb by blast
        then have "l = c" using run_pred_unique[OF D(6) r(1) c(1)] c(2) by simp
        then show False using r c(1) v by simp
      qed
      then show ?thesis using True wk D(4) ch blk(2) v by (simp add: heap_merge_left_def B'_def Let_def)
    next
      assume v: "\<not> v"
      have lc: "l = c"
      proof (cases "l = b")
        case True then show ?thesis using l c(1,2) v by (metis (full_types) b run_pred_unique[OF D(6)])
      next
        case False
        then obtain r where r: "B l = Some (r, False)" "l + r = b" using lb by blast
        then show ?thesis using run_pred_unique[OF D(6) r(1) c(1)] c(2) by simp
      qed
      have cF: "B c = Some (t, False)" "c \<in> free_set B - {b}" using c(1,3) v by (simp_all add: free_set_def)
      let ?m = "heap_remove m heap c"
      have wk1: "working m0 W heap e B (free_set B - {b} - {c}) ?m" by (rule work_take[OF wk one cF(2)])
      have sz: "HEAP_GET_SIZE ?m c = t" "HEAP_GET_SIZE ?m b = s"
        using tagged_size[OF workingD(7)[OF wk1]] cF(1) b by blast+
      have bt: "B (c + t) = Some (s, False)" using b c(2) by simp
      have "working m0 W heap e (run_join B c (c + t)) (free_set B - {b} - {c}) (heap_create_block ?m c (t + s))"
        by (rule work_join[OF wk1 cF(1) _ bt]) (use c(2) in auto)
      moreover have "free_set (run_join B c b) - {c} = free_set B - {b} - {c}" by (rule free_set_join[OF cF(1) b c(3)])
      moreover have "heap_merge_left m heap b = (heap_create_block ?m c (t + s), c)"
        using True D(4) ch blk(2) v sz by (simp add: heap_merge_left_def Let_def)
      ultimately show ?thesis using lc c(2,3) by (simp add: B'_def)
    qed
  qed
qed

lemma work_merge_right:
  assumes wk: "working m0 W heap e B (free_set B - {b}) m" and b: "B b = Some (s, False)"
    and one: "one_size B (free_set B - {b})"
  defines "B' \<equiv> case B (b + s) of Some (_, False) \<Rightarrow> run_join B b (b + s) | _ \<Rightarrow> B"
  shows "working m0 W heap e B' (free_set B' - {b}) (heap_merge_right m heap b)"
proof -
  note D = workingD[OF wk]
  note bb = run_bounds[OF D(6) b]
  have ub: "unat (b + s) = unat b + unat s" using bb(5) by (simp add: unat_word_ariths)
  have gs: "HEAP_GET_SIZE m b = s" by (rule tagged_size[OF D(7) b])
  have f: "HEAP_GET_FOOTER m b + 16 = b + s" "HEAP_RIGHT_HEADER m b = b + s"
    using gs by (simp_all add: HEAP_GET_FOOTER_def HEAP_RIGHT_HEADER_def)
  show ?thesis
  proof (cases "b + s < e")
    case False
    have "B (b + s) = None"
    proof (rule ccontr)
      assume "B (b + s) \<noteq> None"
      then obtain t v where t: "B (b + s) = Some (t, v)" by auto
      show False using run_bounds(2,4)[OF D(6) t] False by (simp add: word_less_nat_alt)
    qed
    then show ?thesis using False wk D(5) f by (simp add: heap_merge_right_def B'_def)
  next
    case True
    then have "unat b + unat s < unat e" using ub by (simp add: word_less_nat_alt)
    from run_succ[OF D(6) b this] obtain t v where t: "B (b + s) = Some (t, v)" .
    have blk: "HEAP_CHECK_HEADER m (b + s)" "HEAP_GET_USED m (b + s) = of_bool v"
      using D(7) t by (auto simp: tagged_def block_def)
    have ne: "b \<noteq> b + s" using bb(2) by auto
    show ?thesis
    proof (cases v)
      assume v then show ?thesis using True wk D(5) f blk t by (simp add: heap_merge_right_def B'_def Let_def)
    next
      assume v: "\<not> v"
      have tF: "B (b + s) = Some (t, False)" "b + s \<in> free_set B - {b}" using t ne v by (auto simp: free_set_def)
      let ?m = "heap_remove m heap (b + s)"
      have wk1: "working m0 W heap e B (free_set B - {b} - {b + s}) ?m" by (rule work_take[OF wk one tF(2)])
      have sz: "HEAP_GET_SIZE ?m b = s" "HEAP_GET_SIZE ?m (b + s) = t"
        using tagged_size[OF workingD(7)[OF wk1]] tF(1) b by blast+
      have "working m0 W heap e (run_join B b (b + s)) (free_set B - {b} - {b + s}) (heap_create_block ?m b (s + t))"
        by (rule work_join[OF wk1 b _ tF(1)]) auto
      moreover have "free_set (run_join B b (b + s)) - {b} = free_set B - {b} - {b + s}"
        using free_set_join[OF b tF(1) ne] by auto
      moreover have "heap_merge_right m heap b = heap_create_block ?m b (s + t)"
        using True D(5) f blk v sz by (simp add: heap_merge_right_def Let_def)
      ultimately show ?thesis using t v by (simp add: B'_def)
    qed
  qed
qed


lemma free_returns:
  assumes ok: "heap_ok m heap B" and b: "B b = Some (s, True)"
    and l: "l = b \<and> (\<forall>a t. B a = Some (t, False) \<longrightarrow> a + t \<noteq> b) \<or> (\<exists>t. B l = Some (t, False) \<and> l + t = b)"
    and one: "one_size B (free_set B)" and r: "run_free B l b l = Some (r, False)" "r \<noteq> 1040" "r \<noteq> 1056"
  shows "\<exists>m'. heap_free m heap (HEAP_GET_PAYLOAD b) = Some m' \<and> heap_ok m' heap (run_free B l b) \<and>
    within (free_bytes heap B \<union> addrs b (unat s)) m m'"
proof -
  let ?e = "end_addr m heap" and ?W = "free_bytes heap B \<union> addrs b (unat s)"
  let ?m0 = "store64 m (heap + 24) (load64 m (heap + 24) OR 1)" and ?B1 = "B(b \<mapsto> (s, False))"
  have un: "\<not> heap_locked m heap" using ok by (simp add: heap_ok_def)
  have wk0: "working m ?W heap ?e B (free_set B) ?m0" by (rule work_lock[OF heap_ok_working[OF ok Un_upper1]])
  have D: "run_ok heap ?e B" "tagged m B" using ok by (simp_all add: heap_ok_def)
  have nf: "b \<notin> free_set B" using b by (auto simp: free_set_def)
  have F1: "free_set ?B1 - {b} = free_set B" using nf by (auto simp: free_set_def)
  have wk1: "working m ?W heap ?e ?B1 (free_set ?B1 - {b}) (HEAP_SET_USED ?m0 b 0)"
    using work_use[OF wk0 b nf Un_upper2, of False] unfolding F1 by simp
  have one1: "one_size ?B1 (free_set ?B1 - {b})" using one nf unfolding F1 one_size_def by auto
  have lb: "?B1 a = Some (t, False) \<and> a + t = b \<longleftrightarrow> B a = Some (t, False) \<and> a + t = b" for a t
    using b run_bounds(2)[OF D(1) b] by auto
  have l1: "l = b \<and> (\<forall>a t. ?B1 a = Some (t, False) \<longrightarrow> a + t \<noteq> b) \<or> (\<exists>t. ?B1 l = Some (t, False) \<and> l + t = b)"
    using l lb by metis
  define B2 where "B2 = (if l = b then ?B1 else run_join ?B1 l b)"
  obtain m2 where m2: "heap_merge_left (HEAP_SET_USED ?m0 b 0) heap b = (m2, l)"
    "working m ?W heap ?e B2 (free_set B2 - {l}) m2"
    using work_merge_left[OF wk1 _ one1 l1] unfolding B2_def by auto
  have B2l: "\<exists>t. B2 l = Some (t, False) \<and> l + t = b + s"
  proof (cases "l = b")
    case False
    then obtain t where t: "B l = Some (t, False)" "l + t = b" using l by blast
    then show ?thesis using False by (auto simp: B2_def run_join_def)
  qed (simp add: B2_def)
  then obtain t where t: "B2 l = Some (t, False)" "l + t = b + s" by blast
  have sub: "a \<in> free_set B \<and> B2 a = B a" if "a \<in> free_set B2 - {l}" for a
  proof (cases "l = b")
    case True then show ?thesis using that by (auto simp: B2_def free_set_def)
  next
    case False
    then obtain t where "B l = Some (t, False)" using l by blast
    then show ?thesis using False that b by (auto simp: B2_def free_set_def run_join_def split: if_splits)
  qed
  then have one2: "one_size B2 (free_set B2 - {l})" using one unfolding one_size_def by metis
  have rf: "run_free B l b = (case B2 (l + t) of Some (_, False) \<Rightarrow> run_join B2 l (l + t) | _ \<Rightarrow> B2)"
    unfolding run_free_def b option.case prod.case Let_def B2_def t(2) by (rule refl)
  have wk3: "working m ?W heap ?e (run_free B l b) (free_set (run_free B l b) - {l}) (heap_merge_right m2 heap l)"
    using work_merge_right[OF m2(2) t(1) one2] unfolding rf by simp
  obtain m3 where m3: "heap_insert (heap_merge_right m2 heap l) heap l = Some m3"
    "working m ?W heap ?e (run_free B l b) (insert l (free_set (run_free B l b) - {l})) m3"
    using work_insert[OF wk3 r(1) _ r(2,3)] by blast
  have "insert l (free_set (run_free B l b) - {l}) = free_set (run_free B l b)" using r(1) by (auto simp: free_set_def)
  then have wk4: "working m ?W heap ?e (run_free B l b) (free_set (run_free B l b)) (heap_unlock m3 heap)"
    using work_lock[OF m3(2)] by (simp add: heap_unlock_def)
  have "HEAP_CHECK_HEADER m b" "unat b \<ge> 544" using D b run_bounds(1)[OF D(1) b] by (auto simp: tagged_def block_def)
  moreover have "b + 16 \<noteq> 0"
  proof -
    have "unat (b + 16) = unat b + 16" using run_bounds(2,5)[OF D(1) b] by (simp add: unat_word_ariths)
    then show ?thesis by (metis add_is_0 unat_0 zero_neq_numeral)
  qed
  ultimately have "heap_free m heap (HEAP_GET_PAYLOAD b) = Some (heap_unlock m3 heap)"
    using heap_wait_lock_free[OF un] m2(1) m3(1)
    by (simp add: heap_free_def HEAP_GET_PAYLOAD_def HEAP_PAYLOAD_HEADER_def Let_def)
  then show ?thesis using working_heap_ok[OF wk4 heap_unlock_unlocks] by blast
qed


section \<open>Growing\<close>

text \<open>The page allocator leaves the heap alone.\<close>

definition same_heap :: "u64 \<Rightarrow> u64 \<Rightarrow> mem \<Rightarrow> mem \<Rightarrow> bool" where
  "same_heap heap e m m' \<longleftrightarrow> (\<forall>x. unat heap \<le> unat x \<and> unat x < unat e \<longrightarrow> m' x = m x)"

lemma run_in_heap:
  assumes ok: "run_ok heap e B"
  shows "x \<in> addrs heap 544 \<Longrightarrow> unat heap \<le> unat x \<and> unat x < unat e"
    and "B b = Some (s, u) \<Longrightarrow> x \<in> addrs b (unat s) \<Longrightarrow> unat heap \<le> unat x \<and> unat x < unat e"
proof -
  show "x \<in> addrs heap 544 \<Longrightarrow> unat heap \<le> unat x \<and> unat x < unat e"
    using in_addrs_nat[OF run_top[OF ok]] run_e[OF ok] by auto
  assume b: "B b = Some (s, u)" and x: "x \<in> addrs b (unat s)"
  have "unat b \<le> unat x \<and> unat x < unat b + unat s"
    using addrs_nowrap[of b "unat s" x] run_bounds(5)[OF ok b] x by simp
  then show "unat heap \<le> unat x \<and> unat x < unat e" using run_bounds(1,4)[OF ok b] by linarith
qed

lemma working_same:
  assumes wk: "working m0 W heap e B F m" and same: "same_heap heap e m m'"
  shows "working m' W heap e B F m'"
proof -
  note D = workingD[OF wk]
  let ?A = "{x. \<not> (unat heap \<le> unat x \<and> unat x < unat e)}"
  have w: "within ?A m m'" using same by (auto simp: within_def same_heap_def)
  have h: "m' x = m x" if "x \<in> addrs heap 544" for x
    using same run_in_heap(1)[OF D(6) that] unfolding same_heap_def by blast
  have b: "m' x = m x" if "B b = Some (s, u)" "x \<in> addrs b (unat s)" for b s u x
    using same run_in_heap(2)[OF D(6) that] unfolding same_heap_def by blast
  have sub: "addrs heap 8 \<subseteq> addrs heap 544" "addrs (heap + 8) 8 \<subseteq> addrs heap 544" "addrs (heap + 32) 512 \<subseteq> addrs heap 544"
    using addrs_mono[of 8 544 heap] addrs_sub[of heap 8 8] addrs_mono[of 16 544 heap]
      slot_sub(2)[OF run_top[OF D(6)], of 0] by auto
  have "load64 m' heap = load64 m heap" "load64 m' (heap + 8) = load64 m (heap + 8)"
    by (rule load64_cong, use h sub in blast)+
  moreover have "tagged m' B"
  proof (rule tagged_keep[OF D(6,7) w])
    show "tag_bytes b s \<inter> ?A = {}" if bs: "B b = Some (s, u)" for b s u
    proof -
      have "32 \<le> unat s" using run_bounds(2)[OF D(6) bs] by simp
      then have "x \<in> addrs b (unat s)" if "x \<in> tag_bytes b s" for x using tags_in(1) that by blast
      then show ?thesis using run_in_heap(2)[OF D(6) bs] by blast
    qed
  qed
  moreover have "free_ok m' heap F"
  proof (rule free_ok_cong[OF D(10)])
    show "m' x = m x" if "x \<in> addrs (heap + 32) 512" for x using that sub h by blast
    show "m' x = m x" if aF: "a \<in> F" "x \<in> addrs a 48" for a x
    proof -
      obtain s u where a: "B a = Some (s, u)" using aF(1) D(9) by fast
      show ?thesis using b[OF a] run_cell[OF D(6) a] aF(2) by blast
    qed
  qed
  ultimately show ?thesis using D by (simp add: working_def start_addr_def end_addr_def)
qed

lemma run_grow:
  assumes ok: "run_ok heap e B" and g: "HEAP_ALIGN g = g" "48 \<le> g" "unat e + unat g < 2 ^ 64"
  shows "run_ok heap (e + g) (B(e \<mapsto> (g, False)))" "B e = None" "unat (e + g) = unat e + unat g"
proof -
  show u: "unat (e + g) = unat e + unat g" using g(3) by (simp add: unat_word_ariths)
  have g48: "48 \<le> unat g" using g(2) by (simp add: word_le_nat_alt)
  show n: "B e = None"
  proof (rule ccontr)
    assume "B e \<noteq> None"
    then obtain t v where t: "B e = Some (t, v)" by auto
    show False using run_bounds(2,4)[OF ok t] by linarith
  qed
  have old: "c = e \<and> t = g \<or> c \<noteq> e \<and> B c = Some (t, v) \<and> unat c + unat t \<le> unat e"
    if "(B(e \<mapsto> (g, False))) c = Some (t, v)" for c t v
    using that run_bounds(4)[OF ok, of c t v] by (auto split: if_splits)
  show "run_ok heap (e + g) (B(e \<mapsto> (g, False)))"
  proof (rule run_okI)
    show "unat heap + 544 \<le> unat (e + g)" using run_e[OF ok] u by linarith
    fix c t v assume c: "(B(e \<mapsto> (g, False))) c = Some (t, v)"
    show "unat heap + 544 \<le> unat c \<and> 48 \<le> unat t \<and> HEAP_ALIGN t = t \<and> unat c + unat t \<le> unat (e + g)"
      using old[OF c] run_bounds(1-4)[OF ok, of c t v] run_e[OF ok] u g g48 by auto
    fix c' t' v' assume c': "(B(e \<mapsto> (g, False))) c' = Some (t', v')" and "c \<noteq> c'"
    then show "unat c + unat t \<le> unat c' \<or> unat c' + unat t' \<le> unat c"
      using old[OF c] old[OF c'] run_apart[OF ok, of c t v c' t' v'] by auto
  next
    fix x assume x: "unat heap + 544 \<le> x" "x < unat (e + g)"
    show "\<exists>c t v. (B(e \<mapsto> (g, False))) c = Some (t, v) \<and> unat c \<le> x \<and> x < unat c + unat t"
    proof (cases "x < unat e")
      case True
      from x(1) True obtain c t v where c: "B c = Some (t, v)" "unat c \<le> x" "x < unat c + unat t" by (rule run_cover[OF ok])
      then show ?thesis using n by (intro exI[of _ c] exI[of _ t] exI[of _ v]) auto
    next
      case False
      then show ?thesis using x u by (intro exI[of _ e] exI[of _ g] exI[of _ False]) simp
    qed
  qed
qed

lemma work_extend:
  assumes wk: "working m0 W heap e B (free_set B) m" and W: "addrs e (unat g) \<subseteq> W"
    and g: "HEAP_ALIGN g = g" "48 \<le> g" "unat e + unat g < 2 ^ 64"
  defines "B' \<equiv> B(e \<mapsto> (g, False))"
  shows "working m0 W heap (e + g) B' (free_set B' - {e}) (heap_create_block (store64 m (heap + 8) (e + g)) e g)"
proof -
  note D = workingD[OF wk]
  note gr = run_grow[OF D(6) g, folded B'_def]
  let ?A = "addrs (heap + 8) 8 \<union> tag_bytes e g" and ?m1 = "store64 m (heap + 8) (e + g)"
  let ?m = "heap_create_block ?m1 e g"
  have g32: "32 \<le> unat g" "32 \<le> g" using g(2) by (auto simp: word_le_nat_alt)
  have new: "B' e = Some (g, False)" by (simp add: B'_def)
  have Fe: "free_set B' - {e} = free_set B" using gr(2) by (auto simp: B'_def free_set_def)
  have w: "within ?A m ?m"
    by (rule within_UnI[OF within_store[OF order_refl within_refl] create_within[OF g(1)]])
  have te: "tag_bytes e g \<subseteq> addrs e (unat g)" by (rule tags_in(1)[OF g32(1)])
  have hd: "addrs (heap + 8) 8 \<subseteq> addrs heap 544" using addrs_sub[of heap 8 8] addrs_mono[of 16 544 heap] by auto
  have eh: "addrs heap 544 \<inter> addrs e (unat g) = {}" by (rule run_extents(2)[OF gr(1) new])
  have old: "B' b = Some (s, u)" "b \<noteq> e" if "B b = Some (s, u)" for b s u using that gr(2) by (auto simp: B'_def)
  have apart: "addrs b (unat s) \<inter> ?A = {}" if "B b = Some (s, u)" for b s u
    using run_extents(1)[OF gr(1) old(1)[OF that] new old(2)[OF that]] run_extents(2)[OF D(6) that] te hd by blast
  have "tagged ?m B"
  proof (rule tagged_keep[OF D(6,7) w])
    show "tag_bytes b s \<inter> ?A = {}" if b: "B b = Some (s, u)" for b s u
      using apart[OF b] tags_in(1)[of s b] run_bounds(2)[OF D(6) b] by fastforce
  qed
  moreover have "block ?m e g \<and> HEAP_GET_USED ?m e = 0" by (rule create_tagged[OF g(1) g32(2)])
  ultimately have tg: "tagged ?m B'" by (auto simp: tagged_def B'_def)
  have u: "unat (heap + 8) = unat heap + 8" "unat (heap + 32) = unat heap + 32"
    using run_top[OF D(6)] by (simp_all add: unat_word_ariths)
  have dj: "addrs (heap + 8) 8 \<inter> addrs (heap + 32) 512 = {}" "addrs heap 8 \<inter> addrs (heap + 8) 8 = {}"
    using u run_top[OF D(6)] by (intro addrs_disjointI(1); simp)+
  have hs: "addrs (heap + 32) 512 \<subseteq> addrs heap 544" "addrs heap 8 \<subseteq> addrs heap 544"
    using slot_sub(2)[OF run_top[OF D(6)], of 0] addrs_mono[of 8 544 heap] by simp_all
  have fr: "free_ok ?m heap (free_set B)"
  proof (rule free_ok_cong[OF D(10)])
    show "?m x = m x" if "x \<in> addrs (heap + 32) 512" for x
      using that w dj(1) hs(1) eh te unfolding within_def by blast
    show "?m x = m x" if aF: "a \<in> free_set B" "x \<in> addrs a 48" for a x
    proof -
      obtain s where a: "B a = Some (s, False)" using aF(1) unfolding free_set_def by blast
      show ?thesis using apart[OF a] run_cell[OF D(6) a] aF(2) w unfolding within_def by blast
    qed
  qed
  have "addrs heap 8 \<inter> ?A = {}" using dj(2) hs(2) eh te by blast
  then have st: "load64 ?m heap = load64 m heap" by (rule within_load[OF w])
  have "load64 ?m (heap + 8) = load64 ?m1 (heap + 8)"
    by (rule within_load[OF create_within[OF g(1)]]) (use hd eh te in blast)
  then have en: "load64 ?m (heap + 8) = e + g" by simp
  have "?A \<subseteq> W" using hd D(2) te W by blast
  then have "within W m0 ?m" using within_trans[OF D(1) within_mono[OF w]] by blast
  moreover have "addrs b (unat s) \<subseteq> W" if "B' b = Some (s, False)" for b s
    using that D(3) W by (auto simp: B'_def split: if_splits)
  ultimately show ?thesis unfolding Fe working_def
    using D(2,4) gr(1) tg fr st en Fe by (auto simp: start_addr_def end_addr_def)
qed


text \<open>Used blocks keep every byte.\<close>

definition keeps_used :: "run \<Rightarrow> mem \<Rightarrow> mem \<Rightarrow> bool" where
  "keeps_used B m m' \<longleftrightarrow> (\<forall>b s. B b = Some (s, True) \<longrightarrow> (\<forall>x\<in>addrs b (unat s). m' x = m x))"

lemma used_apart:
  assumes ok: "run_ok heap e B" and b: "B b = Some (s, True)"
  shows "addrs b (unat s) \<inter> free_bytes heap B = {}"
proof -
  have "addrs b (unat s) \<inter> addrs c (unat t) = {}" if "B c = Some (t, False)" for c t
    using run_extents(1)[OF ok b that] b that by (cases "c = b") auto
  then show ?thesis using run_extents(2)[OF ok b] unfolding free_bytes_def by blast
qed

lemma keeps_used_within:
  assumes "run_ok heap e B" "within (free_bytes heap B) m m'"
  shows "keeps_used B m m'"
  using used_apart[OF assms(1)] assms(2) unfolding keeps_used_def within_def by blast

lemma keeps_used_grown:
  assumes ok: "run_ok heap e B" and same: "same_heap heap e (store64 m (heap + 24) v) mp"
    and w: "within (free_bytes heap B \<union> A) mp m'" and A: "\<And>x. x \<in> A \<Longrightarrow> unat e \<le> unat x"
  shows "keeps_used B m m'"
  unfolding keeps_used_def
proof (intro allI impI ballI)
  fix b s x assume b: "B b = Some (s, True)" and x: "x \<in> addrs b (unat s)"
  note ih = run_in_heap(2)[OF ok b x]
  have "x \<notin> free_bytes heap B" using used_apart[OF ok b] x by blast
  then have "m' x = mp x" using w A ih unfolding within_def by fastforce
  also have "mp x = store64 m (heap + 24) v x" using same ih by (simp add: same_heap_def)
  also have "\<dots> = m x"
    using run_extents(2)[OF ok b] x heap_parts(1)[OF run_top[OF ok]] by (intro store64_other) blast
  finally show "m' x = m x" .
qed

lemma run_end_bytes:
  assumes "unat e + unat g < 2 ^ 64" "x \<in> addrs e (unat g)"
  shows "unat e \<le> unat x"
  using addrs_nowrap[of e "unat g" x] assms by simp

text \<open>No free block is large enough: the search gives null.\<close>

lemma search_none:
  assumes wk: "working m0 W heap e B (free_set B) m" and n: "HEAP_ALIGN n = n" "48 \<le> n"
    and none: "\<forall>a t. B a = Some (t, False) \<longrightarrow> t < n"
  shows "heap_search m heap n False = Some 0"
proof -
  note D = workingD[OF wk]
  have "\<not> n \<le> HEAP_GET_SIZE m x" if "x \<in> free_set B" for x
  proof -
    obtain t where t: "B x = Some (t, False)" using \<open>x \<in> free_set B\<close> unfolding free_set_def by blast
    then show ?thesis using none tagged_size[OF D(7) t] by (simp add: not_le)
  qed
  then show ?thesis using free_search[OF D(10) n] by auto
qed

lemma alloc_exhausted:
  assumes ok: "heap_ok m heap B" and sz: "0 < sz" "unat sz \<le> 2 ^ 63" and n: "n = HEAP_BSIZE (HEAP_SIZE_ALIGN sz)"
    and none: "\<forall>a t. B a = Some (t, False) \<longrightarrow> t < n"
    and pa: "heap_wait_lock m heap = Some m1" "pa m1 (end_addr m heap) n = Some (mp, 0)"
      "same_heap heap (end_addr m heap) m1 mp"
  shows "\<exists>m'. heap_alloc pa m heap sz False = Some (m', 0) \<and> heap_ok m' heap B \<and> keeps_used B m m'"
proof -
  note bs = block_size[OF sz, folded n]
  let ?e = "end_addr m heap" and ?W = "free_bytes heap B"
  have un: "\<not> heap_locked m heap" using ok by (simp add: heap_ok_def)
  have m1: "m1 = store64 m (heap + 24) (load64 m (heap + 24) OR 1)" using heap_wait_lock_free[OF un] pa(1) by simp
  have wk: "working m ?W heap ?e B (free_set B) m1" unfolding m1 by (rule work_lock[OF heap_ok_working[OF ok order_refl]])
  note D = workingD[OF wk]
  have wk2: "working mp ?W heap ?e B (free_set B) (heap_unlock mp heap)"
    unfolding heap_unlock_def by (rule work_lock[OF working_same[OF wk pa(3)]])
  have "heap_alloc pa m heap sz False = Some (heap_unlock mp heap, 0)"
    using pa(1,2) search_none[OF wk bs(1,2) none] D(5) sz(1)
    by (simp add: heap_alloc_def heap_extend_def Let_def n[symmetric])
  moreover have w: "heap_ok (heap_unlock mp heap) heap B \<and> within ?W mp (heap_unlock mp heap)"
    by (rule working_heap_ok[OF wk2 heap_unlock_unlocks])
  moreover have "keeps_used B m (heap_unlock mp heap)"
    by (rule keeps_used_grown[OF D(6) pa(3)[unfolded m1], where A = "{}"]) (use w in auto)
  ultimately show ?thesis by blast
qed

lemma alloc_grows:
  assumes ok: "heap_ok m heap B" and sz: "0 < sz" "unat sz \<le> 2 ^ 63" and n: "n = HEAP_BSIZE (HEAP_SIZE_ALIGN sz)"
    and none: "\<forall>a t. B a = Some (t, False) \<longrightarrow> t < n" and one: "one_size B (free_set B)"
    and e: "e = end_addr m heap"
    and pa: "heap_wait_lock m heap = Some m1" "pa m1 e n = Some (mp, g)" "same_heap heap e m1 mp"
    and g: "HEAP_ALIGN g = g" "n \<le> g" "unat e + unat g < 2 ^ 64"
    and l: "l = e \<and> (\<forall>a t. B a = Some (t, False) \<longrightarrow> a + t \<noteq> e) \<or> (\<exists>t. B l = Some (t, False) \<and> l + t = e)"
    and B2: "B2 = (if l = e then B(e \<mapsto> (g, False)) else run_join (B(e \<mapsto> (g, False))) l e)"
    and hole: "\<forall>s. B2 l = Some (s, False) \<longrightarrow> s - n \<noteq> 1040 \<and> s - n \<noteq> 1056"
  shows "\<exists>m'. heap_alloc pa m heap sz False = Some (m', HEAP_GET_PAYLOAD l) \<and>
    heap_ok m' heap (run_alloc B2 l n) \<and> end_addr m' heap = e + g \<and> keeps_used B m m'"
proof -
  note bs = block_size[OF sz, folded n]
  let ?W = "free_bytes heap B \<union> addrs e (unat g)" and ?B1 = "B(e \<mapsto> (g, False))"
  have un: "\<not> heap_locked m heap" using ok by (simp add: heap_ok_def)
  have m1: "m1 = store64 m (heap + 24) (load64 m (heap + 24) OR 1)" using heap_wait_lock_free[OF un] pa(1) by simp
  have wk: "working m ?W heap e B (free_set B) m1"
    unfolding m1 e by (rule work_lock[OF heap_ok_working[OF ok]]) simp
  note D = workingD[OF wk]
  have wkp: "working mp ?W heap e B (free_set B) mp" by (rule working_same[OF wk pa(3)])
  have g48: "48 \<le> g" using bs(2) g(2) by (rule order_trans)
  note gr = run_grow[OF D(6) g(1) g48 g(3)]
  let ?m2 = "heap_create_block (store64 mp (heap + 8) (e + g)) e g"
  have wk2: "working mp ?W heap (e + g) ?B1 (free_set ?B1 - {e}) ?m2"
    by (rule work_extend[OF wkp Un_upper2 g(1) g48 g(3)])
  have one1: "one_size ?B1 (free_set ?B1 - {e})"
    using one gr(2) unfolding one_size_def by (auto simp: free_set_def)
  have g0: "g \<noteq> 0" using g48 by auto
  have l1: "l = e \<and> (\<forall>a t. ?B1 a = Some (t, False) \<longrightarrow> a + t \<noteq> e) \<or> (\<exists>t. ?B1 l = Some (t, False) \<and> l + t = e)"
    using l gr(2) g0 by auto
  have e1: "?B1 e = Some (g, False)" by simp
  obtain m3 where m3: "heap_merge_left ?m2 heap e = (m3, l)" "working mp ?W heap (e + g) B2 (free_set B2 - {l}) m3"
    using work_merge_left[OF wk2 e1 one1 l1] unfolding B2 by blast
  have "\<exists>s. B2 l = Some (s, False) \<and> n \<le> s"
  proof (cases "l = e")
    case False
    then obtain t where t: "B l = Some (t, False)" "l + t = e" using l by blast
    have tl: "?B1 l = Some (t, False)" "?B1 (l + t) = Some (g, False)" using t False by auto
    have "g \<le> t + g" using run_join_ok(3)[OF gr(1) tl] by (simp add: word_le_nat_alt)
    then show ?thesis using t False g(2) unfolding B2 by (auto simp: run_join_def)
  qed (use g B2 in auto)
  then obtain s where s: "B2 l = Some (s, False)" "n \<le> s" by blast
  have l0: "l \<noteq> 0" using run_bounds(1)[OF workingD(6)[OF m3(2)] s(1)] by auto
  from work_place[OF m3(2) s(1) bs(1,2) s(2)] hole s(1) obtain m4 k m5 where p: "heap_split_block m3 l n = (m4, k)"
    "(if k \<noteq> 0 then heap_insert m4 heap k else Some m4) = Some m5"
    "working mp ?W heap (e + g) (run_alloc B2 l n) (free_set (run_alloc B2 l n)) (heap_unlock (HEAP_SET_USED m5 l 1) heap)"
    by blast
  let ?r = "heap_unlock (HEAP_SET_USED m5 l 1) heap"
  have "0 < g" using g0 by (simp add: word_neq_0_conv)
  have ex: "heap_extend pa m1 heap n = Some (m3, l)"
    using pa(2) D(5) workingD(5)[OF wkp] \<open>0 < g\<close> m3(1) by (simp add: heap_extend_def Let_def)
  have "heap_alloc pa m heap sz False = Some (?r, HEAP_GET_PAYLOAD l)"
    using pa(1) search_none[OF wk bs(1,2) none] ex sz(1) l0 p(1,2)
    by (simp add: heap_alloc_def Let_def n[symmetric])
  moreover have w: "heap_ok ?r heap (run_alloc B2 l n) \<and> within ?W mp ?r"
    by (rule working_heap_ok[OF p(3) heap_unlock_unlocks])
  moreover have "keeps_used B m ?r"
    by (rule keeps_used_grown[OF D(6) pa(3)[unfolded m1] w[THEN conjunct2]]) (rule run_end_bytes[OF g(3)])
  ultimately show ?thesis using workingD(5)[OF p(3)] by blast
qed

end
