(* ===== verification/HeapContract.thy ===== *)
theory HeapContract
  imports HeapSpec
begin

text \<open>
  The heap's contract as properties: creation, best-fit allocation, growth, freeing with
  merging, and that freeing undoes allocating. Freeing keeps the run coalesced: no two free
  blocks are side by side.
\<close>

section \<open>No two free blocks side by side\<close>

definition coalesced :: "run \<Rightarrow> bool" where
  "coalesced B \<longleftrightarrow> (\<forall>a s t. B a = Some (s, False) \<longrightarrow> B (a + s) \<noteq> Some (t, False))"

lemma run_alloc_eq:
  assumes "B b = Some (s, False)" "48 \<le> n"
  shows "run_alloc B b n = (if 48 \<le> s - n then B(b \<mapsto> (n, True), b + n \<mapsto> (s - n, False)) else B(b \<mapsto> (s, True)))"
proof -
  have "b + n \<noteq> b" using assms(2) by auto
  then show ?thesis using assms(1) by (auto simp: run_alloc_def run_split_def fun_upd_twist)
qed

lemma free_pred_alloc:
  assumes ok: "run_ok heap e B" and co: "coalesced B" and b: "B b = Some (s, False)" and n: "HEAP_ALIGN n = n" "48 \<le> n" "n \<le> s"
    and a: "run_alloc B b n a = Some (t, False)"
  shows "a + t \<noteq> b"
proof
  assume e: "a + t = b"
  have nb: "b + s \<noteq> b" using run_bounds(2)[OF ok b] by auto
  have "\<not> (a = b + n \<and> t = s - n)" using e nb by auto
  then have "B a = Some (t, False)" using a unfolding run_alloc_eq[of B, OF b n(2)] by (auto split: if_splits)
  then show False using co b e unfolding coalesced_def by blast
qed

lemma run_alloc_coalesced:
  assumes ok: "run_ok heap e B" and co: "coalesced B" and b: "B b = Some (s, False)" and n: "HEAP_ALIGN n = n" "48 \<le> n" "n \<le> s"
  shows "coalesced (run_alloc B b n)"
proof (cases "48 \<le> s - n")
  case False
  then show ?thesis using co unfolding run_alloc_eq[of B, OF b n(2)] coalesced_def by auto
next
  case True
  note sp = run_split_ok[OF ok b n True]
  let ?B = "B(b \<mapsto> (n, True), b + n \<mapsto> (s - n, False))" and ?S = "B(b \<mapsto> (n, False), b + n \<mapsto> (s - n, False))"
  have S: "run_split B b n = ?S" using b True by (simp add: run_split_def)
  have ne: "b + n \<noteq> b" using n(2) by auto
  have "?B (a + t) \<noteq> Some (r, False)" if a: "?B a = Some (t, False)" for a t r
  proof (cases "a = b + n")
    case True
    then have "a + t = b + n + (s - n)" using a by simp
    then have "a + t = b + s" by simp
    moreover have "b + s \<noteq> b + n" using \<open>48 \<le> s - n\<close> by auto
    moreover have "B (b + s) \<noteq> Some (r, False)" using co b unfolding coalesced_def by blast
    ultimately show ?thesis by auto
  next
    case False
    then have old: "B a = Some (t, False)" "a \<noteq> b" using a ne by (auto split: if_splits)
    have "?S a = Some (t, False)" "?S b = Some (n, False)" using old False ne by simp_all
    then have "a + t \<noteq> b + n" using run_pred_unique[OF sp(1)[unfolded S]] old(2) by blast
    moreover have "B (a + t) \<noteq> Some (r, False)" using co old unfolding coalesced_def by blast
    ultimately show ?thesis by auto
  qed
  then show ?thesis using True unfolding run_alloc_eq[of B, OF b n(2)] coalesced_def by auto
qed

lemma join_right_coalesced:
  assumes ok: "run_ok heap e B" and l: "B l = Some (t, False)"
    and rest: "\<And>a u v. a \<noteq> l \<Longrightarrow> B a = Some (u, False) \<Longrightarrow> B (a + u) \<noteq> Some (v, False)"
  shows "coalesced (case B (l + t) of Some (_, False) \<Rightarrow> run_join B l (l + t) | _ \<Rightarrow> B)"
proof (cases "\<exists>r. B (l + t) = Some (r, False)")
  case False
  then have "B (a + u) \<noteq> Some (v, False)" if "B a = Some (u, False)" for a u v
    using rest that l by (cases "a = l") auto
  moreover have "(case B (l + t) of Some (_, False) \<Rightarrow> run_join B l (l + t) | _ \<Rightarrow> B) = B"
    using False by (auto split: option.splits prod.splits bool.splits)
  ultimately show ?thesis unfolding coalesced_def by simp
next
  case True
  then obtain r where r: "B (l + t) = Some (r, False)" by blast
  have nl: "l + t \<noteq> l" using run_bounds(2)[OF ok l] by auto
  let ?B = "B(l + t := None, l \<mapsto> (t + r, False))"
  have J: "run_join B l (l + t) = ?B" using l r by (simp add: run_join_def)
  note jn = run_join_ok[OF ok l r]
  have "?B (a + u) \<noteq> Some (v, False)" if a: "?B a = Some (u, False)" for a u v
  proof (cases "a = l")
    case True
    then have u: "u = t + r" using a by simp
    have "B (l + t + r) \<noteq> Some (v, False)" by (rule rest[OF nl r])
    moreover have "l + (t + r) \<noteq> l" using run_bounds(2)[OF jn(1), of l "t + r" False] unfolding J by auto
    ultimately show ?thesis unfolding True u by (simp add: add.assoc)
  next
    case False
    then have old: "B a = Some (u, False)" using a by (auto split: if_splits)
    then show ?thesis using rest[OF False old] l by auto
  qed
  then show ?thesis using r J unfolding coalesced_def by simp
qed

lemma run_free_coalesced:
  assumes ok: "run_ok heap e B" and co: "coalesced B" and b: "B b = Some (s, True)"
    and l: "l = b \<and> (\<forall>a t. B a = Some (t, False) \<longrightarrow> a + t \<noteq> b) \<or> (\<exists>t. B l = Some (t, False) \<and> l + t = b)"
  shows "coalesced (run_free B l b)" "\<exists>r. run_free B l b l = Some (r, False)"
proof -
  have co: "B (a + t) \<noteq> Some (r, False)" if "B a = Some (t, False)" for a t r using co that unfolding coalesced_def by blast
  have ok1: "run_ok heap e (B(b \<mapsto> (s, False)))" by (rule run_use[OF ok b])
  define B2 where "B2 = (if l = b then B(b \<mapsto> (s, False)) else run_join (B(b \<mapsto> (s, False))) l b)"
  have main: "\<exists>t. B2 l = Some (t, False) \<and> l + t = b + s \<and> run_ok heap e B2 \<and>
      (\<forall>a u v. a \<noteq> l \<longrightarrow> B2 a = Some (u, False) \<longrightarrow> B2 (a + u) \<noteq> Some (v, False))"
  proof (cases "l = b")
    case True
    have "b + s \<noteq> b" using run_bounds(2)[OF ok b] by auto
    then have "\<forall>a t. B a = Some (t, False) \<longrightarrow> a + t \<noteq> b" using l True b by auto
    then show ?thesis using True ok1 co by (auto simp: B2_def)
  next
    case False
    then obtain t where t: "B l = Some (t, False)" "l + t = b" using l by blast
    have t1: "(B(b \<mapsto> (s, False))) l = Some (t, False)" "(B(b \<mapsto> (s, False))) (l + t) = Some (s, False)"
      using t False by auto
    have B2: "B2 = B(b := None, l \<mapsto> (t + s, False))"
      using False t by (simp add: B2_def run_join_def fun_upd_twist)
    have "run_ok heap e B2" using run_join_ok(1)[OF ok1 t1] False unfolding t(2) B2_def by (simp only: if_False)
    moreover have "B2 (a + u) \<noteq> Some (v, False)" if "a \<noteq> l" "B2 a = Some (u, False)" for a u v
      using that co[of a u] t(1) unfolding B2 by (auto split: if_splits)
    moreover have "B2 l = Some (t + s, False)" "l + (t + s) = b + s" using t(2) unfolding B2 by (auto simp: add.assoc)
    ultimately show ?thesis by blast
  qed
  then obtain t where t: "B2 l = Some (t, False)" "l + t = b + s" "run_ok heap e B2"
    "\<And>a u v. a \<noteq> l \<Longrightarrow> B2 a = Some (u, False) \<Longrightarrow> B2 (a + u) \<noteq> Some (v, False)" by blast
  have rf: "run_free B l b = (case B2 (l + t) of Some (_, False) \<Rightarrow> run_join B2 l (l + t) | _ \<Rightarrow> B2)"
    unfolding run_free_def b option.case prod.case Let_def B2_def t(2) by (rule refl)
  show "coalesced (run_free B l b)" unfolding rf by (rule join_right_coalesced[OF t(3,1,4)])
  show "\<exists>r. run_free B l b l = Some (r, False)"
    unfolding rf using t(1) by (auto simp: run_join_def split: option.splits prod.splits bool.splits)
qed

lemma run_free_alloc:
  assumes ok: "run_ok heap e B" and co: "coalesced B" and b: "B b = Some (s, False)" and n: "HEAP_ALIGN n = n" "48 \<le> n" "n \<le> s"
  shows "run_free (run_alloc B b n) b b = B"
proof -
  have nb: "b + s \<noteq> b" using run_bounds(2)[OF ok b] by auto
  have free: "B (b + s) \<noteq> Some (t, False)" for t using co b unfolding coalesced_def by blast
  show ?thesis
  proof (cases "48 \<le> s - n")
    case True
    have ne: "b + n \<noteq> b" using n(2) by auto
    have none: "B (b + n) = None" using run_split_ok(2)[OF ok b n True] by auto
    have "(B(b \<mapsto> (n, True), b + n \<mapsto> (s - n, False))) b = Some (n, True)" using ne by simp
    then have "run_free (run_alloc B b n) b b = run_join (B(b \<mapsto> (n, True), b + n \<mapsto> (s - n, False), b \<mapsto> (n, False))) b (b + n)"
      using True ne by (simp add: run_alloc_eq[of B, OF b n(2)] run_free_def)
    also have "\<dots> = B" using ne b none by (auto simp: run_join_def fun_eq_iff)
    finally show ?thesis .
  next
    case False
    then show ?thesis using nb b free
      by (auto simp: run_alloc_eq[of B, OF b n(2)] run_free_def fun_upd_idem split: option.splits prod.splits bool.splits)
  qed
qed

section \<open>The fresh heap\<close>

definition fresh_run :: "u64 \<Rightarrow> u64 \<Rightarrow> run" where
  "fresh_run heap sz = [heap + 544 \<mapsto> (sz - 544, False)]"

lemma fresh_run_free: "free_set (fresh_run heap sz) = {heap + 544}" "coalesced (fresh_run heap sz)"
  "one_size (fresh_run heap sz) (free_set (fresh_run heap sz))" if "1600 < sz"
proof -
  have "sz - 544 \<noteq> 0" using that by auto
  then show "coalesced (fresh_run heap sz)" by (simp add: coalesced_def fresh_run_def)
qed (auto simp: free_set_def fresh_run_def one_size_def)

lemma create_ok:
  assumes top: "unat start + unat sz < 2 ^ 64" and sz: "1600 < sz" "HEAP_ALIGN sz = sz"
  shows "\<exists>m'. heap_create m start sz max_size = Some (m', start) \<and> heap_ok m' start (fresh_run start sz) \<and>
    end_addr m' start = start + sz"
proof -
  let ?b = "start + 544" and ?s = "sz - 544" and ?B = "fresh_run start sz"
  obtain m' where m': "heap_create m start sz max_size = Some (m', start)" "\<not> heap_locked m' start"
    "start_addr m' start = start + 544" "end_addr m' start = start + sz" "free_lists m' start (\<lambda>_. [])"
    "tree_rep m' (tree_slot start) [?b] (\<lambda>_. [])" "block m' ?b ?s" "HEAP_GET_USED m' ?b = 0"
    using heap_create_returns[OF less_imp_le[OF top] sz] by blast
  have u: "1600 < unat sz" using sz(1) by (simp add: word_less_nat_alt)
  have us: "unat ?s = unat sz - 544" using u by (simp add: unat_sub word_le_nat_alt)
  have ub: "unat ?b = unat start + 544" "unat (start + sz) = unat start + unat sz"
    using top u by (simp_all add: unat_word_ariths)
  have al: "HEAP_ALIGN ?s = ?s" by (rule block_aligned[OF m'(7)])
  have run: "run_ok start (start + sz) ?B"
  proof (rule run_okI)
    show "unat start + 544 \<le> unat (start + sz)" using ub u by simp
    fix b s v assume "?B b = Some (s, v)"
    then show "unat start + 544 \<le> unat b \<and> 48 \<le> unat s \<and> HEAP_ALIGN s = s \<and> unat b + unat s \<le> unat (start + sz)"
      using ub us u al by (auto simp: fresh_run_def split: if_splits)
  next
    fix b s v c t w assume "?B b = Some (s, v)" "?B c = Some (t, w)" "b \<noteq> c"
    then show "unat b + unat s \<le> unat c \<or> unat c + unat t \<le> unat b" by (auto simp: fresh_run_def split: if_splits)
  next
    fix x assume "unat start + 544 \<le> x" "x < unat (start + sz)"
    then show "\<exists>b s v. ?B b = Some (s, v) \<and> unat b \<le> x \<and> x < unat b + unat s"
      using ub us u by (intro exI[of _ ?b] exI[of _ ?s] exI[of _ False]) (simp add: fresh_run_def)
  qed
  have gs: "HEAP_GET_SIZE m' ?b = ?s" using m'(7) by (simp add: block_def)
  have big: "1056 < ?s" using us u by (simp add: word_less_nat_alt)
  have F: "free_set ?B = {?b}" by (rule fresh_run_free(1)[OF sz(1)])
  have b0: "?b \<noteq> 0" using ub by (metis add_is_0 unat_0 zero_neq_numeral)
  have "free_ok m' start {?b}"
  proof (rule free_okI[OF _ _ m'(5,6)])
    show "heap_layout start {?b}" by (rule run_layout[OF run]) (simp add: fresh_run_def)
    show "tree_blocks [?b] (\<lambda>_. []) = {b \<in> {?b}. 1056 < HEAP_GET_SIZE m' b}"
      using gs big by (auto simp: tree_blocks_def)
  qed (use gs big b0 small_not_large in auto)
  then have "heap_ok m' start ?B"
    using m' run F by (simp add: heap_ok_def tagged_def) (simp add: fresh_run_def)
  then show ?thesis using m'(1,4) by blast
qed


section \<open>Properties\<close>

text \<open>C1. \<^verbatim>\<open>heap_create\<close> establishes the contract: on an aligned region of more than 1600
  bytes (the loader passes one page) it returns the heap at the start of the region, unlocked,
  and memory represents the run of one free block that fills the region behind the
  \<^verbatim>\<open>heap_t\<close> structure; the list heads and the tree hold exactly that block.\<close>

theorem heap_create_ok:
  assumes top: "unat start + unat sz < 2 ^ 64" and sz: "1600 < sz" "HEAP_ALIGN sz = sz"
  shows "\<exists>m'. heap_create m start sz max_size = Some (m', start) \<and> heap_ok m' start (fresh_run start sz) \<and>
    end_addr m' start = start + sz \<and> coalesced (fresh_run start sz)"
  using create_ok[OF assms, of m max_size] fresh_run_free(2)[OF sz(1)] by blast

theorem heap_create_ok_witness:
  "\<exists>m'. heap_create (\<lambda>_. 0) 0x103000 0x1000 0x3200000 = Some (m', 0x103000) \<and>
     heap_ok m' 0x103000 [0x103220 \<mapsto> (0xDE0, False)]"
  using heap_create_ok[of "0x103000" "0x1000" "\<lambda>_. 0" "0x3200000"]
  by (auto simp: HEAP_ALIGN_def fresh_run_def)

text \<open>C2. \<^verbatim>\<open>heap_alloc\<close> is best fit: when some free block can hold the request, it returns
  the payload of a smallest such block. The run changes by \<open>run_alloc\<close> only (the block is marked
  used, and split when at least 48 bytes remain), the structures of free blocks hold exactly the
  free blocks again, and nothing outside the \<^verbatim>\<open>heap_t\<close> structure and the free blocks is
  written, so every used block keeps its contents. No block of the run that is left over may
  have one of the two sizes without a list, and no two large free blocks the same size.\<close>

theorem heap_alloc_best_fit:
  assumes ok: "heap_ok m heap B" and sz: "0 < sz" "unat sz \<le> 2 ^ 63" and n: "n = HEAP_BSIZE (HEAP_SIZE_ALIGN sz)"
    and fit: "\<exists>a t. B a = Some (t, False) \<and> n \<le> t"
    and hole: "\<forall>a t. B a = Some (t, False) \<longrightarrow> t - n \<noteq> 1040 \<and> t - n \<noteq> 1056"
    and one: "one_size B (free_set B)"
  shows "\<exists>b s m'. B b = Some (s, False) \<and> n \<le> s \<and> unat sz + 32 \<le> unat n \<and>
    (\<forall>a t. B a = Some (t, False) \<and> n \<le> t \<longrightarrow> s \<le> t) \<and>
    heap_alloc pa m heap sz False = Some (m', HEAP_GET_PAYLOAD b) \<and>
    heap_ok m' heap (run_alloc B b n) \<and> (coalesced B \<longrightarrow> coalesced (run_alloc B b n)) \<and>
    within (free_bytes heap B) m m' \<and> keeps_used B m m'"
proof -
  note bs = block_size[OF sz, folded n]
  have run: "run_ok heap (end_addr m heap) B" using ok by (simp add: heap_ok_def)
  obtain b s m' where a: "B b = Some (s, False)" "n \<le> s" "\<forall>a t. B a = Some (t, False) \<and> n \<le> t \<longrightarrow> s \<le> t"
    "heap_alloc pa m heap sz False = Some (m', HEAP_GET_PAYLOAD b)" "heap_ok m' heap (run_alloc B b n)"
    "within (free_bytes heap B) m m'"
    using alloc_fits[OF ok sz n fit hole one, of pa] by blast
  have "coalesced B \<longrightarrow> coalesced (run_alloc B b n)" using run_alloc_coalesced[OF run _ a(1) bs(1,2) a(2)] by blast
  then show ?thesis using a bs(3) keeps_used_within[OF run a(6)] by blast
qed

lemma request_100: "(0 :: u64) < 100" "unat (100 :: u64) \<le> 2 ^ 63" "144 = HEAP_BSIZE (HEAP_SIZE_ALIGN 100)"
  by (simp_all add: HEAP_BSIZE_def HEAP_SIZE_ALIGN_def)

lemma fresh_page: "\<exists>m. heap_ok m 0x103000 (fresh_run 0x103000 0x1000) \<and> end_addr m 0x103000 = 0x104000"
  using create_ok[of "0x103000" "0x1000" "\<lambda>_. 0" "0x3200000"] by (auto simp: HEAP_ALIGN_def)

lemma fresh_page_run:
  "fresh_run 0x103000 0x1000 a = Some (t, u) \<longleftrightarrow> a = 0x103220 \<and> t = 0xDE0 \<and> \<not> u"
  "one_size (fresh_run 0x103000 0x1000) (free_set (fresh_run 0x103000 0x1000))"
  "coalesced (fresh_run 0x103000 0x1000)"
proof -
  show "fresh_run 0x103000 0x1000 a = Some (t, u) \<longleftrightarrow> a = 0x103220 \<and> t = 0xDE0 \<and> \<not> u"
    by (auto simp: fresh_run_def)
qed (rule fresh_run_free; simp)+

lemma alloc_100_run: "run_alloc (fresh_run 0x103000 0x1000) 0x103220 144 = [0x103220 \<mapsto> (144, True), 0x1032B0 \<mapsto> (0xD50, False)]"
  by (simp add: run_alloc_def run_split_def fresh_run_def fun_upd_twist)

theorem heap_alloc_best_fit_witness:
  "\<exists>m m'. heap_ok m 0x103000 (fresh_run 0x103000 0x1000) \<and>
     heap_alloc (\<lambda>_ _ _. None) m 0x103000 100 False = Some (m', 0x103230) \<and>
     heap_ok m' 0x103000 [0x103220 \<mapsto> (144, True), 0x1032B0 \<mapsto> (0xD50, False)]"
proof -
  obtain m where m: "heap_ok m 0x103000 (fresh_run 0x103000 0x1000)" using fresh_page by blast
  obtain b s m' where r: "fresh_run 0x103000 0x1000 b = Some (s, False)"
    "heap_alloc (\<lambda>_ _ _. None) m 0x103000 100 False = Some (m', HEAP_GET_PAYLOAD b)"
    "heap_ok m' 0x103000 (run_alloc (fresh_run 0x103000 0x1000) b 144)"
    using heap_alloc_best_fit[OF m request_100 _ _ fresh_page_run(2), of "\<lambda>_ _ _. None"]
    by (auto simp: fresh_page_run(1))
  have "b = 0x103220" using r(1) by (simp add: fresh_page_run(1))
  then show ?thesis using m r(2,3) by (auto simp: HEAP_GET_PAYLOAD_def alloc_100_run)
qed

text \<open>C3. \<^verbatim>\<open>heap_free\<close> of the payload of a used block returns and merges: the run changes by
  \<open>run_free\<close>, which joins the block with a free left neighbour \<open>l\<close> and a free right neighbour,
  so that no two free blocks are side by side when none were before. Only the block itself, the
  free blocks and the \<^verbatim>\<open>heap_t\<close> structure are written.\<close>

theorem heap_free_merges:
  assumes ok: "heap_ok m heap B" and b: "B b = Some (s, True)" and co: "coalesced B"
    and l: "l = b \<and> (\<forall>a t. B a = Some (t, False) \<longrightarrow> a + t \<noteq> b) \<or> (\<exists>t. B l = Some (t, False) \<and> l + t = b)"
    and one: "one_size B (free_set B)"
    and hole: "\<forall>r. run_free B l b l = Some (r, False) \<longrightarrow> r \<noteq> 1040 \<and> r \<noteq> 1056"
  shows "\<exists>m'. heap_free m heap (HEAP_GET_PAYLOAD b) = Some m' \<and> heap_ok m' heap (run_free B l b) \<and>
    coalesced (run_free B l b) \<and> within (free_bytes heap B \<union> addrs b (unat s)) m m'"
proof -
  have run: "run_ok heap (end_addr m heap) B" using ok by (simp add: heap_ok_def)
  note fc = run_free_coalesced[OF run co b l]
  then obtain r where "run_free B l b l = Some (r, False)" by blast
  with free_returns[OF ok b l one this] hole fc(1) show ?thesis by blast
qed

text \<open>Two requests of 100 bytes on a fresh page.\<close>

lemma alloc_100:
  "\<exists>m m'. heap_ok m 0x103000 (fresh_run 0x103000 0x1000) \<and>
     heap_alloc (\<lambda>_ _ _. None) m 0x103000 100 False = Some (m', 0x103230) \<and>
     heap_ok m' 0x103000 (run_alloc (fresh_run 0x103000 0x1000) 0x103220 144)"
proof -
  obtain m where m: "heap_ok m 0x103000 (fresh_run 0x103000 0x1000)" using fresh_page by blast
  from alloc_fits[OF m request_100 _ _ fresh_page_run(2), of "\<lambda>_ _ _. None"]
  show ?thesis using m by (auto simp: fresh_page_run(1) HEAP_GET_PAYLOAD_def)
qed

lemma alloc_100_props:
  fixes B :: run defines "B \<equiv> run_alloc (fresh_run 0x103000 0x1000) 0x103220 144"
  shows "one_size B (free_set B)" "coalesced B" "B a = Some (t, False) \<longleftrightarrow> a = 0x1032B0 \<and> t = 0xD50"
    "B a = Some (t, True) \<longleftrightarrow> a = 0x103220 \<and> t = 144"
    "run_free B 0x103220 0x103220 = fresh_run 0x103000 0x1000"
  unfolding B_def alloc_100_run
  by (auto simp: one_size_def free_set_def coalesced_def run_free_def run_join_def fresh_run_def fun_eq_iff)

theorem heap_free_merges_witness:
  "\<exists>m m'. heap_ok m 0x103000 [0x103220 \<mapsto> (144, True), 0x1032B0 \<mapsto> (0xD50, False)] \<and>
     heap_free m 0x103000 0x103230 = Some m' \<and> heap_ok m' 0x103000 [0x103220 \<mapsto> (0xDE0, False)]"
proof -
  let ?B = "run_alloc (fresh_run 0x103000 0x1000) 0x103220 144"
  obtain m where m: "heap_ok m 0x103000 ?B" using alloc_100 by blast
  have "\<exists>m'. heap_free m 0x103000 (HEAP_GET_PAYLOAD 0x103220) = Some m' \<and>
      heap_ok m' 0x103000 (run_free ?B 0x103220 0x103220)"
    using heap_free_merges[OF m _ alloc_100_props(2) _ alloc_100_props(1), of "0x103220" 144 "0x103220"]
    by (auto simp: alloc_100_props(3,4,5) fresh_page_run(1))
  then have "\<exists>m'. heap_free m 0x103000 0x103230 = Some m' \<and> heap_ok m' 0x103000 [0x103220 \<mapsto> (0xDE0, False)]"
    unfolding alloc_100_props(5) by (simp add: HEAP_GET_PAYLOAD_def fresh_run_def)
  then show ?thesis using m unfolding alloc_100_run by blast
qed

text \<open>C4. \<^verbatim>\<open>heap_free\<close> undoes \<^verbatim>\<open>heap_alloc\<close>: allocating and freeing the returned
  pointer at once gives back the same run of blocks, with every used block untouched, whenever
  no two free blocks were side by side.\<close>

theorem heap_alloc_free_roundtrip:
  assumes ok: "heap_ok m heap B" and sz: "0 < sz" "unat sz \<le> 2 ^ 63" and n: "n = HEAP_BSIZE (HEAP_SIZE_ALIGN sz)"
    and fit: "\<exists>a t. B a = Some (t, False) \<and> n \<le> t"
    and hole: "\<forall>a t. B a = Some (t, False) \<longrightarrow> t - n \<noteq> 1040 \<and> t - n \<noteq> 1056"
    and one: "one_size B (free_set B)" "\<forall>b\<in>free_set B. one_size (run_alloc B b n) (free_set (run_alloc B b n))"
    and co: "coalesced B"
  shows "\<exists>m1 p m2. heap_alloc pa m heap sz False = Some (m1, p) \<and> heap_free m1 heap p = Some m2 \<and>
    heap_ok m2 heap B \<and> keeps_used B m m2"
proof -
  note bs = block_size[OF sz, folded n]
  have run: "run_ok heap (end_addr m heap) B" using ok by (simp add: heap_ok_def)
  obtain b s m1 where a: "B b = Some (s, False)" "n \<le> s" "heap_alloc pa m heap sz False = Some (m1, HEAP_GET_PAYLOAD b)"
    "heap_ok m1 heap (run_alloc B b n)" "within (free_bytes heap B) m m1"
    using alloc_fits[OF ok sz n fit hole one(1), of pa] by blast
  let ?A = "run_alloc B b n"
  note undo = run_free_alloc[OF run co a(1) bs(1,2) a(2)]
  have bF: "b \<in> free_set B" using a(1) by (simp add: free_set_def)
  have ne: "b + n \<noteq> b" using bs(2) by auto
  have "?A b = Some (if 48 \<le> s - n then n else s, True)" using ne by (simp add: run_alloc_eq[of B, OF a(1) bs(2)])
  moreover have "unat (if 48 \<le> s - n then n else s) \<le> unat s" using a(2) by (simp add: word_le_nat_alt)
  ultimately obtain t where t: "?A b = Some (t, True)" "unat t \<le> unat s" by blast
  have "small s \<or> 1056 < s"
    using ok bF tagged_size[of m B b s False] a(1) unfolding heap_ok_def free_ok_def by auto
  then have s: "s \<noteq> 1040" "s \<noteq> 1056" by (auto simp: small_def)
  have pred: "\<forall>c r. ?A c = Some (r, False) \<longrightarrow> c + r \<noteq> b"
    using free_pred_alloc[OF run co a(1) bs(1,2) a(2)] by blast
  have "run_free ?A b b b = Some (s, False)" unfolding undo by (rule a(1))
  from free_returns[OF a(4) t(1) _ one(2)[rule_format, OF bF] this s] pred
  obtain m2 where m2: "heap_free m1 heap (HEAP_GET_PAYLOAD b) = Some m2" "heap_ok m2 heap B"
    "within (free_bytes heap ?A \<union> addrs b (unat t)) m1 m2" unfolding undo by blast
  have "free_bytes heap ?A \<union> addrs b (unat t) \<subseteq> free_bytes heap B"
  proof -
    have bb: "addrs b (unat s) \<subseteq> free_bytes heap B" using a(1) unfolding free_bytes_def by blast
    have "addrs c (unat r) \<subseteq> free_bytes heap B" if c: "?A c = Some (r, False)" for c r
    proof (cases "c = b + n \<and> 48 \<le> s - n")
      case True
      then have "r = s - n" using c bs(2) by (auto simp: run_alloc_eq[of B, OF a(1) bs(2)])
      moreover have "addrs (b + n) (unat (s - n)) \<subseteq> addrs b (unat s)"
        using addrs_sub[of b "unat n" "unat (s - n)"] a(2) by (simp add: unat_sub word_le_nat_alt)
      ultimately show ?thesis using True bb by blast
    next
      case False
      then have "B c = Some (r, False)" using c by (auto simp: run_alloc_eq[of B, OF a(1) bs(2)] split: if_splits)
      then show ?thesis unfolding free_bytes_def by blast
    qed
    moreover have "addrs b (unat t) \<subseteq> free_bytes heap B" using bb addrs_mono[OF t(2)] by blast
    moreover have "addrs heap 544 \<subseteq> free_bytes heap B" by (simp add: free_bytes_def)
    ultimately show ?thesis unfolding free_bytes_def[of heap ?A] by blast
  qed
  then have "within (free_bytes heap B) m m2" using within_trans[OF a(5) within_mono[OF m2(3)]] by blast
  then show ?thesis using a(3) m2(1,2) keeps_used_within[OF run] by blast
qed

theorem heap_alloc_free_roundtrip_witness:
  "\<exists>m m1 p m2. heap_ok m 0x103000 (fresh_run 0x103000 0x1000) \<and>
     heap_alloc (\<lambda>_ _ _. None) m 0x103000 100 False = Some (m1, p) \<and> heap_free m1 0x103000 p = Some m2 \<and>
     heap_ok m2 0x103000 (fresh_run 0x103000 0x1000)"
proof -
  obtain m where m: "heap_ok m 0x103000 (fresh_run 0x103000 0x1000)" using fresh_page by blast
  have fs: "free_set (fresh_run 0x103000 0x1000) = {0x103220}" by (auto simp: free_set_def fresh_page_run(1))
  from heap_alloc_free_roundtrip[OF m request_100 _ _ fresh_page_run(2) _ fresh_page_run(3), of "\<lambda>_ _ _. None"]
  show ?thesis using m alloc_100_props(1) by (auto simp: fresh_page_run(1) fs)
qed

text \<open>C5. \<^verbatim>\<open>heap_alloc\<close> grows the heap when no free block can hold the request: if the page
  allocator leaves the heap alone and grants \<open>g\<close> bytes at its end, the new block is merged with
  a free block \<open>l\<close> at the end of the heap, the request is placed there, and the heap ends \<open>g\<close>
  bytes higher. If the page allocator grants nothing, null is returned and the run is the same.\<close>

theorem heap_alloc_grows:
  assumes ok: "heap_ok m heap B" and sz: "0 < sz" "unat sz \<le> 2 ^ 63" and n: "n = HEAP_BSIZE (HEAP_SIZE_ALIGN sz)"
    and none: "\<forall>a t. B a = Some (t, False) \<longrightarrow> t < n" and one: "one_size B (free_set B)"
    and e: "e = end_addr m heap"
    and pa: "heap_wait_lock m heap = Some m1" "pa m1 e n = Some (mp, g)" "same_heap heap e m1 mp"
    and g: "HEAP_ALIGN g = g" "g = 0 \<or> n \<le> g" "unat e + unat g < 2 ^ 64"
    and l: "l = e \<and> (\<forall>a t. B a = Some (t, False) \<longrightarrow> a + t \<noteq> e) \<or> (\<exists>t. B l = Some (t, False) \<and> l + t = e)"
    and B2: "B2 = (if l = e then B(e \<mapsto> (g, False)) else run_join (B(e \<mapsto> (g, False))) l e)"
    and hole: "\<forall>s. B2 l = Some (s, False) \<longrightarrow> s - n \<noteq> 1040 \<and> s - n \<noteq> 1056"
  shows "\<exists>m'. heap_alloc pa m heap sz False = Some (m', if g = 0 then 0 else HEAP_GET_PAYLOAD l) \<and>
    heap_ok m' heap (if g = 0 then B else run_alloc B2 l n) \<and> keeps_used B m m'"
proof (cases "g = 0")
  case True
  then show ?thesis using alloc_exhausted[of m heap B sz n m1 pa mp] ok sz n none pa e by simp
next
  case False
  then have "n \<le> g" using g(2) by simp
  then show ?thesis
    using alloc_grows[of m heap B sz n e m1 pa mp g l B2] ok sz n none one e pa g l B2 hole False by auto
qed

theorem heap_alloc_grows_witness:
  "\<exists>m m'. heap_ok m 0x103000 [0x103220 \<mapsto> (0xDE0, False)] \<and>
     heap_alloc (\<lambda>m e n. Some (m, 0x2000)) m 0x103000 8000 False = Some (m', 0x103230) \<and>
     heap_ok m' 0x103000 [0x103220 \<mapsto> (8032, True), 0x105180 \<mapsto> (3712, False)]"
proof -
  let ?B = "fresh_run 0x103000 0x1000"
  obtain m where m: "heap_ok m 0x103000 ?B" "0x104000 = end_addr m 0x103000" using fresh_page by metis
  let ?B2 = "if (0x103220 :: u64) = 0x104000 then ?B(0x104000 \<mapsto> (0x2000, False))
    else run_join (?B(0x104000 \<mapsto> (0x2000, False))) 0x103220 0x104000"
  have B2: "?B2 = [0x103220 \<mapsto> (0x2DE0, False)]" by (auto simp: run_join_def fresh_run_def)
  have n: "8032 = HEAP_BSIZE (HEAP_SIZE_ALIGN 8000)" by (simp add: HEAP_BSIZE_def HEAP_SIZE_ALIGN_def)
  have "\<not> heap_locked m 0x103000" using m(1) by (simp add: heap_ok_def)
  then obtain m1 where m1: "heap_wait_lock m 0x103000 = Some m1" using heap_wait_lock_free by blast
  have "\<exists>m'. heap_alloc (\<lambda>m e n. Some (m, 0x2000)) m 0x103000 8000 False =
      Some (m', if (0x2000 :: u64) = 0 then 0 else HEAP_GET_PAYLOAD 0x103220) \<and>
      heap_ok m' 0x103000 (if (0x2000 :: u64) = 0 then ?B else run_alloc ?B2 0x103220 8032) \<and> keeps_used ?B m m'"
  proof (rule heap_alloc_grows[OF m(1) _ _ n _ fresh_page_run(2) m(2) m1 refl _ _ _ _ _ refl])
    show "\<forall>s. ?B2 0x103220 = Some (s, False) \<longrightarrow> s - 8032 \<noteq> 1040 \<and> s - 8032 \<noteq> 1056" unfolding B2 by simp
  qed (auto simp: fresh_page_run(1) same_heap_def HEAP_ALIGN_def)
  then have "\<exists>m'. heap_alloc (\<lambda>m e n. Some (m, 0x2000)) m 0x103000 8000 False = Some (m', 0x103230) \<and>
      heap_ok m' 0x103000 (run_alloc [0x103220 \<mapsto> (0x2DE0, False)] 0x103220 8032)"
    unfolding B2 by (auto simp: HEAP_GET_PAYLOAD_def)
  moreover have "run_alloc [0x103220 \<mapsto> (0x2DE0, False)] 0x103220 8032 = [0x103220 \<mapsto> (8032, True), 0x105180 \<mapsto> (3712, False)]"
    by (simp add: run_alloc_def run_split_def fun_upd_twist)
  moreover have "?B = [0x103220 \<mapsto> (0xDE0, False)]" by (simp add: fresh_run_def)
  ultimately show ?thesis using m(1) by metis
qed

end
