(* ===== verification/Ports.thy ===== *)
theory Ports
  imports Prelude "HOL-Library.State_Monad"
begin

text \<open>
  Port I/O and the three legacy devices the loader drives through it: \<^verbatim>\<open>io.h\<close>,
  \<^verbatim>\<open>pic.c\<close>, \<^verbatim>\<open>cmos.h\<close>, and the state and operations of \<^verbatim>\<open>pit.c\<close> and
  \<^verbatim>\<open>sleep.c\<close>. The state keeps the log of all port accesses, newest first. What a
  read returns is up to the hardware: the parameter \<open>dev\<close> gives the value for a port as a
  function of the log, so a device may react to everything that was written before.
\<close>

section \<open>The I/O log\<close>

datatype io_event = OutB u16 u8 | OutW u16 u16 | OutD u16 u32 | InB u16 u8 | InW u16 u16 | InD u16 u32

type_synonym device = "io_event list \<Rightarrow> u16 \<Rightarrow> u32"

record io_state =
  io_log :: "io_event list"

definition modify :: "('s \<Rightarrow> 's) \<Rightarrow> ('s, unit) state" where
  "modify f = State (\<lambda>s. ((), f s))"

definition gets :: "('s \<Rightarrow> 'a) \<Rightarrow> ('s, 'a) state" where
  "gets f = State (\<lambda>s. (f s, s))"

abbreviation return_io where "return_io \<equiv> State_Monad.return"

lemma run_modify [simp]: "run_state (modify f) s = ((), f s)"
  by (simp add: modify_def)

lemma run_gets [simp]: "run_state (gets f) s = (f s, s)"
  by (simp add: gets_def)

definition logged :: "io_event \<Rightarrow> ('x io_state_scheme, unit) state" where
  "logged e = modify (\<lambda>s. s\<lparr>io_log := e # io_log s\<rparr>)"

definition outb :: "u16 \<Rightarrow> u8 \<Rightarrow> ('x io_state_scheme, unit) state" where
  "outb port v = logged (OutB port v)"

definition outw :: "u16 \<Rightarrow> u16 \<Rightarrow> ('x io_state_scheme, unit) state" where
  "outw port v = logged (OutW port v)"

definition outd :: "u16 \<Rightarrow> u32 \<Rightarrow> ('x io_state_scheme, unit) state" where
  "outd port v = logged (OutD port v)"

definition inb :: "device \<Rightarrow> u16 \<Rightarrow> ('x io_state_scheme, u8) state" where
  "inb dev port = do { v \<leftarrow> gets (\<lambda>s. ucast (dev (io_log s) port)); logged (InB port v); return_io v }"

definition inw :: "device \<Rightarrow> u16 \<Rightarrow> ('x io_state_scheme, u16) state" where
  "inw dev port = do { v \<leftarrow> gets (\<lambda>s. ucast (dev (io_log s) port)); logged (InW port v); return_io v }"

definition ind :: "device \<Rightarrow> u16 \<Rightarrow> ('x io_state_scheme, u32) state" where
  "ind dev port = do { v \<leftarrow> gets (\<lambda>s. dev (io_log s) port); logged (InD port v); return_io v }"

lemmas io_defs = outb_def outw_def outd_def inb_def inw_def ind_def logged_def

section \<open>The interrupt controllers\<close>

abbreviation (input) PICM_CMD :: u16 where "PICM_CMD \<equiv> 0x20"
abbreviation (input) PICM_DATA :: u16 where "PICM_DATA \<equiv> 0x21"
abbreviation (input) PICS_CMD :: u16 where "PICS_CMD \<equiv> 0xA0"
abbreviation (input) PICS_DATA :: u16 where "PICS_DATA \<equiv> 0xA1"
abbreviation (input) PIC_EOI :: u8 where "PIC_EOI \<equiv> 0x20"
abbreviation (input) PIC_READ_ISR :: u8 where "PIC_READ_ISR \<equiv> 0x0B"

definition pic_init :: "('x io_state_scheme, unit) state" where
  "pic_init = do {
     outb PICM_CMD 0x11; outb PICS_CMD 0x11;
     outb PICM_DATA 0x20; outb PICS_DATA 0x28;
     outb PICM_DATA 0x04; outb PICS_DATA 0x02;
     outb PICM_DATA 0x01; outb PICS_DATA 0x01 }"

definition pic_enable :: "u16 \<Rightarrow> ('x io_state_scheme, unit) state" where
  "pic_enable irq_mask =
    (let irq_mask = NOT irq_mask;
         irq_m = ucast irq_mask;
         irq_s = ucast (drop_bit 8 irq_mask)
     in do { outb PICS_DATA irq_s; outb PICM_DATA irq_m })"

definition pic_disable :: "('x io_state_scheme, unit) state" where
  "pic_disable = do { outb PICS_DATA 0xFF; outb PICM_DATA 0xFF }"

text \<open>The operands of \<^verbatim>\<open>|\<close> are evaluated from left to right.\<close>

definition pic_read_ocw3 :: "device \<Rightarrow> u8 \<Rightarrow> ('x io_state_scheme, u16) state" where
  "pic_read_ocw3 dev ocw3 = do {
     outb PICM_CMD ocw3;
     outb PICS_CMD ocw3;
     s \<leftarrow> inb dev PICS_CMD;
     m \<leftarrow> inb dev PICM_CMD;
     return_io (push_bit 8 (ucast s) OR ucast m) }"

definition pic_eoi :: "u64 \<Rightarrow> ('x io_state_scheme, unit) state" where
  "pic_eoi irq = do {
     (if irq \<ge> 8 then outb PICS_CMD PIC_EOI else return_io ());
     outb PICM_CMD PIC_EOI }"

section \<open>CMOS\<close>

definition cmos_read :: "device \<Rightarrow> u8 \<Rightarrow> ('x io_state_scheme, u8) state" where
  "cmos_read dev reg = do { outb 0x70 reg; inb dev 0x71 }"

definition cmos_write :: "u8 \<Rightarrow> u8 \<Rightarrow> ('x io_state_scheme, unit) state" where
  "cmos_write reg v = do { outb 0x70 reg; outb 0x71 v }"

lemma run_io [simp]:
  "run_state (outb port v) s = ((), s\<lparr>io_log := OutB port v # io_log s\<rparr>)"
  "run_state (outw port w) s = ((), s\<lparr>io_log := OutW port w # io_log s\<rparr>)"
  "run_state (outd port d) s = ((), s\<lparr>io_log := OutD port d # io_log s\<rparr>)"
  "run_state (inb dev port) s = (ucast (dev (io_log s) port),
     s\<lparr>io_log := InB port (ucast (dev (io_log s) port)) # io_log s\<rparr>)"
  "run_state (inw dev port) s = (ucast (dev (io_log s) port),
     s\<lparr>io_log := InW port (ucast (dev (io_log s) port)) # io_log s\<rparr>)"
  "run_state (ind dev port) s = (dev (io_log s) port,
     s\<lparr>io_log := InD port (dev (io_log s) port) # io_log s\<rparr>)"
  by (simp_all add: io_defs)

section \<open>Properties\<close>

text \<open>The interrupt mask registers: the last byte written to each data port.\<close>

fun last_out :: "u16 \<Rightarrow> io_event list \<Rightarrow> u8" where
  "last_out port [] = 0"
| "last_out port (OutB p v # h) = (if p = port then v else last_out port h)"
| "last_out port (_ # h) = last_out port h"

definition imr :: "io_event list \<Rightarrow> u16" where
  "imr h = push_bit 8 (ucast (last_out PICS_DATA h)) OR ucast (last_out PICM_DATA h)"

lemma bytes_of_word: "push_bit 8 (ucast (ucast (drop_bit 8 w) :: u8)) OR ucast (ucast w :: u8) = (w :: u16)"
  by (rule bit_word_eqI) (auto simp: bit_simps)

text \<open>\<^verbatim>\<open>pic_enable\<close> unmasks exactly the requested IRQs: read as one 16-bit register,
  the mask bytes it leaves in the slave and the master are the complement of its argument, so
  IRQ \<open>n\<close> is unmasked precisely when bit \<open>n\<close> of the argument is set; \<^verbatim>\<open>pic_disable\<close>
  masks all sixteen, whatever was enabled before.\<close>

theorem pic_enable_mask:
  "imr (io_log (snd (run_state (pic_enable irqs) s))) = NOT irqs \<and>
   imr (io_log (snd (run_state (do { pic_enable irqs; pic_disable }) s))) = NOT 0"
  by (simp add: imr_def pic_enable_def pic_disable_def Let_def bytes_of_word)

end
