(* ===== verification/Interrupts.thy ===== *)
theory Interrupts
  imports Ports
begin

text \<open>
  \<^verbatim>\<open>interrupts.c\<close> of the loader: the interrupt descriptor table, the handler tables,
  the interrupt flag and the two wrappers the assembly stubs call. A function pointer is an
  element of \<open>'h\<close>, a null pointer is \<open>None\<close>; what a handler does is the parameter \<open>call\<close>,
  which returns the handler's result (0 for "handled") and the state after it. The addresses
  of the stubs in \<^verbatim>\<open>interrupts.asm\<close> and of the table are parameters, too.
\<close>

section \<open>State\<close>

record idt_entry =
  offset_lo :: u16
  selector :: u16
  reserved1 :: u8
  gate_type :: u8
  offset_hi :: u16
  offset_64 :: u32
  reserved2 :: u32

text \<open>\<^verbatim>\<open>isr_stack_t\<close>. \<^verbatim>\<open>irq_stack_t\<close> has the same layout and calls the field
  \<^verbatim>\<open>err_code\<close> \<^verbatim>\<open>irq_no\<close>.\<close>

record isr_stack =
  rax :: u64  rbx :: u64  rcx :: u64  rdx :: u64
  rdi :: u64  rsi :: u64  r8 :: u64  r9 :: u64
  r10 :: u64  r11 :: u64  r12 :: u64  r13 :: u64
  r14 :: u64  r15 :: u64  rbp :: u64
  int_no :: u64  err_code :: u64
  rip :: u64  cs :: u64  rflags :: u64  rsp :: u64  ss :: u64

type_synonym irq_stack = isr_stack
abbreviation (input) irq_no :: "irq_stack \<Rightarrow> u64" where "irq_no \<equiv> err_code"

record 'h int_state = io_state +
  int_enabled :: bool
  cpu_if :: bool
  idt :: "idt_entry list"
  idtr :: "u16 \<times> u64"
  isr_handlers :: "'h option list"
  irq_handlers :: "'h option list"

section \<open>The descriptor table\<close>

definition zero_entry :: idt_entry where
  "zero_entry = \<lparr>offset_lo = 0, selector = 0, reserved1 = 0, gate_type = 0, offset_hi = 0,
     offset_64 = 0, reserved2 = 0\<rparr>"

definition make_entry :: "u64 \<Rightarrow> u8 \<Rightarrow> idt_entry" where
  "make_entry addr flags = \<lparr>
     offset_lo = ucast (addr AND 0xFFFF),
     selector = 0x08,
     reserved1 = 0,
     gate_type = flags,
     offset_hi = ucast (drop_bit 16 addr AND 0xFFFF),
     offset_64 = ucast (drop_bit 32 addr AND 0xFFFFFFFFF),
     reserved2 = 0\<rparr>"

definition idt_set_entry :: "u8 \<Rightarrow> u64 \<Rightarrow> u8 \<Rightarrow> idt_entry list \<Rightarrow> idt_entry list" where
  "idt_set_entry num addr flags t = t[unat num := make_entry addr flags]"

text \<open>The stub of vector \<open>n\<close>: \<^verbatim>\<open>isr0\<close> to \<^verbatim>\<open>isr31\<close>, then \<^verbatim>\<open>irq0\<close> to
  \<^verbatim>\<open>irq15\<close>; \<^verbatim>\<open>interrupt_init\<close> enters the 48 of them in this order.\<close>

definition stub :: "(nat \<Rightarrow> u64) \<Rightarrow> (nat \<Rightarrow> u64) \<Rightarrow> nat \<Rightarrow> u64" where
  "stub isr irq n = (if n < 32 then isr n else irq (n - 32))"

primrec set_entries :: "(nat \<Rightarrow> u64) \<Rightarrow> nat \<Rightarrow> idt_entry list \<Rightarrow> idt_entry list" where
  "set_entries addr 0 t = t"
| "set_entries addr (Suc n) t = idt_set_entry (of_nat n) (addr n) 0x8E (set_entries addr n t)"

definition interrupt_init ::
  "(nat \<Rightarrow> u64) \<Rightarrow> (nat \<Rightarrow> u64) \<Rightarrow> u64 \<Rightarrow> ('h, 'x) int_state_scheme \<Rightarrow> ('h, 'x) int_state_scheme" where
  "interrupt_init isr irq idt_addr s = s\<lparr>
     int_enabled := False,
     idt := set_entries (stub isr irq) 48 (replicate 256 zero_entry),
     isr_handlers := replicate 256 None,
     irq_handlers := replicate 16 None,
     idtr := (16 * 256 - 1, idt_addr)\<rparr>"

section \<open>The interrupt flag and the handler tables\<close>

definition interrupt_status :: "('h, 'x) int_state_scheme \<Rightarrow> bool" where
  "interrupt_status s = int_enabled s"

definition interrupt_disable :: "('h, 'x) int_state_scheme \<Rightarrow> ('h, 'x) int_state_scheme" where
  "interrupt_disable s =
     (if int_enabled s then s\<lparr>cpu_if := False, int_enabled := False\<rparr> else s)"

definition interrupt_enable :: "('h, 'x) int_state_scheme \<Rightarrow> ('h, 'x) int_state_scheme" where
  "interrupt_enable s =
     (if \<not> int_enabled s then s\<lparr>cpu_if := True, int_enabled := True\<rparr> else s)"

definition interrupt_reg_isr_handler ::
  "u64 \<Rightarrow> 'h option \<Rightarrow> ('h, 'x) int_state_scheme \<Rightarrow> ('h, 'x) int_state_scheme" where
  "interrupt_reg_isr_handler n handler s =
     (if n < 256 then s\<lparr>isr_handlers := (isr_handlers s)[unat n := handler]\<rparr> else s)"

definition interrupt_reg_irq_handler ::
  "u64 \<Rightarrow> 'h option \<Rightarrow> ('h, 'x) int_state_scheme \<Rightarrow> ('h, 'x) int_state_scheme" where
  "interrupt_reg_irq_handler n handler s =
     (if n < 16 then s\<lparr>irq_handlers := (irq_handlers s)[unat n := handler]\<rparr> else s)"

section \<open>The wrappers\<close>

text \<open>\<open>None\<close> is \<^verbatim>\<open>HANG()\<close>. The debug prints before it are left out.\<close>

definition isr_wrapper ::
  "('h \<Rightarrow> isr_stack \<Rightarrow> ('h, 'x) int_state_scheme \<Rightarrow> u64 \<times> ('h, 'x) int_state_scheme) \<Rightarrow>
   isr_stack \<Rightarrow> ('h, 'x) int_state_scheme \<Rightarrow> ('h, 'x) int_state_scheme option" where
  "isr_wrapper call stack s =
    (let n = (ucast (int_no stack) :: u8);
         (done, s) = (case isr_handlers s ! unat n of
             Some handler \<Rightarrow> (let (r, s) = call handler stack s in (r = 0, s))
           | None \<Rightarrow> (False, s))
     in if done then Some s
        else if n = 0 \<or> n = 6 \<or> n = 8 \<or> n = 13 then None
        else Some s)"

definition irq_wrapper ::
  "device \<Rightarrow> ('h \<Rightarrow> irq_stack \<Rightarrow> ('h, 'x) int_state_scheme \<Rightarrow> u64 \<times> ('h, 'x) int_state_scheme) \<Rightarrow>
   irq_stack \<Rightarrow> ('h, 'x) int_state_scheme \<Rightarrow> c_error + ('h, 'x) int_state_scheme" where
  "irq_wrapper dev call stack s =
    (let n = (ucast (irq_no stack) :: u8);
         (isr, s) = run_state (pic_read_ocw3 dev PIC_READ_ISR) s;
         eoi = (\<lambda>s. if bit isr (unat n) then snd (run_state (pic_eoi (ucast n)) s) else s)
     in if n = 2 then Inr (eoi s)
        else if unat n < length (irq_handlers s) then
          (case irq_handlers s ! unat n of
             Some handler \<Rightarrow> Inr (eoi (snd (call handler stack s)))
           | None \<Rightarrow> Inr (eoi s))
        else Inl OutOfBounds)"

section \<open>Lemmas\<close>

text \<open>The address a gate holds, as the processor reads it.\<close>

definition gate_address :: "idt_entry \<Rightarrow> u64" where
  "gate_address e = ucast (offset_lo e) OR push_bit 16 (ucast (offset_hi e)) OR
     push_bit 32 (ucast (offset_64 e))"

lemma gate_address_make: "gate_address (make_entry addr flags) = addr"
proof -
  have a: "addr AND 0xFFFF = take_bit 16 addr"
    by (simp add: take_bit_eq_mask mask_eq_exp_minus_1)
  have b: "drop_bit 16 addr AND 0xFFFF = take_bit 16 (drop_bit 16 addr)"
    by (simp add: take_bit_eq_mask mask_eq_exp_minus_1)
  have c: "drop_bit 32 addr AND 0xFFFFFFFFF = take_bit 36 (drop_bit 32 addr)"
    by (simp add: take_bit_eq_mask mask_eq_exp_minus_1)
  have "gate_address (make_entry addr flags) = ucast (ucast (take_bit 16 addr) :: u16) OR
     push_bit 16 (ucast (ucast (take_bit 16 (drop_bit 16 addr)) :: u16)) OR
     push_bit 32 (ucast (ucast (take_bit 36 (drop_bit 32 addr)) :: u32))"
    by (simp only: gate_address_def make_entry_def idt_entry.select_convs a b c)
  also have "\<dots> = addr"
    by (rule bit_word_eqI) (auto simp: bit_simps)
  finally show ?thesis .
qed

lemma set_entries_nth:
  "n \<le> 256 \<Longrightarrow> length t = 256 \<Longrightarrow> i < 256 \<Longrightarrow>
   set_entries addr n t ! i = (if i < n then make_entry (addr i) 0x8E else t ! i) \<and>
   length (set_entries addr n t) = 256"
proof (induction n)
  case (Suc n)
  have "unat (of_nat n :: u8) = n" using Suc.prems by (intro unat_of_nat_small) simp
  with Suc show ?case by (auto simp: idt_set_entry_def nth_list_update)
qed simp

section \<open>Properties\<close>

text \<open>After \<^verbatim>\<open>interrupt_init\<close> every CPU exception and every remapped IRQ
  (vectors 0 to 47) has a present 64-bit interrupt gate whose three address fields hold the
  complete address of its own stub, all other vectors are absent, the IDT register covers the
  256 entries, and no handler is registered.\<close>

theorem interrupt_init_gates:
  "let s' = interrupt_init isr irq idt_addr s in
    (\<forall>n<256. (if n < 48
      then gate_address (idt s' ! n) = (if n < 32 then isr n else irq (n - 32)) \<and>
           gate_type (idt s' ! n) = 0x8E \<and> selector (idt s' ! n) = 8
      else gate_type (idt s' ! n) = 0) \<and> isr_handlers s' ! n = None) \<and>
    idtr s' = (of_nat (length (idt s') * 16 - 1), idt_addr) \<and> irq_handlers s' = replicate 16 None"
proof -
  let ?s = "interrupt_init isr irq idt_addr s"
  have i: "idt ?s = set_entries (stub isr irq) 48 (replicate 256 zero_entry)"
    by (simp add: interrupt_init_def del: set_entries.simps)
  have e: "idt ?s ! n = (if n < 48 then make_entry (stub isr irq n) 0x8E else zero_entry)"
    "length (idt ?s) = 256" if "n < 256" for n
  proof -
    have "(48 :: nat) \<le> 256" by simp
    note set_entries_nth[OF this length_replicate that, of "stub isr irq" zero_entry]
    then show "idt ?s ! n = (if n < 48 then make_entry (stub isr irq n) 0x8E else zero_entry)"
      "length (idt ?s) = 256"
      unfolding i nth_replicate[OF that] by blast+
  qed
  have g: "gate_type (make_entry a f) = f" "selector (make_entry a f) = 8" "gate_type zero_entry = 0" for a f
    by (simp_all add: make_entry_def zero_entry_def)
  have h: "isr_handlers ?s ! n = None" if "n < 256" for n using that by (simp add: interrupt_init_def)
  have "idtr ?s = (of_nat (length (idt ?s) * 16 - 1), idt_addr)" "irq_handlers ?s = replicate 16 None"
    using e(2)[of 0] by (simp_all add: interrupt_init_def)
  then show ?thesis
    by (simp add: Let_def e g h gate_address_make stub_def)
qed

theorem interrupt_init_gates_witness:
  "gate_address (idt (interrupt_init (\<lambda>n. 0x8000 + of_nat n) (\<lambda>n. 0x9000 + of_nat n) 0x5000
     \<lparr>io_log = [], int_enabled = False, cpu_if = False, idt = [], idtr = (0, 0),
      isr_handlers = [] :: unit option list, irq_handlers = []\<rparr>) ! 33) = 0x9001"
proof -
  have "(33 :: nat) < 256" "(33 :: nat) < 48" by simp_all
  with interrupt_init_gates[of "\<lambda>n. 0x8000 + of_nat n" "\<lambda>n. 0x9000 + of_nat n" "0x5000"
     "\<lparr>io_log = [], int_enabled = False, cpu_if = False, idt = [], idtr = (0, 0),
      isr_handlers = [] :: unit option list, irq_handlers = []\<rparr>"]
  show ?thesis by (auto simp: Let_def)
qed

text \<open>C36. End of interrupt: \<^verbatim>\<open>irq_wrapper\<close> acknowledges an IRQ exactly when the
  controllers report it in service, so a spurious IRQ is not acknowledged; it writes the EOI
  command once to the master, and to the slave before it for the IRQs 8 to 15, and it does so
  after the handler has run, whatever the handler returned. The cascade IRQ 2 runs no handler.\<close>

theorem irq_wrapper_eoi:
  fixes s :: "('h, 'x) int_state_scheme" and dev :: device and n :: nat
    and call :: "'h \<Rightarrow> irq_stack \<Rightarrow> ('h, 'x) int_state_scheme \<Rightarrow> u64 \<times> ('h, 'x) int_state_scheme"
  assumes n: "unat (ucast (irq_no stack) :: u8) = n" "n < 16" and tab: "length (irq_handlers s) = 16"
  defines "r \<equiv> run_state (pic_read_ocw3 dev PIC_READ_ISR) s"
  defines "s1 \<equiv> (if n = 2 then snd r else case irq_handlers s ! n of
      Some h \<Rightarrow> snd (call h stack (snd r)) | None \<Rightarrow> snd r)"
  shows "\<exists>s'. irq_wrapper dev call stack s = Inr s' \<and>
    io_log s' = (if bit (fst r) n
      then OutB PICM_CMD PIC_EOI # (if 8 \<le> n then [OutB PICS_CMD PIC_EOI] else []) @ io_log s1
      else io_log s1)"
proof -
  have "irq_handlers (snd r) = irq_handlers s"
    by (simp add: r_def pic_read_ocw3_def)
  moreover have "(ucast (irq_no stack) :: u8) = 2 \<longleftrightarrow> n = 2"
    using n by (auto simp: word_unat_eq_iff)
  moreover have "8 \<le> (ucast (ucast (irq_no stack) :: u8) :: u64) \<longleftrightarrow> 8 \<le> n"
    using n by (simp only: word_le_nat_alt unat_ucast_byte) simp
  ultimately show ?thesis
    using n tab unfolding irq_wrapper_def s1_def r_def
    by (auto simp: Let_def pic_eoi_def split: option.splits prod.splits)
qed

definition idle_stack :: isr_stack where
  "idle_stack = \<lparr>rax = 0, rbx = 0, rcx = 0, rdx = 0, rdi = 0, rsi = 0, r8 = 0, r9 = 0, r10 = 0,
     r11 = 0, r12 = 0, r13 = 0, r14 = 0, r15 = 0, rbp = 0, int_no = 0, err_code = 0, rip = 0,
     cs = 8, rflags = 0, rsp = 0, ss = 0\<rparr>"

definition idle_ints :: "unit int_state" where
  "idle_ints = \<lparr>io_log = [], int_enabled = False, cpu_if = False, idt = [], idtr = (0, 0),
      isr_handlers = replicate 256 None, irq_handlers = replicate 16 None\<rparr>"

theorem irq_wrapper_eoi_witness:
  "\<exists>s' l. irq_wrapper (\<lambda>_ _. 0x40) (\<lambda>_ _ s. (0, s)) (idle_stack\<lparr>err_code := 14\<rparr>) idle_ints = Inr s' \<and>
     io_log s' = OutB 0x20 0x20 # OutB 0xA0 0x20 # l"
proof -
  let ?st = "idle_stack\<lparr>err_code := 14\<rparr>"
  have tab: "length (irq_handlers idle_ints) = 16" unfolding idle_ints_def by simp
  have n: "unat (ucast (irq_no ?st) :: u8) = 14" "(14 :: nat) < 16" by simp_all
  have "fst (run_state (pic_read_ocw3 (\<lambda>_ _. 0x40) PIC_READ_ISR) idle_ints) = 0x4040"
    by (simp add: pic_read_ocw3_def)
  then have b: "bit (fst (run_state (pic_read_ocw3 (\<lambda>_ _. 0x40) PIC_READ_ISR) idle_ints)) 14"
    by simp
  from irq_wrapper_eoi[OF n tab, of "\<lambda>_ _. 0x40" "\<lambda>_ _ s. (0, s)"] obtain s' where
    1: "irq_wrapper (\<lambda>_ _. 0x40) (\<lambda>_ _ s. (0, s)) ?st idle_ints = Inr s'" and
    2: "\<exists>l. io_log s' = OutB 0x20 0x20 # OutB 0xA0 0x20 # l"
    using b by auto
  then show ?thesis by blast
qed

text \<open>Dispatch: a handler registered for an interrupt number below 256 is the one
  \<^verbatim>\<open>isr_wrapper\<close> calls for it; when it reports success the interrupt is over, otherwise,
  as without a handler, the machine hangs for the exceptions 0, 6, 8 and 13 and goes on for
  every other vector. Registration with a larger number changes nothing.\<close>

theorem isr_dispatch:
  assumes tab: "length (isr_handlers s) = 256"
  shows "(256 \<le> n \<longrightarrow> interrupt_reg_isr_handler n h s = s) \<and>
    (n < 256 \<longrightarrow> int_no stack = n \<longrightarrow>
      (let s1 = interrupt_reg_isr_handler n h s;
           fatal = (n \<in> {0, 6, 8, 13})
       in isr_wrapper call stack s1 =
        (case h of None \<Rightarrow> if fatal then None else Some s1
         | Some f \<Rightarrow> (let (r, s2) = call f stack s1 in if r \<noteq> 0 \<and> fatal then None else Some s2))))"
proof (intro conjI impI)
  show "256 \<le> n \<Longrightarrow> interrupt_reg_isr_handler n h s = s"
    by (simp add: interrupt_reg_isr_handler_def not_less)
  assume n: "n < 256" "int_no stack = n"
  then have u: "unat (ucast n :: u8) = unat n"
    by (simp add: unsigned_ucast_eq take_bit_nat_eq_self word_less_nat_alt)
  have "ucast n = (k :: u8) \<longleftrightarrow> n = ucast k" for k
    using u unat_ucast_byte[of k] by (metis word_unat_eq_iff)
  then have c: "((ucast n :: u8) = 0 \<or> (ucast n :: u8) = 6 \<or> (ucast n :: u8) = 8 \<or> (ucast n :: u8) = 13)
      \<longleftrightarrow> n \<in> {0, 6, 8, 13}"
    by simp
  have "isr_handlers (interrupt_reg_isr_handler n h s) ! unat n = h"
    using n tab by (simp add: interrupt_reg_isr_handler_def word_less_nat_alt)
  then show "let s1 = interrupt_reg_isr_handler n h s; fatal = (n \<in> {0, 6, 8, 13})
       in isr_wrapper call stack s1 =
        (case h of None \<Rightarrow> if fatal then None else Some s1
         | Some f \<Rightarrow> (let (r, s2) = call f stack s1 in if r \<noteq> 0 \<and> fatal then None else Some s2))"
    using n(2) by (auto simp: isr_wrapper_def Let_def u c split: option.splits prod.splits)
qed

theorem isr_dispatch_witness:
  "isr_wrapper (\<lambda>_ _ s. (1, s)) (idle_stack\<lparr>int_no := 13\<rparr>)
     (interrupt_reg_isr_handler 13 (Some ()) idle_ints) = None"
proof -
  have "length (isr_handlers idle_ints) = 256" unfolding idle_ints_def by simp
  from isr_dispatch[OF this, of 13 "Some ()" "idle_stack\<lparr>int_no := 13\<rparr>" "\<lambda>_ _ s. (1, s)"]
  show ?thesis by (simp add: Let_def)
qed

end
