(* ===== verification/Paging.thy ===== *)
theory Paging
  imports Heap Interrupts
begin

text \<open>
  \<^verbatim>\<open>paging.c\<close> and \<^verbatim>\<open>paging.h\<close> of the loader: the 4-level page tables, the
  E820 memory map, the page fault handler and the free lists of physical blocks. Memory is
  identity mapped, so the tables are read and written through the flat memory \<open>ram\<close>. New
  tables come from \<^verbatim>\<open>mem_alloc_align\<close> of \<^verbatim>\<open>memory.c\<close>, which calls back into this
  file: here it is the parameter \<open>al\<close>, the Memory theory closes the circle. \<open>None\<close> is "does
  not return". \<^verbatim>\<open>page_invalidate\<close> only touches the processor's TLB, which is not
  modelled; debug output is left out.
\<close>

section \<open>State and macros\<close>

text \<open>The variables of \<^verbatim>\<open>memory.c\<close> (\<open>heap_var\<close>, \<open>placement_addr\<close>) and of \<^verbatim>\<open>paging.c\<close>.
  \<open>page_list\<close> has 31 elements: an access to another index is an error of the operations.\<close>

record page_state =
  ram :: mem
  heap_var :: u64
  placement_addr :: u64
  cr3 :: u64
  pml4_var :: u64
  total_mem :: u64
  available_mem :: u64
  page_list :: "nat \<Rightarrow> u64"
  page_tree :: u64

type_synonym table_alloc = "page_state \<Rightarrow> (page_state \<times> u64) option"

abbreviation (input) E820_LOC :: u64 where "E820_LOC \<equiv> 0x500"
abbreviation (input) INIT_MEM :: u64 where "INIT_MEM \<equiv> 0x200000"
abbreviation (input) PAGE_LIST_MAX :: u64 where "PAGE_LIST_MAX \<equiv> 32"
abbreviation (input) PAGE_LIST_COUNT :: nat where "PAGE_LIST_COUNT \<equiv> 31"
abbreviation (input) kMemOk :: u32 where "kMemOk \<equiv> 1"

definition PAGE_MAGIC :: u64 where
  "PAGE_MAGIC = 0xFFFFDEADBEEFFFFF"

definition PAGE_CANONICAL :: "u64 \<Rightarrow> u64" where
  "PAGE_CANONICAL va = drop_bit 16 (push_bit 16 va)"

definition PAGE_FRAME_MASK :: u64 where
  "PAGE_FRAME_MASK = 0xFFFFFFFFFF000"

definition PAGE_OFFSET_MASK :: u64 where
  "PAGE_OFFSET_MASK = 0xFFF"

definition PAGE_PML_IDX :: "u64 \<Rightarrow> nat \<Rightarrow> u64" where
  "PAGE_PML_IDX va lvl = drop_bit (12 + (lvl - 1) * 9) va AND 0x1FF"

definition PAGE_ADDRESS :: "mem \<Rightarrow> u64 \<Rightarrow> u64 \<Rightarrow> u64" where
  "PAGE_ADDRESS m pt idx = load64 m (pt + 8 * idx) AND PAGE_FRAME_MASK"

definition PAGE_FRAME :: "u64 \<Rightarrow> u64" where
  "PAGE_FRAME paddr = drop_bit 12 (paddr AND PAGE_FRAME_MASK)"

definition page_size :: "mem \<Rightarrow> u64 \<Rightarrow> u64" where
  "page_size m h = load64 m (h + 8)"

definition PAGE_GET_FOOTER :: "mem \<Rightarrow> u64 \<Rightarrow> u64" where
  "PAGE_GET_FOOTER m h = h + page_size m h - 16"

definition PAGE_GET_HEADER :: "mem \<Rightarrow> u64 \<Rightarrow> u64" where
  "PAGE_GET_HEADER m f = load64 m (f + 8)"

definition PAGE_CHECK_HEADER :: "mem \<Rightarrow> u64 \<Rightarrow> bool" where
  "PAGE_CHECK_HEADER m h \<longleftrightarrow> load64 m h = PAGE_MAGIC \<and> load64 m (PAGE_GET_FOOTER m h) = PAGE_MAGIC"

definition PAGE_CHECK_FOOTER :: "mem \<Rightarrow> u64 \<Rightarrow> bool" where
  "PAGE_CHECK_FOOTER m f \<longleftrightarrow> load64 m f = PAGE_MAGIC \<and> load64 m (PAGE_GET_HEADER m f) = PAGE_MAGIC"

text \<open>The index is assigned to an \<^verbatim>\<open>int8\<close>.\<close>

definition PAGE_SIZE_IDX :: "u64 \<Rightarrow> int" where
  "PAGE_SIZE_IDX s =
     (if s div PAGE_SIZE \<le> PAGE_LIST_MAX then sint (ucast (s div PAGE_SIZE) :: u8) else - 1)"

section \<open>Page table entries\<close>

text \<open>The bit fields of \<^verbatim>\<open>pm_t\<close>: present is bit 0, writable 1, write_through 3,
  cache_disable 4, the frame is bits 12 to 51. A store to a field rewrites the entry.\<close>

definition entry_addr :: "u64 \<Rightarrow> u64 \<Rightarrow> u64" where
  "entry_addr table idx = table + 8 * idx"

definition pm_present :: "mem \<Rightarrow> u64 \<Rightarrow> u64 \<Rightarrow> bool" where
  "pm_present m table idx \<longleftrightarrow> load64 m (entry_addr table idx) AND 1 \<noteq> 0"

definition set_frame :: "mem \<Rightarrow> u64 \<Rightarrow> u64 \<Rightarrow> u64 \<Rightarrow> mem" where
  "set_frame m table idx frame =
     (let e = entry_addr table idx
      in store64 m e ((load64 m e AND NOT PAGE_FRAME_MASK) OR (push_bit 12 frame AND PAGE_FRAME_MASK)))"

definition set_flag :: "mem \<Rightarrow> u64 \<Rightarrow> u64 \<Rightarrow> nat \<Rightarrow> mem" where
  "set_flag m table idx n =
     (let e = entry_addr table idx in store64 m e (load64 m e OR push_bit n 1))"

definition set_entry :: "mem \<Rightarrow> u64 \<Rightarrow> u64 \<Rightarrow> u64 \<Rightarrow> mem" where
  "set_entry m table idx paddr =
    (let m = set_frame m table idx (PAGE_FRAME paddr);
         m = set_flag m table idx 0;
         m = set_flag m table idx 1;
         m = set_flag m table idx 3
     in set_flag m table idx 4)"

section \<open>Mapping and resolving\<close>

text \<open>The loop over the levels 4 to 2: it descends to the last table and creates the tables
  that are missing on the way.\<close>

fun id_map_loop :: "table_alloc \<Rightarrow> nat \<Rightarrow> u64 \<Rightarrow> page_state \<Rightarrow> u64 \<Rightarrow> (page_state \<times> u64) option" where
  "id_map_loop al i vaddr s table =
    (if i > 1 then
       let idx = PAGE_PML_IDX vaddr i in
       if \<not> pm_present (ram s) table idx then
         do { (s, ct) \<leftarrow> al s;
              let s = s\<lparr>ram := mem_fill (ram s) ct 0 (8 * 512)\<rparr>;
              let s = s\<lparr>ram := set_entry (ram s) table idx ct\<rparr>;
              id_map_loop al (i - 1) vaddr s ct }
       else id_map_loop al (i - 1) vaddr s (PAGE_ADDRESS (ram s) table idx)
     else Some (s, table))"

declare id_map_loop.simps [simp del]

definition page_id_map :: "table_alloc \<Rightarrow> page_state \<Rightarrow> u64 \<Rightarrow> u64 \<Rightarrow> bool \<Rightarrow> (page_state \<times> bool) option" where
  "page_id_map al s paddr vaddr mmio =
    (let paddr = PAGE_ALIGN paddr;
         vaddr = PAGE_ALIGN vaddr;
         vaddr = PAGE_CANONICAL vaddr
     in do { (s, table) \<leftarrow> id_map_loop al 4 vaddr s (cr3 s);
             let idx = PAGE_PML_IDX vaddr 1;
             if \<not> pm_present (ram s) table idx
             then Some (s\<lparr>ram := set_entry (ram s) table idx paddr\<rparr>, True)
             else Some (s, False) })"

definition page_map :: "table_alloc \<Rightarrow> page_state \<Rightarrow> u64 \<Rightarrow> u64 \<Rightarrow> (page_state \<times> bool) option" where
  "page_map al s paddr vaddr = page_id_map al s paddr vaddr False"

definition page_map_mmio :: "table_alloc \<Rightarrow> page_state \<Rightarrow> u64 \<Rightarrow> u64 \<Rightarrow> (page_state \<times> bool) option" where
  "page_map_mmio al s paddr vaddr = page_id_map al s paddr vaddr True"

definition page_release :: "u64 \<Rightarrow> page_state \<Rightarrow> bool \<times> page_state" where
  "page_release vaddr s = (True, s)"

fun resolve_loop :: "mem \<Rightarrow> nat \<Rightarrow> u64 \<Rightarrow> u64 \<Rightarrow> u64 \<Rightarrow> (u64 \<times> u64) option" where
  "resolve_loop m i vaddr table idx =
    (if i \<ge> 1 then
       if pm_present m table idx
       then resolve_loop m (i - 1) vaddr (PAGE_ADDRESS m table idx) (PAGE_PML_IDX vaddr i)
       else None
     else Some (table, idx))"

declare resolve_loop.simps [simp del]

definition page_resolve :: "page_state \<Rightarrow> u64 \<Rightarrow> u64" where
  "page_resolve s vaddr =
    (case resolve_loop (ram s) 3 vaddr (cr3 s) (PAGE_PML_IDX vaddr 4) of
       None \<Rightarrow> 0
     | Some (table, idx) \<Rightarrow> PAGE_ADDRESS (ram s) table idx + (vaddr AND PAGE_OFFSET_MASK))"

definition page_get_pml4 :: "page_state \<Rightarrow> u64" where
  "page_get_pml4 s = cr3 s"

definition page_set_pml4 :: "u64 \<Rightarrow> page_state \<Rightarrow> page_state" where
  "page_set_pml4 paddr s = s\<lparr>cr3 := paddr\<rparr>"

definition page_total_mem :: "page_state \<Rightarrow> u64" where
  "page_total_mem s = total_mem s"

definition page_available_mem :: "page_state \<Rightarrow> u64" where
  "page_available_mem s = available_mem s"

text \<open>The fault handler; \<open>fail_addr\<close> is the value of \<^verbatim>\<open>CR2\<close>. It returns 0 for "handled".\<close>

definition page_fault :: "table_alloc \<Rightarrow> u64 \<Rightarrow> isr_stack \<Rightarrow> page_state \<Rightarrow> (page_state \<times> u64) option" where
  "page_fault al fail_addr stack s =
    (if page_resolve s fail_addr = 0 then
       do { (s, ok) \<leftarrow> page_map al s fail_addr fail_addr;
            if \<not> ok then Some (s, 1) else Some (s, 0) }
     else Some (s, 0))"

section \<open>Blocks of free pages\<close>

definition page_create_block :: "mem \<Rightarrow> u64 \<Rightarrow> u64 \<Rightarrow> mem" where
  "page_create_block m ptr sz =
    (let sz = PAGE_SIZE_ALIGN sz;
         m = store64 m ptr PAGE_MAGIC;
         m = store64 m (ptr + 8) sz;
         footer = PAGE_GET_FOOTER m ptr;
         m = store64 m (footer + 8) ptr
     in store64 m footer PAGE_MAGIC)"

partial_function (option) page_tree_loop :: "mem \<Rightarrow> u64 \<Rightarrow> u64 \<Rightarrow> u64 \<Rightarrow> mem option" where
  "page_tree_loop m free_block usize parent =
    (let block_usize = page_size m parent in
     if block_usize > usize then
       if smaller_block m parent = 0 then
         Some (set_larger (set_smaller m parent free_block) free_block parent)
       else if page_size m (smaller_block m parent) < usize then
         (let m = set_smaller m free_block (smaller_block m parent);
              m = set_larger m (smaller_block m parent) free_block;
              m = set_smaller m parent free_block
          in Some (set_larger m free_block parent))
       else page_tree_loop m free_block usize (smaller_block m parent)
     else if block_usize < usize then
       if larger_block m parent = 0 then
         Some (set_smaller (set_larger m parent free_block) free_block parent)
       else if page_size m (larger_block m parent) > usize then
         (let m = set_larger m free_block (larger_block m parent);
              m = set_smaller m (larger_block m parent) free_block;
              m = set_larger m parent free_block
          in Some (set_smaller m free_block parent))
       else page_tree_loop m free_block usize (larger_block m parent)
     else if child_block m parent = 0 then
       Some (set_parent (set_child m parent free_block) free_block parent)
     else
       (let m = set_parent m (child_block m parent) free_block;
            m = set_child m free_block (child_block m parent);
            m = set_child m parent free_block
        in Some (set_parent m free_block parent)))"

definition page_tree_insert :: "page_state \<Rightarrow> u64 \<Rightarrow> (page_state \<times> bool) option" where
  "page_tree_insert s block =
    (if page_size (ram s) block div PAGE_SIZE > PAGE_LIST_MAX then
       let m = set_parent (ram s) block 0;
           m = set_child m block 0;
           m = set_smaller m block 0;
           m = set_larger m block 0
       in if page_tree s = 0 then Some (s\<lparr>ram := m, page_tree := block\<rparr>, True)
          else do { m \<leftarrow> page_tree_loop m block (page_size m block) (page_tree s);
                    Some (s\<lparr>ram := m\<rparr>, True) }
     else Some (s, False))"

text \<open>The test of \<^verbatim>\<open>parent_block\<close> inside the branch for blocks without a parent is always
  false, so its two stores never happen.\<close>

definition page_tree_delete :: "page_state \<Rightarrow> u64 \<Rightarrow> page_state" where
  "page_tree_delete s block =
    (let m = ram s;
         s = (if parent_block m block \<noteq> 0 then
                s\<lparr>ram := set_child m (parent_block m block) (child_block m block)\<rparr>
              else
                (let (m, replacement) =
                  (if child_block m block \<noteq> 0 then
                    (let m = (if larger_block m block \<noteq> 0
                              then let m = set_smaller m (larger_block m block) (child_block m block)
                                   in set_larger m (child_block m block) (larger_block m block)
                              else set_larger m (child_block m block) 0);
                         m = (if smaller_block m block \<noteq> 0
                              then let m = set_larger m (smaller_block m block) (child_block m block)
                                   in set_smaller m (child_block m block) (smaller_block m block)
                              else set_smaller m (child_block m block) 0);
                         m = (if parent_block m block \<noteq> 0
                              then let m = set_parent m (child_block m block) (parent_block m block)
                                   in set_child m (parent_block m block) (child_block m block)
                              else m)
                     in (m, child_block m block))
                   else
                    (let (m, r) = (if larger_block m block \<noteq> 0
                                   then let m = set_smaller m (larger_block m block) (smaller_block m block)
                                        in (m, larger_block m block) else (m, 0))
                     in if smaller_block m block \<noteq> 0
                        then let m = set_larger m (smaller_block m block) (larger_block m block)
                             in (m, smaller_block m block) else (m, r)));
                 s = s\<lparr>ram := m\<rparr>
                 in if page_tree s = block then s\<lparr>page_tree := replacement\<rparr> else s));
         m = set_parent (ram s) block 0;
         m = set_child m block 0;
         m = set_larger m block 0;
         m = set_smaller m block 0
     in s\<lparr>ram := m\<rparr>)"

definition page_list_insert :: "page_state \<Rightarrow> nat \<Rightarrow> u64 \<Rightarrow> page_state" where
  "page_list_insert s list_idx b =
    (let s = s\<lparr>ram := set_prev (ram s) b 0\<rparr>;
         s = s\<lparr>ram := set_next (ram s) b (page_list s list_idx)\<rparr>;
         s = (if next_block (ram s) b \<noteq> 0 then s\<lparr>ram := set_prev (ram s) (next_block (ram s) b) b\<rparr> else s)
     in s\<lparr>page_list := (page_list s)(list_idx := b)\<rparr>)"

definition page_free_insert :: "page_state \<Rightarrow> u64 \<Rightarrow> (c_error + page_state) option" where
  "page_free_insert s block =
    (let list_idx = PAGE_SIZE_IDX (page_size (ram s) block) in
     if list_idx \<ge> 0 then
       if nat list_idx < PAGE_LIST_COUNT then Some (Inr (page_list_insert s (nat list_idx) block))
       else Some (Inl OutOfBounds)
     else do { (s, _) \<leftarrow> page_tree_insert s block; Some (Inr s) })"

definition page_list_remove :: "page_state \<Rightarrow> nat \<Rightarrow> u64 \<Rightarrow> c_error + page_state" where
  "page_list_remove s list_idx b =
    ebind (if prev_block (ram s) b = 0 then
             if list_idx \<ge> PAGE_LIST_COUNT then Inl OutOfBounds
             else if next_block (ram s) b = 0 then Inr (s\<lparr>page_list := (page_list s)(list_idx := 0)\<rparr>)
             else
               (let s = s\<lparr>page_list := (page_list s)(list_idx := next_block (ram s) b)\<rparr>
                in Inr (s\<lparr>ram := set_prev (ram s) (page_list s list_idx) 0\<rparr>))
           else
             if next_block (ram s) b \<noteq> 0 then
               (let s = s\<lparr>ram := set_prev (ram s) (next_block (ram s) b) (prev_block (ram s) b)\<rparr>
                in Inr (s\<lparr>ram := set_next (ram s) (prev_block (ram s) b) (next_block (ram s) b)\<rparr>))
             else Inr (s\<lparr>ram := set_next (ram s) (prev_block (ram s) b) 0\<rparr>))
      (\<lambda>s. let s = s\<lparr>ram := set_next (ram s) b 0\<rparr>
           in Inr (s\<lparr>ram := set_prev (ram s) b 0\<rparr>))"

definition page_free_remove :: "page_state \<Rightarrow> u64 \<Rightarrow> c_error + page_state" where
  "page_free_remove s block =
    (let list_idx = PAGE_SIZE_IDX (page_size (ram s) block) in
     if list_idx \<ge> 0 then page_list_remove s (nat list_idx) block
     else Inr (page_tree_delete s block))"

function search_page_lists :: "page_state \<Rightarrow> nat \<Rightarrow> u64" where
  "search_page_lists s list_idx =
    (if list_idx < PAGE_LIST_COUNT then
       if page_list s list_idx \<noteq> 0 then page_list s list_idx
       else search_page_lists s (Suc list_idx)
     else 0)"
  by pat_completeness auto
termination
  by (relation "measure (\<lambda>(s, i). PAGE_LIST_COUNT - i)") auto

declare search_page_lists.simps [simp del]

partial_function (option) page_larger_walk :: "mem \<Rightarrow> u64 \<Rightarrow> u64 \<Rightarrow> u64 option" where
  "page_larger_walk m b sz =
     (if b \<noteq> 0 \<and> page_size m b < sz then page_larger_walk m (larger_block m b) sz else Some b)"

partial_function (option) page_smaller_walk :: "mem \<Rightarrow> u64 \<Rightarrow> u64 \<Rightarrow> u64 option" where
  "page_smaller_walk m b sz =
     (if page_size m b > sz then
        if smaller_block m b \<noteq> 0 \<and> page_size m (smaller_block m b) \<ge> sz
        then page_smaller_walk m (smaller_block m b) sz else Some b
      else Some b)"

text \<open>The root of the tree is read without a test: with an empty tree the code reads the
  \<^verbatim>\<open>size\<close> field of a block at address 0.\<close>

definition page_free_search :: "page_state \<Rightarrow> u64 \<Rightarrow> u64 option" where
  "page_free_search s sz =
    (let list_idx = PAGE_SIZE_IDX sz;
         r = (if list_idx \<ge> 0 then search_page_lists s (nat list_idx) else 0)
     in if r \<noteq> 0 then Some r
        else let b = page_tree s in
          if page_size (ram s) b < sz then page_larger_walk (ram s) b sz
          else if page_size (ram s) b > sz then page_smaller_walk (ram s) b sz
          else Some b)"

definition page_merge_left :: "page_state \<Rightarrow> u64 \<Rightarrow> c_error + page_state \<times> u64" where
  "page_merge_left s block =
    (if block \<ge> PAGE_SIZE then
       let prev_footer = block - 16 in
       if PAGE_CHECK_FOOTER (ram s) prev_footer then
         let free_left = PAGE_GET_HEADER (ram s) prev_footer in
         ebind (page_free_remove s free_left) (\<lambda>s.
           Inr (s\<lparr>ram := page_create_block (ram s) free_left
                  (page_size (ram s) free_left + page_size (ram s) block)\<rparr>, free_left))
       else Inr (s, block)
     else Inr (s, block))"

definition page_merge_right :: "page_state \<Rightarrow> u64 \<Rightarrow> c_error + page_state" where
  "page_merge_right s block =
    (let footer = PAGE_GET_FOOTER (ram s) block in
     if footer + 16 < total_mem s then
       let next_header = footer + 16 in
       if PAGE_CHECK_HEADER (ram s) next_header then
         ebind (page_free_remove s next_header) (\<lambda>s.
           Inr (s\<lparr>ram := page_create_block (ram s) block
                  (page_size (ram s) block + page_size (ram s) next_header)\<rparr>))
       else Inr s
     else Inr s)"

text \<open>\<^verbatim>\<open>page_alloc\<close> maps the page of \<^verbatim>\<open>vaddr\<close> and returns the rounded size when
  some free block is large enough. The block is not taken out of its list.\<close>

definition page_alloc :: "table_alloc \<Rightarrow> page_state \<Rightarrow> u64 \<Rightarrow> u64 \<Rightarrow> (page_state \<times> u64) option" where
  "page_alloc al s vaddr sz =
    (let sz = PAGE_SIZE_ALIGN sz in
     do { (s, ok) \<leftarrow> (if page_resolve s vaddr = 0 then page_map al s vaddr vaddr else Some (s, True));
          if \<not> ok then Some (s, 0)
          else do { pages \<leftarrow> page_free_search s sz;
                    if pages \<noteq> 0 then Some (s, sz) else Some (s, 0) } })"

definition page_free :: "page_state \<Rightarrow> u64 \<Rightarrow> u64 \<Rightarrow> page_state" where
  "page_free s vaddr sz = s"

section \<open>The memory map and initialisation\<close>

text \<open>\<^verbatim>\<open>e820map_t\<close> is a 16-bit count and packed entries of 26 bytes: the entry's size,
  base, length, type and attributes.\<close>

definition e820_size :: "mem \<Rightarrow> u64 \<Rightarrow> u64" where
  "e820_size m mmap = ucast (load16 m mmap)"

definition e820_entry :: "u64 \<Rightarrow> u64 \<Rightarrow> u64" where
  "e820_entry mmap i = mmap + 2 + 26 * i"

definition e820_base :: "mem \<Rightarrow> u64 \<Rightarrow> u64 \<Rightarrow> u64" where
  "e820_base m mmap i = load64 m (e820_entry mmap i + 2)"

definition e820_length :: "mem \<Rightarrow> u64 \<Rightarrow> u64 \<Rightarrow> u64" where
  "e820_length m mmap i = load64 m (e820_entry mmap i + 10)"

definition e820_type :: "mem \<Rightarrow> u64 \<Rightarrow> u64 \<Rightarrow> u32" where
  "e820_type m mmap i = load32 m (e820_entry mmap i + 18)"

text \<open>The exchange of two entries through the local variable \<^verbatim>\<open>e\<close>.\<close>

definition read_entry :: "mem \<Rightarrow> u64 \<Rightarrow> u8 list" where
  "read_entry m a = map (\<lambda>k. m (a + of_nat k)) [0..<26]"

definition write_entry :: "mem \<Rightarrow> u64 \<Rightarrow> u8 list \<Rightarrow> mem" where
  "write_entry m a bs = fold (\<lambda>k m. m(a + of_nat k := bs ! k)) [0..<26] m"

definition e820_swap :: "mem \<Rightarrow> u64 \<Rightarrow> u64 \<Rightarrow> mem" where
  "e820_swap m mmap i =
    (let e = read_entry m (e820_entry mmap i);
         m = write_entry m (e820_entry mmap i) (read_entry m (e820_entry mmap (i + 1)))
     in write_entry m (e820_entry mmap (i + 1)) e)"

function e820_pass :: "mem \<Rightarrow> u64 \<Rightarrow> u64 \<Rightarrow> u64 \<Rightarrow> bool \<Rightarrow> mem \<times> bool" where
  "e820_pass m mmap i bound swapped =
    (if i < bound then
       if e820_base m mmap i > e820_base m mmap (i + 1)
       then e820_pass (e820_swap m mmap i) mmap (i + 1) bound True
       else e820_pass m mmap (i + 1) bound swapped
     else (m, swapped))"
  by pat_completeness auto
termination
proof (relation "measure (\<lambda>(m, mmap, i, bound, swapped). unat bound - unat i)")
  fix i bound :: u64
  assume lt: "i < bound"
  then have "unat (i + 1) = Suc (unat i)"
    using unat64_lt[of bound] by (simp add: word_less_nat_alt unat_word_ariths)
  with lt have "unat bound - unat (i + 1) < unat bound - unat i" by (simp add: word_less_nat_alt)
  then show "((e820_swap m mmap i, mmap, i + 1, bound, True), m, mmap, i, bound, swapped)
      \<in> measure (\<lambda>(m, mmap, i, bound, swapped). unat bound - unat i)"
    "((m, mmap, i + 1, bound, swapped), m, mmap, i, bound, swapped)
      \<in> measure (\<lambda>(m, mmap, i, bound, swapped). unat bound - unat i)" for m mmap swapped
    by simp_all
qed simp

declare e820_pass.simps [simp del]

function e820_sort_loop :: "mem \<Rightarrow> u64 \<Rightarrow> u64 \<Rightarrow> bool \<Rightarrow> mem" where
  "e820_sort_loop m mmap count swapped =
    (if count > 0 \<and> swapped then
       let (m, swapped) = e820_pass m mmap 0 (count - 1) False
       in e820_sort_loop m mmap (count - 1) swapped
     else m)"
  by pat_completeness auto
termination
proof (relation "measure (\<lambda>(m, mmap, count, swapped). unat count)")
  fix m mmap and count :: u64 and swapped :: bool and x xa y
  assume "0 < count \<and> swapped"
  then show "((xa, mmap, count - 1, y), m, mmap, count, swapped)
      \<in> measure (\<lambda>(m, mmap, count, swapped). unat count)"
    by (simp add: unat_minus_one word_gt_0 unat_gt_0)
qed simp

declare e820_sort_loop.simps [simp del]

definition sort_e820 :: "mem \<Rightarrow> u64 \<Rightarrow> mem" where
  "sort_e820 m mmap = e820_sort_loop m mmap (e820_size m mmap) True"

text \<open>Mapping the region of entry \<open>i\<close>, then the loop over the entries.\<close>

partial_function (option) init_map_loop :: "table_alloc \<Rightarrow> u64 \<Rightarrow> u64 \<Rightarrow> page_state \<Rightarrow> page_state option" where
  "init_map_loop al i k s =
    (if k < e820_length (ram s) E820_LOC i then
       let va = PAGE_ALIGN (e820_base (ram s) E820_LOC i + k) in
       if va \<ge> INIT_MEM then
         Option.bind (page_id_map al s va va False) (\<lambda>(s, _). init_map_loop al i (k + PAGE_SIZE) s)
       else init_map_loop al i (k + PAGE_SIZE) s
     else Some s)"

definition init_entry :: "table_alloc \<Rightarrow> u64 \<Rightarrow> page_state \<Rightarrow> (c_error + page_state) option" where
  "init_entry al i s =
    (let top = e820_base (ram s) E820_LOC i + e820_length (ram s) E820_LOC i;
         s = (if top > total_mem s then s\<lparr>total_mem := top\<rparr> else s)
     in if e820_type (ram s) E820_LOC i = kMemOk then
          do { s \<leftarrow> init_map_loop al i 0 s;
               let len = e820_length (ram s) E820_LOC i;
               let base = e820_base (ram s) E820_LOC i;
               let s = s\<lparr>available_mem := available_mem s + len\<rparr>;
               if base + len > INIT_MEM then
                 let start = (if base < INIT_MEM then INIT_MEM else base);
                     sz = len - (start - base);
                     s = s\<lparr>ram := page_create_block (ram s) start sz\<rparr>
                 in page_free_insert s start
               else Some (Inr s) }
        else Some (Inr s))"

partial_function (option) init_entries :: "table_alloc \<Rightarrow> u64 \<Rightarrow> page_state \<Rightarrow> (c_error + page_state) option" where
  "init_entries al i s =
    (if i < e820_size (ram s) E820_LOC then
       Option.bind (init_entry al i s) (\<lambda>r.
         case r of Inl e \<Rightarrow> Some (Inl e) | Inr s \<Rightarrow> init_entries al (i + 1) s)
     else Some (Inr s))"

definition page_init :: "table_alloc \<Rightarrow> page_state \<Rightarrow> (c_error + page_state) option" where
  "page_init al s =
    (let s = s\<lparr>total_mem := 0, available_mem := 0, pml4_var := cr3 s\<rparr>;
         s = s\<lparr>ram := sort_e820 (ram s) E820_LOC\<rparr>;
         s = s\<lparr>page_tree := 0, page_list := (\<lambda>i. if i < PAGE_LIST_COUNT then 0 else page_list s i)\<rparr>
     in init_entries al 0 s)"

text \<open>The last statement of \<^verbatim>\<open>page_init\<close> registers the fault handler for vector 14.\<close>

definition page_init_handler :: "'h \<Rightarrow> ('h, 'x) int_state_scheme \<Rightarrow> ('h, 'x) int_state_scheme" where
  "page_init_handler fault s = interrupt_reg_isr_handler 14 (Some fault) s"

end
