(* ===== verification/PageTables.thy ===== *)
theory PageTables
  imports Paging
begin

text \<open>
  What a page table means and what the mapping code does to it: \<open>translate\<close> is the walk of
  the processor (4 KB pages), \<open>tabs\<close> the tables that hang below one, \<open>pt_wf\<close> says that they
  form a tree. The locale \<open>table_allocator\<close> states what \<^verbatim>\<open>page_id_map\<close> needs of
  \<^verbatim>\<open>mem_alloc_align\<close>; the Memory theory interprets it.
\<close>

section \<open>Bits of entries and addresses\<close>

definition frame_ok :: "u64 \<Rightarrow> bool" where
  "frame_ok a \<longleftrightarrow> a AND PAGE_FRAME_MASK = a"

definition page_cells :: "u64 set \<Rightarrow> u64 set" where
  "page_cells T = (\<Union>t\<in>T. addrs t 4096)"

definition agree :: "u64 set \<Rightarrow> mem \<Rightarrow> mem \<Rightarrow> bool" where
  "agree T m m' \<longleftrightarrow> (\<forall>x\<in>page_cells T. m' x = m x)"

lemma frame_mask_eq: "PAGE_FRAME_MASK = mask 52 AND NOT (mask 12)"
  by (simp add: PAGE_FRAME_MASK_def mask_eq_exp_minus_1)

lemma bit_frame_mask: "bit PAGE_FRAME_MASK n \<longleftrightarrow> 12 \<le> n \<and> n < 52"
  by (auto simp: frame_mask_eq bit_simps)

lemma frame_ok_address [simp]: "frame_ok (PAGE_ADDRESS m t i)"
  by (simp add: frame_ok_def PAGE_ADDRESS_def ac_simps)

lemma frame_ok_and [simp]: "frame_ok (a AND PAGE_FRAME_MASK)"
  by (simp add: frame_ok_def ac_simps)

lemma frame_ok_dvd: "frame_ok a \<Longrightarrow> 4096 dvd unat a"
proof -
  assume a: "frame_ok a"
  have "take_bit 12 a = take_bit 12 (a AND PAGE_FRAME_MASK)" using a by (simp add: frame_ok_def)
  also have "\<dots> = 0" by (simp add: take_bit_and PAGE_FRAME_MASK_def)
  finally have "unat (take_bit 12 a) = 0" by simp
  then have "unat a mod 4096 = 0" by (simp add: take_bit_eq_mod unat_mod)
  then show ?thesis by (simp add: mod_eq_0_iff_dvd)
qed

lemma frame_okI: "4096 dvd unat a \<Longrightarrow> unat a < 2 ^ 52 \<Longrightarrow> frame_ok a"
proof -
  assume d: "4096 dvd unat a" and l: "unat a < 2 ^ 52"
  have 1: "take_bit 12 a = 0"
  proof -
    have "unat (take_bit 12 a) = 0" using d by (simp add: take_bit_eq_mod unat_mod)
    then show ?thesis by (simp only: unsigned_eq_0_iff)
  qed
  have 2: "take_bit 52 a = a"
  proof -
    have "unat (take_bit 52 a) = unat a" using l by (simp add: unsigned_take_bit_eq take_bit_nat_eq_self)
    then show ?thesis by (simp only: word_unat_eq_iff)
  qed
  have low: "\<not> bit a n" if "n < 12" for n
  proof -
    have "bit (take_bit 12 a) n = bit a n" using that by (simp add: bit_take_bit_iff)
    then show ?thesis by (simp add: 1)
  qed
  have high: "n < 52" if "bit a n" for n
    using that 2 by (metis bit_take_bit_iff)
  have "bit (a AND PAGE_FRAME_MASK) n = bit a n" for n
    using low[of n] high[of n] by (meson bit_and_iff bit_frame_mask not_le)
  then show ?thesis unfolding frame_ok_def by (intro bit_eqI) simp
qed

lemma pages_disjoint:
  assumes "4096 dvd unat a" "4096 dvd unat b" "a \<noteq> b"
  shows "addrs a 4096 \<inter> addrs b 4096 = {}"
proof -
  have top: "unat c + 4096 \<le> 2 ^ 64" if "4096 dvd unat c" for c :: u64
  proof -
    obtain k where "unat c = 4096 * k" using \<open>4096 dvd unat c\<close> by (auto elim: dvdE)
    then show ?thesis using unat64_lt[of c] by simp
  qed
  have False if "x \<in> addrs a 4096" "x \<in> addrs b 4096" for x
  proof -
    obtain i j where ij: "unat a = 4096 * i" "unat b = 4096 * j" using assms by (auto elim!: dvdE)
    have "4096 * i \<le> unat x \<and> unat x < 4096 * i + 4096" "4096 * j \<le> unat x \<and> unat x < 4096 * j + 4096"
      using addrs_nowrap[OF top[OF assms(1)]] addrs_nowrap[OF top[OF assms(2)]] that ij by auto
    then have "i = j" by linarith
    then show False using ij assms(3) by (metis word_unat_eq_iff)
  qed
  then show ?thesis by blast
qed

lemma frame_disjoint: "frame_ok a \<Longrightarrow> frame_ok b \<Longrightarrow> a \<noteq> b \<Longrightarrow> addrs a 4096 \<inter> addrs b 4096 = {}"
  by (rule pages_disjoint) (auto dest: frame_ok_dvd)

lemma idx_bound [simp]: "PAGE_PML_IDX va lvl < 512"
proof -
  have "drop_bit (12 + (lvl - 1) * 9) va AND mask 9 < (2 ^ 9 :: u64)" by (rule and_mask_less') simp
  then show ?thesis by (simp add: PAGE_PML_IDX_def mask_eq_exp_minus_1)
qed

lemma entry_in_page:
  assumes "i < 512" shows "addrs (entry_addr t i) 8 \<subseteq> addrs t 4096"
proof
  fix x assume "x \<in> addrs (entry_addr t i) 8"
  then have x: "unat (x - (t + 8 * i)) < 8" by (simp add: addrs_def entry_addr_def)
  have i: "unat (8 * i) \<le> 8 * 511"
    using assms by (simp add: unat_word_ariths word_less_nat_alt)
  have "x - t = (x - (t + 8 * i)) + 8 * i" by simp
  then have "unat (x - t) \<le> unat (x - (t + 8 * i)) + unat (8 * i)" by (metis unat_plus_le)
  then show "x \<in> addrs t 4096" using x i by (simp add: addrs_def)
qed

lemma entries_disjoint:
  assumes "i < 512" "j < 512" "i \<noteq> j"
  shows "apart (entry_addr t i) (entry_addr t j)"
proof -
  have u: "unat (8 * i) = 8 * unat i" "unat (8 * j) = 8 * unat j" "unat i < 512" "unat j < 512" "unat i \<noteq> unat j"
    using assms by (simp_all add: unat_word_ariths word_less_nat_alt word_unat_eq_iff)
  have "8 \<le> unat (8 * i - 8 * j)" "8 \<le> unat (8 * j - 8 * i)"
    using u by (auto simp: unat_sub_if' not_le split: if_splits)
  then show ?thesis by (simp add: apart_def entry_addr_def word_le_nat_alt)
qed

section \<open>Entries under stores\<close>

lemma agree_mono: "agree T m m' \<Longrightarrow> S \<subseteq> T \<Longrightarrow> agree S m m'"
  by (auto simp: agree_def page_cells_def)

lemma agree_trans: "agree T m m' \<Longrightarrow> agree T m' m'' \<Longrightarrow> agree T m m''"
  by (simp add: agree_def)

lemma agree_refl [simp]: "agree T m m" by (simp add: agree_def)

lemma agree_union: "agree (S \<union> T) m m' \<longleftrightarrow> agree S m m' \<and> agree T m m'"
  by (auto simp: agree_def page_cells_def)

lemma agree_load:
  assumes "agree T m m'" "t \<in> T" "i < 512"
  shows "load64 m' (entry_addr t i) = load64 m (entry_addr t i)"
  by (rule load64_cong) (use assms entry_in_page[of i t] in \<open>auto simp: agree_def page_cells_def\<close>)

lemma agree_entry:
  assumes "agree T m m'" "t \<in> T" "i < 512"
  shows "pm_present m' t i = pm_present m t i" "PAGE_ADDRESS m' t i = PAGE_ADDRESS m t i"
  using agree_load[OF assms] by (simp_all add: pm_present_def PAGE_ADDRESS_def entry_addr_def)

lemma set_flag_other: "x \<notin> addrs (entry_addr t i) 8 \<Longrightarrow> set_flag m t i n x = m x"
  by (simp add: set_flag_def Let_def frame)

lemma set_entry_other: "x \<notin> addrs (entry_addr t i) 8 \<Longrightarrow> set_entry m t i a x = m x"
  by (simp add: set_entry_def Let_def set_flag_other set_frame_def frame)

lemma set_entry_load:
  "load64 (set_entry m t i a) (entry_addr t i) =
     ((load64 m (entry_addr t i) AND NOT PAGE_FRAME_MASK) OR (a AND PAGE_FRAME_MASK)) OR 0x1B"
proof -
  have f: "push_bit 12 (PAGE_FRAME a) AND PAGE_FRAME_MASK = a AND PAGE_FRAME_MASK"
    by (rule bit_word_eqI) (auto simp: PAGE_FRAME_def bit_frame_mask bit_simps)
  show ?thesis
    by (simp add: set_entry_def set_flag_def set_frame_def Let_def f or.assoc)
qed

lemma set_entry_entry [simp]:
  "pm_present (set_entry m t i a) t i" "PAGE_ADDRESS (set_entry m t i a) t i = a AND PAGE_FRAME_MASK"
proof -
  let ?e = "load64 (set_entry m t i a) (entry_addr t i)"
  have "bit ?e 0" unfolding set_entry_load by (simp add: bit_simps)
  then have "?e AND 1 \<noteq> 0" by (simp add: and_one_eq odd_iff_mod_2_eq_one bit_0)
  then show "pm_present (set_entry m t i a) t i" by (simp add: pm_present_def)
  have "?e AND PAGE_FRAME_MASK = a AND PAGE_FRAME_MASK"
    unfolding set_entry_load
    by (simp add: bit.conj_disj_distrib2 and.assoc) (simp add: PAGE_FRAME_MASK_def)
  then show "PAGE_ADDRESS (set_entry m t i a) t i = a AND PAGE_FRAME_MASK"
    by (simp add: PAGE_ADDRESS_def entry_addr_def)
qed

lemma set_entry_apart:
  assumes "i < 512" "j < 512" "i \<noteq> j"
  shows "pm_present (set_entry m t i a) t j = pm_present m t j"
    "PAGE_ADDRESS (set_entry m t i a) t j = PAGE_ADDRESS m t j"
proof -
  have "load64 (set_entry m t i a) (entry_addr t j) = load64 m (entry_addr t j)"
    by (rule load64_cong)
       (use apart_disjoint[OF entries_disjoint[OF assms, of t]] set_entry_other in blast)
  then show "pm_present (set_entry m t i a) t j = pm_present m t j"
    "PAGE_ADDRESS (set_entry m t i a) t j = PAGE_ADDRESS m t j"
    by (simp_all add: pm_present_def PAGE_ADDRESS_def entry_addr_def)
qed

lemma set_entry_agree:
  assumes "i < 512" "frame_ok t" "\<forall>a\<in>T. frame_ok a" "t \<notin> T"
  shows "agree T m (set_entry m t i a)"
  unfolding agree_def page_cells_def
proof safe
  fix x u assume "u \<in> T" "x \<in> addrs u 4096"
  then have "x \<notin> addrs t 4096" using frame_disjoint[of u t] assms by blast
  then show "set_entry m t i a x = m x" using entry_in_page[OF assms(1), of t] set_entry_other by blast
qed

section \<open>Translation and the tree of tables\<close>

text \<open>Tables of height \<open>l\<close> are those of level \<open>l + 1\<close> in the code: height 0 holds the pages.\<close>

primrec walk :: "nat \<Rightarrow> mem \<Rightarrow> u64 \<Rightarrow> u64 \<Rightarrow> u64 option" where
  "walk 0 m t va = Some t"
| "walk (Suc l) m t va =
    (let i = PAGE_PML_IDX va (Suc (Suc l))
     in if pm_present m t i then walk l m (PAGE_ADDRESS m t i) va else None)"

definition leaf_entry :: "mem \<Rightarrow> u64 \<Rightarrow> u64 \<Rightarrow> u64 option" where
  "leaf_entry m t va =
    (let i = PAGE_PML_IDX va 1 in if pm_present m t i then Some (PAGE_ADDRESS m t i) else None)"

definition translate :: "nat \<Rightarrow> mem \<Rightarrow> u64 \<Rightarrow> u64 \<Rightarrow> u64 option" where
  "translate l m t va = Option.bind (walk l m t va) (\<lambda>t1. leaf_entry m t1 va)"

primrec tabs :: "nat \<Rightarrow> mem \<Rightarrow> u64 \<Rightarrow> u64 set" where
  "tabs 0 m t = {t}"
| "tabs (Suc l) m t =
    insert t (\<Union>i\<in>{i. i < 512 \<and> pm_present m t i}. tabs l m (PAGE_ADDRESS m t i))"

primrec pt_wf :: "nat \<Rightarrow> mem \<Rightarrow> u64 \<Rightarrow> bool" where
  "pt_wf 0 m t \<longleftrightarrow> True"
| "pt_wf (Suc l) m t \<longleftrightarrow>
    (\<forall>i<512. pm_present m t i \<longrightarrow> t \<notin> tabs l m (PAGE_ADDRESS m t i) \<and> pt_wf l m (PAGE_ADDRESS m t i)) \<and>
    (\<forall>i<512. \<forall>j<512. i \<noteq> j \<longrightarrow> pm_present m t i \<longrightarrow> pm_present m t j \<longrightarrow>
       tabs l m (PAGE_ADDRESS m t i) \<inter> tabs l m (PAGE_ADDRESS m t j) = {})"

lemma tabs_root [simp]: "t \<in> tabs l m t"
  by (cases l) simp_all

lemma tabs_frame_ok: "frame_ok t \<Longrightarrow> a \<in> tabs l m t \<Longrightarrow> frame_ok a"
proof (induction l arbitrary: t)
  case (Suc l)
  then show ?case using Suc.IH[OF frame_ok_address] by auto
qed simp

lemma walk_in_tabs: "walk l m t va = Some t1 \<Longrightarrow> t1 \<in> tabs l m t"
proof (induction l arbitrary: t)
  case (Suc l)
  then show ?case by (force simp: Let_def split: if_splits)
qed simp

text \<open>What the tables do not hold does not matter.\<close>

lemma tabs_cong: "agree (tabs l m t) m m' \<Longrightarrow> tabs l m' t = tabs l m t"
proof (induction l arbitrary: t)
  case (Suc l)
  note e = agree_entry[OF Suc.prems tabs_root]
  have "tabs l m' (PAGE_ADDRESS m t i) = tabs l m (PAGE_ADDRESS m t i)" if "i < 512" "pm_present m t i" for i
    by (rule Suc.IH, rule agree_mono[OF Suc.prems]) (use that in auto)
  then show ?case using e by auto
qed simp

lemma walk_cong: "agree (tabs l m t) m m' \<Longrightarrow> walk l m' t va = walk l m t va"
proof (induction l arbitrary: t)
  case (Suc l)
  let ?i = "PAGE_PML_IDX va (Suc (Suc l))"
  note e = agree_entry[OF Suc.prems tabs_root idx_bound]
  have "walk l m' (PAGE_ADDRESS m t ?i) va = walk l m (PAGE_ADDRESS m t ?i) va" if "pm_present m t ?i"
    by (rule Suc.IH, rule agree_mono[OF Suc.prems]) (use that idx_bound in \<open>fastforce simp del: idx_bound\<close>)
  then show ?case using e by (simp add: Let_def)
qed simp

lemma translate_cong: "agree (tabs l m t) m m' \<Longrightarrow> translate l m' t va = translate l m t va"
proof -
  assume a: "agree (tabs l m t) m m'"
  have "leaf_entry m' t1 va = leaf_entry m t1 va" if "walk l m t va = Some t1" for t1
    using agree_entry[OF a walk_in_tabs[OF that]] by (simp add: leaf_entry_def Let_def)
  then show ?thesis by (cases "walk l m t va") (simp_all add: translate_def walk_cong[OF a])
qed

lemma pt_wf_cong: "agree (tabs l m t) m m' \<Longrightarrow> pt_wf l m' t = pt_wf l m t"
proof (induction l arbitrary: t)
  case (Suc l)
  note e = agree_entry[OF Suc.prems tabs_root]
  have a: "agree (tabs l m (PAGE_ADDRESS m t i)) m m'" if "i < 512" "pm_present m t i" for i
    by (rule agree_mono[OF Suc.prems]) (use that in auto)
  have "tabs l m' (PAGE_ADDRESS m t i) = tabs l m (PAGE_ADDRESS m t i)"
    "pt_wf l m' (PAGE_ADDRESS m t i) = pt_wf l m (PAGE_ADDRESS m t i)" if "i < 512" "pm_present m t i" for i
    using tabs_cong[OF a[OF that]] Suc.IH[OF a[OF that]] by auto
  then show ?case using e by auto
qed simp

text \<open>The number of tables that are missing on the way to the last table for an address.\<close>

primrec missing :: "nat \<Rightarrow> mem \<Rightarrow> u64 \<Rightarrow> u64 \<Rightarrow> nat" where
  "missing 0 m t va = 0"
| "missing (Suc l) m t va =
    (let i = PAGE_PML_IDX va (Suc (Suc l))
     in if pm_present m t i then missing l m (PAGE_ADDRESS m t i) va else Suc l)"

lemma missing_le: "missing l m t va \<le> l"
proof (induction l arbitrary: t)
  case (Suc l)
  then show ?case by (simp add: Let_def le_SucI)
qed simp

lemma missing_0: "missing l m t va = 0 \<longleftrightarrow> walk l m t va \<noteq> None"
proof (induction l arbitrary: t)
  case (Suc l)
  then show ?case by (simp add: Let_def)
qed simp

lemma missing_cong: "agree (tabs l m t) m m' \<Longrightarrow> missing l m' t va = missing l m t va"
proof (induction l arbitrary: t)
  case (Suc l)
  let ?i = "PAGE_PML_IDX va (Suc (Suc l))"
  note e = agree_entry[OF Suc.prems tabs_root idx_bound]
  have "missing l m' (PAGE_ADDRESS m t ?i) va = missing l m (PAGE_ADDRESS m t ?i) va" if "pm_present m t ?i"
    by (rule Suc.IH, rule agree_mono[OF Suc.prems]) (use that idx_bound in \<open>fastforce simp del: idx_bound\<close>)
  then show ?case using e by (simp add: Let_def)
qed simp

lemma branch_missing:
  assumes "\<And>j. j < 512 \<Longrightarrow> j \<noteq> i \<Longrightarrow> pm_present m' t j = pm_present m t j \<and>
       PAGE_ADDRESS m' t j = PAGE_ADDRESS m t j \<and>
       (pm_present m t j \<longrightarrow> agree (tabs l m (PAGE_ADDRESS m t j)) m m')"
  shows "PAGE_PML_IDX va (Suc (Suc l)) \<noteq> i \<Longrightarrow> missing (Suc l) m' t va = missing (Suc l) m t va"
  using assms[OF idx_bound] by (simp add: Let_def missing_cong)

lemma translate_Suc:
  "translate (Suc l) m t va =
    (let i = PAGE_PML_IDX va (Suc (Suc l))
     in if pm_present m t i then translate l m (PAGE_ADDRESS m t i) va else None)"
  by (simp add: translate_def Let_def)

text \<open>One entry of the root changes, or only what hangs below it: the other branches stay.\<close>

lemma branch_update:
  assumes wf: "pt_wf (Suc l) m t" and i: "i < 512"
    and others: "\<And>j. j < 512 \<Longrightarrow> j \<noteq> i \<Longrightarrow> pm_present m' t j = pm_present m t j \<and>
       PAGE_ADDRESS m' t j = PAGE_ADDRESS m t j \<and>
       (pm_present m t j \<longrightarrow> agree (tabs l m (PAGE_ADDRESS m t j)) m m')"
    and mine: "pm_present m' t i" "PAGE_ADDRESS m' t i = sub" "pt_wf l m' sub" "t \<notin> tabs l m' sub"
    and sep: "\<And>j. j < 512 \<Longrightarrow> j \<noteq> i \<Longrightarrow> pm_present m t j \<Longrightarrow>
       tabs l m' sub \<inter> tabs l m (PAGE_ADDRESS m t j) = {}"
  shows "pt_wf (Suc l) m' t"
    and "tabs (Suc l) m' t = insert t (tabs l m' sub \<union>
       (\<Union>j\<in>{j. j < 512 \<and> j \<noteq> i \<and> pm_present m t j}. tabs l m (PAGE_ADDRESS m t j)))"
    and "translate (Suc l) m' t va =
       (if PAGE_PML_IDX va (Suc (Suc l)) = i then translate l m' sub va else translate (Suc l) m t va)"
proof -
  have T: "tabs l m' (PAGE_ADDRESS m' t j) = tabs l m (PAGE_ADDRESS m t j)"
    "pt_wf l m' (PAGE_ADDRESS m' t j)" if "j < 512" "j \<noteq> i" "pm_present m t j" for j
  proof -
    have e: "PAGE_ADDRESS m' t j = PAGE_ADDRESS m t j" and a: "agree (tabs l m (PAGE_ADDRESS m t j)) m m'"
      using others[OF that(1,2)] that(3) by auto
    show "tabs l m' (PAGE_ADDRESS m' t j) = tabs l m (PAGE_ADDRESS m t j)"
      using tabs_cong[OF a] by (simp add: e)
    show "pt_wf l m' (PAGE_ADDRESS m' t j)"
      using pt_wf_cong[OF a] wf that by (simp add: e)
  qed
  have p: "pm_present m' t j = pm_present m t j" if "j < 512" "j \<noteq> i" for j using others that by blast
  have A: "t \<notin> tabs l m' (PAGE_ADDRESS m' t j) \<and> pt_wf l m' (PAGE_ADDRESS m' t j)"
    if "j < 512" "pm_present m' t j" for j
    using that wf mine T[of j] p[of j] by (cases "j = i") auto
  have B: "tabs l m' (PAGE_ADDRESS m' t j) \<inter> tabs l m' (PAGE_ADDRESS m' t k) = {}"
    if "j < 512" "k < 512" and ne: "j \<noteq> k" and "pm_present m' t j" "pm_present m' t k" for j k
  proof -
    consider "j = i" "k \<noteq> i" | "k = i" "j \<noteq> i" | "j \<noteq> i" "k \<noteq> i" using ne by blast
    then show ?thesis
    proof cases
      case 1 then show ?thesis using sep[of k] T(1)[of k] p[of k] that mine by simp
    next
      case 2 then show ?thesis using sep[of j] T(1)[of j] p[of j] that mine by (simp add: Int_commute)
    next
      case 3 then show ?thesis using wf T(1)[of j] T(1)[of k] p[of j] p[of k] that by simp
    qed
  qed
  show "pt_wf (Suc l) m' t" using A B by simp
  show "tabs (Suc l) m' t = insert t (tabs l m' sub \<union>
       (\<Union>j\<in>{j. j < 512 \<and> j \<noteq> i \<and> pm_present m t j}. tabs l m (PAGE_ADDRESS m t j)))"
  proof -
    have "{j. j < 512 \<and> pm_present m' t j} = insert i {j. j < 512 \<and> j \<noteq> i \<and> pm_present m t j}"
      using p i mine by auto
    then show ?thesis using T(1) mine by simp
  qed
  show "translate (Suc l) m' t va =
       (if PAGE_PML_IDX va (Suc (Suc l)) = i then translate l m' sub va else translate (Suc l) m t va)"
  proof (cases "PAGE_PML_IDX va (Suc (Suc l)) = i")
    case True then show ?thesis using mine by (simp add: translate_Suc)
  next
    case False
    then show ?thesis
      using others[of "PAGE_PML_IDX va (Suc (Suc l))"] translate_cong[of l m _ m' va]
      by (simp add: translate_Suc Let_def)
  qed
qed

end
