(* ===== verification/LibLemmas.thy ===== *)
theory LibLemmas
  imports Lib
begin

text \<open>
  What the helper library computes: block operations byte by byte, the string functions on
  memory that holds a NUL-terminated string (\<open>cstr\<close>), and the digits \<^verbatim>\<open>int_to_str\<close>
  writes, against a reference that knows nothing of buffers (\<open>digits\<close>).
\<close>

section \<open>Reference notions\<close>

text \<open>A NUL-terminated string at an address; bytes written from an address upwards.\<close>

fun cstr :: "mem \<Rightarrow> u64 \<Rightarrow> u8 list \<Rightarrow> bool" where
  "cstr m p [] \<longleftrightarrow> m p = 0"
| "cstr m p (x # xs) \<longleftrightarrow> m p = x \<and> x \<noteq> 0 \<and> cstr m (p + 1) xs"

fun store_list :: "mem \<Rightarrow> u64 \<Rightarrow> u8 list \<Rightarrow> mem" where
  "store_list m d [] = m"
| "store_list m d (x # xs) = store_list (m(d := x)) (d + 1) xs"

lemma cstr_cong:
  "length xs < 2 ^ 64 - 1 \<Longrightarrow> (\<And>x. x \<in> addrs p (Suc (length xs)) \<Longrightarrow> m x = m' x)
   \<Longrightarrow> cstr m p xs = cstr m' p xs"
proof (induction xs arbitrary: p)
  case Nil then show ?case by (simp add: addrs_def)
next
  case (Cons y ys)
  have "cstr m (p + 1) ys = cstr m' (p + 1) ys"
    by (rule Cons.IH) (use Cons.prems addrs_tail[of _ p "Suc (length ys)"] in auto)
  moreover have "m p = m' p" using Cons.prems(2)[of p] by (simp add: addrs_def)
  ultimately show ?case by simp
qed

lemma store_list_eq:
  "length xs < 2 ^ 64 \<Longrightarrow>
   store_list m d xs x = (if x \<in> addrs d (length xs) then xs ! unat (x - d) else m x)"
proof (induction xs arbitrary: m d)
  case Nil then show ?case by simp
next
  case (Cons y ys)
  show ?case
  proof (cases "x = d")
    case True
    have "d \<notin> addrs (d + 1) (length ys)"
      by (rule addrs_notin_Suc) (use Cons.prems in simp)
    with True Cons show ?thesis by (simp add: addrs_Suc)
  next
    case False
    from unat_diff_Suc[OF False] have "unat (x - d) = Suc (unat (x - (d + 1)))" .
    with False Cons show ?thesis by (auto simp: addrs_Suc)
  qed
qed

lemma store_list_other: "length xs < 2 ^ 64 \<Longrightarrow> x \<notin> addrs d (length xs) \<Longrightarrow> store_list m d xs x = m x"
  by (simp add: store_list_eq)

lemma store_list_upd_commute:
  "length xs < 2 ^ 64 \<Longrightarrow> a \<notin> addrs d (length xs) \<Longrightarrow>
   store_list (m(a := v)) d xs = (store_list m d xs)(a := v)"
  by (rule ext) (auto simp: store_list_eq)

lemma store_list_snoc:
  "store_list m d (xs @ [y]) = (store_list m d xs)(d + of_nat (length xs) := y)"
  by (induction xs arbitrary: m d) (auto simp: algebra_simps)

lemma store_list_cstr:
  "length xs < 2 ^ 64 - 1 \<Longrightarrow> 0 \<notin> set xs \<Longrightarrow> m (p + of_nat (length xs)) = 0
   \<Longrightarrow> cstr (store_list m p xs) p xs"
proof (induction xs arbitrary: m p)
  case Nil then show ?case by simp
next
  case (Cons y ys)
  have p: "p \<notin> addrs (p + 1) (length ys)"
    by (rule addrs_notin_Suc) (use Cons.prems in simp)
  have ne: "p + 1 + of_nat (length ys) \<noteq> p"
  proof -
    have "p + of_nat (Suc (length ys)) \<noteq> p + of_nat 0"
      using Cons.prems(1) by (subst add_left_cancel) (simp add: word_unat_eq_iff unat_of_nat del: of_nat_Suc)
    then show ?thesis by (simp add: algebra_simps)
  qed
  have "cstr (store_list (m(p := y)) (p + 1) ys) (p + 1) ys"
    using Cons ne by (simp add: algebra_simps)
  with p Cons.prems show ?case by (simp add: store_list_other)
qed

section \<open>Memory blocks\<close>

lemma stosb_eq: "n < 2 ^ 64 \<Longrightarrow> stosb n m d v x = (if x \<in> addrs d n then v else m x)"
proof (induction n arbitrary: m d)
  case 0 then show ?case by simp
next
  case (Suc n)
  then show ?case by (auto simp: addrs_Suc)
qed

lemma mem_fill_eq: "mem_fill m d v len x = (if x \<in> addrs d (unat len) then v else m x)"
proof -
  have "unat len < 2 ^ 64" using unsigned_less[of len] by simp
  then show ?thesis by (simp add: mem_fill_def stosb_eq)
qed

lemma movsb_eq:
  "n < 2 ^ 64 \<Longrightarrow> addrs d n \<inter> addrs s n = {} \<Longrightarrow>
   movsb n m d s x = (if x \<in> addrs d n then m (s + (x - d)) else m x)"
proof (induction n arbitrary: m d s)
  case 0 then show ?case by simp
next
  case (Suc n)
  let ?m = "m(d := m s)"
  have "addrs (d + 1) n \<inter> addrs (s + 1) n = {}"
    using Suc.prems by (auto simp: addrs_Suc)
  with Suc have IH: "movsb n ?m (d + 1) (s + 1) x
      = (if x \<in> addrs (d + 1) n then ?m (s + 1 + (x - (d + 1))) else ?m x)" by simp
  have e: "s + 1 + (x - (d + 1)) = s + (x - d)" by simp
  show ?case
  proof (cases "x \<in> addrs (d + 1) n")
    case True
    then have 1: "x \<in> addrs d (Suc n)" using Suc.prems(1) by (simp add: addrs_tail)
    then have 2: "s + (x - d) \<in> addrs s (Suc n)" by simp
    have 3: "d \<in> addrs d (Suc n)" by (simp add: addrs_def)
    from 2 3 Suc.prems(2) have ne: "s + (x - d) \<noteq> d" by (metis disjoint_iff)
    have "movsb (Suc n) m d s x = ?m (s + (x - d))"
      using True IH unfolding e by simp
    also have "\<dots> = m (s + (x - d))" using ne by (rule fun_upd_other)
    finally show ?thesis by (simp only: 1 if_True)
  next
    case False
    with IH Suc.prems(1) show ?thesis by (auto simp: addrs_Suc)
  qed
qed

lemma match_bytes_iff: "match_bytes m a chs \<longleftrightarrow> (\<forall>i < length chs. m (a + of_nat i) = chs ! i)"
proof (induction chs arbitrary: a)
  case (Cons t chs)
  show ?case by (simp add: Cons.IH All_less_Suc2 ac_simps)
qed simp

lemma compare_loop_iff:
  "compare_loop n m p q \<longleftrightarrow> (\<forall>i<n. m (p + of_nat i) = m (q + of_nat i))"
proof (induction n arbitrary: p q)
  case 0 then show ?case by simp
next
  case (Suc n)
  have "(\<forall>i<Suc n. m (p + of_nat i) = m (q + of_nat i)) \<longleftrightarrow>
        m p = m q \<and> (\<forall>i<n. m (p + of_nat (Suc i)) = m (q + of_nat (Suc i)))"
    by (simp add: All_less_Suc2 del: of_nat_Suc)
  with Suc show ?case by (simp add: algebra_simps)
qed

section \<open>Strings\<close>

lemma str_length_loop_cstr: "cstr m p xs \<Longrightarrow> str_length_loop m p n = Some (n + of_nat (length xs))"
proof (induction xs arbitrary: p n)
  case Nil then show ?case by (simp add: str_length_loop.simps)
next
  case (Cons x xs)
  then show ?case by (subst str_length_loop.simps) (simp add: algebra_simps)
qed

lemma str_copy_loop_eq:
  "cstr m sp xs \<Longrightarrow> n < 2 ^ 64 \<Longrightarrow> length xs < 2 ^ 64 - 1 \<Longrightarrow>
   addrs dp (min n (length xs)) \<inter> addrs sp (Suc (length xs)) = {} \<Longrightarrow>
   str_copy_loop n m dp sp s = (store_list m dp (take n xs), s + of_nat (min n (length xs)))"
proof (induction xs arbitrary: n m dp sp s)
  case Nil then show ?case by (cases n) auto
next
  case (Cons x xs)
  show ?case
  proof (cases n)
    case 0 then show ?thesis by simp
  next
    case (Suc k)
    let ?m = "m(dp := x)"
    have sub: "addrs (sp + 1) (Suc (length xs)) \<subseteq> addrs sp (Suc (Suc (length xs)))"
      using Cons.prems by (auto intro: addrs_tail)
    have dp: "dp \<notin> addrs sp (Suc (Suc (length xs)))"
      using Cons.prems Suc by (auto simp: in_addrs_iff disjoint_iff)
    have "cstr ?m (sp + 1) xs \<longleftrightarrow> cstr m (sp + 1) xs"
      by (rule cstr_cong) (use Cons.prems dp sub in auto)
    then have A: "cstr ?m (sp + 1) xs" using Cons.prems(1) by simp
    have B: "addrs (dp + 1) (min k (length xs)) \<inter> addrs (sp + 1) (Suc (length xs)) = {}"
    proof -
      have "addrs (dp + 1) (min k (length xs)) \<subseteq> addrs dp (min n (length (x # xs)))"
        using Cons.prems Suc by (auto intro: addrs_tail)
      with sub Cons.prems(4) show ?thesis by fastforce
    qed
    have "str_copy_loop k ?m (dp + 1) (sp + 1) (s + 1)
        = (store_list ?m (dp + 1) (take k xs), s + 1 + of_nat (min k (length xs)))"
      by (rule Cons.IH[OF A _ _ B]) (use Cons.prems Suc in simp_all)
    then show ?thesis using Suc Cons.prems(1) by (simp add: algebra_simps)
  qed
qed

lemma str_copy_cstr:
  assumes "cstr m src xs" "length xs < 2 ^ 64 - 1"
    and "addrs dest (min (unat len) (length xs)) \<inter> addrs src (Suc (length xs)) = {}"
  shows "str_copy m dest len src
       = (store_list m dest (take (unat len) xs), of_nat (min (unat len) (length xs)))"
proof -
  have "unat len < 2 ^ 64" using unsigned_less[of len] by simp
  with str_copy_loop_eq[OF assms(1) _ assms(2,3)] show ?thesis by (simp add: str_copy_def)
qed

section \<open>Digits\<close>

function digits :: "nat \<Rightarrow> nat \<Rightarrow> nat list" where
  "digits b n = (if b < 2 \<or> n < b then [n] else digits b (n div b) @ [n mod b])"
  by pat_completeness auto
termination by (relation "measure (\<lambda>(b, n). n)") auto

declare digits.simps [simp del]

definition digits_val :: "nat \<Rightarrow> nat list \<Rightarrow> nat" where
  "digits_val b ds = foldl (\<lambda>a d. a * b + d) 0 ds"

definition digit_char :: "nat \<Rightarrow> u8" where
  "digit_char d = (if d > 9 then 55 + of_nat d else 48 + of_nat d)"

lemma digits_small: "n < b \<Longrightarrow> digits b n = [n]"
  by (simp add: digits.simps)

lemma digits_step: "2 \<le> b \<Longrightarrow> b \<le> n \<Longrightarrow> digits b n = digits b (n div b) @ [n mod b]"
  by (subst digits.simps) simp

lemma digits_ne: "digits b n \<noteq> []"
  by (subst digits.simps) simp

lemma digits_lt: "2 \<le> b \<Longrightarrow> d \<in> set (digits b n) \<Longrightarrow> d < b"
proof (induction b n rule: digits.induct)
  case (1 b n)
  then show ?case by (cases "n < b") (auto simp: digits_small digits_step)
qed

lemma digits_val_digits: "2 \<le> b \<Longrightarrow> digits_val b (digits b n) = n"
proof (induction b n rule: digits.induct)
  case (1 b n)
  then show ?case
    by (cases "n < b") (auto simp: digits_small digits_step digits_val_def)
qed

lemma length_digits: "2 \<le> b \<Longrightarrow> 0 < k \<Longrightarrow> length (digits b n) \<le> k \<longleftrightarrow> n < b ^ k"
proof (induction b n arbitrary: k rule: digits.induct)
  case (1 b n)
  show ?case
  proof (cases "n < b")
    case True
    have "b ^ 1 \<le> b ^ k" using 1 by (intro power_increasing) auto
    with True 1 show ?thesis by (simp add: digits_small)
  next
    case False
    show ?thesis
    proof (cases "k = 1")
      case True
      with False 1 digits_ne[of b "n div b"] show ?thesis by (simp add: digits_step)
    next
      case k: False
      then obtain j where j: "k = Suc j" "0 < j" using 1 by (cases k) auto
      have "length (digits b (n div b)) \<le> j \<longleftrightarrow> n div b < b ^ j"
        using 1 False j by simp
      also have "\<dots> \<longleftrightarrow> n < b ^ k"
        using 1 j by (simp add: div_less_iff_less_mult mult.commute)
      finally show ?thesis using False 1 j by (simp add: digits_step)
    qed
  qed
qed

section \<open>The digit loops and \<^verbatim>\<open>int_to_str\<close>\<close>

text \<open>Both loops write the digits of the absolute value; \<open>\<sigma>\<close> is the sign of the value.\<close>

lemma digit_loop_eq:
  assumes b: "2 \<le> b"
    and dig: "\<And>d. d < b \<Longrightarrow> dig (word_of_int (\<sigma> * int d)) = digit_char d"
    and \<sigma>: "\<sigma> = 1 \<or> \<sigma> = - 1"
  shows "p \<le> 32 \<Longrightarrow>
    digit_loop dig p m tmp (\<sigma> * int n) (int b) =
     (let ds = digits b n in
      if length ds \<le> p
      then Inr (store_list m (tmp + of_nat (p - length ds)) (map digit_char ds), p - length ds)
      else Inl OutOfBounds)"
proof (induction p arbitrary: m n)
  case 0
  then show ?case using b digits_ne[of b n] by simp
next
  case (Suc p)
  have rem: "(\<sigma> * int n) smod int b = \<sigma> * int (n mod b)"
    and quo: "(\<sigma> * int n) sdiv int b = \<sigma> * int (n div b)"
    using \<sigma> b by (auto simp: signed_modulo_int_def signed_divide_int_def zmod_int zdiv_int abs_mult sgn_mult
                       minus_div_mult_eq_mod [symmetric] algebra_simps sgn_if)
  have c: "dig (word_of_int ((\<sigma> * int n) smod int b)) = digit_char (n mod b)"
    unfolding rem by (rule dig) (use b in simp)
  let ?m = "m(tmp + of_nat p := digit_char (n mod b))"
  show ?case
  proof (cases "n < b")
    case True
    with b \<sigma> c Suc.prems show ?thesis
      by (simp add: quo digits_small Let_def)
  next
    case False
    let ?ds = "digits b (n div b)"
    from False b have ds: "digits b n = ?ds @ [n mod b]" by (simp add: digits_step)
    have "n div b \<noteq> 0" using False b by (simp add: div_eq_0_iff)
    then have "digit_loop dig (Suc p) m tmp (\<sigma> * int n) (int b)
        = digit_loop dig p ?m tmp (\<sigma> * int (n div b)) (int b)"
      using b \<sigma> by (auto simp: c quo Let_def)
    also have "\<dots> = (if length ?ds \<le> p
        then Inr (store_list ?m (tmp + of_nat (p - length ?ds)) (map digit_char ?ds), p - length ?ds)
        else Inl OutOfBounds)"
      using Suc by (simp add: Let_def)
    also have "\<dots> = (if length (digits b n) \<le> Suc p
        then Inr (store_list m (tmp + of_nat (Suc p - length (digits b n)))
               (map digit_char (digits b n)), Suc p - length (digits b n))
        else Inl OutOfBounds)"
    proof (cases "length ?ds \<le> p")
      case True
      let ?a = "tmp + of_nat (p - length ?ds)"
      have e: "?a + of_nat (length ?ds) = tmp + of_nat p"
        using True by (simp add: of_nat_diff)
      have "tmp + of_nat p \<notin> addrs ?a (length ?ds)"
        unfolding e [symmetric] using Suc.prems True by (simp add: in_addrs_iff unat_of_nat)
      then have "store_list ?m ?a (map digit_char ?ds)
          = (store_list m ?a (map digit_char ?ds))(tmp + of_nat p := digit_char (n mod b))"
        using Suc.prems True by (intro store_list_upd_commute) auto
      with e True show ?thesis by (simp add: ds store_list_snoc)
    qed (simp add: ds)
    finally show ?thesis by (simp add: Let_def)
  qed
qed

lemma pos_digit_char: "d < 16 \<Longrightarrow> pos_digit (word_of_int (int d)) = digit_char d"
proof -
  assume d: "d < 16"
  have "\<forall>d<16. pos_digit (word_of_int (int d)) = digit_char d"
    by (simp add: All_less_Suc2 numeral_eq_Suc pos_digit_def digit_char_def)
  with d show ?thesis by blast
qed

lemma neg_digit_char: "d < 16 \<Longrightarrow> neg_digit (word_of_int (- int d)) = digit_char d"
proof -
  assume d: "d < 16"
  have "\<forall>d<16. neg_digit (word_of_int (- int d)) = digit_char d"
    by (simp add: All_less_Suc2 numeral_eq_Suc neg_digit_def digit_char_def)
  with d show ?thesis by blast
qed

text \<open>The text of a number: its digits, with a minus sign in base 10 only.\<close>

definition num_text :: "nat \<Rightarrow> u64 \<Rightarrow> u8 list" where
  "num_text b v = (if sint v < 0 \<and> b = 10 then [45] else []) @
     map digit_char (digits b (nat \<bar>sint v\<bar>))"

lemma num_text_nonzero: "2 \<le> b \<Longrightarrow> b \<le> 16 \<Longrightarrow> 0 \<notin> set (num_text b v)"
proof -
  assume b: "2 \<le> b" "b \<le> 16"
  have "digit_char d \<noteq> 0" if "d < 16" for d
  proof -
    have "unat (digit_char d) = (if d > 9 then 55 + d else 48 + d)"
      using that by (simp add: digit_char_def unat_word_ariths unat_of_nat)
    then show ?thesis by (auto simp: unat_eq_0 [symmetric])
  qed
  moreover have "d < 16" if "d \<in> set (digits b n)" for d n
    using digits_lt[OF b(1) that] b(2) by simp
  ultimately show ?thesis by (force simp: num_text_def)
qed

lemma store_list_Cons_upd:
  "length xs < 2 ^ 64 - 1 \<Longrightarrow> (store_list m (d + 1) xs)(d := x) = store_list m d (x # xs)"
  by (simp add: store_list_upd_commute addrs_notin_Suc)

lemma digit_loop_pos:
  assumes "2 \<le> b" "b \<le> 16" "0 \<le> sint v"
  shows "digit_loop pos_digit 32 m tmp (sint v) (int b) =
    (let ds = digits b (nat \<bar>sint v\<bar>) in if length ds \<le> 32
     then Inr (store_list m (tmp + of_nat (32 - length ds)) (map digit_char ds), 32 - length ds)
     else Inl OutOfBounds)"
proof -
  have dig: "pos_digit (word_of_int (1 * int d)) = digit_char d" if "d < b" for d
    using that assms by (simp add: pos_digit_char del: of_int_of_nat_eq)
  from digit_loop_eq[OF assms(1) dig, of 32 m tmp "nat (sint v)"] assms(3) show ?thesis by simp
qed

lemma digit_loop_neg:
  assumes "2 \<le> b" "b \<le> 16" "sint v < 0"
  shows "digit_loop neg_digit 32 m tmp (sint v) (int b) =
    (let ds = digits b (nat \<bar>sint v\<bar>) in if length ds \<le> 32
     then Inr (store_list m (tmp + of_nat (32 - length ds)) (map digit_char ds), 32 - length ds)
     else Inl OutOfBounds)"
proof -
  have "- 1 * int (nat (- sint v)) = sint v" using assms(3) by simp
  moreover have dig: "neg_digit (word_of_int (- 1 * int d)) = digit_char d" if "d < b" for d
    using neg_digit_char[of d] that assms by simp
  ultimately show ?thesis
    using digit_loop_eq[OF assms(1) dig, of 32 m tmp "nat (- sint v)"] assms(3)
    by (simp add: abs_if)
qed

lemma int_to_str_eq:
  fixes m :: mem and tmp :: u64
  assumes b: "2 \<le> b" "b \<le> 16"
  defines "m1 \<equiv> mem_fill m tmp 0 33"
  shows "int_to_str m tmp dest len v (int b) =
    (if length (num_text b v) \<le> 32
     then Inr (str_copy (store_list m1 (tmp + of_nat (32 - length (num_text b v))) (num_text b v))
                 dest len (tmp + of_nat (32 - length (num_text b v))))
     else Inl OutOfBounds)"
proof (cases "0 \<le> sint v")
  case True
  with b show ?thesis
    by (simp add: int_to_str_def MAX_INT_STR_def digit_loop_pos Let_def num_text_def m1_def)
next
  case False
  let ?ds = "digits b (nat \<bar>sint v\<bar>)"
  have loop: "digit_loop neg_digit 32 m1 tmp (sint v) (int b) =
     (if length ?ds \<le> 32
      then Inr (store_list m1 (tmp + of_nat (32 - length ?ds)) (map digit_char ?ds), 32 - length ?ds)
      else Inl OutOfBounds)"
    using False b by (simp add: digit_loop_neg Let_def)
  have sign: "(store_list m1 (tmp + of_nat (32 - length ?ds)) (map digit_char ?ds))
        (tmp + of_nat (32 - length ?ds - 1) := 45)
      = store_list m1 (tmp + of_nat (31 - length ?ds)) (45 # map digit_char ?ds)"
    if "length ?ds \<le> 31"
  proof -
    define k where "k = 31 - length ?ds"
    with that have e: "32 - length ?ds = Suc k" "32 - length ?ds - 1 = k" "31 - length ?ds = k"
      by linarith+
    have s: "tmp + of_nat (Suc k) = tmp + of_nat k + 1" by simp
    show ?thesis unfolding e s diff_Suc_1 by (rule store_list_Cons_upd) (use that in simp)
  qed
  show ?thesis
  proof (cases "b = 10")
    case True
    with False loop sign show ?thesis
      by (auto simp: int_to_str_def MAX_INT_STR_def Let_def num_text_def m1_def [symmetric] not_le)
  next
    case nb: False
    then have "int b \<noteq> 10" by simp
    with nb False loop show ?thesis
      by (simp add: int_to_str_def MAX_INT_STR_def Let_def num_text_def m1_def [symmetric])
  qed
qed

lemma int_to_str_text:
  assumes b: "2 \<le> b" "b \<le> 16" and len: "length (num_text b v) \<le> 32"
    and dj: "addrs dest (min (unat len) (length (num_text b v))) \<inter> addrs tmp 33 = {}"
  obtains m2 where
    "int_to_str m tmp dest len v (int b)
       = Inr (store_list m2 dest (take (unat len) (num_text b v)),
              of_nat (min (unat len) (length (num_text b v))))"
    and "\<And>x. x \<notin> addrs tmp 33 \<Longrightarrow> m2 x = m x"
proof -
  let ?xs = "num_text b v" and ?m1 = "mem_fill m tmp 0 33"
  let ?q = "32 - length ?xs"
  let ?p = "tmp + of_nat ?q"
  let ?m2 = "store_list ?m1 ?p ?xs"
  have top: "?p + of_nat (length ?xs) = tmp + 32" using len by (simp add: of_nat_diff)
  have "cstr ?m2 ?p ?xs"
  proof (rule store_list_cstr)
    have "tmp + 32 \<in> addrs tmp 33" by (simp add: in_addrs_iff)
    then show "?m1 (?p + of_nat (length ?xs)) = 0" unfolding top by (simp add: mem_fill_eq)
  qed (use b len num_text_nonzero in auto)
  have sub: "addrs ?p (Suc (length ?xs)) \<subseteq> addrs tmp 33"
  proof
    fix x assume "x \<in> addrs ?p (Suc (length ?xs))"
    then have "unat (x - ?p) \<le> length ?xs" by (simp add: in_addrs_iff)
    moreover have "unat (x - tmp) \<le> unat (x - ?p) + unat (of_nat ?q :: u64)"
      using unat_plus_le[of "x - ?p" "of_nat ?q"] by simp
    moreover have "unat (of_nat ?q :: u64) = ?q" by (rule unat_of_nat_small) simp
    ultimately have "unat (x - tmp) \<le> length ?xs + ?q" by linarith
    then show "x \<in> addrs tmp 33" using len by (simp add: in_addrs_iff)
  qed
  have "str_copy ?m2 dest len ?p
      = (store_list ?m2 dest (take (unat len) ?xs), of_nat (min (unat len) (length ?xs)))"
    by (rule str_copy_cstr) (use \<open>cstr ?m2 ?p ?xs\<close> len dj sub in auto)
  moreover have "?m2 x = m x" if "x \<notin> addrs tmp 33" for x
  proof -
    have "x \<notin> addrs ?p (length ?xs)"
      using that sub addrs_mono[of "length ?xs" "Suc (length ?xs)" ?p] by auto
    then show ?thesis using that len by (simp add: store_list_other mem_fill_eq)
  qed
  ultimately show ?thesis using that int_to_str_eq[OF b, of m tmp dest len v] len by simp
qed

section \<open>Parsing\<close>

lemma decimal_loop_digits:
  "\<forall>d\<in>set ds. d < 10 \<Longrightarrow> cstr m p (map digit_char ds) \<Longrightarrow>
   decimal_loop m p val = Some (of_nat (foldl (\<lambda>a d. a * 10 + d) n ds))"
  if "val = of_nat n" for n
  using that
proof (induction ds arbitrary: p val n)
  case Nil
  then show ?case by (simp add: decimal_loop.simps)
next
  case (Cons d ds)
  then have d: "d < 10" by simp
  then have c: "digit_char d = of_nat (48 + d)" by (simp add: digit_char_def)
  have u: "unat (digit_char d) = 48 + d" using d unfolding c by (intro unat_of_nat_small) simp
  have "\<forall>d<10. sint (digit_char d) = 48 + int d"
    by (simp add: All_less_Suc2 numeral_eq_Suc digit_char_def)
  with d have s: "sint (digit_char d) = 48 + int d" by blast
  have w: "(ucast (digit_char d) :: u64) - 48 = of_nat d"
  proof -
    have "(ucast (digit_char d) :: u64) = of_nat (48 + d)" 
      using u d by (simp add: word_unat_eq_iff unsigned_ucast_eq take_bit_nat_eq_self unat_word_ariths unat_of_nat)
    then show ?thesis by simp
  qed
  from Cons have "decimal_loop m (p + 1) (val * 10 + of_nat d)
      = Some (of_nat (foldl (\<lambda>a d. a * 10 + d) (n * 10 + d) ds))"
    by (intro Cons.IH) auto
  with Cons.prems s w d show ?case by (subst decimal_loop.simps) simp
qed

lemma str_to_int_digits:
  assumes "cstr m p (map digit_char ds)" "\<forall>d\<in>set ds. d < 10" "ds \<noteq> []"
  shows "str_to_int m p base = Some (of_nat (digits_val 10 ds))"
proof -
  obtain d ds' where ds: "ds = d # ds'" using assms(3) by (cases ds) auto
  with assms have d: "d < 10" and mp: "m p = digit_char d" by auto
  have "unat (digit_char d) = 48 + d"
    using d by (simp add: digit_char_def unat_word_ariths unat_of_nat)
  then have "digit_char d \<noteq> 32 \<and> digit_char d \<noteq> 9 \<and> digit_char d \<noteq> 45" by auto
  with mp have "skip_blanks m p = Some p" and "m p \<noteq> 45"
    by (auto simp: skip_blanks.simps)
  moreover have "decimal_loop m p 0 = Some (of_nat (digits_val 10 ds))"
    unfolding digits_val_def by (rule decimal_loop_digits) (use assms in auto)
  ultimately show ?thesis by (simp add: str_to_int_def)
qed

lemma skip_blanks_step: "m b \<noteq> 32 \<Longrightarrow> m b \<noteq> 9 \<Longrightarrow> skip_blanks m b = Some b"
  by (simp add: skip_blanks.simps)

lemma length_num_text_10: "length (num_text 10 v) \<le> 20"
proof -
  have "\<bar>sint v\<bar> \<le> 2 ^ 63"
    using sint_range_size[of v] by (auto simp: word_size abs_if)
  then have "nat \<bar>sint v\<bar> < 10 ^ 19" by (simp add: nat_less_iff)
  then have "length (digits 10 (nat \<bar>sint v\<bar>)) \<le> 19" by (simp add: length_digits)
  then show ?thesis by (cases "sint v < 0") (simp_all add: num_text_def)
qed

section \<open>Properties\<close>

text \<open>\<^verbatim>\<open>mem_copy\<close> copies: when destination and source do not overlap, every byte of
  the destination range becomes the source byte at the same offset and every other byte of
  memory is unchanged, for every length including 0.\<close>

theorem mem_copy_correct:
  assumes "addrs dest (unat len) \<inter> addrs src (unat len) = {}"
  shows "mem_copy m dest src len x =
    (if x \<in> addrs dest (unat len) then m (src + (x - dest)) else m x)"
proof -
  have "unat len < 2 ^ 64" using unsigned_less[of len] by simp
  then show ?thesis unfolding mem_copy_def using assms by (rule movsb_eq)
qed

theorem mem_copy_correct_witness:
  "addrs 16 (unat (4 :: u64)) \<inter> addrs 32 (unat (4 :: u64)) = {} \<and>
   mem_copy (\<lambda>x. ucast x) 16 32 4 18 = 34"
proof -
  have dj: "addrs 16 (unat (4 :: u64)) \<inter> addrs 32 (unat (4 :: u64)) = {}"
    by (rule addrs_disjointI) simp_all
  have "18 \<in> addrs 16 (unat (4 :: u64))" by (simp add: in_addrs_iff)
  with mem_copy_correct[OF dj, of "\<lambda>x. ucast x" 18] dj show ?thesis by simp
qed

text \<open>\<^verbatim>\<open>mem_compare\<close> returns true exactly when the two blocks agree in each of
  their \<^verbatim>\<open>len\<close> bytes.\<close>

theorem mem_compare_iff:
  "mem_compare m buff1 buff2 len \<longleftrightarrow>
   (\<forall>i<unat len. m (buff1 + of_nat i) = m (buff2 + of_nat i))"
  unfolding mem_compare_def by (rule compare_loop_iff)

theorem mem_compare_iff_witness:
  "mem_compare (\<lambda>x. if x = 9 then 7 else 1) 0 4 2 \<and> \<not> mem_compare (\<lambda>x. if x = 9 then 7 else 1) 4 8 2"
  by (simp add: mem_compare_iff All_less_two)

text \<open>On memory that holds a NUL-terminated string at \<^verbatim>\<open>src\<close>, \<^verbatim>\<open>str_length\<close>
  returns its length, and \<^verbatim>\<open>str_copy\<close> into a non-overlapping buffer of \<^verbatim>\<open>len\<close> bytes
  writes exactly the first \<open>min len (length xs)\<close> characters, returns that number, and writes
  nothing else (in particular no terminating NUL).\<close>

theorem str_length_copy:
  assumes "cstr m src xs" "length xs < 2 ^ 64 - 1"
    and "addrs dest (min (unat len) (length xs)) \<inter> addrs src (Suc (length xs)) = {}"
  shows "str_length m src = Some (of_nat (length xs)) \<and>
    (\<exists>m'. str_copy m dest len src = (m', of_nat (min (unat len) (length xs))) \<and>
      (\<forall>x. m' x = (if x \<in> addrs dest (min (unat len) (length xs)) then xs ! unat (x - dest) else m x)))"
proof
  show "str_length m src = Some (of_nat (length xs))"
    using str_length_loop_cstr[OF assms(1)] by (simp add: str_length_def)
  have "store_list m dest (take (unat len) xs) x
      = (if x \<in> addrs dest (min (unat len) (length xs)) then xs ! unat (x - dest) else m x)" for x
    using assms(2) by (subst store_list_eq) (auto simp: in_addrs_iff min.commute)
  with str_copy_cstr[OF assms]
  show "\<exists>m'. str_copy m dest len src = (m', of_nat (min (unat len) (length xs))) \<and>
      (\<forall>x. m' x = (if x \<in> addrs dest (min (unat len) (length xs)) then xs ! unat (x - dest) else m x))"
    by simp
qed

theorem str_length_copy_witness:
  "\<exists>m' n. str_length (store_list (\<lambda>_. 0) 100 [72, 105]) 100 = Some 2 \<and>
     str_copy (store_list (\<lambda>_. 0) 100 [72, 105]) 200 1 100 = (m', n) \<and> m' 200 = 72 \<and> m' 201 = 0"
proof -
  let ?m = "store_list (\<lambda>_. 0) 100 [72, 105]"
  have c: "cstr ?m 100 [72, 105]" by simp
  have dj: "addrs 200 (min (unat (1 :: u64)) (length [72 :: u8, 105]))
      \<inter> addrs 100 (Suc (length [72 :: u8, 105])) = {}"
    by (rule addrs_disjointI) simp_all
  from str_length_copy[OF c _ dj] show ?thesis
    by (auto simp: in_addrs_iff)
qed

text \<open>C37. A non-negative \<^verbatim>\<open>int64\<close> survives formatting and parsing: \<^verbatim>\<open>int_to_str\<close>
  in base 10 into a zeroed buffer writes a NUL-terminated text of its decimal digits, and
  \<^verbatim>\<open>str_to_int\<close> reads the same value back.\<close>

theorem decimal_roundtrip:
  assumes pos: "0 \<le> sint v"
    and dj: "addrs dest 32 \<inter> addrs tmp 33 = {}"
    and zero: "\<forall>x\<in>addrs dest 32. m x = 0"
  shows "\<exists>m'. int_to_str m tmp dest 32 v 10 = Inr (m', of_nat (length (num_text 10 v))) \<and>
    cstr m' dest (num_text 10 v) \<and> str_to_int m' dest 10 = Some v"
proof -
  let ?xs = "num_text 10 v" and ?ds = "digits 10 (nat (sint v))"
  have xs: "?xs = map digit_char ?ds" using pos by (simp add: num_text_def)
  have len: "length ?xs \<le> 20" by (rule length_num_text_10)
  have "addrs dest (min (unat (32 :: u64)) (length ?xs)) \<inter> addrs tmp 33 = {}"
    using dj addrs_mono[of "min (unat (32 :: u64)) (length ?xs)" 32 dest] by auto
  with len obtain m2 where
    r: "int_to_str m tmp dest 32 v (int 10)
        = Inr (store_list m2 dest (take (unat (32 :: u64)) ?xs), of_nat (min (unat (32 :: u64)) (length ?xs)))"
    and fr: "\<And>x. x \<notin> addrs tmp 33 \<Longrightarrow> m2 x = m x"
    using int_to_str_text[of 10 v dest 32 tmp m] by auto
  let ?m' = "store_list m2 dest ?xs"
  have "dest + of_nat (length ?xs) \<in> addrs dest 32" using len by simp
  then have "m2 (dest + of_nat (length ?xs)) = 0" using dj zero fr by (metis disjoint_iff)
  then have c: "cstr ?m' dest ?xs"
    using len num_text_nonzero[of 10 v] by (intro store_list_cstr) auto
  have "str_to_int ?m' dest 10 = Some (of_nat (digits_val 10 ?ds))"
    by (rule str_to_int_digits) (use c xs digits_lt[of 10 _ "nat (sint v)"] digits_ne in auto)
  also have "of_nat (digits_val 10 ?ds) = v"
    using pos by (simp add: digits_val_digits)
  finally show ?thesis using r c len by (intro exI[of _ ?m']) simp
qed

theorem decimal_roundtrip_witness:
  "\<exists>m'. int_to_str (\<lambda>_. 0) 1000 2000 32 1907 10 = Inr (m', of_nat (length (num_text 10 1907))) \<and>
     str_to_int m' 2000 10 = Some 1907"
proof -
  have dj: "addrs 2000 32 \<inter> addrs (1000 :: u64) 33 = {}"
    by (rule addrs_disjointI) simp_all
  from decimal_roundtrip[of 1907 2000 1000 "\<lambda>_. 0", OF _ dj] show ?thesis by auto
qed

text \<open>\<^verbatim>\<open>str_to_int\<close> never returns a negative number: a text whose first
  character after the blanks is a minus sign is read as 0, whatever follows, because the
  sign is recorded and not skipped.\<close>

theorem str_to_int_minus_zero:
  assumes "skip_blanks m str = Some b" "m b = 45"
  shows "str_to_int m str base = Some 0"
  using assms by (simp add: str_to_int_def decimal_loop.simps)

theorem str_to_int_minus_zero_witness:
  "str_to_int (store_list (\<lambda>_. 0) 8 [32, 45, 52, 50]) 8 10 = Some 0"
proof -
  let ?m = "store_list (\<lambda>_. 0) 8 [32, 45, 52, 50]"
  have "skip_blanks ?m 8 = Some 9" by (simp add: skip_blanks.simps[of _ 8] skip_blanks_step)
  then show ?thesis by (rule str_to_int_minus_zero) simp
qed

text \<open>C38. In base 2 the digit buffer of 32 characters holds exactly the magnitudes below
  \<open>2 ^ 32\<close>: \<^verbatim>\<open>int_to_str\<close> stays inside \<^verbatim>\<open>tmp\<close> for those and writes below it for
  every other 64-bit value (reachable through the specifier \<^verbatim>\<open>%b\<close>), while base 10 and
  base 16 never leave the buffer.\<close>

theorem int_to_str_buffer:
  "(int_to_str m tmp dest len v 2 = Inl OutOfBounds \<longleftrightarrow> 2 ^ 32 \<le> \<bar>sint v\<bar>) \<and>
   int_to_str m tmp dest len v 10 \<noteq> Inl OutOfBounds \<and>
   int_to_str m tmp dest len v 16 \<noteq> Inl OutOfBounds"
proof (intro conjI)
  have "length (num_text 2 v) \<le> 32 \<longleftrightarrow> nat \<bar>sint v\<bar> < 2 ^ 32"
    by (simp add: num_text_def length_digits del: numeral_plus_one)
  also have "\<dots> \<longleftrightarrow> \<bar>sint v\<bar> < 2 ^ 32" by (simp add: nat_less_iff)
  finally show "int_to_str m tmp dest len v 2 = Inl OutOfBounds \<longleftrightarrow> 2 ^ 32 \<le> \<bar>sint v\<bar>"
    using int_to_str_eq[of 2 m tmp dest len v] by (auto simp: not_le not_less)
  show "int_to_str m tmp dest len v 10 \<noteq> Inl OutOfBounds"
    using int_to_str_eq[of 10 m tmp dest len v] length_num_text_10[of v] by simp
  have "\<bar>sint v\<bar> \<le> 2 ^ 63" using sint_range_size[of v] by (auto simp: word_size abs_if)
  then have "nat \<bar>sint v\<bar> < 16 ^ 16" by (simp add: nat_less_iff)
  then have "length (num_text 16 v) \<le> 16" by (simp add: num_text_def length_digits)
  then show "int_to_str m tmp dest len v 16 \<noteq> Inl OutOfBounds"
    using int_to_str_eq[of 16 m tmp dest len v] by simp
qed

end
