(* ===== verification/PageMapping.thy ===== *)
theory PageMapping
  imports PageTables LibLemmas
begin

text \<open>
  What \<^verbatim>\<open>page_id_map\<close> does to the translation, proved against the interface of the
  allocator of page tables: an unmapped page becomes mapped to the given frame and every
  other translation stays; a mapped page is left alone.
\<close>

section \<open>Zeroed tables\<close>

lemma mem_fill_table:
  "x \<in> addrs ct 4096 \<Longrightarrow> mem_fill m ct 0 4096 x = 0"
  "x \<notin> addrs ct 4096 \<Longrightarrow> mem_fill m ct 0 4096 x = m x"
  by (simp_all add: mem_fill_eq)

lemma zero_entry_load:
  assumes "\<And>x. x \<in> addrs ct 4096 \<Longrightarrow> m x = 0" "i < 512"
  shows "\<not> pm_present m ct i"
proof -
  have "load64 m (entry_addr ct i) = load64 (\<lambda>_. 0) (entry_addr ct i)"
    by (rule load64_cong) (use assms entry_in_page[of i ct] in auto)
  then show ?thesis by (simp add: pm_present_def)
qed

lemma zero_table:
  assumes "\<And>x. x \<in> addrs ct 4096 \<Longrightarrow> m x = 0"
  shows "tabs l m ct = {ct}" "pt_wf l m ct" "translate l m ct va = None"
proof -
  have np: "\<not> pm_present m ct i" if "i < 512" for i by (rule zero_entry_load[OF assms that])
  have e: "{i. i < 512 \<and> pm_present m ct i} = {}" using np by blast
  show "tabs l m ct = {ct}" by (cases l) (simp_all add: e)
  show "pt_wf l m ct" using np by (cases l) simp_all
  show "translate l m ct va = None"
    using np[OF idx_bound] by (cases l) (simp_all add: translate_def leaf_entry_def Let_def)
qed

section \<open>Indices and pages\<close>

text \<open>The virtual page number, as the processor uses it: bits 12 to 47 of the address.\<close>

definition vpage :: "u64 \<Rightarrow> u64" where
  "vpage va = take_bit 36 (drop_bit 12 va)"

lemma bit_vpage: "bit (vpage va) n \<longleftrightarrow> n < 36 \<and> bit va (12 + n)"
  by (auto simp: vpage_def bit_simps)

lemma bit_idx: "bit (PAGE_PML_IDX va j) n \<longleftrightarrow> n < 9 \<and> bit va (12 + (j - 1) * 9 + n)"
proof -
  have "PAGE_PML_IDX va j = take_bit 9 (drop_bit (12 + (j - 1) * 9) va)"
    by (simp add: PAGE_PML_IDX_def take_bit_eq_mask mask_eq_exp_minus_1)
  then show ?thesis by (auto simp: bit_simps)
qed

definition same_idx :: "nat \<Rightarrow> u64 \<Rightarrow> u64 \<Rightarrow> bool" where
  "same_idx n va va' \<longleftrightarrow> (\<forall>j. 1 \<le> j \<and> j \<le> n \<longrightarrow> PAGE_PML_IDX va' j = PAGE_PML_IDX va j)"

lemma same_idx_1 [simp]: "same_idx (Suc 0) va va' \<longleftrightarrow> PAGE_PML_IDX va' 1 = PAGE_PML_IDX va 1"
  unfolding same_idx_def by (metis One_nat_def le_antisym le_refl)

lemma same_idx_Suc:
  "same_idx (Suc (Suc n)) va va' \<longleftrightarrow>
     PAGE_PML_IDX va' (Suc (Suc n)) = PAGE_PML_IDX va (Suc (Suc n)) \<and> same_idx (Suc n) va va'"
  unfolding same_idx_def by (metis le_Suc_eq le_add1 plus_1_eq_Suc)

lemma same_idx_vpage: "same_idx 4 va va' \<longleftrightarrow> vpage va' = vpage va"
  unfolding same_idx_def
proof
  assume eq: "\<forall>j. 1 \<le> j \<and> j \<le> 4 \<longrightarrow> PAGE_PML_IDX va' j = PAGE_PML_IDX va j"
  show "vpage va' = vpage va"
  proof (rule bit_eqI)
    fix n
    have "bit va' (12 + n) = bit va (12 + n)" if "n < 36"
    proof -
      have "PAGE_PML_IDX va' (n div 9 + 1) = PAGE_PML_IDX va (n div 9 + 1)"
        using eq that by auto
      from arg_cong[OF this, of "\<lambda>w. bit w (n mod 9)"] show ?thesis
        by (simp add: bit_idx) (metis add.commute add.left_commute div_mult_mod_eq)
    qed
    then show "bit (vpage va') n = bit (vpage va) n" by (auto simp: bit_vpage)
  qed
next
  assume eq: "vpage va' = vpage va"
  show "\<forall>j. 1 \<le> j \<and> j \<le> 4 \<longrightarrow> PAGE_PML_IDX va' j = PAGE_PML_IDX va j"
  proof (intro allI impI bit_eqI)
    fix j n :: nat assume j: "1 \<le> j \<and> j \<le> 4"
    have "bit va' (12 + ((j - 1) * 9 + n)) = bit va (12 + ((j - 1) * 9 + n))" if "n < 9"
    proof -
      have "(j - 1) * 9 + n < 36" using j that by linarith
      then show ?thesis using arg_cong[OF eq, of "\<lambda>w. bit w ((j - 1) * 9 + n)"] by (simp add: bit_vpage)
    qed
    then show "bit (PAGE_PML_IDX va' j) n = bit (PAGE_PML_IDX va j) n"
      by (auto simp: bit_idx add.assoc)
  qed
qed

lemma vpage_canonical [simp]: "vpage (PAGE_CANONICAL (PAGE_ALIGN va)) = vpage va"
proof -
  have m: "(0xFFF :: u64) = mask 12" by (simp add: mask_eq_exp_minus_1)
  show ?thesis
    by (rule bit_eqI) (auto simp: bit_vpage PAGE_CANONICAL_def PAGE_ALIGN_def m bit_simps)
qed

lemma idx_canonical [simp]:
  "1 \<le> j \<Longrightarrow> j \<le> 4 \<Longrightarrow> PAGE_PML_IDX (PAGE_CANONICAL (PAGE_ALIGN va)) j = PAGE_PML_IDX va j"
  using same_idx_vpage[of va "PAGE_CANONICAL (PAGE_ALIGN va)"] unfolding same_idx_def by simp

lemma align_frame: "PAGE_ALIGN p AND PAGE_FRAME_MASK = p AND PAGE_FRAME_MASK"
proof -
  have "PAGE_ALIGN p = p AND NOT (mask 12)" by (simp add: PAGE_ALIGN_def mask_eq_exp_minus_1)
  then show ?thesis by (simp add: frame_mask_eq ac_simps)
qed

section \<open>Setting the last entry\<close>

lemma set_leaf:
  "pt_wf l m t \<Longrightarrow> \<forall>a\<in>tabs l m t. frame_ok a \<Longrightarrow> walk l m t va = Some t1 \<Longrightarrow>
   m' = set_entry m t1 (PAGE_PML_IDX va 1) p \<Longrightarrow>
   pt_wf l m' t \<and> tabs l m' t = tabs l m t \<and> (\<forall>va'. missing l m' t va' = missing l m t va') \<and>
   (\<forall>va'. translate l m' t va' =
     (if same_idx (Suc l) va va'
      then Some (p AND PAGE_FRAME_MASK) else translate l m t va'))"
proof (induction l arbitrary: t)
  case 0
  show ?case
    using 0 set_entry_apart[OF idx_bound idx_bound]
    by (auto simp: translate_def leaf_entry_def Let_def)
next
  case (Suc l)
  define i where "i = PAGE_PML_IDX va (Suc (Suc l))"
  let ?sub = "PAGE_ADDRESS m t i"
  have i: "i < 512" by (simp add: i_def)
  have p: "pm_present m t i" and w: "walk l m ?sub va = Some t1"
    using Suc.prems(3) by (auto simp: i_def Let_def split: if_splits)
  have ok: "frame_ok t" "\<forall>a\<in>tabs l m ?sub. frame_ok a" using Suc.prems(2) i p by auto
  have wf: "pt_wf l m ?sub" "t \<notin> tabs l m ?sub" using Suc.prems(1) i p by auto
  note IH = Suc.IH[OF wf(1) ok(2) w Suc.prems(4)]
  have t1: "t1 \<in> tabs l m ?sub" "frame_ok t1" using walk_in_tabs[OF w] ok by auto
  have ag: "agree T m m'" if "\<forall>a\<in>T. frame_ok a" "t1 \<notin> T" for T
    unfolding Suc.prems(4) by (rule set_entry_agree) (use t1 that in auto)
  have agt: "agree {t} m m'" by (rule ag) (use ok t1 wf in auto)
  note e = agree_entry[OF agt, of t, simplified]
  have dj: "tabs l m ?sub \<inter> tabs l m (PAGE_ADDRESS m t j) = {}" if "j < 512" "j \<noteq> i" "pm_present m t j" for j
    using Suc.prems(1) i p that by simp
  have o: "pm_present m' t j = pm_present m t j \<and> PAGE_ADDRESS m' t j = PAGE_ADDRESS m t j \<and>
      (pm_present m t j \<longrightarrow> agree (tabs l m (PAGE_ADDRESS m t j)) m m')" if "j < 512" "j \<noteq> i" for j
  proof -
    have "agree (tabs l m (PAGE_ADDRESS m t j)) m m'" if "pm_present m t j"
    proof (rule ag)
      show "\<forall>a\<in>tabs l m (PAGE_ADDRESS m t j). frame_ok a" using Suc.prems(2) \<open>j < 512\<close> that by auto
      show "t1 \<notin> tabs l m (PAGE_ADDRESS m t j)" using dj[OF \<open>j < 512\<close> \<open>j \<noteq> i\<close> that] t1 by blast
    qed
    then show ?thesis using e that(1) by simp
  qed
  have b: "pt_wf (Suc l) m' t"
    "tabs (Suc l) m' t = insert t (tabs l m' ?sub \<union>
       (\<Union>j\<in>{j. j < 512 \<and> j \<noteq> i \<and> pm_present m t j}. tabs l m (PAGE_ADDRESS m t j)))"
    "translate (Suc l) m' t va' =
       (if PAGE_PML_IDX va' (Suc (Suc l)) = i then translate l m' ?sub va' else translate (Suc l) m t va')" for va'
    using branch_update[of l m t i m' ?sub, OF Suc.prems(1) i o] e[OF i] p IH wf dj by auto
  have "missing (Suc l) m' t va' = missing (Suc l) m t va'" for va'
  proof (cases "PAGE_PML_IDX va' (Suc (Suc l)) = i")
    case True
    then show ?thesis using e[OF i] p IH by (simp add: Let_def)
  next
    case False
    then show ?thesis by (intro branch_missing[of i m' t m l va'] o)
  qed
  moreover have "tabs (Suc l) m' t = tabs (Suc l) m t"
    unfolding b(2) using IH i p by auto
  moreover have "translate (Suc l) m' t va' =
     (if same_idx (Suc (Suc l)) va va' then Some (p AND PAGE_FRAME_MASK) else translate (Suc l) m t va')" for va'
  proof (cases "PAGE_PML_IDX va' (Suc (Suc l)) = i")
    case True
    have "translate (Suc l) m' t va' = translate l m' ?sub va'" by (simp only: b(3) True if_True refl)
    also have "\<dots> = (if same_idx (Suc l) va va' then Some (p AND PAGE_FRAME_MASK) else translate l m ?sub va')"
      using IH by blast
    finally show ?thesis using True p by (simp add: same_idx_Suc translate_Suc flip: i_def)
  next
    case False
    then show ?thesis by (simp add: same_idx_Suc b(3) flip: i_def)
  qed
  ultimately show ?case using b(1) by blast
qed

section \<open>The translation of the processor\<close>

definition mmu :: "page_state \<Rightarrow> u64 \<Rightarrow> u64 option" where
  "mmu s va = translate 3 (ram s) (cr3 s) va"

definition pt_inv :: "page_state \<Rightarrow> u64 set \<Rightarrow> bool" where
  "pt_inv s T \<longleftrightarrow> pt_wf 3 (ram s) (cr3 s) \<and> tabs 3 (ram s) (cr3 s) \<subseteq> T \<and> (\<forall>a\<in>T. frame_ok a)"

lemma translate_same_idx: "same_idx (Suc l) va va' \<Longrightarrow> translate l m t va' = translate l m t va"
proof (induction l arbitrary: t)
  case 0
  then show ?case by (simp add: translate_def leaf_entry_def)
next
  case (Suc l)
  then show ?case by (simp add: translate_Suc same_idx_Suc Let_def)
qed

lemma walk_same_idx: "same_idx (Suc l) va va' \<Longrightarrow> walk l m t va' = walk l m t va"
proof (induction l arbitrary: t)
  case (Suc l)
  then show ?case by (simp add: same_idx_Suc Let_def)
qed simp

lemma missing_same_idx:
  "(\<And>j. 2 \<le> j \<Longrightarrow> j \<le> Suc l \<Longrightarrow> PAGE_PML_IDX va' j = PAGE_PML_IDX va j) \<Longrightarrow> missing l m t va' = missing l m t va"
proof (induction l arbitrary: t)
  case (Suc l)
  have "PAGE_PML_IDX va' (Suc (Suc l)) = PAGE_PML_IDX va (Suc (Suc l))" by (rule Suc.prems) simp_all
  moreover have "missing l m u va' = missing l m u va" for u by (rule Suc.IH, rule Suc.prems) simp_all
  ultimately show ?case by (simp add: Let_def)
qed simp

lemma mmu_vpage: "vpage va' = vpage va \<Longrightarrow> mmu s va' = mmu s va"
  unfolding mmu_def by (rule translate_same_idx) (use same_idx_vpage[of va va'] in simp)

lemma id_map_loop_present:
  "walk l (ram s) t va = Some t1 \<Longrightarrow> id_map_loop al (Suc l) va s t = Some (s, t1)"
proof (induction l arbitrary: t)
  case (Suc l)
  then show ?case
    by (subst id_map_loop.simps) (simp add: Let_def split: if_splits)
qed (simp add: id_map_loop.simps)

section \<open>Tables that have grown\<close>

text \<open>What a walk that adds tables does below the table \<open>t\<close>: the new tables \<open>N\<close> are outside
  of \<open>T\<close>, other tables of \<open>T\<close> keep their contents, the tree stays well-formed, no translation
  changes, no path misses more tables than before, and the path for \<open>va\<close> ends in the table
  \<open>t1\<close>.\<close>

definition grown :: "nat \<Rightarrow> u64 \<Rightarrow> u64 set \<Rightarrow> page_state \<Rightarrow> u64 \<Rightarrow> page_state \<Rightarrow> u64 \<Rightarrow> u64 set \<Rightarrow> bool" where
  "grown l va T s t s' t1 N \<longleftrightarrow> N \<inter> T = {} \<and> (\<forall>a\<in>N. frame_ok a) \<and> cr3 s' = cr3 s \<and>
     agree (T - tabs l (ram s) t) (ram s) (ram s') \<and> pt_wf l (ram s') t \<and>
     tabs l (ram s') t \<subseteq> tabs l (ram s) t \<union> N \<and> walk l (ram s') t va = Some t1 \<and>
     (\<forall>va. missing l (ram s') t va \<le> missing l (ram s) t va) \<and>
     (\<forall>va. translate l (ram s') t va = translate l (ram s) t va)"

text \<open>Growth below an entry is growth below its table.\<close>

lemma grown_parent:
  assumes g: "grown l va T s (PAGE_ADDRESS (ram s) t i) s' t1 N" and i: "i = PAGE_PML_IDX va (Suc (Suc l))"
    and wf: "pt_wf (Suc l) (ram s) t" and T: "tabs (Suc l) (ram s) t \<subseteq> T" and p: "pm_present (ram s) t i"
  shows "grown (Suc l) va T s t s' t1 N"
proof -
  let ?sub = "PAGE_ADDRESS (ram s) t i"
  have i5: "i < 512" by (simp add: i)
  have g': "N \<inter> T = {}" "\<forall>a\<in>N. frame_ok a" "cr3 s' = cr3 s" "agree (T - tabs l (ram s) ?sub) (ram s) (ram s')"
    "pt_wf l (ram s') ?sub" "tabs l (ram s') ?sub \<subseteq> tabs l (ram s) ?sub \<union> N" "walk l (ram s') ?sub va = Some t1"
    "\<And>va. translate l (ram s') ?sub va = translate l (ram s) ?sub va"
    "\<And>va. missing l (ram s') ?sub va \<le> missing l (ram s) ?sub va"
    using g by (auto simp: grown_def)
  have sT: "tabs l (ram s) (PAGE_ADDRESS (ram s) t j) \<subseteq> T - {t}" if "j < 512" "pm_present (ram s) t j" for j
    using wf T that by auto
  have dj: "tabs l (ram s) ?sub \<inter> tabs l (ram s) (PAGE_ADDRESS (ram s) t j) = {}"
    if "j < 512" "j \<noteq> i" "pm_present (ram s) t j" for j
    using wf i5 p that by simp
  have tT: "t \<in> T - tabs l (ram s) ?sub" using T sT[OF i5 p] by auto
  note e = agree_entry[OF g'(4) tT]
  have "agree (tabs l (ram s) (PAGE_ADDRESS (ram s) t j)) (ram s) (ram s')"
    if "j < 512" "j \<noteq> i" "pm_present (ram s) t j" for j
    by (rule agree_mono[OF g'(4)]) (use sT[OF that(1,3)] dj[OF that] in blast)
  then have o: "pm_present (ram s') t j = pm_present (ram s) t j \<and> PAGE_ADDRESS (ram s') t j = PAGE_ADDRESS (ram s) t j \<and>
      (pm_present (ram s) t j \<longrightarrow> agree (tabs l (ram s) (PAGE_ADDRESS (ram s) t j)) (ram s) (ram s'))"
    if "j < 512" "j \<noteq> i" for j using e that by simp
  have tn: "t \<notin> tabs l (ram s') ?sub" using g'(6) tT g'(1) by auto
  have sep: "tabs l (ram s') ?sub \<inter> tabs l (ram s) (PAGE_ADDRESS (ram s) t j) = {}"
    if "j < 512" "j \<noteq> i" "pm_present (ram s) t j" for j
    using g'(6) dj[OF that] sT[OF that(1,3)] g'(1) by blast
  have pi: "pm_present (ram s') t i" "PAGE_ADDRESS (ram s') t i = ?sub" using e[OF i5] p by simp_all
  note b = branch_update[of l "ram s" t i "ram s'" ?sub, OF wf i5 o pi g'(5) tn sep]
  have "tabs (Suc l) (ram s') t \<subseteq> tabs (Suc l) (ram s) t \<union> N" using g'(6) i5 p by (subst b(2)) auto
  moreover have "translate (Suc l) (ram s') t va = translate (Suc l) (ram s) t va" for va
    using b(3)[of va] g'(8) p by (simp add: translate_Suc)
  moreover have "missing (Suc l) (ram s') t va \<le> missing (Suc l) (ram s) t va" for va
  proof (cases "PAGE_PML_IDX va (Suc (Suc l)) = i")
    case True
    then show ?thesis using pi p g'(9) by (simp add: Let_def)
  next
    case False
    then show ?thesis using branch_missing[of i "ram s'" t "ram s" l va, OF o] by simp
  qed
  moreover have "walk (Suc l) (ram s') t va = Some t1" using g'(7) pi by (simp add: Let_def flip: i)
  moreover have "agree (T - tabs (Suc l) (ram s) t) (ram s) (ram s')"
    by (rule agree_mono[OF g'(4)]) (use i5 p in auto)
  ultimately show ?thesis using g'(1-3) b(1) by (simp add: grown_def)
qed

text \<open>Growth after a first new table \<open>ct\<close>.\<close>

lemma grown_new:
  assumes g: "grown l va (insert ct T) s2 t s' t1 N" and ct: "ct \<notin> T" "frame_ok ct" "cr3 s2 = cr3 s"
    and ag: "agree (T - {t}) (ram s) (ram s2)" and tabs: "tabs l (ram s2) t = insert ct (tabs l (ram s) t)"
    and t: "t \<in> tabs l (ram s) t" and tr: "\<And>va. translate l (ram s2) t va = translate l (ram s) t va"
    and ms: "\<And>va. missing l (ram s2) t va \<le> missing l (ram s) t va"
  shows "grown l va T s t s' t1 (insert ct N)"
proof -
  have "agree (T - tabs l (ram s) t) (ram s) (ram s')"
    by (rule agree_trans[OF agree_mono[OF ag] agree_mono]) (use g tabs t ct(1) in \<open>auto simp: grown_def\<close>)
  then show ?thesis using g ct tabs tr order_trans[OF _ ms] by (auto simp: grown_def)
qed

section \<open>The interface of the allocator\<close>

text \<open>\<open>room s T k\<close>: in state \<open>s\<close> the pages \<open>T\<close> are in use and \<open>k\<close> more tables can be
  allocated. An allocation returns a fresh page frame below 2^52 and keeps the pages in use;
  stores into pages in use do not disturb the allocator.\<close>

locale table_allocator =
  fixes al :: table_alloc and room :: "page_state \<Rightarrow> u64 set \<Rightarrow> nat \<Rightarrow> bool"
  assumes alloc: "room s T (Suc k) \<Longrightarrow> \<exists>s' a. al s = Some (s', a) \<and> frame_ok a \<and> a \<notin> T \<and>
      agree T (ram s) (ram s') \<and> cr3 s' = cr3 s \<and> room s' (insert a T) k"
    and keep: "room s T k \<Longrightarrow> (\<And>x. x \<notin> page_cells T \<Longrightarrow> m x = ram s x) \<Longrightarrow> room (s\<lparr>ram := m\<rparr>) T k"
    and less: "room s T (Suc k) \<Longrightarrow> room s T k"
begin

lemma room_mono: "room s T k \<Longrightarrow> j \<le> k \<Longrightarrow> room s T j"
  by (induction k) (auto simp: le_Suc_eq intro: less)

lemma room_missing: "room s T (l + k) \<Longrightarrow> room s T (missing l m t va + k)"
  by (erule room_mono) (simp add: missing_le)

text \<open>Making the table that is missing behind entry \<open>i\<close>.\<close>

lemma new_table:
  assumes room: "room s T (Suc k)" and wf: "pt_wf (Suc l) (ram s) t" and T: "tabs (Suc l) (ram s) t \<subseteq> T"
    and ok: "\<forall>a\<in>T. frame_ok a" and i: "i < 512" "\<not> pm_present (ram s) t i"
  shows "\<exists>s1 ct s2. al s = Some (s1, ct) \<and>
    s2 = s1\<lparr>ram := set_entry (mem_fill (ram s1) ct 0 4096) t i ct\<rparr> \<and>
    ct \<notin> T \<and> frame_ok ct \<and> cr3 s2 = cr3 s \<and> room s2 (insert ct T) k \<and>
    agree (T - {t}) (ram s) (ram s2) \<and> pm_present (ram s2) t i \<and> PAGE_ADDRESS (ram s2) t i = ct \<and>
    pt_wf (Suc l) (ram s2) t \<and> tabs (Suc l) (ram s2) t = insert ct (tabs (Suc l) (ram s) t) \<and>
    (\<forall>va. missing (Suc l) (ram s2) t va \<le> missing (Suc l) (ram s) t va) \<and>
    (\<forall>va. translate (Suc l) (ram s2) t va = translate (Suc l) (ram s) t va)"
proof -
  obtain s1 ct where al: "al s = Some (s1, ct)" "frame_ok ct" "ct \<notin> T" "agree T (ram s) (ram s1)"
    "cr3 s1 = cr3 s" "room s1 (insert ct T) k"
    using alloc[OF room] by blast
  define m1 where "m1 = mem_fill (ram s1) ct 0 4096"
  define m2 where "m2 = set_entry m1 t i ct"
  have t: "t \<in> T" "t \<noteq> ct" "frame_ok t" using T al ok by auto
  have a1: "agree T (ram s) m1"
    unfolding agree_def page_cells_def
  proof safe
    fix x u assume "u \<in> T" "x \<in> addrs u 4096"
    moreover have "u \<noteq> ct" "frame_ok u" using \<open>u \<in> T\<close> al ok by auto
    ultimately have "x \<notin> addrs ct 4096" using frame_disjoint[of u ct] al(2) by blast
    then show "m1 x = ram s x"
      using al(4) \<open>u \<in> T\<close> \<open>x \<in> addrs u 4096\<close> by (auto simp: m1_def mem_fill_table agree_def page_cells_def)
  qed
  have a2: "agree (T - {t}) (ram s) m2"
    unfolding m2_def
    by (rule agree_trans[OF agree_mono[OF a1] set_entry_agree]) (use i t ok in auto)
  have z: "m2 x = 0" if "x \<in> addrs ct 4096" for x
  proof -
    have "x \<notin> addrs (entry_addr t i) 8"
      using that frame_disjoint[of t ct] t al(2) entry_in_page[OF i(1), of t] by blast
    then show ?thesis using that by (simp add: m2_def set_entry_other m1_def mem_fill_table)
  qed
  have r: "room (s1\<lparr>ram := m2\<rparr>) (insert ct T) k"
  proof (rule keep[OF al(6)])
    fix x assume "x \<notin> page_cells (insert ct T)"
    then have "x \<notin> addrs ct 4096" "x \<notin> addrs t 4096" using t by (auto simp: page_cells_def)
    moreover from this have "x \<notin> addrs (entry_addr t i) 8" using entry_in_page[OF i(1), of t] by blast
    ultimately show "m2 x = ram s1 x" by (simp add: m2_def set_entry_other m1_def mem_fill_table)
  qed
  have sub: "tabs l (ram s) (PAGE_ADDRESS (ram s) t j) \<subseteq> T - {t}" if "j < 512" "pm_present (ram s) t j" for j
    using wf T that by auto
  have e: "pm_present m2 t i" "PAGE_ADDRESS m2 t i = ct"
    using al(2) by (simp_all add: m2_def frame_ok_def)
  note br = branch_update[of l "ram s" t i m2 ct, OF wf i(1) _ e]
  have o: "pm_present m2 t j = pm_present (ram s) t j \<and> PAGE_ADDRESS m2 t j = PAGE_ADDRESS (ram s) t j \<and>
      (pm_present (ram s) t j \<longrightarrow> agree (tabs l (ram s) (PAGE_ADDRESS (ram s) t j)) (ram s) m2)"
    if "j < 512" "j \<noteq> i" for j
    using agree_entry[OF a1 t(1) that(1)] set_entry_apart[OF i(1) that(1)] that sub[OF that(1)]
      agree_mono[OF a2] by (auto simp: m2_def)
  have sp: "tabs l m2 ct \<inter> tabs l (ram s) (PAGE_ADDRESS (ram s) t j) = {}"
    if "j < 512" "j \<noteq> i" "pm_present (ram s) t j" for j
    using sub[OF that(1,3)] al(3) by (auto simp: zero_table[OF z])
  have tc: "t \<notin> tabs l m2 ct" using t by (simp add: zero_table[OF z])
  note br = br[OF o zero_table(2)[OF z] tc sp]
  have "{j. j < 512 \<and> j \<noteq> i \<and> pm_present (ram s) t j} = {j. j < 512 \<and> pm_present (ram s) t j}"
    using i by auto
  then have tb: "tabs (Suc l) m2 t = insert ct (tabs (Suc l) (ram s) t)"
    using br(2) by (simp add: zero_table[OF z] insert_commute)
  have "missing (Suc l) m2 t va \<le> missing (Suc l) (ram s) t va" for va
  proof (cases "PAGE_PML_IDX va (Suc (Suc l)) = i")
    case True
    then show ?thesis using i missing_le[of "Suc l" m2 t va] by (simp add: Let_def)
  next
    case False
    then show ?thesis using branch_missing[of i m2 t "ram s" l va, OF o] by simp
  qed
  moreover have "translate (Suc l) m2 t va = translate (Suc l) (ram s) t va" for va
  proof (cases "PAGE_PML_IDX va (Suc (Suc l)) = i")
    case True
    then have "translate (Suc l) (ram s) t va = None" using i by (simp add: translate_Suc)
    then show ?thesis using br(3)[of va] True by (simp add: zero_table[OF z])
  qed (use br(3)[of va] in simp)
  ultimately show ?thesis
    using al r a2 e br(1) tb by (auto simp: m2_def m1_def simp del: missing.simps tabs.simps pt_wf.simps)
qed

text \<open>The loop: it ends at the last table for the address, changes no translation, keeps the
  tables a tree and touches only tables on its way and new ones.\<close>

lemma id_map_loop_grown:
  "room s T (missing l (ram s) t va + k) \<Longrightarrow> pt_wf l (ram s) t \<Longrightarrow> tabs l (ram s) t \<subseteq> T \<Longrightarrow> \<forall>a\<in>T. frame_ok a \<Longrightarrow>
    \<exists>s' t1 N. id_map_loop al (Suc l) va s t = Some (s', t1) \<and> grown l va T s t s' t1 N \<and> room s' (T \<union> N) k"
proof (induction l arbitrary: s t T)
  case 0
  then show ?case
    by (intro exI[of _ s] exI[of _ t] exI[of _ "{}"]) (simp add: id_map_loop.simps grown_def)
next
  case (Suc l)
  define i where "i = PAGE_PML_IDX va (Suc (Suc l))"
  have i: "i < 512" by (simp add: i_def)
  \<comment> \<open>descend once the entry is present\<close>
  have down: "\<exists>s' t1 N. id_map_loop al (Suc l) va s0 (PAGE_ADDRESS (ram s0) t i) = Some (s', t1) \<and>
      grown (Suc l) va T0 s0 t s' t1 N \<and> room s' (T0 \<union> N) k"
    if r0: "room s0 T0 (missing l (ram s0) (PAGE_ADDRESS (ram s0) t i) va + k)" and wf0: "pt_wf (Suc l) (ram s0) t" and T0: "tabs (Suc l) (ram s0) t \<subseteq> T0"
      and ok0: "\<forall>a\<in>T0. frame_ok a" and p0: "pm_present (ram s0) t i" for s0 T0
  proof -
    have "pt_wf l (ram s0) (PAGE_ADDRESS (ram s0) t i)" "tabs l (ram s0) (PAGE_ADDRESS (ram s0) t i) \<subseteq> T0"
      using wf0 T0 i p0 by auto
    from Suc.IH[OF r0 this ok0] show ?thesis using grown_parent[OF _ i_def wf0 T0 p0] by blast
  qed
  show ?case
  proof (cases "pm_present (ram s) t i")
    case True
    have "id_map_loop al (Suc (Suc l)) va s t = id_map_loop al (Suc l) va s (PAGE_ADDRESS (ram s) t i)"
      using True by (subst id_map_loop.simps) (simp add: Let_def i_def)
    then show ?thesis using down[of s T] Suc.prems True by (simp add: Let_def flip: i_def)
  next
    case False
    have "missing (Suc l) (ram s) t va = Suc l" using False by (simp add: Let_def flip: i_def)
    then have r1: "room s T (Suc (l + k))" using Suc.prems(1) by simp
    obtain s1 ct s2 where al: "al s = Some (s1, ct)"
      and s2: "s2 = s1\<lparr>ram := set_entry (mem_fill (ram s1) ct 0 4096) t i ct\<rparr>"
      and c: "ct \<notin> T" "frame_ok ct" "cr3 s2 = cr3 s" "room s2 (insert ct T) (l + k)"
        "agree (T - {t}) (ram s) (ram s2)" "pm_present (ram s2) t i" "PAGE_ADDRESS (ram s2) t i = ct"
      and w: "pt_wf (Suc l) (ram s2) t" "tabs (Suc l) (ram s2) t = insert ct (tabs (Suc l) (ram s) t)"
        "\<And>va. translate (Suc l) (ram s2) t va = translate (Suc l) (ram s) t va"
      and ms: "\<And>va. missing (Suc l) (ram s2) t va \<le> missing (Suc l) (ram s) t va"
      using new_table[OF r1 Suc.prems(2-4) i False] by blast
    have step: "id_map_loop al (Suc (Suc l)) va s t = id_map_loop al (Suc l) va s2 (PAGE_ADDRESS (ram s2) t i)"
      unfolding c(7) using False al by (subst id_map_loop.simps) (simp add: Let_def i_def [symmetric] s2)
    have T2: "tabs (Suc l) (ram s2) t \<subseteq> insert ct T" using w(2) Suc.prems(3) by blast
    have ok2: "\<forall>a\<in>insert ct T. frame_ok a" using c(2) Suc.prems(4) by blast
    have "missing l (ram s2) (PAGE_ADDRESS (ram s2) t i) va + k \<le> l + k" using missing_le by simp
    from down[OF room_mono[OF c(4) this] w(1) T2 ok2 c(6)] obtain s' t1 N
      where d: "id_map_loop al (Suc (Suc l)) va s t = Some (s', t1)" "room s' (insert ct T \<union> N) k"
        "grown (Suc l) va (insert ct T) s2 t s' t1 N" unfolding step by blast
    have "grown (Suc l) va T s t s' t1 (insert ct N)"
      by (rule grown_new[OF d(3) c(1-3,5) w(2) _ w(3) ms]) simp
    then show ?thesis using d(1,2) by (metis Un_insert_left Un_insert_right)
  qed
qed

text \<open>The whole mapping. \<open>pt_inv s T\<close>: the tables below CR3 form a tree of page frames in \<open>T\<close>.\<close>

lemma page_id_map_new:
  assumes room: "room s T (missing 3 (ram s) (cr3 s) vaddr + k)" and inv: "pt_inv s T" and new: "mmu s vaddr = None"
  shows "\<exists>s' N. page_id_map al s paddr vaddr mmio = Some (s', True) \<and>
    room s' (T \<union> N) k \<and> pt_inv s' (T \<union> N) \<and> cr3 s' = cr3 s \<and> N \<inter> T = {} \<and>
    tabs 3 (ram s') (cr3 s) \<subseteq> tabs 3 (ram s) (cr3 s) \<union> N \<and>
    agree (T - tabs 3 (ram s) (cr3 s)) (ram s) (ram s') \<and>
    (\<forall>va. missing 3 (ram s') (cr3 s) va \<le> missing 3 (ram s) (cr3 s) va) \<and>
    missing 3 (ram s') (cr3 s) vaddr = 0 \<and>
    (\<forall>va. mmu s' va = (if vpage va = vpage vaddr then Some (paddr AND PAGE_FRAME_MASK) else mmu s va))"
proof -
  let ?va = "PAGE_CANONICAL (PAGE_ALIGN vaddr)"
  have mv: "missing 3 m t ?va = missing 3 m t vaddr" for m t
    by (rule missing_same_idx, rule idx_canonical) simp_all
  have 4: "(4 :: nat) = Suc 3" by simp
  obtain s1 t1 N where
    1: "id_map_loop al (Suc 3) ?va s (cr3 s) = Some (s1, t1)" "N \<inter> T = {}" "\<forall>a\<in>N. frame_ok a"
      "cr3 s1 = cr3 s" "room s1 (T \<union> N) k" and
    2: "agree (T - tabs 3 (ram s) (cr3 s)) (ram s) (ram s1)" and
    3: "pt_wf 3 (ram s1) (cr3 s)" "tabs 3 (ram s1) (cr3 s) \<subseteq> tabs 3 (ram s) (cr3 s) \<union> N" and
    4: "walk 3 (ram s1) (cr3 s) ?va = Some t1" "\<forall>va. translate 3 (ram s1) (cr3 s) va = mmu s va"
      "\<forall>va. missing 3 (ram s1) (cr3 s) va \<le> missing 3 (ram s) (cr3 s) va"
    using id_map_loop_grown[of s T 3 "cr3 s" ?va k] room inv unfolding pt_inv_def mmu_def grown_def mv by blast
  have sub: "tabs 3 (ram s1) (cr3 s) \<subseteq> T \<union> N" using 3(2) inv by (auto simp: pt_inv_def)
  have ok: "\<forall>a\<in>T \<union> N. frame_ok a" using 1(3) inv by (auto simp: pt_inv_def)
  let ?i = "PAGE_PML_IDX ?va 1"
  let ?m = "set_entry (ram s1) t1 ?i (PAGE_ALIGN paddr)"
  have np: "\<not> pm_present (ram s1) t1 ?i"
  proof -
    have "translate 3 (ram s1) (cr3 s) ?va = None"
      using 4(2) new mmu_vpage[of ?va vaddr s] by simp
    then show ?thesis using 4(1) by (simp add: translate_def leaf_entry_def Let_def split: if_splits)
  qed
  have "\<forall>a\<in>tabs 3 (ram s1) (cr3 s). frame_ok a" using sub ok by blast
  from set_leaf[OF 3(1) this 4(1) refl, of "PAGE_ALIGN paddr"]
  have l: "pt_wf 3 ?m (cr3 s)" "tabs 3 ?m (cr3 s) = tabs 3 (ram s1) (cr3 s)"
    "missing 3 ?m (cr3 s) va = missing 3 (ram s1) (cr3 s) va"
    "translate 3 ?m (cr3 s) va = (if vpage va = vpage vaddr then Some (paddr AND PAGE_FRAME_MASK) else mmu s va)" for va
    using 4(2) same_idx_vpage[of ?va va] by (simp_all add: align_frame)
  have t1: "t1 \<in> T \<union> N" "t1 \<notin> T - tabs 3 (ram s) (cr3 s)" using walk_in_tabs[OF 4(1)] sub 3(2) 1(2) by blast+
  define s' where "s' = s1\<lparr>ram := ?m\<rparr>"
  have r: "ram s' = ?m" by (simp add: s'_def)
  have "agree (T - tabs 3 (ram s) (cr3 s)) (ram s) (ram s')"
    unfolding r by (rule agree_trans[OF 2 set_entry_agree]) (use ok t1 in auto)
  moreover have "room s' (T \<union> N) k"
    unfolding s'_def
  proof (rule keep[OF 1(5)])
    fix x assume "x \<notin> page_cells (T \<union> N)"
    then have "x \<notin> addrs t1 4096" using t1(1) unfolding page_cells_def by blast
    then have "x \<notin> addrs (entry_addr t1 ?i) 8" using entry_in_page[OF idx_bound, of t1 ?va 1] by blast
    then show "?m x = ram s1 x" by (rule set_entry_other)
  qed
  moreover have "page_id_map al s paddr vaddr mmio = Some (s', True)"
    using 1(1) np by (simp add: s'_def page_id_map_def Let_def del: idx_canonical)
  moreover have "pt_inv s' (T \<union> N)"
    using l ok sub 1(4) by (simp add: s'_def pt_inv_def)
  moreover have "cr3 s' = cr3 s" using 1(4) by (simp add: s'_def)
  moreover have "tabs 3 (ram s') (cr3 s) \<subseteq> tabs 3 (ram s) (cr3 s) \<union> N" using l(2) 3(2) by (simp add: r)
  moreover have "\<forall>va. mmu s' va = (if vpage va = vpage vaddr then Some (paddr AND PAGE_FRAME_MASK) else mmu s va)"
    using l(4) 1(4) by (simp add: s'_def mmu_def)
  moreover have "missing 3 (ram s') (cr3 s) vaddr = 0"
    using 4(1) missing_0[of 3 "ram s1" "cr3 s" ?va] unfolding mv by (simp add: r l(3) del: One_nat_def idx_canonical)
  moreover have "\<forall>va. missing 3 (ram s') (cr3 s) va \<le> missing 3 (ram s) (cr3 s) va" using 4(3) by (simp add: r l(3) del: One_nat_def idx_canonical)
  ultimately show ?thesis using 1(2) by blast
qed

end

lemma page_id_map_old:
  assumes "mmu s vaddr = Some p"
  shows "page_id_map al s paddr vaddr mmio = Some (s, False)"
proof -
  let ?va = "PAGE_CANONICAL (PAGE_ALIGN vaddr)"
  have "mmu s ?va = Some p" using assms mmu_vpage[of ?va vaddr s] by simp
  then obtain t1 where w: "walk 3 (ram s) (cr3 s) ?va = Some t1" "pm_present (ram s) t1 (PAGE_PML_IDX ?va 1)"
    by (auto simp: mmu_def translate_def leaf_entry_def Let_def bind_eq_Some_conv split: if_splits)
  from id_map_loop_present[OF w(1)] have "id_map_loop al 4 ?va s (cr3 s) = Some (s, t1)" by simp
  with w(2) show ?thesis by (simp add: page_id_map_def Let_def del: idx_canonical)
qed

end
