(* ===== verification/Memory.thy ===== *)
theory Memory
  imports PageMapping HeapOps
begin

text \<open>
  \<^verbatim>\<open>memory.c\<close> of the loader: the placement allocator used until the heap exists, then
  the heap. Here the recursion of the program closes: the heap grows by \<^verbatim>\<open>page_alloc\<close>, which
  may need a page table, which comes from \<^verbatim>\<open>mem_alloc_align\<close> again. The first argument
  bounds the depth of that recursion; \<open>mem_alloc_fuel\<close> shows that depth 1 is enough, because
  the nested call waits for the lock the outer one holds.
\<close>

section \<open>The allocators\<close>

text \<open>\<^verbatim>\<open>page_alloc\<close> as the heap calls it: of the variables only memory changes.\<close>

definition heap_pages :: "table_alloc \<Rightarrow> page_state \<Rightarrow> page_allocator" where
  "heap_pages al s m vaddr sz =
     map_option (\<lambda>(s', r). (ram s', r)) (page_alloc al (s\<lparr>ram := m\<rparr>) vaddr sz)"

definition in_heap :: "page_state \<Rightarrow> (mem \<times> u64) option \<Rightarrow> (page_state \<times> u64) option" where
  "in_heap s r = map_option (\<lambda>(m, ptr). (s\<lparr>ram := m\<rparr>, ptr)) r"

text \<open>\<^verbatim>\<open>placement_addr32\<close> is the first free address after the 32-bit stage.\<close>

definition mem_init :: "u32 \<Rightarrow> page_state \<Rightarrow> page_state" where
  "mem_init placement_addr32 s = s\<lparr>heap_var := 0, placement_addr := ucast placement_addr32\<rparr>"

definition mem_init_heap :: "u64 \<Rightarrow> page_state \<Rightarrow> page_state option" where
  "mem_init_heap max_size s =
     do { (m, heap) \<leftarrow> heap_create (ram s) (placement_addr s) PAGE_SIZE max_size;
          Some (s\<lparr>ram := m, heap_var := heap, placement_addr := INIT_MEM\<rparr>) }"

definition place :: "u64 \<Rightarrow> page_state \<Rightarrow> page_state \<times> u64" where
  "place sz s = (let ptr = placement_addr s in (s\<lparr>placement_addr := placement_addr s + sz\<rparr>, ptr))"

definition place_align :: "u64 \<Rightarrow> page_state \<Rightarrow> page_state \<times> u64" where
  "place_align sz s = place sz (s\<lparr>placement_addr := PAGE_SIZE_ALIGN (placement_addr s)\<rparr>)"

primrec mem_alloc_align :: "nat \<Rightarrow> u64 \<Rightarrow> page_state \<Rightarrow> (page_state \<times> u64) option" where
  "mem_alloc_align 0 sz s = (if heap_var s \<noteq> 0 then None else Some (place_align sz s))"
| "mem_alloc_align (Suc n) sz s =
    (if heap_var s \<noteq> 0
     then in_heap s (heap_alloc (heap_pages (mem_alloc_align n (8 * 512)) s) (ram s) (heap_var s) sz True)
     else Some (place_align sz s))"

text \<open>The allocator of page tables and the pages of the heap, at depth \<open>n\<close>.\<close>

abbreviation table_al :: "nat \<Rightarrow> table_alloc" where
  "table_al n \<equiv> mem_alloc_align n (8 * 512)"

abbreviation heap_pa :: "nat \<Rightarrow> page_state \<Rightarrow> page_allocator" where
  "heap_pa n s \<equiv> heap_pages (table_al n) s"

definition mem_alloc :: "nat \<Rightarrow> u64 \<Rightarrow> page_state \<Rightarrow> (page_state \<times> u64) option" where
  "mem_alloc n sz s =
    (if heap_var s \<noteq> 0 then in_heap s (heap_alloc (heap_pa n s) (ram s) (heap_var s) sz False)
     else Some (place sz s))"

definition mem_alloc_clean :: "nat \<Rightarrow> u64 \<Rightarrow> page_state \<Rightarrow> (page_state \<times> u64) option" where
  "mem_alloc_clean n sz s =
    (if heap_var s \<noteq> 0 then
       do { (m, ptr) \<leftarrow> heap_alloc (heap_pa n s) (ram s) (heap_var s) sz False;
            let sz = heap_alloc_size m ptr;
            Some (s\<lparr>ram := mem_fill m ptr 0 sz\<rparr>, ptr) }
     else
       let ptr = placement_addr s;
           s = s\<lparr>ram := mem_fill (ram s) ptr 0 sz\<rparr>
       in Some (s\<lparr>placement_addr := placement_addr s + sz\<rparr>, ptr))"

definition mem_alloc_ac :: "nat \<Rightarrow> u64 \<Rightarrow> page_state \<Rightarrow> (page_state \<times> u64) option" where
  "mem_alloc_ac n sz s =
    (if heap_var s \<noteq> 0 then
       do { (m, ptr) \<leftarrow> heap_alloc (heap_pa n s) (ram s) (heap_var s) sz True;
            let sz = heap_alloc_size m ptr;
            Some (s\<lparr>ram := mem_fill m ptr 0 sz\<rparr>, ptr) }
     else
       let s = s\<lparr>placement_addr := PAGE_SIZE_ALIGN (placement_addr s)\<rparr>;
           ptr = placement_addr s;
           s = s\<lparr>ram := mem_fill (ram s) ptr 0 sz\<rparr>
       in Some (s\<lparr>placement_addr := placement_addr s + sz\<rparr>, ptr))"

definition mem_realloc :: "nat \<Rightarrow> u64 \<Rightarrow> u64 \<Rightarrow> page_state \<Rightarrow> (page_state \<times> u64) option" where
  "mem_realloc n ptr sz s =
    (if heap_var s \<noteq> 0 then in_heap s (heap_realloc (heap_pa n s) (ram s) (heap_var s) ptr sz False)
     else Some (s, 0))"

definition mem_free :: "u64 \<Rightarrow> page_state \<Rightarrow> page_state option" where
  "mem_free ptr s =
    (if heap_var s \<noteq> 0 then map_option (\<lambda>m. s\<lparr>ram := m\<rparr>) (heap_free (ram s) (heap_var s) ptr)
     else Some s)"

definition mem_free_clean :: "u64 \<Rightarrow> page_state \<Rightarrow> page_state option" where
  "mem_free_clean ptr s =
    (if heap_var s \<noteq> 0 then
       let sz = heap_alloc_size (ram s) ptr;
           m = mem_fill (ram s) ptr 0 sz
       in map_option (\<lambda>m. s\<lparr>ram := m\<rparr>) (heap_free m (heap_var s) ptr)
     else Some s)"

section \<open>Before the heap: the placement allocator provides page tables\<close>

text \<open>There is room for \<open>k\<close> tables when the aligned placement address lies behind all pages
  in use and \<open>k\<close> pages from there stay below 2^52.\<close>

definition place_room :: "page_state \<Rightarrow> u64 set \<Rightarrow> nat \<Rightarrow> bool" where
  "place_room s T k \<longleftrightarrow> heap_var s = 0 \<and> unat (placement_addr s) + 4095 < 2 ^ 64 \<and>
     (\<forall>t\<in>T. frame_ok t \<and> unat t + 4096 \<le> unat (PAGE_SIZE_ALIGN (placement_addr s))) \<and>
     unat (PAGE_SIZE_ALIGN (placement_addr s)) + 4096 * k \<le> 2 ^ 52"

lemma PAGE_SIZE_ALIGN_unat:
  assumes "unat a + 4095 < 2 ^ 64"
  shows "unat (PAGE_SIZE_ALIGN a) = (unat a + 4095) div 4096 * 4096"
proof -
  have m: "NOT (0xFFF :: u64) = NOT (mask 12)" by (simp add: mask_eq_exp_minus_1)
  have "unat (a + 0xFFF) = unat a + 4095" using assms by (simp add: unat_word_ariths)
  moreover have "(a + 0xFFF) AND NOT (mask 12) = push_bit 12 (drop_bit 12 (a + 0xFFF))"
    by (rule bit_word_eqI) (auto simp: bit_simps)
  moreover have "unat (push_bit 12 (drop_bit 12 w)) = unat w div 4096 * 4096" for w :: u64
  proof -
    have "unat (drop_bit 12 w) = unat w div 4096" by (simp add: drop_bit_eq_div unat_div)
    moreover have "unat w div 4096 * 4096 < 18446744073709551616"
      using unat64_lt[of w] div_times_less_eq_dividend[of "unat w" 4096] by (rule le_less_trans[rotated])
    ultimately show ?thesis by (simp add: push_bit_eq_mult unat_word_ariths mult.commute)
  qed
  ultimately show ?thesis unfolding PAGE_SIZE_ALIGN_def m by (simp only:)
qed

text \<open>The same with all tables below the first 2 MB, which \<^verbatim>\<open>page_init\<close> leaves to them.\<close>

definition low_room :: "page_state \<Rightarrow> u64 set \<Rightarrow> nat \<Rightarrow> bool" where
  "low_room s T k \<longleftrightarrow> place_room s T k \<and>
     unat (PAGE_SIZE_ALIGN (placement_addr s)) + 4096 * k \<le> unat INIT_MEM"

lemma place_room_alloc:
  assumes room: "place_room s T (Suc k)"
  defines "a \<equiv> PAGE_SIZE_ALIGN (placement_addr s)"
  defines "s' \<equiv> s\<lparr>placement_addr := a + 4096\<rparr>"
  shows "table_al n s = Some (s', a)" "frame_ok a" "a \<notin> T" "place_room s' (insert a T) k"
    "unat (PAGE_SIZE_ALIGN (placement_addr s')) = unat a + 4096"
proof -
  have h: "heap_var s = 0" and b: "unat (placement_addr s) + 4095 < 2 ^ 64"
    "unat a + 4096 * Suc k \<le> 2 ^ 52" and T: "\<forall>t\<in>T. frame_ok t \<and> unat t + 4096 \<le> unat a"
    using room by (auto simp: place_room_def a_def)
  have p: "4096 dvd unat a" by (simp add: a_def PAGE_SIZE_ALIGN_unat[OF b(1)])
  then show ok: "frame_ok a" using b(2) by (intro frame_okI) simp_all
  have n: "unat (a + 4096) = unat a + 4096" using b(2) by (simp add: unat_word_ariths)
  have "unat (a + 4096) + 4095 < 2 ^ 64" using n b(2) by simp
  from PAGE_SIZE_ALIGN_unat[OF this] p n show pp: "unat (PAGE_SIZE_ALIGN (placement_addr s')) = unat a + 4096"
    by (auto simp: s'_def elim!: dvdE)
  show "place_room s' (insert a T) k"
    using h b T ok n pp by (auto simp: place_room_def s'_def)
  show "table_al n s = Some (s', a)"
    using h by (cases n) (simp_all add: place_align_def place_def s'_def a_def)
  show "a \<notin> T" using T by force
qed

interpretation pt: table_allocator "table_al n" place_room for n
proof
  fix s :: page_state and T k
  assume "place_room s T (Suc k)"
  from place_room_alloc(1)[OF this, of n] place_room_alloc(2-5)[OF this]
  show "\<exists>s' a. table_al n s = Some (s', a) \<and> frame_ok a \<and> a \<notin> T \<and>
      agree T (ram s) (ram s') \<and> cr3 s' = cr3 s \<and> place_room s' (insert a T) k" by auto
qed (auto simp: place_room_def)

interpretation low: table_allocator "table_al n" low_room for n
proof
  fix s :: page_state and T k
  assume r: "low_room s T (Suc k)"
  then have "place_room s T (Suc k)" by (simp add: low_room_def)
  from place_room_alloc(1)[OF this, of n] place_room_alloc(2-5)[OF this] r
  show "\<exists>s' a. table_al n s = Some (s', a) \<and> frame_ok a \<and> a \<notin> T \<and>
      agree T (ram s) (ram s') \<and> cr3 s' = cr3 s \<and> low_room s' (insert a T) k"
    by (auto simp: low_room_def)
qed (auto simp: low_room_def place_room_def)

text \<open>The tables stay below 2 MB, so stores from there on are no business of theirs.\<close>

lemma low_room_agree:
  assumes "low_room s T k" "\<And>x. x < INIT_MEM \<Longrightarrow> m x = ram s x"
  shows "agree T (ram s) m"
proof -
  have "x < INIT_MEM" if "t \<in> T" "x \<in> addrs t 4096" for t x
  proof -
    have t: "unat t + 4096 \<le> unat INIT_MEM" using assms(1) that(1) by (fastforce simp: low_room_def place_room_def)
    then have "unat x < unat t + 4096" by (intro addrs_nowrap[THEN conjunct2]) (use that(2) in simp_all)
    with t show ?thesis by (simp add: word_less_nat_alt)
  qed
  then show ?thesis using assms(2) by (auto simp: agree_def page_cells_def)
qed

text \<open>Apart from memory and the placement address, allocating a table changes no variable.\<close>

definition same_vars :: "page_state \<Rightarrow> page_state \<Rightarrow> bool" where
  "same_vars s s' \<longleftrightarrow> s' = s\<lparr>ram := ram s', placement_addr := placement_addr s'\<rparr>"

lemma same_vars_refl [simp]: "same_vars s s" "same_vars s (s\<lparr>ram := m\<rparr>)"
  by (simp_all add: same_vars_def)

lemma same_vars_trans: "same_vars s s' \<Longrightarrow> same_vars s' s'' \<Longrightarrow> same_vars s s''"
  by (cases s; cases s'; cases s'') (simp add: same_vars_def)

lemma table_al_vars: "table_al n s = Some (s', a) \<Longrightarrow> same_vars s s'"
  by (cases n) (auto simp: same_vars_def in_heap_def place_align_def place_def Let_def split: if_splits)

lemma id_map_loop_vars: "id_map_loop (table_al n) l va s t = Some (s', t1) \<Longrightarrow> same_vars s s'"
proof (induction l arbitrary: s t)
  case (Suc l)
  have step: "same_vars s s'"
    if "table_al n s = Some (s1, ct)" "id_map_loop (table_al n) l va (s1\<lparr>ram := m\<rparr>) ct = Some (s', t1)" for s1 ct m
    by (rule same_vars_trans[OF table_al_vars[OF that(1)]],
        rule same_vars_trans[OF same_vars_refl(2) Suc.IH[OF that(2)]])
  show ?case
    using Suc.prems Suc.IH step
    by (subst (asm) id_map_loop.simps) (auto simp: Let_def bind_eq_Some_conv split: if_splits)
qed (simp add: id_map_loop.simps)

lemma page_id_map_vars: "page_id_map (table_al n) s paddr va mmio = Some (s', ok) \<Longrightarrow> same_vars s s'"
  using same_vars_trans[OF id_map_loop_vars]
  by (fastforce simp: page_id_map_def Let_def bind_eq_Some_conv split: if_splits)

section \<open>Resolving addresses\<close>

lemma resolve_loop_walk:
  "resolve_loop m l va t (PAGE_PML_IDX va (Suc l)) =
     map_option (\<lambda>t1. (t1, PAGE_PML_IDX va 1)) (walk l m t va)"
proof (induction l arbitrary: t)
  case (Suc l)
  then show ?case by (subst resolve_loop.simps) (simp add: Let_def)
qed (simp add: resolve_loop.simps)

lemma page_resolve_walk:
  "page_resolve s va = (case walk 3 (ram s) (cr3 s) va of None \<Rightarrow> 0
     | Some t1 \<Rightarrow> PAGE_ADDRESS (ram s) t1 (PAGE_PML_IDX va 1) + (va AND PAGE_OFFSET_MASK))"
proof -
  have "resolve_loop (ram s) 3 va (cr3 s) (PAGE_PML_IDX va 4) =
      map_option (\<lambda>t1. (t1, PAGE_PML_IDX va 1)) (walk 3 (ram s) (cr3 s) va)"
    using resolve_loop_walk[of "ram s" 3 va "cr3 s"] by simp
  then show ?thesis by (simp add: page_resolve_def split: option.split)
qed

lemma mmu_walk:
  "mmu s va = (case walk 3 (ram s) (cr3 s) va of None \<Rightarrow> None | Some t1 \<Rightarrow> leaf_entry (ram s) t1 va)"
  by (simp add: mmu_def translate_def split: option.split)

lemma page_resolve_mapped: "mmu s va = Some p \<Longrightarrow> page_resolve s va = p + (va AND PAGE_OFFSET_MASK)"
  by (auto simp: mmu_walk page_resolve_walk leaf_entry_def Let_def split: option.splits if_splits)

lemma page_resolve_no_table: "walk 3 (ram s) (cr3 s) va = None \<Longrightarrow> page_resolve s va = 0 \<and> mmu s va = None"
  by (simp add: page_resolve_walk mmu_walk)

section \<open>Under the heap lock\<close>

lemma table_al_locked:
  "heap_var s \<noteq> 0 \<Longrightarrow> heap_locked (ram s) (heap_var s) \<Longrightarrow> table_al n s = None"
  using heap_wait_lock_locked by (cases n) (simp_all add: in_heap_def heap_alloc_def)

lemma id_map_loop_stuck:
  assumes "al s = None" "walk l (ram s) t va = None"
  shows "id_map_loop al (Suc l) va s t = None"
  using assms(2)
proof (induction l arbitrary: t)
  case (Suc l)
  then show ?case
    using assms(1) by (subst id_map_loop.simps) (auto simp: Let_def split: if_splits)
qed simp

lemma page_map_cong:
  assumes "al1 s = None" "al2 s = None"
  shows "page_map al1 s p va = page_map al2 s p va"
proof -
  let ?va = "PAGE_CANONICAL (PAGE_ALIGN va)"
  have "id_map_loop al1 4 ?va s (cr3 s) = id_map_loop al2 4 ?va s (cr3 s)"
  proof (cases "walk 3 (ram s) (cr3 s) ?va")
    case None
    then show ?thesis
      using id_map_loop_stuck[of al1 s 3 "cr3 s" ?va] id_map_loop_stuck[of al2 s 3 "cr3 s" ?va] assms by simp
  next
    case (Some t1)
    then show ?thesis using id_map_loop_present[of 3 s "cr3 s" ?va t1] by simp
  qed
  then show ?thesis by (simp add: page_map_def page_id_map_def)
qed

text \<open>The nested call changes nothing while the lock is held, so the depth does not matter.\<close>

lemma heap_pages_locked:
  assumes "heap_var s \<noteq> 0" "heap_locked m (heap_var s)"
  shows "heap_pa n s m vaddr sz = heap_pa k s m vaddr sz"
proof -
  have "table_al j (s\<lparr>ram := m\<rparr>) = None" for j by (rule table_al_locked) (use assms in simp_all)
  then have "page_map (table_al n) (s\<lparr>ram := m\<rparr>) vaddr vaddr = page_map (table_al k) (s\<lparr>ram := m\<rparr>) vaddr vaddr"
    by (intro page_map_cong)
  then show ?thesis by (simp add: heap_pages_def page_alloc_def)
qed

lemma heap_alloc_cong:
  assumes "\<And>m' v z. heap_locked m' heap \<Longrightarrow> pa1 m' v z = pa2 m' v z"
  shows "heap_alloc pa1 m heap sz al = heap_alloc pa2 m heap sz al"
proof (cases "heap_wait_lock m heap")
  case (Some m1)
  then have "heap_extend pa1 m1 heap b = heap_extend pa2 m1 heap b" for b
    using assms[OF heap_wait_lock_locks[OF Some]] by (simp add: heap_extend_def Let_def)
  then show ?thesis using Some by (simp add: heap_alloc_def Let_def cong del: if_weak_cong)
qed (simp add: heap_alloc_def)

section \<open>Properties\<close>

text \<open>C21. Mapping, before the heap exists: if the page of \<open>vaddr\<close> is mapped, \<^verbatim>\<open>page_map\<close>
  returns false and changes nothing. Otherwise it returns true, the processor now translates
  exactly that page to the frame of \<open>paddr\<close>, and every other page as before; new tables are
  fresh, the tables still form a tree, and the allocator has room for what is left.\<close>

theorem page_map_updates:
  assumes room: "place_room s T (3 + k)" and inv: "pt_inv s T"
  shows "case mmu s vaddr of
      Some p \<Rightarrow> page_map (table_al n) s paddr vaddr = Some (s, False)
    | None \<Rightarrow> \<exists>s' T'. page_map (table_al n) s paddr vaddr = Some (s', True) \<and>
        T \<subseteq> T' \<and> pt_inv s' T' \<and> place_room s' T' k \<and> cr3 s' = cr3 s \<and>
        (\<forall>va. mmu s' va = (if vpage va = vpage vaddr then Some (paddr AND PAGE_FRAME_MASK) else mmu s va))"
proof (cases "mmu s vaddr")
  case None
  obtain s' N where "page_id_map (table_al n) s paddr vaddr False = Some (s', True)"
    "place_room s' (T \<union> N) k" "pt_inv s' (T \<union> N)" "cr3 s' = cr3 s"
    "\<forall>va. mmu s' va = (if vpage va = vpage vaddr then Some (paddr AND PAGE_FRAME_MASK) else mmu s va)"
    using pt.page_id_map_new[OF pt.room_missing[OF room] inv None, of n paddr False] by blast
  then show ?thesis
    unfolding page_map_def None option.case by (intro exI[of _ s'] exI[of _ "T \<union> N"]) simp
qed (simp add: page_map_def page_id_map_old)

definition boot_state :: page_state where
  "boot_state = \<lparr>ram = (\<lambda>_. 0), heap_var = 0, placement_addr = 0x100000, cr3 = 0x1000, pml4_var = 0,
     total_mem = 0, available_mem = 0, page_list = (\<lambda>_. 0), page_tree = 0\<rparr>"

lemma boot_state_facts:
  "place_room boot_state {0x1000} 512" "pt_inv boot_state {0x1000}" "mmu boot_state va = None"
proof -
  have ok: "frame_ok 0x1000" by (rule frame_okI) simp_all
  have "PAGE_SIZE_ALIGN 0x100000 = 0x100000" by (simp add: PAGE_SIZE_ALIGN_def)
  then show "place_room boot_state {0x1000} 512" using ok by (simp add: place_room_def boot_state_def)
  have z: "ram boot_state x = 0" for x by (simp add: boot_state_def)
  have c: "cr3 boot_state = 0x1000" by (simp add: boot_state_def)
  show "pt_inv boot_state {0x1000}" unfolding pt_inv_def c
    using zero_table(1,2)[of "0x1000" "ram boot_state" 3, OF z] ok by simp
  show "mmu boot_state va = None" unfolding mmu_def using zero_table(3)[of _ "ram boot_state", OF z] by simp
qed

theorem page_map_updates_witness:
  "\<exists>s'. page_map (table_al 1) boot_state 0x300000 0x400123 = Some (s', True) \<and>
     mmu s' 0x400FFF = Some 0x300000 \<and> mmu s' 0x401000 = None"
proof -
  have room: "place_room boot_state {0x1000} (3 + 509)" using boot_state_facts(1) by simp
  have "vpage 0x400FFF = vpage 0x400123" "vpage 0x401000 \<noteq> vpage 0x400123"
    "(0x300000 :: u64) AND PAGE_FRAME_MASK = 0x300000"
    by (simp_all add: vpage_def PAGE_FRAME_MASK_def drop_bit_eq_div take_bit_eq_mod)
  with page_map_updates[OF room boot_state_facts(2), of 1 "0x300000" "0x400123"] boot_state_facts(3)
  show ?thesis by auto
qed

text \<open>The recursion between heap and page allocator: the depth at which the nested
  allocation is cut off does not matter once it is at least one.\<close>

theorem mem_alloc_fuel:
  "mem_alloc_align (Suc n) sz s = mem_alloc_align (Suc k) sz s \<and> mem_alloc n sz s = mem_alloc k sz s"
proof (cases "heap_var s = 0")
  case True
  then show ?thesis by (simp add: mem_alloc_def)
next
  case False
  have "heap_alloc (heap_pa n s) (ram s) (heap_var s) sz al = heap_alloc (heap_pa k s) (ram s) (heap_var s) sz al" for al
    by (rule heap_alloc_cong) (rule heap_pages_locked[OF False])
  then show ?thesis using False by (simp add: mem_alloc_def)
qed

text \<open>C22. Growing the heap into an address range without a page table never returns:
  \<^verbatim>\<open>heap_alloc\<close> holds the heap lock while \<^verbatim>\<open>page_alloc\<close> asks the same heap for
  the table.\<close>

theorem heap_growth_deadlock:
  assumes h: "heap_var s \<noteq> 0" and sz: "sz > 0"
    and m1: "m1 = store64 (ram s) (heap_var s + 24) (load64 (ram s) (heap_var s + 24) OR 1)"
    and full: "heap_search m1 (heap_var s) (HEAP_BSIZE (HEAP_SIZE_ALIGN sz)) al = Some 0"
    and no_table: "walk 3 m1 (cr3 s) (end_addr m1 (heap_var s)) = None"
  shows "(if al then mem_alloc_align n sz s else mem_alloc n sz s) = None"
proof -
  let ?v = "end_addr m1 (heap_var s)" and ?s = "s\<lparr>ram := m1\<rparr>"
  have A: "heap_alloc (heap_pa k s) (ram s) (heap_var s) sz al = None" for k
  proof (cases "heap_locked (ram s) (heap_var s)")
    case True
    then show ?thesis using heap_wait_lock_locked by (simp add: heap_alloc_def)
  next
    case False
    then have w: "heap_wait_lock (ram s) (heap_var s) = Some m1" using heap_wait_lock_free m1 by simp
    have "table_al k ?s = None"
      by (rule table_al_locked) (use h heap_wait_lock_locks[OF w] in simp_all)
    moreover have "walk 3 (ram ?s) (cr3 s) (PAGE_CANONICAL (PAGE_ALIGN ?v)) = None"
      using no_table walk_same_idx[of 3 ?v "PAGE_CANONICAL (PAGE_ALIGN ?v)" m1 "cr3 s"]
        same_idx_vpage[of ?v "PAGE_CANONICAL (PAGE_ALIGN ?v)"] by simp
    ultimately have "page_map (table_al k) ?s ?v ?v = None"
      using id_map_loop_stuck[of "table_al k" ?s 3 "cr3 s" "PAGE_CANONICAL (PAGE_ALIGN ?v)"]
      by (simp add: page_map_def page_id_map_def Let_def)
    then have "heap_extend (heap_pa k s) m1 (heap_var s) b = None" for b
      using page_resolve_no_table[of ?s ?v] no_table by (simp add: heap_extend_def heap_pages_def page_alloc_def Let_def)
    then show ?thesis using w sz full by (simp add: heap_alloc_def Let_def)
  qed
  then show ?thesis using h by (cases al; cases n) (simp_all add: mem_alloc_def in_heap_def)
qed

theorem heap_growth_deadlock_witness:
  "mem_alloc 5 2000 (boot_state\<lparr>heap_var := 0x10000\<rparr>) = None"
proof -
  let ?s = "boot_state\<lparr>heap_var := 0x10000\<rparr>"
  define m1 where "m1 = store64 (ram ?s) (heap_var ?s + 24) (load64 (ram ?s) (heap_var ?s + 24) OR 1)"
  have m1_eq: "m1 = store64 (\<lambda>_. 0) 0x10018 1" by (simp add: m1_def boot_state_def)
  have "apart (tree_slot 0x10000) 0x10018" by (simp add: tree_slot_def free_slot_def apart_def)
  then have "load64 m1 (tree_slot 0x10000) = 0" by (simp add: m1_eq frame)
  moreover have b: "HEAP_BSIZE (HEAP_SIZE_ALIGN 2000) = 2032"
    by (simp add: HEAP_BSIZE_def HEAP_SIZE_ALIGN_def)
  ultimately have full: "heap_search m1 (heap_var ?s) (HEAP_BSIZE (HEAP_SIZE_ALIGN 2000)) False = Some 0"
    by (simp add: b heap_search_def HEAP_SIZE_IDX_large heap_tree_search_def)
  have z: "m1 x = 0" if "x \<in> addrs 0x1000 4096" for x
  proof -
    have "addrs 0x1000 4096 \<inter> addrs 0x10018 8 = {}" by (rule addrs_disjointI) simp_all
    then have "x \<notin> addrs 0x10018 8" using that by blast
    then show ?thesis by (simp add: m1_eq frame)
  qed
  have "walk 3 m1 (cr3 ?s) va = None" for va
  proof -
    have "\<not> pm_present m1 0x1000 (PAGE_PML_IDX va 4)" by (rule zero_entry_load[OF z idx_bound])
    then have "walk (Suc 2) m1 0x1000 va = None" unfolding walk.simps by (simp add: Let_def)
    then show ?thesis by (simp add: boot_state_def)
  qed
  with heap_growth_deadlock[OF _ _ m1_def full, of 5] show ?thesis by (simp add: boot_state_def)
qed

end
