(* ===== verification/MemoryHeap.thy ===== *)
theory MemoryHeap
  imports HeapContract Memory LibLemmas
begin

text \<open>
  The contract of the heap seen from its clients: writes inside the payloads of used blocks keep
  it, and the allocator of \<^verbatim>\<open>memory.c\<close> hands out erased payloads.
\<close>

section \<open>Clients write in their payloads\<close>

definition payload_bytes :: "run \<Rightarrow> u64 set" where
  "payload_bytes B = {x. \<exists>b s. B b = Some (s, True) \<and> x \<in> addrs (b + 16) (unat s - 32)}"

lemma payload_in:
  assumes ok: "run_ok heap e B" and b: "B b = Some (s, u)"
  shows "addrs (b + 16) (unat s - 32) \<subseteq> addrs b (unat s)" "addrs (b + 16) (unat s - 32) \<inter> tag_bytes b s = {}"
proof -
  note bb = run_bounds[OF ok b]
  have u: "unat (b + 16) = unat b + 16" "unat (b + (s - 16)) = unat b + unat s - 16"
    using bb by (simp_all add: unat_word_ariths unat_sub word_le_nat_alt)
  show "addrs (b + 16) (unat s - 32) \<subseteq> addrs b (unat s)"
    using addrs_sub[of b 16 "unat s - 32"] addrs_mono[of "16 + (unat s - 32)" "unat s" b] bb(2) by auto
  have "addrs b 16 \<inter> addrs (b + 16) (unat s - 32) = {}"
    by (rule addrs_disjointI(1)) (use u bb in auto)
  moreover have "addrs (b + 16) (unat s - 32) \<inter> addrs (b + (s - 16)) 16 = {}"
    by (rule addrs_disjointI(1)) (use u bb in auto)
  ultimately show "addrs (b + 16) (unat s - 32) \<inter> tag_bytes b s = {}" unfolding tag_bytes_def by blast
qed

lemma heap_ok_payload:
  assumes ok: "heap_ok m heap B" and w: "within (payload_bytes B) m m'"
  shows "heap_ok m' heap B"
proof -
  let ?e = "end_addr m heap"
  have D: "\<not> heap_locked m heap" "start_addr m heap = heap + 544" "run_ok heap ?e B" "tagged m B"
    "free_ok m heap (free_set B)" using ok by (simp_all add: heap_ok_def)
  have ext: "addrs c (unat t) \<inter> addrs (b + 16) (unat s - 32) = {}"
    if "B b = Some (s, True)" "B c = Some (t, v)" "c \<noteq> b" for b s c t v
    using run_extents(1)[OF D(3) that(2,1,3)] payload_in(1)[OF D(3) that(1)] by blast
  have free: "addrs c (unat t) \<inter> payload_bytes B = {}" if c: "B c = Some (t, False)" for c t
    using ext[OF _ c] c unfolding payload_bytes_def by fastforce
  have hd: "addrs heap 544 \<inter> payload_bytes B = {}"
    using run_extents(2)[OF D(3)] payload_in(1)[OF D(3)] unfolding payload_bytes_def by fast
  have sub: "addrs heap 8 \<subseteq> addrs heap 544" "addrs (heap + 8) 8 \<subseteq> addrs heap 544" "addrs (heap + 24) 8 \<subseteq> addrs heap 544"
    "addrs (heap + 32) 512 \<subseteq> addrs heap 544"
    using addrs_mono[of 8 544 heap] addrs_sub[of heap 8 8] addrs_mono[of 16 544 heap]
      heap_parts(1)[OF run_top[OF D(3)]] slot_sub(2)[OF run_top[OF D(3)], of 0] by auto
  have l: "load64 m' heap = load64 m heap" "load64 m' (heap + 8) = load64 m (heap + 8)" "load64 m' (heap + 24) = load64 m (heap + 24)"
    by (rule within_load[OF w]; use sub hd in blast)+
  have tg: "tagged m' B"
  proof (rule tagged_keep[OF D(3,4) w])
    show "tag_bytes b s \<inter> payload_bytes B = {}" if b: "B b = Some (s, u)" for b s u
    proof -
      have t: "tag_bytes b s \<subseteq> addrs b (unat s)" using tags_in(1)[of s b] run_bounds(2)[OF D(3) b] by simp
      have "tag_bytes b s \<inter> addrs (c + 16) (unat t - 32) = {}" if c: "B c = Some (t, True)" for c t
      proof (cases "c = b")
        case True
        then have "t = s" using b c by simp
        then show ?thesis using payload_in(2)[OF D(3) b] True by blast
      next
        case False then show ?thesis using ext[OF c b] t by blast
      qed
      then show ?thesis unfolding payload_bytes_def by blast
    qed
  qed
  have fr: "free_ok m' heap (free_set B)"
  proof (rule free_ok_cong[OF D(5)])
    show "m' x = m x" if "x \<in> addrs (heap + 32) 512" for x
      using that sub(4) hd w unfolding within_def by blast
    show "m' x = m x" if aF: "a \<in> free_set B" "x \<in> addrs a 48" for a x
    proof -
      obtain s where a: "B a = Some (s, False)" using aF(1) unfolding free_set_def by blast
      show ?thesis using free[OF a] run_cell[OF D(3) a] aF(2) w unfolding within_def by blast
    qed
  qed
  show ?thesis using D tg fr l by (simp add: heap_ok_def heap_locked_def start_addr_def end_addr_def)
qed

section \<open>The memory allocator on the heap\<close>

lemma alloc_size_used:
  assumes ok: "heap_ok m heap B" and b: "B b = Some (s, True)"
  shows "heap_alloc_size m (HEAP_GET_PAYLOAD b) = s - 32" "HEAP_GET_PAYLOAD b \<noteq> 0"
proof -
  have D: "run_ok heap (end_addr m heap) B" "tagged m B" using ok by (simp_all add: heap_ok_def)
  have blk: "block m b s" using D(2) b by (simp add: tagged_def)
  have "unat (b + 16) = unat b + 16" using run_bounds(2,5)[OF D(1) b] by (simp add: unat_word_ariths)
  then show nz: "HEAP_GET_PAYLOAD b \<noteq> 0" unfolding HEAP_GET_PAYLOAD_def by (metis add_is_0 unat_0 zero_neq_numeral)
  show "heap_alloc_size m (HEAP_GET_PAYLOAD b) = s - 32"
    using nz blk run_bounds(3)[OF D(1) b]
    by (simp add: heap_alloc_size_def HEAP_PAYLOAD_HEADER_def HEAP_GET_PAYLOAD_def block_def HEAP_PSIZE_def)
qed

lemma run_alloc_used:
  assumes b: "B b = Some (s, False)" and n: "48 \<le> n" "n \<le> s"
  shows "\<exists>t. run_alloc B b n b = Some (t, True) \<and> n \<le> t"
proof -
  have "b + n \<noteq> b" using n(1) by auto
  then show ?thesis using n(2) by (auto simp: run_alloc_eq[of B, OF b n(1)])
qed


text \<open>The loader's heap: one page at the placement address.\<close>

lemma mem_init_heap_ok:
  assumes "unat (placement_addr s) + 4096 < 2 ^ 64"
  shows "\<exists>s'. mem_init_heap max_size s = Some s' \<and> heap_var s' = placement_addr s \<and> placement_addr s' = INIT_MEM \<and>
    heap_ok (ram s') (heap_var s') (fresh_run (placement_addr s) 0x1000)"
proof -
  have al: "HEAP_ALIGN (0x1000 :: u64) = 0x1000" by (simp add: HEAP_ALIGN_def)
  from create_ok[of "placement_addr s" "0x1000" "ram s" max_size] assms al show ?thesis
    by (auto simp: mem_init_heap_def)
qed


end
