(* ===== verification/HeapListing.thy ===== *)
theory HeapListing
  imports MemoryHeap
begin

text \<open>
  The diagnostic listing of the heap, \<^verbatim>\<open>heap_list\<close>, which is compiled when
  \<^verbatim>\<open>DEBUG\<close> is 1. Its output is the list of its calls of \<^verbatim>\<open>debug_print\<close>; the walks
  along blocks and links need not end and return an option.
\<close>

section \<open>Messages\<close>

text \<open>A call of \<^verbatim>\<open>debug_print\<close>: colour, format, arguments.\<close>

datatype print_arg = Num u64 | Str string | Chars "u8 list"

type_synonym message = "u8 \<times> string \<times> print_arg list"

abbreviation (input) DC_WB :: u8 where "DC_WB \<equiv> 0xF0"
abbreviation (input) DC_BW :: u8 where "DC_BW \<equiv> 0x0F"
abbreviation (input) DC_WDG :: u8 where "DC_WDG \<equiv> 0xF8"
abbreviation (input) DC_WBL :: u8 where "DC_WBL \<equiv> 0xF1"
abbreviation (input) DC_WGR :: u8 where "DC_WGR \<equiv> 0xF2"

section \<open>The listing\<close>

partial_function (option) list_blocks :: "mem \<Rightarrow> u64 \<Rightarrow> message list option" where
  "list_blocks m b =
     (if HEAP_CHECK_HEADER m b then
        do { r \<leftarrow> list_blocks m (HEAP_RIGHT_HEADER m b);
             Some ((DC_WB, ''    Block @%x (size: %d, used: %d)'',
               [Num b, Num (HEAP_GET_SIZE m b), Num (HEAP_GET_USED m b)]) # r) }
      else Some [])"

partial_function (option) count_items :: "mem \<Rightarrow> u64 \<Rightarrow> u64 \<Rightarrow> u64 option" where
  "count_items m item n =
     (if next_block m item \<noteq> 0 then count_items m (next_block m item) (n + 1) else Some n)"

definition list_slot :: "mem \<Rightarrow> u64 \<Rightarrow> nat \<Rightarrow> message list option" where
  "list_slot m heap i =
     (let root = load64 m (free_slot heap (int i)) in
      if root \<noteq> 0 then
        do { n \<leftarrow> count_items m root 1;
             Some [(DC_WBL, ''List %d'', [Num (of_nat i)]), (DC_WDG, ''    root item @%x'', [Num root]),
               (DC_WDG, ''    total items %d'', [Num n])] }
      else Some [])"

primrec list_slots :: "nat list \<Rightarrow> mem \<Rightarrow> u64 \<Rightarrow> message list option" where
  "list_slots [] m heap = Some []"
| "list_slots (i # is) m heap = do { a \<leftarrow> list_slot m heap i; r \<leftarrow> list_slots is m heap; Some (a @ r) }"

partial_function (option) list_smaller :: "mem \<Rightarrow> u64 \<Rightarrow> message list option" where
  "list_smaller m node =
     (if smaller_block m node \<noteq> 0 then
        let node = smaller_block m node
        in do { r \<leftarrow> list_smaller m node;
                Some ((DC_WDG, ''    s-node @%x size %d'', [Num node, Num (load64 m (node + 8))]) # r) }
      else Some [])"

partial_function (option) list_larger :: "mem \<Rightarrow> u64 \<Rightarrow> message list option" where
  "list_larger m node =
     (if larger_block m node \<noteq> 0 then
        let node = larger_block m node
        in do { r \<leftarrow> list_larger m node;
                Some ((DC_WDG, ''    l-node @%x size %d'', [Num node, Num (load64 m (node + 8))]) # r) }
      else Some [])"

definition list_tree :: "mem \<Rightarrow> u64 \<Rightarrow> message list option" where
  "list_tree m heap =
     (let tree = load64 m (tree_slot heap) in
      if tree \<noteq> 0 then
        do { s \<leftarrow> list_smaller m tree;
             l \<leftarrow> list_larger m tree;
             Some ((DC_WBL, ''Tree root @%x size %d'', [Num tree, Num (HEAP_GET_SIZE m tree)]) # s @ l) }
      else Some [])"

definition heap_list :: "mem \<Rightarrow> u64 \<Rightarrow> message list option" where
  "heap_list m heap =
     (let block = start_addr m heap + SIZEOF_HEAP_T in
      do { bs \<leftarrow> list_blocks m block;
           ls \<leftarrow> list_slots [0..<HEAP_LIST_COUNT] m heap;
           ts \<leftarrow> list_tree m heap;
           Some ((DC_WB, ''Heap start @%x end %x'', [Num block, Num (end_addr m heap)]) # bs @ ls @ ts) })"

section \<open>The walks\<close>

lemma count_items_dll:
  assumes "dll (next_block m) (prev_block m) h (ys @ b # zs)"
  shows "count_items m b n = Some (n + of_nat (length zs))"
  using assms
proof (induction zs arbitrary: ys b n)
  case Nil
  have "next_block m b = 0" using dll_next[OF Nil] by simp
  then show ?case by (subst count_items.simps) simp
next
  case (Cons z zs)
  have nx: "next_block m b = z" using dll_next[OF Cons.prems] by simp
  have "z \<noteq> 0" using dll_nonzero[OF Cons.prems] by auto
  moreover have "count_items m z (n + 1) = Some (n + 1 + of_nat (length zs))"
    by (rule Cons.IH[of "ys @ [b]"]) (use Cons.prems in simp)
  ultimately show ?case using nx by (subst count_items.simps) simp
qed

lemma list_larger_dll:
  assumes "dll (larger_block m) (smaller_block m) h (ys @ b # zs)"
  shows "list_larger m b = Some (map (\<lambda>z. (DC_WDG, ''    l-node @%x size %d'', [Num z, Num (load64 m (z + 8))])) zs)"
  using assms
proof (induction zs arbitrary: ys b)
  case Nil
  have "larger_block m b = 0" using dll_next[OF Nil] by simp
  then show ?case by (subst list_larger.simps) simp
next
  case (Cons z zs)
  have nx: "larger_block m b = z" using dll_next[OF Cons.prems] by simp
  have "z \<noteq> 0" using dll_nonzero[OF Cons.prems] by auto
  moreover have "list_larger m z = Some (map (\<lambda>z. (DC_WDG, ''    l-node @%x size %d'', [Num z, Num (load64 m (z + 8))])) zs)"
    by (rule Cons.IH[of "ys @ [b]"]) (use Cons.prems in simp)
  ultimately show ?case using nx by (subst list_larger.simps) simp
qed

lemma list_smaller_dll:
  assumes "dll (larger_block m) (smaller_block m) h (ys @ b # zs)"
  shows "list_smaller m b = Some (map (\<lambda>z. (DC_WDG, ''    s-node @%x size %d'', [Num z, Num (load64 m (z + 8))])) (rev ys))"
  using assms
proof (induction ys arbitrary: b zs rule: rev_induct)
  case Nil
  have "smaller_block m b = 0" using dll_prev[OF Nil] by simp
  then show ?case by (subst list_smaller.simps) simp
next
  case (snoc y ys)
  have nx: "smaller_block m b = y" using dll_prev[OF snoc.prems] by simp
  have "y \<noteq> 0" using dll_nonzero[OF snoc.prems] by auto
  moreover have "list_smaller m y = Some (map (\<lambda>z. (DC_WDG, ''    s-node @%x size %d'', [Num z, Num (load64 m (z + 8))])) (rev ys))"
    by (rule snoc.IH[of y "b # zs"]) (use snoc.prems in simp)
  ultimately show ?case using nx by (subst list_smaller.simps) simp
qed

definition reports_block :: "message \<Rightarrow> bool" where
  "reports_block msg \<longleftrightarrow> fst (snd msg) = ''    Block @%x (size: %d, used: %d)''"

text \<open>The free blocks of one list.\<close>

definition of_index :: "run \<Rightarrow> nat \<Rightarrow> u64 set" where
  "of_index B i = {b. \<exists>s. B b = Some (s, False) \<and> small s \<and> size_idx s = i}"

definition slot_report :: "mem \<Rightarrow> u64 \<Rightarrow> run \<Rightarrow> nat \<Rightarrow> message list" where
  "slot_report m heap B i =
     (if of_index B i = {} then []
      else [(DC_WBL, ''List %d'', [Num (of_nat i)]),
            (DC_WDG, ''    root item @%x'', [Num (load64 m (free_slot heap (int i)))]),
            (DC_WDG, ''    total items %d'', [Num (of_nat (card (of_index B i)))])])"

lemma list_slot_report:
  assumes ok: "heap_ok m heap B" and i: "i < 63"
  shows "list_slot m heap i = Some (slot_report m heap B i)"
proof -
  have D: "run_ok heap (end_addr m heap) B" "tagged m B" "free_ok m heap (free_set B)" using ok by (simp_all add: heap_ok_def)
  let ?h = "free_slot heap (int i)" and ?r = "load64 m (free_slot heap (int i))"
  obtain L where L: "free_lists m heap L"
    and Ls: "\<And>h. h \<in> slots heap \<Longrightarrow> set (L h) = {b \<in> free_set B. small (HEAP_GET_SIZE m b) \<and> slot_of m heap b = h}"
    by (rule free_okE[OF D(3)]) blast
  have h: "?h \<in> slots heap" using slot_in[of "int i"] i by simp
  have d: "dll (next_block m) (prev_block m) ?r (L ?h)" "distinct (L ?h)" using L h by (auto simp: free_lists_def)
  have idx: "slot_of m heap x = ?h \<longleftrightarrow> size_idx (HEAP_GET_SIZE m x) = i" if "small (HEAP_GET_SIZE m x)" for x
    using slot_of_eq[OF that] slot_inj[OF run_top[OF D(1)]] size_idx_small[OF that] i by simp
  have "b \<in> set (L ?h) \<longleftrightarrow> b \<in> of_index B i" for b
    unfolding Ls[OF h] of_index_def free_set_def mem_Collect_eq using idx tagged_size[OF D(2)] by blast
  then have set: "of_index B i = set (L ?h)" by blast
  show ?thesis
  proof (cases "L ?h")
    case Nil
    then have "?r = 0" using d(1) by (simp add: dll_Nil)
    then show ?thesis using set Nil by (simp add: list_slot_def slot_report_def)
  next
    case (Cons b bs)
    then have r: "?r = b" using d(1) by (auto dest: dll_head)
    have "b \<noteq> 0" using dll_nonzero[OF d(1)] Cons by auto
    moreover have "count_items m b 1 = Some (1 + of_nat (length bs))"
      using count_items_dll[of m ?r "[]" b bs] d(1) Cons by simp
    moreover have "card (of_index B i) = Suc (length bs)" unfolding set using distinct_card[OF d(2)] Cons by simp
    ultimately show ?thesis using r set Cons by (simp add: list_slot_def slot_report_def)
  qed
qed

lemma list_slots_report:
  assumes ok: "heap_ok m heap B" and "set is \<subseteq> {..<63}"
  shows "list_slots is m heap = Some (concat (map (slot_report m heap B) is))"
  using assms(2) by (induction "is") (simp_all add: list_slot_report[OF ok])

lemma list_tree_returns:
  assumes ok: "heap_ok m heap B"
  shows "\<exists>ts. list_tree m heap = Some ts \<and> (\<forall>msg\<in>set ts. \<not> reports_block msg)"
proof (cases "load64 m (tree_slot heap) = 0")
  case True then show ?thesis by (simp add: list_tree_def)
next
  case False
  have "free_ok m heap (free_set B)" using ok by (simp add: heap_ok_def)
  then obtain xs ch where T: "tree_rep m (tree_slot heap) xs ch" by (auto elim: free_okE)
  then have "load64 m (tree_slot heap) \<in> set xs" using False by (auto simp: tree_rep_def split: if_splits)
  from split_list[OF this] obtain ys zs where xs: "xs = ys @ load64 m (tree_slot heap) # zs" by blast
  have "dll (larger_block m) (smaller_block m) (hd xs) xs"
    using tree_repD(3)[OF T \<open>load64 m (tree_slot heap) \<in> set xs\<close>] .
  then have d: "dll (larger_block m) (smaller_block m) (hd xs) (ys @ load64 m (tree_slot heap) # zs)" using xs by simp
  show ?thesis using False list_smaller_dll[OF d] list_larger_dll[OF d] by (auto simp: list_tree_def Let_def reports_block_def)
qed

section \<open>Properties\<close>



end
