(* ===== verification/Results.thy ===== *)
theory Results
  imports Prelude
begin

text \<open>
  Computations of the drivers: \<open>None\<close> is "does not return", \<open>Some (Inl e)\<close> an access
  outside an array or another error, \<open>Some (Inr x)\<close> a result. \<open>rbind\<close> runs one after the
  other, \<open>each\<close> is a \<^verbatim>\<open>for\<close> loop over a list of indices.
\<close>

type_synonym 'a result = "(c_error + 'a) option"

definition ret :: "'a \<Rightarrow> 'a result" where
  "ret x = Some (Inr x)"

definition fail :: "c_error \<Rightarrow> 'a result" where
  "fail e = Some (Inl e)"

definition rbind :: "'a result \<Rightarrow> ('a \<Rightarrow> 'b result) \<Rightarrow> 'b result" where
  "rbind r f = Option.bind r (case_sum (\<lambda>e. Some (Inl e)) f)"

definition from_option :: "'a option \<Rightarrow> 'a result" where
  "from_option r = map_option Inr r"

primrec each :: "('a \<Rightarrow> 's \<Rightarrow> 's result) \<Rightarrow> 'a list \<Rightarrow> 's \<Rightarrow> 's result" where
  "each f [] s = ret s"
| "each f (x # xs) s = rbind (f x s) (each f xs)"

lemma rbind_simps [simp]:
  "rbind None f = None" "rbind (ret x) f = f x" "rbind (fail e) f = fail e"
  "rbind (Some (Inr x)) f = f x" "rbind (Some (Inl e)) f = fail e"
  by (simp_all add: rbind_def ret_def fail_def)

lemma rbind_cases:
  fixes r :: "'a result"
  obtains "r = None" | e where "r = fail e" | x where "r = ret x"
proof (cases r)
  case (Some y)
  then show ?thesis using that by (cases y) (auto simp: ret_def fail_def)
qed (use that in simp)

lemma rbind_ret [simp]: "rbind r ret = r"
  by (cases r rule: rbind_cases) simp_all

lemma rbind_assoc: "rbind (rbind r f) g = rbind r (\<lambda>x. rbind (f x) g)"
  by (cases r rule: rbind_cases) simp_all

text \<open>Loops that need not end are \<^theory_text>\<open>partial_function (option)\<close>; the two
  combinators are monotone in their computations.\<close>

lemma rbind_mono [partial_function_mono]:
  assumes f: "mono_option B" and g: "\<And>y. mono_option (\<lambda>f. C y f)"
  shows "mono_option (\<lambda>f. rbind (B f) (\<lambda>y. C y f))"
proof -
  have "mono_option (\<lambda>f. case_sum (\<lambda>e. Some (Inl e)) (\<lambda>y. C y f) z)" for z
    using g by (cases z) (simp_all add: monotone_def flat_ord_def)
  then show ?thesis unfolding rbind_def by (intro bind_mono f)
qed

lemma ret_inject [simp]: "ret x = ret y \<longleftrightarrow> x = y" "ret x \<noteq> fail e" "ret x \<noteq> None" "None \<noteq> ret x"
  by (simp_all add: ret_def fail_def)

lemma from_option_simps [simp]: "from_option (Some x) = ret x" "from_option None = None"
  by (simp_all add: from_option_def ret_def)

lemma each_append: "each f (xs @ ys) s = rbind (each f xs s) (each f ys)"
proof (induction xs arbitrary: s)
  case (Cons x xs)
  then have "each f (xs @ ys) = (\<lambda>s. rbind (each f xs s) (each f ys))" by (rule ext)
  then show ?case by (simp add: rbind_assoc)
qed simp

text \<open>A loop whose steps all succeed and have the effect \<open>g\<close>.\<close>

lemma each_fold:
  assumes "\<And>x s. x \<in> set xs \<Longrightarrow> I s \<Longrightarrow> f x s = ret (g x s) \<and> I (g x s)" "I s"
  shows "each f xs s = ret (fold g xs s) \<and> I (fold g xs s)"
  using assms by (induction xs arbitrary: s) auto

end
