(* ===== verification/Timer.thy ===== *)
theory Timer
  imports Interrupts
begin

text \<open>
  \<^verbatim>\<open>pit.c\<close> and \<^verbatim>\<open>sleep.c\<close>: the programmable interval timer, its tick counter and
  the two busy waits. A wait may last forever: those functions return an option. Timer
  interrupts that arrive while \<^verbatim>\<open>sleep\<close> polls are the parameter \<open>irqs\<close>, the
  register frames of those taken before each poll.
\<close>

section \<open>State and operations\<close>

record 'h pit_state = "'h int_state" +
  pit_counter :: u16
  pit_mode :: u8
  pit_ticks :: u64
  tick_update :: bool

abbreviation (input) PIT_CH0 :: u16 where "PIT_CH0 \<equiv> 0x40"
abbreviation (input) PIT_CMD :: u16 where "PIT_CMD \<equiv> 0x43"
abbreviation (input) PIT_CMD_LATCH :: u8 where "PIT_CMD_LATCH \<equiv> 0x30"
abbreviation (input) PIT_CMD_RELOAD :: u8 where "PIT_CMD_RELOAD \<equiv> 0x30"
abbreviation (input) PIT_MODE_RATE :: u8 where "PIT_MODE_RATE \<equiv> 0x02"
abbreviation (input) PIT_FREQ :: u64 where "PIT_FREQ \<equiv> 1193180"

definition pit_reset :: "('h, 'x) pit_state_scheme \<Rightarrow> ('h, 'x) pit_state_scheme" where
  "pit_reset s =
    (let cmd = PIT_CMD_RELOAD OR push_bit 1 (pit_mode s);
         s = snd (run_state (do {
           outb PIT_CMD cmd;
           outb PIT_CH0 (ucast (pit_counter s));
           outb PIT_CH0 (ucast (drop_bit 8 (pit_counter s))) }) s)
     in s\<lparr>pit_ticks := 0\<rparr>)"

definition pit_set :: "u16 \<Rightarrow> u8 \<Rightarrow> ('h, 'x) pit_state_scheme \<Rightarrow> ('h, 'x) pit_state_scheme" where
  "pit_set counter mode s =
    (let mode = mode AND 0x7;
         s = s\<lparr>pit_mode := mode, pit_counter := counter\<rparr>;
         s = (if pit_counter s = 0 then s\<lparr>pit_counter := 0xFFFF\<rparr> else s)
     in pit_reset s)"

text \<open>\<open>handler\<close> is the address of \<^verbatim>\<open>pit_handler\<close>.\<close>

definition pit_init :: "'h \<Rightarrow> u16 \<Rightarrow> ('h, 'x) pit_state_scheme \<Rightarrow> ('h, 'x) pit_state_scheme" where
  "pit_init handler counter s =
    (let s = s\<lparr>pit_counter := 0, pit_mode := 0, pit_ticks := 0, tick_update := False\<rparr>;
         s = pit_set counter PIT_MODE_RATE s
     in interrupt_reg_irq_handler 0 (Some handler) s)"

definition pit_current_count :: "device \<Rightarrow> ('h, 'x) pit_state_scheme \<Rightarrow> u16 \<times> ('h, 'x) pit_state_scheme" where
  "pit_current_count dev s = run_state (do { outb PIT_CMD PIT_CMD_LATCH; inw dev PIT_CH0 }) s"

definition pit_get_counter :: "('h, 'x) pit_state_scheme \<Rightarrow> u16" where
  "pit_get_counter s = pit_counter s"

definition pit_get_mode :: "('h, 'x) pit_state_scheme \<Rightarrow> u8" where
  "pit_get_mode s = pit_mode s"

partial_function (option) tick_wait :: "('h, 'x) pit_state_scheme \<Rightarrow> unit option" where
  "tick_wait s = (if tick_update s then tick_wait s else Some ())"

definition pit_get_ticks :: "('h, 'x) pit_state_scheme \<Rightarrow> (u64 \<times> ('h, 'x) pit_state_scheme) option" where
  "pit_get_ticks s = Option.bind (tick_wait s) (\<lambda>_.
     let s = interrupt_disable s;
         t = pit_ticks s;
         s = interrupt_enable s
     in Some (t, s))"

definition pit_handler :: "irq_stack \<Rightarrow> ('h, 'x) pit_state_scheme \<Rightarrow> u64 \<times> ('h, 'x) pit_state_scheme" where
  "pit_handler stack s =
    (let s = s\<lparr>tick_update := True\<rparr>;
         t = pit_ticks s;
         t = t + 1;
         s = s\<lparr>pit_ticks := t\<rparr>
     in (0, s\<lparr>tick_update := False\<rparr>))"

section \<open>The busy waits\<close>

partial_function (option) isleep_loop :: "u32 \<Rightarrow> u64 \<Rightarrow> unit option" where
  "isleep_loop x iter = (if ucast x < iter then isleep_loop (x + 1) iter else Some ())"

definition isleep :: "u64 \<Rightarrow> unit option" where
  "isleep iter = isleep_loop 1 iter"

definition take_ticks :: "irq_stack list \<Rightarrow> ('h, 'x) pit_state_scheme \<Rightarrow> ('h, 'x) pit_state_scheme" where
  "take_ticks stacks s = fold (\<lambda>stack s. snd (pit_handler stack s)) stacks s"

partial_function (option) sleep_loop ::
  "(nat \<Rightarrow> irq_stack list) \<Rightarrow> nat \<Rightarrow> u64 \<Rightarrow> u64 \<Rightarrow> ('h, 'x) pit_state_scheme \<Rightarrow> ('h, 'x) pit_state_scheme option" where
  "sleep_loop irqs k tick end_tick s =
     (if tick < end_tick
      then Option.bind (pit_get_ticks (take_ticks (irqs k) s)) (\<lambda>(tick, s).
             sleep_loop irqs (Suc k) tick end_tick s)
      else Some s)"

definition tick_count :: "u64 \<Rightarrow> u64 \<Rightarrow> u64" where
  "tick_count time counter =
    (let n = (time * PIT_FREQ) div (counter * 1000) in if n = 0 then 1 else n)"

definition sleep :: "(nat \<Rightarrow> irq_stack list) \<Rightarrow> u64 \<Rightarrow> ('h, 'x) pit_state_scheme \<Rightarrow> ('h, 'x) pit_state_scheme option" where
  "sleep irqs time s =
    (let counter = ucast (pit_get_counter s)
     in if counter > 0
        then Option.bind (pit_get_ticks s) (\<lambda>(tick_start, s).
               sleep_loop irqs 0 tick_start (tick_start + tick_count time counter) s)
        else Some s)"

section \<open>The timer as a state machine\<close>

text \<open>The steps between \<^verbatim>\<open>pit_init\<close> and any later point: a timer interrupt, taken only
  while interrupts are enabled, or one of the operations. \<open>n\<close> counts the interrupts since the
  counter was last reloaded.\<close>

inductive timer_reach :: "'h \<Rightarrow> nat \<Rightarrow> ('h, 'x) pit_state_scheme \<Rightarrow> bool" for handler where
  init: "timer_reach handler 0 (pit_init handler c s)"
| tick: "timer_reach handler n s \<Longrightarrow> cpu_if s \<Longrightarrow> timer_reach handler (Suc n) (snd (pit_handler stack s))"
| pset: "timer_reach handler n s \<Longrightarrow> timer_reach handler 0 (pit_set c m s)"
| reset: "timer_reach handler n s \<Longrightarrow> timer_reach handler 0 (pit_reset s)"
| ticks: "timer_reach handler n s \<Longrightarrow> pit_get_ticks s = Some (t, s') \<Longrightarrow> timer_reach handler n s'"
| disable: "timer_reach handler n s \<Longrightarrow> timer_reach handler n (interrupt_disable s)"
| enable: "timer_reach handler n s \<Longrightarrow> timer_reach handler n (interrupt_enable s)"

inductive_cases timer_reachE: "timer_reach handler n s"

lemma int_flag_fields [simp]:
  "pit_ticks (interrupt_disable s) = pit_ticks s" "tick_update (interrupt_disable s) = tick_update s"
  "pit_counter (interrupt_disable s) = pit_counter s"
  "pit_ticks (interrupt_enable s) = pit_ticks s" "tick_update (interrupt_enable s) = tick_update s"
  "pit_counter (interrupt_enable s) = pit_counter s" "int_enabled (interrupt_enable s)"
  by (simp_all add: interrupt_disable_def interrupt_enable_def)

lemma reg_irq_fields [simp]:
  "pit_ticks (interrupt_reg_irq_handler n h s) = pit_ticks s"
  "tick_update (interrupt_reg_irq_handler n h s) = tick_update s"
  "pit_counter (interrupt_reg_irq_handler n h s) = pit_counter s"
  by (simp_all add: interrupt_reg_irq_handler_def)

lemma pit_reset_fields [simp]:
  "pit_ticks (pit_reset s) = 0" "tick_update (pit_reset s) = tick_update s"
  "pit_counter (pit_reset s) = pit_counter s"
  by (simp_all add: pit_reset_def Let_def)

lemma pit_set_fields [simp]:
  "pit_ticks (pit_set c m s) = 0" "tick_update (pit_set c m s) = tick_update s"
  "pit_counter (pit_set c m s) \<noteq> 0"
  by (simp_all add: pit_set_def Let_def)

lemma pit_handler_fields [simp]:
  "pit_ticks (snd (pit_handler st s)) = pit_ticks s + 1" "\<not> tick_update (snd (pit_handler st s))"
  "pit_counter (snd (pit_handler st s)) = pit_counter s"
  by (simp_all add: pit_handler_def Let_def)

lemma pit_get_ticks_idle:
  "\<not> tick_update s \<Longrightarrow> pit_get_ticks s = Some (pit_ticks s, interrupt_enable (interrupt_disable s))"
  by (simp add: pit_get_ticks_def tick_wait.simps Let_def)

lemma timer_inv:
  "timer_reach handler n s \<Longrightarrow> \<not> tick_update s \<and> pit_ticks s = of_nat n \<and> pit_counter s \<noteq> 0"
proof (induction rule: timer_reach.induct)
  case (init c s)
  then show ?case by (simp add: pit_init_def Let_def)
next
  case (ticks n s t s')
  then show ?case by (auto simp: pit_get_ticks_idle)
next
  case (reset n s)
  then show ?case by simp
qed (simp_all add: add.commute)

lemma take_ticks_fields:
  "\<not> tick_update s \<Longrightarrow> pit_ticks (take_ticks l s) = pit_ticks s + of_nat (length l) \<and>
    \<not> tick_update (take_ticks l s)"
  by (induction l arbitrary: s) (auto simp: take_ticks_def)

lemma isleep_loop_ends: "iter < 2 ^ 32 \<Longrightarrow> isleep_loop x iter = Some ()"
proof (induction "unat iter - unat x" arbitrary: x rule: less_induct)
  case less
  have ux: "unat (ucast x :: u64) = unat x"
    using unsigned_less[where w = x and 'a = nat] by (simp add: unsigned_ucast_eq take_bit_nat_eq_self)
  show ?case
  proof (cases "ucast x < iter")
    case True
    then have lt: "unat x < unat iter" using ux by (simp add: word_less_nat_alt)
    moreover have "unat iter < 2 ^ 32" using less.prems by (simp add: word_less_nat_alt)
    ultimately have "unat (x + 1) = Suc (unat x)" by (simp add: unat_word_ariths)
    with lt have "unat iter - unat (x + 1) < unat iter - unat x" by simp
    then have "isleep_loop (x + 1) iter = Some ()" using less by blast
    with True show ?thesis by (subst isleep_loop.simps) simp
  qed (simp add: isleep_loop.simps)
qed

lemma isleep_loop_small:
  assumes "isleep_loop x iter = Some r"
  shows "iter < 2 ^ 32"
proof -
  have small: "iter < 2 ^ 32" if "\<not> ucast x < iter" for x :: u32 and iter :: u64
  proof -
    have "unat (ucast x :: u64) < 2 ^ 32"
      using unsigned_less[where w = x and 'a = nat] by (simp add: unsigned_ucast_eq take_bit_nat_eq_self)
    then have "(ucast x :: u64) < 2 ^ 32" by (simp add: word_less_nat_alt)
    with that show ?thesis by (meson le_less_trans not_less)
  qed
  have "(case (x, iter) of (x, iter) \<Rightarrow> (\<lambda>r. iter < 2 ^ 32)) r"
  proof (rule isleep_loop.raw_induct[where xa = "(x, iter)" and P = "\<lambda>x iter r. iter < 2 ^ 32"])
    fix loop :: "u32 \<Rightarrow> u64 \<Rightarrow> unit option" and x iter r
    assume IH: "\<And>x iter r. loop x iter = Some r \<Longrightarrow> iter < 2 ^ 32"
      and step: "(if ucast x < iter then loop (x + 1) iter else Some ()) = Some r"
    show "iter < 2 ^ 32"
      using step IH[of "x + 1" iter r] small[of x iter] by (cases "ucast x < iter") simp_all
  qed (simp add: assms)
  then show ?thesis by simp
qed

text \<open>Between two timer interrupts there are finitely many polls, and no poll misses more than one.\<close>

definition steady :: "(nat \<Rightarrow> irq_stack list) \<Rightarrow> bool" where
  "steady irqs \<longleftrightarrow> (\<forall>k. length (irqs k) \<le> 1) \<and> (\<forall>k. \<exists>j\<ge>k. length (irqs j) = 1)"

lemma sleep_loop_ends:
  assumes st: "steady irqs"
  shows "\<not> tick_update s \<Longrightarrow> pit_ticks s = tick \<Longrightarrow> tick \<le> end_tick \<Longrightarrow>
    \<exists>s'. sleep_loop irqs k tick end_tick s = Some s' \<and> pit_ticks s' = end_tick"
proof (induction "unat end_tick - unat tick" arbitrary: k tick s)
  case 0
  then have "unat tick = unat end_tick" by (simp add: word_le_nat_alt)
  then have "tick = end_tick" by (simp add: word_unat_eq_iff)
  with 0 show ?case by (simp add: sleep_loop.simps)
next
  case (Suc d)
  note outer = Suc
  then have lt: "tick < end_tick" by (simp add: word_less_nat_alt)
  obtain j where "k \<le> j" "length (irqs j) = 1" using st by (auto simp: steady_def)
  then show ?case using Suc.prems(1,2)
  proof (induction "j - k" arbitrary: k s rule: less_induct)
    case less
    let ?s = "interrupt_enable (interrupt_disable (take_ticks (irqs k) s))"
    have s: "\<not> tick_update ?s" "pit_ticks ?s = tick + of_nat (length (irqs k))"
      using take_ticks_fields[of s "irqs k"] less.prems by auto
    have step: "sleep_loop irqs k tick end_tick s = sleep_loop irqs (Suc k) (pit_ticks ?s) end_tick ?s"
      using lt take_ticks_fields[of s "irqs k"] less.prems
      by (subst sleep_loop.simps) (simp add: pit_get_ticks_idle)
    show ?case
    proof (cases "length (irqs k) = 1")
      case True
      have "unat (tick + 1) = Suc (unat tick)"
        using lt unat64_lt[of end_tick] by (simp add: unat_word_ariths word_less_nat_alt)
      with lt have "d = unat end_tick - unat (tick + 1)" "tick + 1 \<le> end_tick"
        using outer(2) by (simp_all add: word_le_nat_alt word_less_nat_alt)
      then show ?thesis using outer(1)[of "tick + 1" ?s "Suc k"] s True step by simp
    next
      case False
      then have z: "length (irqs k) = 0" using st unfolding steady_def by (metis le_neq_implies_less less_one)
      with less.prems False have "k \<noteq> j" by auto
      then have "j - Suc k < j - k" "Suc k \<le> j" using less.prems by auto
      then show ?thesis using less(1)[of "Suc k" ?s] less.prems s z step by simp
    qed
  qed
qed

section \<open>Properties\<close>

text \<open>C35. In every state the timer can reach, the wait in \<^verbatim>\<open>pit_get_ticks\<close> ends at once
  and the function returns the number of timer interrupts since the last reload (modulo
  \<open>2 ^ 64\<close>); it always leaves interrupts enabled, also when the caller had disabled them.\<close>

theorem pit_get_ticks_counts:
  assumes "timer_reach handler n s"
  shows "\<exists>s'. pit_get_ticks s = Some (of_nat n, s') \<and> int_enabled s' \<and> cpu_if s'"
  using timer_inv[OF assms]
  by (auto simp: pit_get_ticks_idle interrupt_enable_def interrupt_disable_def)

definition idle_timer :: "unit pit_state" where
  "idle_timer = int_state.extend idle_ints \<lparr>pit_counter = 0, pit_mode = 0, pit_ticks = 0, tick_update = False\<rparr>"

theorem pit_get_ticks_counts_witness:
  "\<exists>s'. pit_get_ticks (snd (pit_handler idle_stack (interrupt_enable (pit_init () 1193 idle_timer)))) = Some (1, s')"
proof -
  have "cpu_if (interrupt_enable (pit_init () 1193 idle_timer))"
    by (simp add: interrupt_enable_def pit_init_def pit_set_def pit_reset_def Let_def
        interrupt_reg_irq_handler_def idle_timer_def idle_ints_def int_state.defs)
  then have "timer_reach () (Suc 0) (snd (pit_handler idle_stack (interrupt_enable (pit_init () 1193 idle_timer))))"
    by (intro timer_reach.tick timer_reach.enable timer_reach.init)
  from pit_get_ticks_counts[OF this] show ?thesis by auto
qed

text \<open>\<^verbatim>\<open>isleep\<close> counts a 32-bit variable up to a 64-bit bound: it returns for
  every bound below \<open>2 ^ 32\<close> and never returns for any other.\<close>

theorem isleep_returns_iff:
  "isleep iter = Some () \<longleftrightarrow> iter < 2 ^ 32"
  unfolding isleep_def using isleep_loop_ends isleep_loop_small by blast

text \<open>C34. \<^verbatim>\<open>sleep\<close> returns and waits long enough: on a running timer whose interrupts
  keep arriving (at most one between two polls), a sleep of \<open>time\<close> ends exactly when
  \<open>time * PIT_FREQ / (counter * 1000)\<close> interrupts, and at least one, have passed, provided
  that neither the product nor the end of the wait overflows 64 bits.\<close>

theorem sleep_waits:
  assumes st: "steady irqs" and idle: "\<not> tick_update s" and run: "pit_counter s \<noteq> 0"
    and ov: "unat time * 1193180 < 2 ^ 64"
    and n: "n = max 1 (unat time * 1193180 div (unat (pit_counter s) * 1000))"
    and wrap: "unat (pit_ticks s) + n < 2 ^ 64"
  shows "\<exists>s'. sleep irqs time s = Some s' \<and> unat (pit_ticks s') = unat (pit_ticks s) + n"
proof -
  let ?c = "ucast (pit_counter s) :: u64"
  have uc: "unat ?c = unat (pit_counter s)"
    using unsigned_less[where w = "pit_counter s" and 'a = nat]
    by (simp add: unsigned_ucast_eq take_bit_nat_eq_self)
  have pos: "?c > 0" using run uc by (simp add: word_gt_0 unat_eq_0 [symmetric])
  have "unat (?c * 1000) = unat (pit_counter s) * 1000"
    using unsigned_less[where w = "pit_counter s" and 'a = nat] by (simp add: unat_word_ariths uc)
  moreover have "unat (time * PIT_FREQ) = unat time * 1193180"
    using ov by (simp add: unat_word_ariths)
  ultimately have q: "unat ((time * PIT_FREQ) div (?c * 1000)) = unat time * 1193180 div (unat (pit_counter s) * 1000)"
    by (simp only: unat_div)
  have tc: "unat (tick_count time ?c) = n"
  proof (cases "(time * PIT_FREQ) div (?c * 1000) = 0")
    case True
    then show ?thesis using q n unfolding tick_count_def Let_def by simp
  next
    case False
    then have "unat ((time * PIT_FREQ) div (?c * 1000)) \<noteq> 0" by (simp add: unat_eq_0)
    then show ?thesis using q n False unfolding tick_count_def Let_def by simp
  qed
  then have e: "unat (pit_ticks s + tick_count time ?c) = unat (pit_ticks s) + n"
    using wrap by (simp add: unat_word_ariths)
  let ?s = "interrupt_enable (interrupt_disable s)"
  have "pit_ticks s \<le> pit_ticks s + tick_count time ?c" using e by (simp add: word_le_nat_alt)
  from sleep_loop_ends[OF st _ _ this, of ?s 0] idle obtain s' where
    "sleep_loop irqs 0 (pit_ticks s) (pit_ticks s + tick_count time ?c) ?s = Some s'"
    "pit_ticks s' = pit_ticks s + tick_count time ?c" by auto
  then show ?thesis using pos idle e
    by (simp add: sleep_def pit_get_counter_def pit_get_ticks_idle Let_def)
qed

theorem sleep_waits_witness:
  "\<exists>s'. sleep (\<lambda>_. [idle_stack]) 50 (pit_init () 1193 idle_timer) = Some s' \<and> pit_ticks s' = 50"
proof -
  let ?s = "pit_init () 1193 idle_timer"
  have f: "\<not> tick_update ?s" "pit_counter ?s = 1193" "pit_ticks ?s = 0"
    by (simp_all add: pit_init_def pit_set_def Let_def)
  have "steady (\<lambda>_. [idle_stack])" by (auto simp: steady_def)
  from sleep_waits[OF this f(1), of 50] f obtain s' where
    "sleep (\<lambda>_. [idle_stack]) 50 ?s = Some s'" "unat (pit_ticks s') = 50" by auto
  moreover from this(2) have "pit_ticks s' = 50" by (simp add: word_unat_eq_iff)
  ultimately show ?thesis by blast
qed

end
