(* ===== verification/Pci.thy ===== *)
theory Pci
  imports Results Timer Memory
begin

text \<open>
  \<^verbatim>\<open>pci.c\<close> of the loader: configuration space access through the two ports, the
  recursive enumeration of buses, devices and functions, and the lookup of devices by class.
  The cache of found devices is kept as a list; the array behind it, 2048 bytes, holds 170
  entries of 12 bytes, so an entry with a larger index is an error. The nesting of bridges may
  be infinite: the enumeration takes the depth that is followed, \<open>None\<close> is "deeper".
\<close>

section \<open>State\<close>

record pci_header =
  vendor_id :: u16
  device_id :: u16
  command :: u16
  status :: u16
  revision_id :: u8
  prog_if :: u8
  subclass_id :: u8
  class_id :: u8
  cache_line_size :: u8
  latency_timer :: u8
  header_type :: u8
  bist :: u8

record pci_cache =
  c_address :: u32
  c_vendor_id :: u16
  c_device_id :: u16
  c_class_id :: u8
  c_subclass_id :: u8
  c_prog_if :: u8
  c_type :: u8

record 'h pci_state = "'h pit_state" +
  pages :: page_state
  cache_ptr :: u64
  cache :: "pci_cache list"
  cache_len :: u8

abbreviation (input) PCI_CONFIG_ADDRESS :: u16 where "PCI_CONFIG_ADDRESS \<equiv> 0x0CF8"
abbreviation (input) PCI_CONFIG_DATA :: u16 where "PCI_CONFIG_DATA \<equiv> 0x0CFC"
abbreviation (input) SIZEOF_PCI_HEADER :: u64 where "SIZEOF_PCI_HEADER \<equiv> 16"
abbreviation (input) SIZEOF_PCI_DEVICE :: u64 where "SIZEOF_PCI_DEVICE \<equiv> 64"

text \<open>2048 bytes, the size of 256 pointers, in entries of 12 bytes.\<close>

definition CACHE_ENTRIES :: nat where
  "CACHE_ENTRIES = 8 * 256 div 12"

section \<open>Addresses\<close>

text \<open>The bit fields of \<^verbatim>\<open>pci_addr_t\<close>.\<close>

definition set_field :: "nat \<Rightarrow> nat \<Rightarrow> u32 \<Rightarrow> u32 \<Rightarrow> u32" where
  "set_field pos len v w = (w AND NOT (push_bit pos (mask len))) OR push_bit pos (take_bit len v)"

definition set_reg :: "u32 \<Rightarrow> u32 \<Rightarrow> u32" where "set_reg v w = set_field 2 6 v w"
definition set_function :: "u32 \<Rightarrow> u32 \<Rightarrow> u32" where "set_function v w = set_field 8 3 v w"
definition set_device :: "u32 \<Rightarrow> u32 \<Rightarrow> u32" where "set_device v w = set_field 11 5 v w"
definition set_bus :: "u32 \<Rightarrow> u32 \<Rightarrow> u32" where "set_bus v w = set_field 16 8 v w"
definition set_enabled :: "u32 \<Rightarrow> u32 \<Rightarrow> u32" where "set_enabled v w = set_field 31 1 v w"

definition pci_address :: "u16 \<Rightarrow> u8 \<Rightarrow> u8 \<Rightarrow> u32" where
  "pci_address bus device func =
    (let addr = 0x80000000;
         addr = set_bus (ucast bus) addr;
         addr = set_device (ucast device) addr
     in set_function (ucast func) addr)"

section \<open>Configuration space\<close>

definition pci_read :: "device \<Rightarrow> u32 \<Rightarrow> ('x io_state_scheme, u32) state" where
  "pci_read dev addr = do { outd PCI_CONFIG_ADDRESS addr; ind dev PCI_CONFIG_DATA }"

definition pci_write :: "u32 \<Rightarrow> u32 \<Rightarrow> ('x io_state_scheme, unit) state" where
  "pci_write addr data = do { outd PCI_CONFIG_ADDRESS addr; outd PCI_CONFIG_DATA data }"

text \<open>The loop over the rows of a structure in configuration space.\<close>

primrec read_rows :: "device \<Rightarrow> u32 \<Rightarrow> nat list \<Rightarrow> ('x io_state_scheme, u32 list) state" where
  "read_rows dev addr [] = return_io []"
| "read_rows dev addr (row # rows) = do {
     v \<leftarrow> pci_read dev (set_reg (of_nat row) addr);
     vs \<leftarrow> read_rows dev (set_reg (of_nat row) addr) rows;
     return_io (v # vs) }"

definition header_of :: "u32 list \<Rightarrow> pci_header" where
  "header_of r = \<lparr>
     vendor_id = ucast (r ! 0), device_id = ucast (drop_bit 16 (r ! 0)),
     command = ucast (r ! 1), status = ucast (drop_bit 16 (r ! 1)),
     revision_id = ucast (r ! 2), prog_if = ucast (drop_bit 8 (r ! 2)),
     subclass_id = ucast (drop_bit 16 (r ! 2)), class_id = ucast (drop_bit 24 (r ! 2)),
     cache_line_size = ucast (r ! 3), latency_timer = ucast (drop_bit 8 (r ! 3)),
     header_type = ucast (drop_bit 16 (r ! 3)), bist = ucast (drop_bit 24 (r ! 3))\<rparr>"

definition pci_get_header :: "device \<Rightarrow> u32 \<Rightarrow> ('x io_state_scheme, pci_header) state" where
  "pci_get_header dev addr = do { r \<leftarrow> read_rows dev addr [0..<4]; return_io (header_of r) }"

text \<open>\<^verbatim>\<open>pci_device_t\<close>: the 16 rows; the base address registers are the rows 4 to 9.\<close>

definition pci_get_config :: "device \<Rightarrow> u32 \<Rightarrow> ('x io_state_scheme, u32 list) state" where
  "pci_get_config dev addr = read_rows dev addr [0..<16]"

definition bar :: "u32 list \<Rightarrow> nat \<Rightarrow> u32" where
  "bar config i = config ! (4 + i)"

section \<open>Enumeration\<close>

definition pci_get_secondary_bus :: "device \<Rightarrow> u16 \<Rightarrow> u8 \<Rightarrow> u8 \<Rightarrow> ('x io_state_scheme, u16) state" where
  "pci_get_secondary_bus dev bus device func =
    (if bus < 256 \<and> device < 32 \<and> func < 8 then
       let addr = set_enabled 1 0;
           addr = set_bus (ucast bus) addr;
           addr = set_device (ucast device) addr;
           addr = set_function (ucast func) addr;
           addr = set_reg 6 addr
       in do { secondary_bus \<leftarrow> pci_read dev addr;
               return_io (ucast (drop_bit 8 secondary_bus AND 0xFF)) }
     else return_io bus)"

definition cache_entry :: "u32 \<Rightarrow> pci_header \<Rightarrow> pci_cache" where
  "cache_entry addr header = \<lparr>c_address = addr, c_vendor_id = vendor_id header,
     c_device_id = device_id header, c_class_id = class_id header,
     c_subclass_id = subclass_id header, c_prog_if = prog_if header, c_type = header_type header\<rparr>"

text \<open>Storing at index \<open>_cache_len\<close>: entries behind it are the zeros of the allocation.\<close>

definition cache_store :: "pci_cache \<Rightarrow> ('h, 'x) pci_state_scheme \<Rightarrow> ('h, 'x) pci_state_scheme result" where
  "cache_store e s =
    (let i = unat (cache_len s) in
     if i < CACHE_ENTRIES then
       ret (s\<lparr>cache := (cache s)[i := e], cache_len := cache_len s + 1\<rparr>)
     else fail OutOfBounds)"

definition pci_enum_function ::
  "device \<Rightarrow> (u16 \<Rightarrow> ('h, 'x) pci_state_scheme \<Rightarrow> ('h, 'x) pci_state_scheme result) \<Rightarrow>
   u16 \<Rightarrow> u8 \<Rightarrow> u8 \<Rightarrow> ('h, 'x) pci_state_scheme \<Rightarrow> ('h, 'x) pci_state_scheme result" where
  "pci_enum_function dev enum_bus bus device func s =
    (let addr = pci_address bus device func;
         (header, s) = run_state (pci_get_header dev addr) s
     in if vendor_id header \<noteq> 0xFFFF then
          rbind (cache_store (cache_entry addr header) s) (\<lambda>s.
            if class_id header = 0x06 \<and> subclass_id header = 0x04 then
              let (secondary_bus, s) = run_state (pci_get_secondary_bus dev bus device func) s
              in if secondary_bus \<noteq> bus then enum_bus secondary_bus s else ret s
            else ret s)
        else ret s)"

definition pci_enum_device ::
  "device \<Rightarrow> (u16 \<Rightarrow> ('h, 'x) pci_state_scheme \<Rightarrow> ('h, 'x) pci_state_scheme result) \<Rightarrow>
   u16 \<Rightarrow> u8 \<Rightarrow> ('h, 'x) pci_state_scheme \<Rightarrow> ('h, 'x) pci_state_scheme result" where
  "pci_enum_device dev enum_bus bus device s =
    (let (header, s) = run_state (pci_get_header dev (pci_address bus device 0)) s
     in if vendor_id header \<noteq> 0xFFFF then
          if header_type header AND 0x80 \<noteq> 0
          then each (\<lambda>f. pci_enum_function dev enum_bus bus device (of_nat f)) [1..<8] s
          else pci_enum_function dev enum_bus bus device 0 s
        else ret s)"

primrec pci_enum_bus ::
  "nat \<Rightarrow> device \<Rightarrow> u16 \<Rightarrow> ('h, 'x) pci_state_scheme \<Rightarrow> ('h, 'x) pci_state_scheme result" where
  "pci_enum_bus 0 dev bus s = None"
| "pci_enum_bus (Suc n) dev bus s =
     each (\<lambda>d. pci_enum_device dev (pci_enum_bus n dev) bus (of_nat d)) [0..<32] s"

definition zero_cache :: pci_cache where
  "zero_cache = \<lparr>c_address = 0, c_vendor_id = 0, c_device_id = 0, c_class_id = 0,
     c_subclass_id = 0, c_prog_if = 0, c_type = 0\<rparr>"

text \<open>The header is read into a block from \<^verbatim>\<open>mem_alloc_clean\<close>, row by row.\<close>

definition store_rows :: "mem \<Rightarrow> u64 \<Rightarrow> u32 list \<Rightarrow> mem" where
  "store_rows m a r = fold (\<lambda>i m. store32 m (a + 4 * of_nat i) (r ! i)) [0..<length r] m"

definition read_header_at :: "device \<Rightarrow> u64 \<Rightarrow> u32 \<Rightarrow> ('h, 'x) pci_state_scheme \<Rightarrow>
    pci_header \<times> ('h, 'x) pci_state_scheme" where
  "read_header_at dev ptr addr s =
    (let (r, s) = run_state (read_rows dev addr [0..<4]) s
     in (header_of r, s\<lparr>pages := (pages s)\<lparr>ram := store_rows (ram (pages s)) ptr r\<rparr>\<rparr>))"

definition pci_alloc_clean :: "nat \<Rightarrow> u64 \<Rightarrow> ('h, 'x) pci_state_scheme \<Rightarrow> (u64 \<times> ('h, 'x) pci_state_scheme) result" where
  "pci_alloc_clean d sz s =
     rbind (from_option (mem_alloc_clean d sz (pages s))) (\<lambda>(p, ptr). ret (ptr, s\<lparr>pages := p\<rparr>))"

definition pci_free :: "u64 \<Rightarrow> ('h, 'x) pci_state_scheme \<Rightarrow> ('h, 'x) pci_state_scheme result" where
  "pci_free ptr s = rbind (from_option (mem_free ptr (pages s))) (\<lambda>p. ret (s\<lparr>pages := p\<rparr>))"

definition pci_init ::
  "nat \<Rightarrow> nat \<Rightarrow> device \<Rightarrow> ('h, 'x) pci_state_scheme \<Rightarrow> (bool \<times> ('h, 'x) pci_state_scheme) result" where
  "pci_init d n dev s =
    rbind (pci_alloc_clean d SIZEOF_PCI_HEADER s) (\<lambda>(header_ptr, s).
    rbind (pci_alloc_clean d (8 * 256) s) (\<lambda>(ptr, s).
      let s = s\<lparr>cache_ptr := ptr, cache := replicate CACHE_ENTRIES zero_cache, cache_len := 0\<rparr>;
          addr = 0x80000000;
          (header, s) = read_header_at dev header_ptr addr s
      in rbind
           (if header_type header AND 0x80 \<noteq> 0 then
              each (\<lambda>bus s.
                let (header, s) = read_header_at dev header_ptr (set_bus (of_nat bus) addr) s
                in if vendor_id header \<noteq> 0xFFFF then pci_enum_bus n dev (of_nat bus) s else ret s) [0..<8] s
            else pci_enum_bus n dev 0 s)
           (\<lambda>s. rbind (pci_free header_ptr s) (\<lambda>s. ret (cache_len s > 0, s)))))"

section \<open>Lookup\<close>

definition class_match :: "u8 \<Rightarrow> u8 \<Rightarrow> pci_cache \<Rightarrow> bool" where
  "class_match class sub e \<longleftrightarrow> c_class_id e = class \<and> c_subclass_id e = sub"

primrec num_loop :: "u8 \<Rightarrow> u8 \<Rightarrow> pci_cache list \<Rightarrow> u8 \<Rightarrow> u8" where
  "num_loop class sub [] x = x"
| "num_loop class sub (e # es) x = num_loop class sub es (if class_match class sub e then x + 1 else x)"

definition pci_num_device :: "u8 \<Rightarrow> u8 \<Rightarrow> ('h, 'x) pci_state_scheme \<Rightarrow> u8" where
  "pci_num_device class sub s = num_loop class sub (take (unat (cache_len s)) (cache s)) 0"

primrec get_loop :: "u8 \<Rightarrow> u8 \<Rightarrow> u8 \<Rightarrow> pci_cache list \<Rightarrow> u8 \<Rightarrow> u32 option" where
  "get_loop class sub idx [] x = None"
| "get_loop class sub idx (e # es) x =
     (if class_match class sub e then
        if x = idx then Some (c_address e) else get_loop class sub idx es (x + 1)
      else get_loop class sub idx es x)"

text \<open>\<open>None\<close> is the result false; \<open>addr\<close> is unchanged then.\<close>

definition pci_get_device :: "u8 \<Rightarrow> u8 \<Rightarrow> u8 \<Rightarrow> ('h, 'x) pci_state_scheme \<Rightarrow> u32 option" where
  "pci_get_device class sub idx s = get_loop class sub idx (take (unat (cache_len s)) (cache s)) 0"

section \<open>What the hardware answers\<close>

text \<open>The documented behaviour of the configuration mechanism: reading the data port gives the
  register the last write to the address port selected. \<open>cfg\<close> is the configuration space.\<close>

definition config_space :: "device \<Rightarrow> (u32 \<Rightarrow> u32) \<Rightarrow> bool" where
  "config_space dev cfg \<longleftrightarrow> (\<forall>log a. dev (OutD PCI_CONFIG_ADDRESS a # log) PCI_CONFIG_DATA = cfg a)"

lemma set_reg_set_reg [simp]: "set_reg v (set_reg w a) = set_reg v a"
  by (rule bit_word_eqI) (auto simp: set_reg_def set_field_def bit_simps)

definition rows_at :: "(u32 \<Rightarrow> u32) \<Rightarrow> u32 \<Rightarrow> nat list \<Rightarrow> u32 list" where
  "rows_at cfg addr rows = map (\<lambda>r. cfg (set_reg (of_nat r) addr)) rows"

lemma run_pci_read:
  "config_space dev cfg \<Longrightarrow> run_state (pci_read dev a) s =
     (cfg a, s\<lparr>io_log := InD PCI_CONFIG_DATA (cfg a) # OutD PCI_CONFIG_ADDRESS a # io_log s\<rparr>)"
  by (simp add: pci_read_def config_space_def)

lemma run_read_rows:
  assumes "config_space dev cfg"
  shows "\<exists>log. run_state (read_rows dev addr rows) s = (rows_at cfg addr rows, s\<lparr>io_log := log\<rparr>)"
proof (induction rows arbitrary: addr s)
  case Nil
  have "s = s\<lparr>io_log := io_log s\<rparr>" by simp
  then show ?case by (auto simp: rows_at_def intro: exI[of _ "io_log s"])
next
  case (Cons r rows)
  let ?a = "set_reg (of_nat r) addr"
  let ?s = "s\<lparr>io_log := InD PCI_CONFIG_DATA (cfg ?a) # OutD PCI_CONFIG_ADDRESS ?a # io_log s\<rparr>"
  obtain log where "run_state (read_rows dev ?a rows) ?s = (rows_at cfg ?a rows, ?s\<lparr>io_log := log\<rparr>)"
    using Cons by blast
  then show ?case by (auto simp: run_pci_read[OF assms] rows_at_def)
qed

definition header_at :: "(u32 \<Rightarrow> u32) \<Rightarrow> u16 \<Rightarrow> u8 \<Rightarrow> u8 \<Rightarrow> pci_header" where
  "header_at cfg bus device func = header_of (rows_at cfg (pci_address bus device func) [0..<4])"

lemma run_get_header:
  assumes "config_space dev cfg"
  shows "\<exists>log. run_state (pci_get_header dev (pci_address bus device func)) s =
    (header_at cfg bus device func, s\<lparr>io_log := log\<rparr>)"
  using run_read_rows[OF assms, of "pci_address bus device func" "[0..<4]" s]
  by (auto simp: pci_get_header_def header_at_def)

section \<open>The specification of the scan\<close>

definition secondary :: "(u32 \<Rightarrow> u32) \<Rightarrow> u16 \<Rightarrow> u8 \<Rightarrow> u8 \<Rightarrow> u16" where
  "secondary cfg bus device func = ucast (drop_bit 8 (cfg (set_reg 6 (pci_address bus device func))) AND 0xFF)"

definition present :: "(u32 \<Rightarrow> u32) \<Rightarrow> u16 \<Rightarrow> u8 \<Rightarrow> u8 \<Rightarrow> bool" where
  "present cfg bus device func \<longleftrightarrow> vendor_id (header_at cfg bus device func) \<noteq> 0xFFFF"

definition is_bridge :: "(u32 \<Rightarrow> u32) \<Rightarrow> u16 \<Rightarrow> u8 \<Rightarrow> u8 \<Rightarrow> bool" where
  "is_bridge cfg bus device func \<longleftrightarrow> class_id (header_at cfg bus device func) = 0x06 \<and>
     subclass_id (header_at cfg bus device func) = 0x04"

text \<open>The functions of a device that are looked at: all but the first of a multifunction device.\<close>

definition scanned :: "(u32 \<Rightarrow> u32) \<Rightarrow> u16 \<Rightarrow> u8 \<Rightarrow> u8 list" where
  "scanned cfg bus device =
    (if \<not> present cfg bus device 0 then []
     else if header_type (header_at cfg bus device 0) AND 0x80 \<noteq> 0 then map of_nat [1..<8] else [0])"

primrec opt_concat :: "'a list option list \<Rightarrow> 'a list option" where
  "opt_concat [] = Some []"
| "opt_concat (x # xs) =
     (case x of None \<Rightarrow> None | Some a \<Rightarrow> map_option ((@) a) (opt_concat xs))"

definition found_function :: "(u16 \<Rightarrow> pci_cache list option) \<Rightarrow> (u32 \<Rightarrow> u32) \<Rightarrow> u16 \<Rightarrow> u8 \<Rightarrow> u8 \<Rightarrow> pci_cache list option" where
  "found_function below cfg bus device func =
    (if \<not> present cfg bus device func then Some []
     else map_option ((#) (cache_entry (pci_address bus device func) (header_at cfg bus device func)))
       (if is_bridge cfg bus device func \<and> secondary cfg bus device func \<noteq> bus
        then below (secondary cfg bus device func) else Some []))"

definition found_device :: "(u16 \<Rightarrow> pci_cache list option) \<Rightarrow> (u32 \<Rightarrow> u32) \<Rightarrow> u16 \<Rightarrow> u8 \<Rightarrow> pci_cache list option" where
  "found_device below cfg bus device =
     opt_concat (map (found_function below cfg bus device) (scanned cfg bus device))"

text \<open>The functions found on a bus and behind its bridges, depth first; \<open>None\<close> when bridges nest
  deeper than \<open>n\<close>.\<close>

primrec found :: "nat \<Rightarrow> (u32 \<Rightarrow> u32) \<Rightarrow> u16 \<Rightarrow> pci_cache list option" where
  "found 0 cfg bus = None"
| "found (Suc n) cfg bus = opt_concat (map (\<lambda>d. found_device (found n cfg) cfg bus (of_nat d)) [0..<32])"

section \<open>The scan meets its specification\<close>

definition devices :: "('h, 'x) pci_state_scheme \<Rightarrow> pci_cache list" where
  "devices s = take (unat (cache_len s)) (cache s)"

definition cache_ok :: "('h, 'x) pci_state_scheme \<Rightarrow> bool" where
  "cache_ok s \<longleftrightarrow> length (cache s) = CACHE_ENTRIES \<and> unat (cache_len s) \<le> CACHE_ENTRIES"

text \<open>A step appends the entries \<open>es\<close>, or runs over the end of the cache.\<close>

definition appends :: "('h, 'x) pci_state_scheme \<Rightarrow> pci_cache list \<Rightarrow> ('h, 'x) pci_state_scheme result \<Rightarrow> bool" where
  "appends s es r \<longleftrightarrow>
    (if length (devices s) + length es \<le> CACHE_ENTRIES
     then \<exists>s'. r = ret s' \<and> cache_ok s' \<and> devices s' = devices s @ es
     else r = fail OutOfBounds)"

lemma devices_length: "cache_ok s \<Longrightarrow> length (devices s) = unat (cache_len s)"
  by (simp add: devices_def cache_ok_def)

lemma appends_nil: "cache_ok s' \<Longrightarrow> devices s' = devices s \<Longrightarrow> appends s [] (ret s')"
  using devices_length[of s'] by (simp add: appends_def cache_ok_def)

lemma log_irrelevant [simp]:
  "cache_ok (s\<lparr>io_log := l\<rparr>) = cache_ok s" "devices (s\<lparr>io_log := l\<rparr>) = devices s"
  "appends (s\<lparr>io_log := l\<rparr>) es r = appends s es r"
  by (simp_all add: cache_ok_def devices_def appends_def)

lemma appends_rbind:
  assumes "appends s es r" "\<And>s'. cache_ok s' \<Longrightarrow> appends s' fs (f s')"
  shows "appends s (es @ fs) (rbind r f)"
proof (cases "length (devices s) + length es \<le> CACHE_ENTRIES")
  case True
  then obtain s' where "r = ret s'" "cache_ok s'" "devices s' = devices s @ es"
    using assms(1) by (auto simp: appends_def)
  with assms(2)[of s'] show ?thesis by (auto simp: appends_def add.assoc split: if_splits)
qed (use assms(1) in \<open>simp add: appends_def\<close>)

lemma appends_each:
  assumes "\<And>x s. x \<in> set xs \<Longrightarrow> cache_ok s \<Longrightarrow> (case g x of None \<Rightarrow> True | Some es \<Rightarrow> appends s es (f x s))"
    and "cache_ok s" "opt_concat (map g xs) = Some es"
  shows "appends s es (each f xs s)"
  using assms
proof (induction xs arbitrary: s es)
  case Nil
  then show ?case by (simp add: appends_nil)
next
  case (Cons x xs)
  from Cons.prems(3) obtain es1 es2 where es: "g x = Some es1" "opt_concat (map g xs) = Some es2" "es = es1 @ es2"
    by (auto split: option.splits)
  have "appends s' es2 (each f xs s')" if "cache_ok s'" for s'
    by (rule Cons.IH) (use Cons.prems(1) that es(2) in auto)
  moreover have "appends s es1 (f x s)" using Cons.prems(1)[of x s] Cons.prems(2) es(1) by simp
  ultimately show ?case unfolding es(3) each.simps by (rule appends_rbind[rotated])
qed

lemma appends_store:
  assumes "cache_ok s" shows "appends s [e] (cache_store e s)"
proof (cases "unat (cache_len s) < CACHE_ENTRIES")
  case True
  have l: "length (cache s) = CACHE_ENTRIES" using assms by (simp add: cache_ok_def)
  have "CACHE_ENTRIES = 170" by (simp add: CACHE_ENTRIES_def)
  then have u: "unat (cache_len s + 1) = Suc (unat (cache_len s))" using True by (simp add: unat_word_ariths)
  have "take (Suc i) (xs[i := e]) = take i xs @ [e]" if "i < length xs" for i and xs :: "pci_cache list"
    using that by (simp add: take_Suc_conv_app_nth)
  from this[of "unat (cache_len s)" "cache s"] show ?thesis
    using True l u devices_length[OF assms]
    by (simp add: appends_def cache_store_def devices_def cache_ok_def Let_def)
next
  case False
  then show ?thesis using devices_length[OF assms] assms
    by (simp add: appends_def cache_store_def cache_ok_def Let_def)
qed

lemma enum_function_appends:
  assumes cs: "config_space dev cfg" and ok: "cache_ok s" and b: "bus < 256" "device < 32" "func < 8"
    and rec: "\<And>b s. b < 256 \<Longrightarrow> cache_ok s \<Longrightarrow> (case below b of None \<Rightarrow> True | Some es \<Rightarrow> appends s es (enum_bus b s))"
    and es: "found_function below cfg bus device func = Some es"
  shows "appends s es (pci_enum_function dev enum_bus bus device func s)"
proof -
  let ?h = "header_at cfg bus device func" and ?e = "cache_entry (pci_address bus device func) (header_at cfg bus device func)"
  obtain l where h: "run_state (pci_get_header dev (pci_address bus device func)) s = (?h, s\<lparr>io_log := l\<rparr>)"
    using run_get_header[OF cs] by blast
  have sec: "\<exists>l. run_state (pci_get_secondary_bus dev bus device func) s1 = (secondary cfg bus device func, s1\<lparr>io_log := l\<rparr>)"
    for s1 :: "('a, 'b) pci_state_scheme"
  proof -
    have "set_enabled 1 0 = 0x80000000" by (simp add: set_enabled_def set_field_def)
    then show ?thesis
      using b by (auto simp: pci_get_secondary_bus_def secondary_def pci_address_def run_pci_read[OF cs] Let_def)
  qed
  have sb: "secondary cfg bus device func < 256"
  proof -
    have "(drop_bit 8 (cfg (set_reg 6 (pci_address bus device func))) AND mask 8 :: u32) < 2 ^ 8"
      by (rule and_mask_less') simp
    then have "unat (drop_bit 8 (cfg (set_reg 6 (pci_address bus device func))) AND 0xFF) < 256"
      by (simp add: word_less_nat_alt mask_eq_exp_minus_1)
    then show ?thesis
      by (simp add: secondary_def word_less_nat_alt unsigned_ucast_eq take_bit_nat_eq_self)
  qed
  show ?thesis
  proof (cases "present cfg bus device func")
    case False
    then have "es = []" using es by (simp add: found_function_def)
    then show ?thesis using False ok by (simp add: pci_enum_function_def h present_def appends_nil)
  next
    case True
    obtain es' where e: "es = [?e] @ es'"
      and es': "(if is_bridge cfg bus device func \<and> secondary cfg bus device func \<noteq> bus
        then below (secondary cfg bus device func) else Some []) = Some es'"
      using es True by (auto simp: found_function_def)
    let ?k = "\<lambda>s. if class_id ?h = 0x06 \<and> subclass_id ?h = 0x04 then
              let (secondary_bus, s) = run_state (pci_get_secondary_bus dev bus device func) s
              in if secondary_bus \<noteq> bus then enum_bus secondary_bus s else ret s
            else ret s"
    have k: "appends s' es' (?k s')" if ok': "cache_ok s'" for s'
    proof (cases "is_bridge cfg bus device func")
      case True
      obtain l where l: "run_state (pci_get_secondary_bus dev bus device func) s' =
          (secondary cfg bus device func, s'\<lparr>io_log := l\<rparr>)" using sec by blast
      show ?thesis
      proof (cases "secondary cfg bus device func = bus")
        case same: True
        then show ?thesis using True es' ok' l by (simp add: is_bridge_def appends_nil)
      next
        case False
        then have "below (secondary cfg bus device func) = Some es'" using True es' by simp
        then show ?thesis
          using True False l rec[OF sb, of "s'\<lparr>io_log := l\<rparr>"] ok' by (simp add: is_bridge_def)
      qed
    next
      case False
      then show ?thesis using es' ok' by (auto simp: is_bridge_def appends_nil)
    qed
    have "pci_enum_function dev enum_bus bus device func s = rbind (cache_store ?e (s\<lparr>io_log := l\<rparr>)) ?k"
      using True h by (simp add: pci_enum_function_def present_def Let_def)
    moreover have "appends (s\<lparr>io_log := l\<rparr>) ([?e] @ es') (rbind (cache_store ?e (s\<lparr>io_log := l\<rparr>)) ?k)"
      by (rule appends_rbind[OF appends_store k]) (use ok in simp)
    ultimately show ?thesis using e by simp
  qed
qed

lemma enum_device_appends:
  assumes cs: "config_space dev cfg" and ok: "cache_ok s" and b: "bus < 256" "device < 32"
    and rec: "\<And>b s. b < 256 \<Longrightarrow> cache_ok s \<Longrightarrow> (case below b of None \<Rightarrow> True | Some es \<Rightarrow> appends s es (enum_bus b s))"
    and es: "found_device below cfg bus device = Some es"
  shows "appends s es (pci_enum_device dev enum_bus bus device s)"
proof -
  obtain l where h: "run_state (pci_get_header dev (pci_address bus device 0)) s =
      (header_at cfg bus device 0, s\<lparr>io_log := l\<rparr>)"
    using run_get_header[OF cs] by blast
  have f: "case found_function below cfg bus device g of None \<Rightarrow> True
      | Some es \<Rightarrow> appends s1 es (pci_enum_function dev enum_bus bus device g s1)"
    if "g < 8" "cache_ok s1" for g s1
    using enum_function_appends[OF cs that(2) b that(1) rec] by (auto split: option.split)
  show ?thesis
  proof (cases "present cfg bus device 0")
    case False
    then show ?thesis using h es ok
      by (simp add: pci_enum_device_def found_device_def scanned_def present_def appends_nil)
  next
    case p: True
    show ?thesis
    proof (cases "header_type (header_at cfg bus device 0) AND 0x80 \<noteq> 0")
      case True
      have "appends (s\<lparr>io_log := l\<rparr>) es
          (each (\<lambda>f. pci_enum_function dev enum_bus bus device (of_nat f)) [1..<8] (s\<lparr>io_log := l\<rparr>))"
      proof (rule appends_each[where g = "\<lambda>f. found_function below cfg bus device (of_nat f)"])
        fix x and s1 :: "('a, 'b) pci_state_scheme" assume "x \<in> set [1..<8]" "cache_ok s1"
        moreover from this have "(of_nat x :: u8) < 8" by (simp add: word_less_nat_alt unat_of_nat_small)
        ultimately show "case found_function below cfg bus device (of_nat x) of None \<Rightarrow> True
          | Some es \<Rightarrow> appends s1 es (pci_enum_function dev enum_bus bus device (of_nat x) s1)"
          using f by blast
      qed (use es p True ok in \<open>simp_all add: found_device_def scanned_def comp_def\<close>)
      then show ?thesis using p True h by (simp add: pci_enum_device_def present_def)
    next
      case False
      then have "found_function below cfg bus device 0 = Some es"
        using es p by (auto simp: found_device_def scanned_def split: option.splits)
      then show ?thesis using p False h f[of 0 "s\<lparr>io_log := l\<rparr>"] ok
        by (simp add: pci_enum_device_def present_def)
    qed
  qed
qed

lemma enum_bus_appends:
  "config_space dev cfg \<Longrightarrow> cache_ok s \<Longrightarrow> bus < 256 \<Longrightarrow>
    (case found n cfg bus of None \<Rightarrow> True | Some es \<Rightarrow> appends s es (pci_enum_bus n dev bus s))"
proof (induction n arbitrary: bus s)
  case (Suc n)
  note rec = Suc.IH[OF Suc.prems(1)]
  have "appends s es (pci_enum_bus (Suc n) dev bus s)" if es: "found (Suc n) cfg bus = Some es" for es
    unfolding pci_enum_bus.simps
  proof (rule appends_each[where g = "\<lambda>d. found_device (found n cfg) cfg bus (of_nat d)"])
    fix x and s1 :: "('a, 'b) pci_state_scheme" assume x: "x \<in> set [0..<32]" "cache_ok s1"
    then have d: "(of_nat x :: u8) < 32" by (simp add: word_less_nat_alt unat_of_nat_small)
    show "case found_device (found n cfg) cfg bus (of_nat x) of None \<Rightarrow> True
      | Some es \<Rightarrow> appends s1 es (pci_enum_device dev (pci_enum_bus n dev) bus (of_nat x) s1)"
      using enum_device_appends[where below = "found n cfg" and enum_bus = "pci_enum_bus n dev",
          OF Suc.prems(1) x(2) Suc.prems(3) d] rec
      by (auto split: option.split)
  qed (use Suc.prems es in simp_all)
  then show ?case by (auto split: option.split)
qed simp

section \<open>Properties\<close>

text \<open>C25. The scan of a bus finds exactly the functions its specification lists: in each of the
  32 devices that answer, function 0, or for a multifunction device the functions 1 to 7 (never
  function 0), each followed by what lies behind it when it is a bridge to another bus, in this
  order; when they do not fit behind what the cache holds, 170 entries in all, the code writes
  past the end of its allocation.\<close>

theorem pci_scan_finds:
  assumes "config_space dev cfg" and "cache_ok s" and "bus < 256" and found: "found n cfg bus = Some es"
  shows "if length (devices s) + length es \<le> 170
    then \<exists>s'. pci_enum_bus n dev bus s = ret s' \<and> devices s' = devices s @ es
    else pci_enum_bus n dev bus s = fail OutOfBounds"
  using enum_bus_appends[OF assms(1-3), of n] found
  by (auto simp: appends_def CACHE_ENTRIES_def)

text \<open>A machine with one device, number 0, which is a host bridge.\<close>

definition one_device :: "u32 \<Rightarrow> u32" where
  "one_device a = (if a = 0x80000000 then 0x12378086 else if a = 0x80000008 then 0x06000002
     else if a = 0x8000000C then 0 else 0xFFFFFFFF)"

definition last_address :: device where
  "last_address log port = (case log of OutD p a # _ \<Rightarrow> one_device a | _ \<Rightarrow> 0)"

definition idle_pci :: "unit pci_state" where
  "idle_pci = pit_state.extend idle_timer \<lparr>pages = boot_state, cache_ptr = 0,
     cache = replicate 170 zero_cache, cache_len = 0\<rparr>"

lemma get_loop_nth:
  "unat x + length (filter (class_match c sc) es) < 256 \<Longrightarrow> x \<le> idx \<Longrightarrow>
   get_loop c sc idx es x =
     (if unat idx - unat x < length (filter (class_match c sc) es)
      then Some (c_address (filter (class_match c sc) es ! (unat idx - unat x))) else None)"
proof (induction es arbitrary: x)
  case (Cons e es)
  show ?case
  proof (cases "class_match c sc e")
    case m: True
    then have len: "unat x + 1 + length (filter (class_match c sc) es) < 256" using Cons.prems by simp
    then have u: "unat (x + 1) = Suc (unat x)" by (simp add: unat_word_ariths)
    show ?thesis
    proof (cases "x = idx")
      case False
      then have lt: "unat x < unat idx"
        using Cons.prems(2) by (metis le_neq_implies_less word_le_nat_alt word_unat_eq_iff)
      then have "x + 1 \<le> idx" using u by (simp add: word_le_nat_alt)
      with Cons.IH[of "x + 1"] len u lt m False show ?thesis
        by (auto simp: nth_Cons Suc_diff_Suc [symmetric])
    qed (use m in simp)
  qed (use Cons in simp)
qed simp

lemma num_loop_count: "num_loop c sc es x = x + of_nat (length (filter (class_match c sc) es))"
  by (induction es arbitrary: x) (simp_all add: add.assoc)

text \<open>Lookup by class: \<^verbatim>\<open>pci_num_device\<close> counts the devices of a class, and
  \<^verbatim>\<open>pci_get_device\<close> finds the one with a given index exactly for the indices below that
  count, in the order of the scan.\<close>

theorem pci_lookup:
  assumes ok: "cache_ok s" and ms: "ms = filter (class_match c sc) (devices s)"
  shows "unat (pci_num_device c sc s) = length ms \<and>
    pci_get_device c sc idx s = (if idx < pci_num_device c sc s then Some (c_address (ms ! unat idx)) else None)"
proof -
  have "length ms \<le> length (devices s)" by (simp add: ms)
  also have "\<dots> \<le> 170" using devices_length[OF ok] ok by (simp add: cache_ok_def CACHE_ENTRIES_def)
  finally have len: "length ms < 256" by simp
  have n: "unat (pci_num_device c sc s) = length ms"
    unfolding pci_num_device_def num_loop_count using len by (simp add: unat_of_nat_small ms devices_def)
  moreover have "idx < pci_num_device c sc s \<longleftrightarrow> unat idx < length ms" using n by (simp add: word_less_nat_alt)
  ultimately show ?thesis
    using get_loop_nth[of 0 c sc "devices s" idx] len by (simp add: pci_get_device_def ms devices_def)
qed

lemma idle_pci_ok: "cache_ok idle_pci" "devices idle_pci = []"
  by (simp_all add: cache_ok_def devices_def idle_pci_def CACHE_ENTRIES_def pit_state.defs)

lemmas one_device_eval = header_at_def rows_at_def header_of_def pci_address_def set_bus_def set_device_def
  set_function_def set_reg_def set_field_def one_device_def mask_eq_exp_minus_1 upt_rec

lemma one_device_absent: "\<forall>d\<in>set [1..<32]. vendor_id (header_at one_device 0 (of_nat d) 0) = 0xFFFF"
  by (simp add: one_device_eval)

lemma one_device_bridge: "header_at one_device 0 0 0 = \<lparr>vendor_id = 0x8086, device_id = 0x1237, command = 0xFFFF,
    status = 0xFFFF, revision_id = 2, prog_if = 0, subclass_id = 0, class_id = 6,
    cache_line_size = 0, latency_timer = 0, header_type = 0, bist = 0\<rparr>"
  by (simp add: one_device_eval)

lemma opt_concat_nil: "\<forall>x\<in>set xs. g x = Some [] \<Longrightarrow> opt_concat (map g xs) = Some []"
  by (induction xs) simp_all

lemma one_device_found:
  "found 1 one_device 0 = Some [cache_entry 0x80000000 (header_at one_device 0 0 0)]"
proof -
  let ?g = "\<lambda>d. found_device (found 0 one_device) one_device 0 (of_nat d)"
  have 0: "?g 0 = Some [cache_entry 0x80000000 (header_at one_device 0 0 0)]"
    by (simp add: found_device_def scanned_def present_def found_function_def is_bridge_def one_device_bridge)
       (simp add: one_device_eval)
  have "\<forall>d\<in>set [1..<32]. ?g d = Some []"
    using one_device_absent by (simp add: found_device_def scanned_def present_def del: set_upt)
  then have "opt_concat (map ?g [1..<32]) = Some []" by (rule opt_concat_nil)
  moreover have "[0..<32] = 0 # [1..<32]" by (subst upt_conv_Cons) simp_all
  ultimately show ?thesis using 0 by (simp only: One_nat_def found.simps list.map opt_concat.simps) simp
qed

theorem pci_scan_finds_witness:
  "\<exists>s'. pci_enum_bus 1 last_address 0 idle_pci = ret s' \<and>
     map c_vendor_id (devices s') = [0x8086]"
proof -
  have "config_space last_address one_device" by (simp add: config_space_def last_address_def)
  from pci_scan_finds[OF this idle_pci_ok(1) _ one_device_found] idle_pci_ok(2) obtain s' where
    "pci_enum_bus 1 last_address 0 idle_pci = ret s'"
    "devices s' = [cache_entry 0x80000000 (header_at one_device 0 0 0)]" by auto
  moreover have "vendor_id (header_at one_device 0 0 0) = 0x8086"
    by (simp add: one_device_bridge)
  ultimately show ?thesis by (simp add: cache_entry_def)
qed

theorem pci_lookup_witness:
  "pci_get_device 6 0 0 (idle_pci\<lparr>cache := cache_entry 0x80000000 (header_at one_device 0 0 0) # replicate 169 zero_cache,
     cache_len := 1\<rparr>) = Some 0x80000000"
proof -
  let ?e = "cache_entry 0x80000000 (header_at one_device 0 0 0)"
  let ?s = "idle_pci\<lparr>cache := ?e # replicate 169 zero_cache, cache_len := 1\<rparr>"
  have ok: "cache_ok ?s" by (simp add: cache_ok_def CACHE_ENTRIES_def)
  have m: "class_match 6 0 ?e"
    by (simp add: class_match_def cache_entry_def one_device_bridge)
  then have "filter (class_match 6 0) (devices ?s) = [?e]" by (simp add: devices_def)
  from pci_lookup[OF ok this [symmetric], of 0] show ?thesis
    by (simp add: word_less_nat_alt cache_entry_def)
qed

end
