(* ===== verification/Ata.thy ===== *)
theory Ata
  imports Pci
begin

text \<open>
  \<^verbatim>\<open>ata.c\<close> of the loader: IDE channels and their registers, the identification of
  drives, and the sector read by programmed I/O. The arrays of channels and drives are lists;
  an index outside them is an error. The timer interrupts that arrive during a
  \<^verbatim>\<open>sleep\<close> are the parameter \<open>irqs\<close>, which may depend on what was sent to the ports.
\<close>

section \<open>State\<close>

record ide_chan =
  base :: u16
  control :: u16
  bmide :: u16
  no_int :: u8

record ata_dev =
  active :: bool
  slave :: bool
  atapi :: bool
  lba48 :: bool
  multisect :: bool
  largesect :: bool
  sectors :: u64
  sector_size :: u64
  commands1 :: u64
  commands2 :: u64
  capabilities :: u32
  signature :: u16
  channel :: u8
  model :: "u8 list"

record 'h ata_state = "'h pci_state" +
  chans :: "ide_chan list"
  chan_count :: u8
  drives :: "ata_dev list"
  drive_count :: u8

type_synonym schedule = "io_event list \<Rightarrow> nat \<Rightarrow> irq_stack list"

abbreviation (input) ATA_REG_DATA :: u8 where "ATA_REG_DATA \<equiv> 0x00"
abbreviation (input) ATA_REG_SECCOUNT0 :: u8 where "ATA_REG_SECCOUNT0 \<equiv> 0x02"
abbreviation (input) ATA_REG_LBA0 :: u8 where "ATA_REG_LBA0 \<equiv> 0x03"
abbreviation (input) ATA_REG_LBA1 :: u8 where "ATA_REG_LBA1 \<equiv> 0x04"
abbreviation (input) ATA_REG_LBA2 :: u8 where "ATA_REG_LBA2 \<equiv> 0x05"
abbreviation (input) ATA_REG_HDDEVSEL :: u8 where "ATA_REG_HDDEVSEL \<equiv> 0x06"
abbreviation (input) ATA_REG_COMMAND :: u8 where "ATA_REG_COMMAND \<equiv> 0x07"
abbreviation (input) ATA_REG_STATUS :: u8 where "ATA_REG_STATUS \<equiv> 0x07"
abbreviation (input) ATA_REG_SECCOUNT1 :: u8 where "ATA_REG_SECCOUNT1 \<equiv> 0x08"
abbreviation (input) ATA_REG_LBA3 :: u8 where "ATA_REG_LBA3 \<equiv> 0x09"
abbreviation (input) ATA_REG_LBA4 :: u8 where "ATA_REG_LBA4 \<equiv> 0x0A"
abbreviation (input) ATA_REG_LBA5 :: u8 where "ATA_REG_LBA5 \<equiv> 0x0B"
abbreviation (input) ATA_REG_CONTROL :: u8 where "ATA_REG_CONTROL \<equiv> 0x0C"
abbreviation (input) ATA_SR_BSY :: u8 where "ATA_SR_BSY \<equiv> 0x80"
abbreviation (input) ATA_SR_DF :: u8 where "ATA_SR_DF \<equiv> 0x20"
abbreviation (input) ATA_SR_DRQ :: u8 where "ATA_SR_DRQ \<equiv> 0x08"
abbreviation (input) ATA_SR_ERR :: u8 where "ATA_SR_ERR \<equiv> 0x01"
abbreviation (input) ATA_CMD_READ_PIO :: u8 where "ATA_CMD_READ_PIO \<equiv> 0x20"
abbreviation (input) ATA_CMD_READ_PIO_EXT :: u8 where "ATA_CMD_READ_PIO_EXT \<equiv> 0x24"
abbreviation (input) ATA_CMD_IDENTIFY :: u8 where "ATA_CMD_IDENTIFY \<equiv> 0xEC"
abbreviation (input) ATA_CMD_IDENTIFY_PACKET :: u8 where "ATA_CMD_IDENTIFY_PACKET \<equiv> 0xA1"

definition with_chan :: "('h, 'x) ata_state_scheme \<Rightarrow> u8 \<Rightarrow> (ide_chan \<Rightarrow> 'a result) \<Rightarrow> 'a result" where
  "with_chan s ch f = (if unat ch < length (chans s) then f (chans s ! unat ch) else fail OutOfBounds)"

definition with_drive :: "('h, 'x) ata_state_scheme \<Rightarrow> u8 \<Rightarrow> (ata_dev \<Rightarrow> 'a result) \<Rightarrow> 'a result" where
  "with_drive s i f = (if unat i < length (drives s) then f (drives s ! unat i) else fail OutOfBounds)"

section \<open>Registers\<close>

text \<open>The port of a register: 16-bit arithmetic on the base addresses of the channel.\<close>

definition reg_port :: "ide_chan \<Rightarrow> u8 \<Rightarrow> u16 option" where
  "reg_port c reg =
    (if reg < 0x08 then Some (base c + ucast reg)
     else if reg < 0x0C then Some (base c + ucast reg - 0x06)
     else if reg < 0x0E then Some (control c + ucast reg - 0x0A)
     else if reg < 0x16 then Some (bmide c + ucast reg - 0x0E)
     else None)"

definition io :: "(('s, 'a) state) \<Rightarrow> 's \<Rightarrow> 'a \<times> 's" where
  "io = run_state"

definition port_write :: "ide_chan \<Rightarrow> u8 \<Rightarrow> u8 \<Rightarrow> 'x io_state_scheme \<Rightarrow> 'x io_state_scheme" where
  "port_write c reg data s = (case reg_port c reg of Some p \<Rightarrow> snd (io (outb p data) s) | None \<Rightarrow> s)"

text \<open>The registers 8 to 11 share ports with 2 to 5; bit 7 of the control register selects
  them. The nested calls of the code are for the control register, which is not one of them.\<close>

definition high_reg :: "u8 \<Rightarrow> bool" where
  "high_reg reg \<longleftrightarrow> reg > 0x07 \<and> reg < 0x0C"

definition hob_on :: "ide_chan \<Rightarrow> u8 \<Rightarrow> 'x io_state_scheme \<Rightarrow> 'x io_state_scheme" where
  "hob_on c reg s = (if high_reg reg then port_write c ATA_REG_CONTROL (0x80 OR push_bit 1 (no_int c)) s else s)"

definition hob_off :: "ide_chan \<Rightarrow> u8 \<Rightarrow> 'x io_state_scheme \<Rightarrow> 'x io_state_scheme" where
  "hob_off c reg s = (if high_reg reg then port_write c ATA_REG_CONTROL (push_bit 1 (no_int c)) s else s)"

definition ata_write_reg :: "u8 \<Rightarrow> u8 \<Rightarrow> u8 \<Rightarrow> ('h, 'x) ata_state_scheme \<Rightarrow> ('h, 'x) ata_state_scheme result" where
  "ata_write_reg ch reg data s = with_chan s ch (\<lambda>c.
     ret (hob_off c reg (port_write c reg data (hob_on c reg s))))"

definition ata_sleep :: "schedule \<Rightarrow> u64 \<Rightarrow> ('h, 'x) pit_state_scheme \<Rightarrow> ('h, 'x) pit_state_scheme result" where
  "ata_sleep irqs t s = from_option (sleep (irqs (io_log s)) t s)"

text \<open>A register number of 0x16 or more leaves \<^verbatim>\<open>result\<close> unset.\<close>

definition ata_read_reg ::
  "device \<Rightarrow> schedule \<Rightarrow> u8 \<Rightarrow> u8 \<Rightarrow> ('h, 'x) ata_state_scheme \<Rightarrow> (u8 \<times> ('h, 'x) ata_state_scheme) result" where
  "ata_read_reg dev irqs ch reg s = with_chan s ch (\<lambda>c.
     rbind (ata_sleep irqs 1 (hob_on c reg s)) (\<lambda>s.
       case reg_port c reg of
         None \<Rightarrow> fail OutOfBounds
       | Some p \<Rightarrow> let (r, s) = io (inb dev p) s in ret (r, hob_off c reg s)))"

text \<open>\<^verbatim>\<open>rep insb\<close>, \<^verbatim>\<open>rep insw\<close> and \<^verbatim>\<open>rep insl\<close>: \<open>n\<close> reads of a port, stored from \<open>a\<close> on.\<close>

definition set_ram :: "(mem \<Rightarrow> mem) \<Rightarrow> ('h, 'x) pci_state_scheme \<Rightarrow> ('h, 'x) pci_state_scheme" where
  "set_ram f s = s\<lparr>pages := (pages s)\<lparr>ram := f (ram (pages s))\<rparr>\<rparr>"

primrec insb :: "nat \<Rightarrow> device \<Rightarrow> u16 \<Rightarrow> u64 \<Rightarrow> ('h, 'x) pci_state_scheme \<Rightarrow> ('h, 'x) pci_state_scheme" where
  "insb 0 dev port a s = s"
| "insb (Suc n) dev port a s =
    (let (v, s) = io (inb dev port) s
     in insb n dev port (a + 1) (set_ram (\<lambda>m. m(a := v)) s))"

primrec insw :: "nat \<Rightarrow> device \<Rightarrow> u16 \<Rightarrow> u64 \<Rightarrow> ('h, 'x) pci_state_scheme \<Rightarrow> ('h, 'x) pci_state_scheme" where
  "insw 0 dev port a s = s"
| "insw (Suc n) dev port a s =
    (let (v, s) = io (inw dev port) s
     in insw n dev port (a + 2) (set_ram (\<lambda>m. store_le 2 m a (ucast v)) s))"

primrec insd :: "nat \<Rightarrow> device \<Rightarrow> u16 \<Rightarrow> u64 \<Rightarrow> ('h, 'x) pci_state_scheme \<Rightarrow> ('h, 'x) pci_state_scheme" where
  "insd 0 dev port a s = s"
| "insd (Suc n) dev port a s =
    (let (v, s) = io (ind dev port) s
     in insd n dev port (a + 4) (set_ram (\<lambda>m. store32 m a v) s))"

definition ata_read_buffer ::
  "device \<Rightarrow> schedule \<Rightarrow> u8 \<Rightarrow> u8 \<Rightarrow> u64 \<Rightarrow> nat \<Rightarrow> ('h, 'x) ata_state_scheme \<Rightarrow> ('h, 'x) ata_state_scheme result" where
  "ata_read_buffer dev irqs ch reg buffer quads s = with_chan s ch (\<lambda>c.
     rbind (ata_sleep irqs 1 (hob_on c reg s)) (\<lambda>s.
       let s = (case reg_port c reg of Some p \<Rightarrow> insd quads dev p buffer s | None \<Rightarrow> s)
       in ret (hob_off c reg s)))"

section \<open>Channels and drives\<close>

definition ide_base :: "u32 \<Rightarrow> u16 \<Rightarrow> u16" where
  "ide_base b dflt = ucast ((b AND 0xFFFFFFFC) + (if b = 0 then ucast dflt else 0))"

definition add_chan :: "u16 \<Rightarrow> u16 \<Rightarrow> u16 \<Rightarrow> ('h, 'x) ata_state_scheme \<Rightarrow> ('h, 'x) ata_state_scheme result" where
  "add_chan b c bm s =
    (let i = chan_count s in
     if unat i < length (chans s) then
       rbind (ata_write_reg i ATA_REG_CONTROL 2
           (s\<lparr>chans := (chans s)[unat i := \<lparr>base = b, control = c, bmide = bm, no_int = 0\<rparr>]\<rparr>))
         (\<lambda>s. ret (s\<lparr>chan_count := i + 1\<rparr>))
     else fail OutOfBounds)"

definition ata_init_ide ::
  "u32 \<Rightarrow> u32 \<Rightarrow> u32 \<Rightarrow> u32 \<Rightarrow> u32 \<Rightarrow> ('h, 'x) ata_state_scheme \<Rightarrow> ('h, 'x) ata_state_scheme result" where
  "ata_init_ide bar0 bar1 bar2 bar3 bar4 s =
     rbind (add_chan (ide_base bar0 0x1F0) (ide_base bar1 0x3F6) (ucast ((bar4 AND 0xFFFFFFFC) + 0)) s)
       (add_chan (ide_base bar2 0x170) (ide_base bar3 0x376) (ucast ((bar4 AND 0xFFFFFFFC) + 8)))"

definition upd_drive :: "(ata_dev \<Rightarrow> ata_dev) \<Rightarrow> ('h, 'x) ata_state_scheme \<Rightarrow> ('h, 'x) ata_state_scheme result" where
  "upd_drive f s =
    (let i = unat (drive_count s) in
     if i < length (drives s) then ret (s\<lparr>drives := (drives s)[i := f (drives s ! i)]\<rparr>) else fail OutOfBounds)"

text \<open>Waiting for the answer to IDENTIFY; the result tells whether the drive reported an error.\<close>

partial_function (option) identify_wait ::
  "device \<Rightarrow> schedule \<Rightarrow> u8 \<Rightarrow> ('h, 'x) ata_state_scheme \<Rightarrow> (bool \<times> ('h, 'x) ata_state_scheme) result" where
  "identify_wait dev irqs i s =
     rbind (ata_read_reg dev irqs i ATA_REG_STATUS s) (\<lambda>(status, s).
       if status AND ATA_SR_ERR \<noteq> 0 then ret (True, s)
       else if status AND ATA_SR_BSY = 0 \<and> status AND ATA_SR_DRQ \<noteq> 0 then ret (False, s)
       else identify_wait dev irqs i s)"

text \<open>The probe for a packet device: \<open>None\<close> is "unknown type".\<close>

definition probe_packet ::
  "device \<Rightarrow> schedule \<Rightarrow> u8 \<Rightarrow> ('h, 'x) ata_state_scheme \<Rightarrow> (bool option \<times> ('h, 'x) ata_state_scheme) result" where
  "probe_packet dev irqs i s =
     rbind (ata_read_reg dev irqs i ATA_REG_LBA1 s) (\<lambda>(cl, s).
     rbind (ata_read_reg dev irqs i ATA_REG_LBA2 s) (\<lambda>(ch, s).
       if cl = 0x14 \<and> ch = 0xEB \<or> cl = 0x69 \<and> ch = 0x96 then
         rbind (ata_write_reg i ATA_REG_COMMAND ATA_CMD_IDENTIFY_PACKET s) (\<lambda>s.
         rbind (ata_sleep irqs 1 s) (\<lambda>s. ret (Some True, s)))
       else ret (None, s)))"

text \<open>The drive described by the 512 bytes of the identification space at \<open>a\<close>. Fields that
  are not set keep what an earlier probe left in the array.\<close>

definition byte_swapped :: "mem \<Rightarrow> u64 \<Rightarrow> nat \<Rightarrow> u8 list" where
  "byte_swapped m a n = concat (map (\<lambda>k. [m (a + of_nat (2 * k + 1)), m (a + of_nat (2 * k))]) [0..<n])"

definition ident_drive :: "mem \<Rightarrow> u64 \<Rightarrow> u8 \<Rightarrow> bool \<Rightarrow> bool \<Rightarrow> ata_dev \<Rightarrow> ata_dev" where
  "ident_drive m a i is_slave is_atapi d =
    (let d = d\<lparr>active := True, atapi := is_atapi, channel := i, slave := is_slave,
           signature := load16 m a, capabilities := load32 m (a + 98),
           commands1 := load64 m (a + 164), commands2 := ucast (load32 m (a + 164 + 8)),
           sector_size := 512\<rparr>;
         n = load16 m (a + 212);
         d = (if n AND 0x4000 \<noteq> 0 \<and> n AND 0x8000 = 0 then
                let d = d\<lparr>multisect := n AND 0x2000 \<noteq> 0, largesect := n AND 0x1000 \<noteq> 0\<rparr>
                in if largesect d then d\<lparr>sector_size := 512 * push_bit (unat (n AND 0xF)) 2\<rparr> else d
              else d);
         d = (if commands1 d AND push_bit 26 1 \<noteq> 0
              then d\<lparr>sectors := load64 m (a + 200) AND 0xFFFFFFFFFFFF, lba48 := True\<rparr>
              else d\<lparr>sectors := ucast (load32 m (a + 120)) AND 0xFFFFFFF, lba48 := False\<rparr>)
     in d\<lparr>model := byte_swapped m (a + 54) 20 @ [0]\<rparr>)"

text \<open>One turn of the loop over master and slave.\<close>

definition init_drive ::
  "nat \<Rightarrow> device \<Rightarrow> schedule \<Rightarrow> u8 \<Rightarrow> bool \<Rightarrow> ('h, 'x) ata_state_scheme \<Rightarrow> ('h, 'x) ata_state_scheme result" where
  "init_drive d dev irqs i j s =
     rbind (upd_drive (\<lambda>e. e\<lparr>active := False\<rparr>) s) (\<lambda>s.
     rbind (ata_write_reg i ATA_REG_HDDEVSEL (0xA0 OR push_bit 4 (of_bool j)) s) (\<lambda>s.
     rbind (ata_sleep irqs 1 s) (\<lambda>s.
     rbind (ata_write_reg i ATA_REG_COMMAND ATA_CMD_IDENTIFY s) (\<lambda>s.
     rbind (ata_sleep irqs 1 s) (\<lambda>s.
     rbind (ata_read_reg dev irqs i ATA_REG_STATUS s) (\<lambda>(status, s).
       if status = 0 then ret s
       else
         rbind (identify_wait dev irqs i s) (\<lambda>(err, s).
         rbind (if err then probe_packet dev irqs i s else ret (Some False, s)) (\<lambda>(kind, s).
           case kind of
             None \<Rightarrow> ret s
           | Some is_atapi \<Rightarrow>
               rbind (from_option (mem_alloc d (2 * 256) (pages s))) (\<lambda>(p, ident).
               rbind (ata_read_buffer dev irqs i ATA_REG_DATA ident 128 (s\<lparr>pages := p\<rparr>)) (\<lambda>s.
               rbind (upd_drive (ident_drive (ram (pages s)) ident i j is_atapi) s) (\<lambda>s.
                 ret (s\<lparr>drive_count := drive_count s + 1\<rparr>))))))))))))"

definition ata_init_dev ::
  "nat \<Rightarrow> device \<Rightarrow> schedule \<Rightarrow> u8 \<Rightarrow> ('h, 'x) ata_state_scheme \<Rightarrow> ('h, 'x) ata_state_scheme result" where
  "ata_init_dev d dev irqs i = each (init_drive d dev irqs i) [False, True]"

section \<open>Polling\<close>

partial_function (option) busy_wait ::
  "device \<Rightarrow> schedule \<Rightarrow> u8 \<Rightarrow> ('h, 'x) ata_state_scheme \<Rightarrow> ('h, 'x) ata_state_scheme result" where
  "busy_wait dev irqs ch s =
     rbind (ata_read_reg dev irqs ch ATA_REG_STATUS s) (\<lambda>(status, s).
       if status AND ATA_SR_BSY \<noteq> 0 then busy_wait dev irqs ch s else ret s)"

text \<open>\<open>n\<close> is the number of further turns before the loop gives up.\<close>

primrec drq_wait ::
  "nat \<Rightarrow> device \<Rightarrow> schedule \<Rightarrow> u8 \<Rightarrow> ('h, 'x) ata_state_scheme \<Rightarrow> (u64 \<times> ('h, 'x) ata_state_scheme) result" where
  "drq_wait 0 dev irqs ch s =
     rbind (ata_read_reg dev irqs ch ATA_REG_STATUS s) (\<lambda>(status, s).
       ret (if status AND ATA_SR_DRQ = 0 then 3 else 0, s))"
| "drq_wait (Suc n) dev irqs ch s =
     rbind (ata_read_reg dev irqs ch ATA_REG_STATUS s) (\<lambda>(status, s).
       if status AND ATA_SR_DRQ = 0 then drq_wait n dev irqs ch s else ret (0, s))"

definition ata_poll ::
  "device \<Rightarrow> schedule \<Rightarrow> u8 \<Rightarrow> bool \<Rightarrow> ('h, 'x) ata_state_scheme \<Rightarrow> (u64 \<times> ('h, 'x) ata_state_scheme) result" where
  "ata_poll dev irqs ch err_check s =
     rbind (ata_sleep irqs 1 s) (\<lambda>s.
     rbind (busy_wait dev irqs ch s) (\<lambda>s.
       if err_check then
         rbind (ata_read_reg dev irqs ch ATA_REG_STATUS s) (\<lambda>(status, s).
           if status AND ATA_SR_ERR \<noteq> 0 then ret (1, s)
           else if status AND ATA_SR_DF \<noteq> 0 then ret (2, s)
           else drq_wait 10000 dev irqs ch s)
       else ret (0, s)))"

definition ata_dev_sel :: "schedule \<Rightarrow> u8 \<Rightarrow> ('h, 'x) ata_state_scheme \<Rightarrow> ('h, 'x) ata_state_scheme result" where
  "ata_dev_sel irqs idx s = with_drive s idx (\<lambda>d.
     rbind (ata_write_reg (channel d) ATA_REG_HDDEVSEL (0xE0 OR push_bit 4 (of_bool (slave d))) s)
       (ata_sleep irqs 1))"

section \<open>The operations\<close>

definition zero_chan :: ide_chan where
  "zero_chan = \<lparr>base = 0, control = 0, bmide = 0, no_int = 0\<rparr>"

definition zero_drive :: ata_dev where
  "zero_drive = \<lparr>active = False, slave = False, atapi = False, lba48 = False, multisect = False,
     largesect = False, sectors = 0, sector_size = 0, commands1 = 0, commands2 = 0,
     capabilities = 0, signature = 0, channel = 0, model = replicate 41 0\<rparr>"

text \<open>A controller of the loop: the index passed to \<^verbatim>\<open>pci_get_device\<close> is always 0.\<close>

definition init_controller ::
  "nat \<Rightarrow> device \<Rightarrow> nat \<Rightarrow> ('h, 'x) ata_state_scheme \<Rightarrow> ('h, 'x) ata_state_scheme result" where
  "init_controller d dev i s =
    (case pci_get_device 0x01 0x01 0 s of
       None \<Rightarrow> ret s
     | Some addr \<Rightarrow>
         rbind (pci_alloc_clean d SIZEOF_PCI_DEVICE s) (\<lambda>(ptr, s).
           let (r, s) = run_state (pci_get_config dev addr) s;
               s = set_ram (\<lambda>m. store_rows m ptr r) s
           in ata_init_ide (bar r 0) (bar r 1) (bar r 2) (bar r 3) (bar r 4) s))"

definition init_channel ::
  "nat \<Rightarrow> device \<Rightarrow> schedule \<Rightarrow> nat \<Rightarrow> ('h, 'x) ata_state_scheme \<Rightarrow> ('h, 'x) ata_state_scheme result" where
  "init_channel d dev irqs i s =
     rbind (ata_init_dev d dev irqs (of_nat i) s) (\<lambda>s.
       if i < length (chans s) then
         ata_write_reg (of_nat i) ATA_REG_CONTROL 0
           (s\<lparr>chans := (chans s)[i := (chans s ! i)\<lparr>no_int := 0\<rparr>]\<rparr>)
       else fail OutOfBounds)"

definition ata_init ::
  "nat \<Rightarrow> device \<Rightarrow> schedule \<Rightarrow> 'h \<Rightarrow> ('h, 'x) ata_state_scheme \<Rightarrow> (bool \<times> ('h, 'x) ata_state_scheme) result" where
  "ata_init d dev irqs handler s =
    (let dev_count = pci_num_device 0x01 0x01 s in
     rbind (pci_alloc_clean d (8 * 2 * ucast dev_count) s) (\<lambda>(_, s).
       let s = s\<lparr>chans := replicate (2 * unat dev_count) zero_chan, chan_count := 0, drive_count := 0\<rparr>
       in rbind (each (init_controller d dev) [0..<unat dev_count] s) (\<lambda>s.
         if chan_count s > 0 then
           let s = interrupt_reg_irq_handler 14 (Some handler) s;
               s = interrupt_reg_irq_handler 15 (Some handler) s;
               n = unat (chan_count s)
           in rbind (pci_alloc_clean d (88 * 2 * ucast (chan_count s)) s) (\<lambda>(_, s).
              let s = s\<lparr>drives := replicate (2 * n) zero_drive, drive_count := 0\<rparr>
              in rbind (each (init_channel d dev irqs) [0..<n] s) (\<lambda>s.
                   ret (drive_count s > 0, s)))
         else ret (False, s))))"

definition ata_num_device :: "('h, 'x) ata_state_scheme \<Rightarrow> u8" where
  "ata_num_device s = drive_count s"

text \<open>\<open>ret None\<close> is the result false.\<close>

definition ata_device_info :: "u8 \<Rightarrow> ('h, 'x) ata_state_scheme \<Rightarrow> ata_dev option result" where
  "ata_device_info idx s = (if idx < drive_count s then with_drive s idx (\<lambda>e. ret (Some e)) else ret None)"

text \<open>Programming the registers of a read request.\<close>

definition write_regs :: "u8 \<Rightarrow> (u8 \<times> u8) list \<Rightarrow> ('h, 'x) ata_state_scheme \<Rightarrow> ('h, 'x) ata_state_scheme result" where
  "write_regs ch = each (\<lambda>(reg, data). ata_write_reg ch reg data)"

definition ata_request :: "u8 \<Rightarrow> bool \<Rightarrow> u64 \<Rightarrow> u64 \<Rightarrow> ('h, 'x) ata_state_scheme \<Rightarrow> ('h, 'x) ata_state_scheme result" where
  "ata_request ch ext lba n s =
     rbind (if ext then write_regs ch
              [(ATA_REG_SECCOUNT1, ucast (drop_bit 8 n)), (ATA_REG_LBA3, ucast (drop_bit 24 lba)),
               (ATA_REG_LBA4, ucast (drop_bit 32 lba)), (ATA_REG_LBA5, ucast (drop_bit 40 lba))] s
            else ret s)
      (write_regs ch
        [(ATA_REG_SECCOUNT0, ucast n), (ATA_REG_LBA0, ucast lba), (ATA_REG_LBA1, ucast (drop_bit 8 lba)),
         (ATA_REG_LBA2, ucast (drop_bit 16 lba)),
         (ATA_REG_COMMAND, if ext then ATA_CMD_READ_PIO_EXT else ATA_CMD_READ_PIO)])"

text \<open>The loop over \<open>n\<close> sectors: True is an error.\<close>

primrec read_sectors ::
  "nat \<Rightarrow> device \<Rightarrow> schedule \<Rightarrow> u8 \<Rightarrow> u64 \<Rightarrow> u64 \<Rightarrow> ('h, 'x) ata_state_scheme \<Rightarrow> (bool \<times> ('h, 'x) ata_state_scheme) result" where
  "read_sectors 0 dev irqs ch sz t s = ret (False, s)"
| "read_sectors (Suc n) dev irqs ch sz t s =
     rbind (ata_poll dev irqs ch True s) (\<lambda>(err, s).
       if err = 0 then with_chan s ch (\<lambda>c.
         read_sectors n dev irqs ch sz (t + sz)
           (insw (unat (ucast (drop_bit 1 sz) :: u32)) dev (base c) t s))
       else ret (True, s))"

definition ata_read ::
  "nat \<Rightarrow> device \<Rightarrow> schedule \<Rightarrow> u64 \<Rightarrow> u8 \<Rightarrow> u64 \<Rightarrow> u64 \<Rightarrow> ('h, 'x) ata_state_scheme \<Rightarrow> (bool \<times> ('h, 'x) ata_state_scheme) result" where
  "ata_read d dev irqs buff idx lba len s =
    (if idx < drive_count s then with_drive s idx (\<lambda>e.
       if sector_size e = 0 then fail DivByZero
       else
         let ch = channel e;
             n = (len + (sector_size e - 1)) div sector_size e
         in rbind (ata_dev_sel irqs idx s) (\<lambda>s.
            rbind (ata_request ch (lba48 e) lba n s) (\<lambda>s.
            rbind (from_option (mem_alloc d (n * sector_size e) (pages s))) (\<lambda>(p, tmp).
            rbind (read_sectors (unat n) dev irqs ch (sector_size e) tmp (s\<lparr>pages := p\<rparr>)) (\<lambda>(error, s).
              let s = set_ram (\<lambda>m. mem_copy m buff tmp len) s
              in rbind (pci_free tmp s) (\<lambda>s. ret (\<not> error, s)))))))
     else ret (False, s))"

definition ata_write :: "u8 \<Rightarrow> u64 \<Rightarrow> u64 \<Rightarrow> u64 \<Rightarrow> 's \<Rightarrow> bool \<times> 's" where
  "ata_write idx buff lba len s = (False, s)"

definition ata_handler :: "irq_stack \<Rightarrow> 's \<Rightarrow> u64 \<times> 's" where
  "ata_handler stack s = (0, s)"

section \<open>What the drive is told\<close>

text \<open>The bytes written to a port, newest first. The sector count and address registers of a
  drive are two deep: it takes the last byte written as the low part and the one before as the
  high part of a 48-bit request; a 28-bit request takes its top four bits from the device
  register (port 6).\<close>

fun writes_to :: "u16 \<Rightarrow> io_event list \<Rightarrow> u8 list" where
  "writes_to port [] = []"
| "writes_to port (OutB p v # log) = (if p = port then v # writes_to port log else writes_to port log)"
| "writes_to port (_ # log) = writes_to port log"

definition cur :: "u16 \<Rightarrow> io_event list \<Rightarrow> u64" where
  "cur port log = ucast (hd (writes_to port log))"

definition prev :: "u16 \<Rightarrow> io_event list \<Rightarrow> u64" where
  "prev port log = ucast (hd (tl (writes_to port log)))"

definition request48 :: "u16 \<Rightarrow> io_event list \<Rightarrow> u64 \<times> u64" where
  "request48 b log =
    (cur (b + 3) log OR push_bit 8 (cur (b + 4) log) OR push_bit 16 (cur (b + 5) log) OR
     push_bit 24 (prev (b + 3) log) OR push_bit 32 (prev (b + 4) log) OR push_bit 40 (prev (b + 5) log),
     cur (b + 2) log OR push_bit 8 (prev (b + 2) log))"

definition request28 :: "u16 \<Rightarrow> io_event list \<Rightarrow> u64 \<times> u64" where
  "request28 b log =
    (cur (b + 3) log OR push_bit 8 (cur (b + 4) log) OR push_bit 16 (cur (b + 5) log) OR
     push_bit 24 (cur (b + 6) log AND 0xF), cur (b + 2) log)"

lemma take_byte: "ucast (ucast w :: u8) = take_bit 8 (w :: u64)"
  by (rule bit_eqI) (auto simp: bit_ucast_iff bit_take_bit_iff dest: bit_imp_le_length)

lemma add_byte:
  assumes "k + 8 \<le> 64"
  shows "take_bit k w OR push_bit k (ucast (ucast (drop_bit k w) :: u8)) = take_bit (k + 8) (w :: u64)"
proof (rule bit_eqI)
  fix n :: nat
  assume "possible_bit TYPE(u64) n"
  then have "n < 64" by simp
  then show "bit (take_bit k w OR push_bit k (ucast (ucast (drop_bit k w) :: u8))) n = bit (take_bit (k + 8) w) n"
    by (cases "n < k") (auto simp: bit_or_iff bit_take_bit_iff bit_push_bit_iff take_byte bit_drop_bit_eq)
qed

lemma add_byte0: "ucast (ucast w :: u8) OR push_bit 8 (ucast (ucast (drop_bit 8 w) :: u8)) = take_bit 16 (w :: u64)"
  using add_byte [where k = 8 and w = w] by (simp add: take_byte)

lemma add_byte_at:
  "take_bit 16 w OR push_bit 16 (ucast (ucast (drop_bit 16 w) :: u8)) = take_bit 24 (w :: u64)"
  "take_bit 24 w OR push_bit 24 (ucast (ucast (drop_bit 24 w) :: u8)) = take_bit 32 (w :: u64)"
  "take_bit 32 w OR push_bit 32 (ucast (ucast (drop_bit 32 w) :: u8)) = take_bit 40 (w :: u64)"
  "take_bit 40 w OR push_bit 40 (ucast (ucast (drop_bit 40 w) :: u8)) = take_bit 48 (w :: u64)"
  using add_byte [where w = w and k = 16] add_byte [where w = w and k = 24]
    add_byte [where w = w and k = 32] add_byte [where w = w and k = 40] by simp_all

lemmas add_bytes8 = add_byte0 add_byte_at

lemma bytes6: "ucast (ucast lba :: u8) OR push_bit 8 (ucast (ucast (drop_bit 8 lba) :: u8)) OR
    push_bit 16 (ucast (ucast (drop_bit 16 lba) :: u8)) OR push_bit 24 (ucast (ucast (drop_bit 24 lba) :: u8)) OR
    push_bit 32 (ucast (ucast (drop_bit 32 lba) :: u8)) OR push_bit 40 (ucast (ucast (drop_bit 40 lba) :: u8))
    = take_bit 48 (lba :: u64)"
  by (simp only: or.assoc [symmetric] add_bytes8)

lemma bytes3: "ucast (ucast lba :: u8) OR push_bit 8 (ucast (ucast (drop_bit 8 lba) :: u8)) OR
    push_bit 16 (ucast (ucast (drop_bit 16 lba) :: u8)) = take_bit 24 (lba :: u64)"
  by (simp only: or.assoc [symmetric] add_bytes8)

lemma bytes2: "ucast (ucast n :: u8) OR push_bit 8 (ucast (ucast (drop_bit 8 n) :: u8)) = take_bit 16 (n :: u64)"
  by (simp only: or.assoc [symmetric] add_bytes8)

lemma io_out [simp]: "io (outb p v) s = ((), s\<lparr>io_log := OutB p v # io_log s\<rparr>)"
  by (simp add: io_def)

definition reg_log :: "ide_chan \<Rightarrow> u8 \<times> u8 \<Rightarrow> io_event list \<Rightarrow> io_event list" where
  "reg_log c = (\<lambda>(reg, data) log.
     if reg < 8 then OutB (base c + ucast reg) data # log
     else OutB (control c + 2) (push_bit 1 (no_int c)) # OutB (base c + ucast reg - 6) data #
       OutB (control c + 2) (0x80 OR push_bit 1 (no_int c)) # log)"

lemma write_reg_log:
  assumes "unat ch < length (chans s)" and c: "c = chans s ! unat ch" and r: "reg < 0x0C"
  shows "\<exists>s'. ata_write_reg ch reg data s = ret s' \<and> chans s' = chans s \<and>
    io_log s' = reg_log c (reg, data) (io_log s)"
proof (cases "reg < 8")
  case True
  then have "\<not> high_reg reg" by (simp add: high_reg_def word_less_nat_alt)
  with True assms show ?thesis
    by (simp add: reg_log_def ata_write_reg_def with_chan_def hob_on_def hob_off_def port_write_def reg_port_def)
next
  case False
  then have "high_reg reg" using r by (simp add: high_reg_def word_less_nat_alt)
  with False assms show ?thesis
    by (simp add: reg_log_def ata_write_reg_def with_chan_def hob_on_def hob_off_def port_write_def reg_port_def)
qed

lemma write_regs_log:
  assumes "unat ch < length (chans s)" and "c = chans s ! unat ch" and "\<forall>(reg, data) \<in> set rs. reg < 0x0C"
  shows "\<exists>s'. write_regs ch rs s = ret s' \<and> chans s' = chans s \<and> io_log s' = fold (reg_log c) rs (io_log s)"
  using assms
proof (induction rs arbitrary: s)
  case Nil
  show ?case by (simp add: write_regs_def)
next
  case (Cons r rs)
  obtain reg data where r: "r = (reg, data)" by force
  with Cons.prems have "reg < 0x0C" by simp
  with Cons.prems obtain s1 where s1: "ata_write_reg ch reg data s = ret s1" "chans s1 = chans s"
      "io_log s1 = reg_log c (reg, data) (io_log s)"
    using write_reg_log by blast
  with Cons.prems Cons.IH [of s1] show ?case by (auto simp: r write_regs_def)
qed

section \<open>Properties\<close>

text \<open>C26. The request \<^verbatim>\<open>ata_read\<close> programs: a 48-bit drive is asked for exactly
  \<open>lba mod 2 ^ 48\<close> and \<open>n mod 2 ^ 16\<close> sectors; a 28-bit drive for \<open>lba mod 2 ^ 24\<close>, as the
  code never writes the address bits 24 to 27, so it reads other sectors than requested beyond
  8 GB. The command is written last.\<close>

theorem ata_request_lba:
  assumes ch: "unat ch < length (chans s)" and c: "c = chans s ! unat ch"
    and ports: "control c + 2 \<notin> {base c + 2, base c + 3, base c + 4, base c + 5, base c + 6, base c + 7}"
    and sel: "cur (base c + 6) (io_log s) AND 0xF = 0"
  shows "\<exists>s'. ata_request ch ext lba n s = ret s' \<and>
    (if ext then request48 (base c) (io_log s') = (take_bit 48 lba, take_bit 16 n)
     else request28 (base c) (io_log s') = (take_bit 24 lba, take_bit 8 n)) \<and>
    hd (io_log s') = OutB (base c + 7) (if ext then 0x24 else 0x20)"
proof -
  let ?hi = "[(ATA_REG_SECCOUNT1, ucast (drop_bit 8 n)), (ATA_REG_LBA3, ucast (drop_bit 24 lba)),
    (ATA_REG_LBA4, ucast (drop_bit 32 lba)), (ATA_REG_LBA5, ucast (drop_bit 40 lba))]"
  let ?lo = "[(ATA_REG_SECCOUNT0, ucast n), (ATA_REG_LBA0, ucast lba), (ATA_REG_LBA1, ucast (drop_bit 8 lba)),
    (ATA_REG_LBA2, ucast (drop_bit 16 lba)),
    (ATA_REG_COMMAND, if ext then ATA_CMD_READ_PIO_EXT else ATA_CMD_READ_PIO)]"
  obtain s1 where s1: "(if ext then write_regs ch ?hi s else ret s) = ret s1" "chans s1 = chans s"
      "io_log s1 = (if ext then fold (reg_log c) ?hi (io_log s) else io_log s)"
    using write_regs_log [OF ch c, of ?hi] by (cases ext) auto
  obtain s2 where s2: "write_regs ch ?lo s1 = ret s2" "io_log s2 = fold (reg_log c) ?lo (io_log s1)"
    using write_regs_log [of ch s1 c ?lo] ch c s1(2) by auto
  have run: "ata_request ch ext lba n s = ret s2" by (simp add: ata_request_def s1(1) s2(1))
  show ?thesis
  proof (cases ext)
    case True
    have "request48 (base c) (io_log s2) = (take_bit 48 lba, take_bit 16 n)"
      using ports by (simp add: request48_def cur_def prev_def s2(2) s1(3) True reg_log_def bytes6 bytes2)
    moreover have "hd (io_log s2) = OutB (base c + 7) 0x24" by (simp add: s2(2) reg_log_def True)
    ultimately show ?thesis using run True by simp
  next
    case False
    have "request28 (base c) (io_log s2) = (take_bit 24 lba, take_bit 8 n)"
      using ports sel by (simp add: request28_def cur_def s2(2) s1(3) False reg_log_def bytes3 take_byte [of n])
    moreover have "hd (io_log s2) = OutB (base c + 7) 0x20" by (simp add: s2(2) reg_log_def False)
    ultimately show ?thesis using run False by simp
  qed
qed

text \<open>Asking for sector 0x12345678 of a 28-bit drive on the primary channel requests
  sector 0x345678.\<close>

definition primary_channel :: "unit ata_state" where
  "primary_channel = pci_state.extend (idle_pci\<lparr>io_log := [OutB 0x1F6 0xE0]\<rparr>)
     \<lparr>chans = [zero_chan\<lparr>base := 0x1F0, control := 0x3F6\<rparr>], chan_count = 1, drives = [], drive_count = 0\<rparr>"

lemma ata_request_lba_witness:
  "\<exists>s'. ata_request 0 False 0x12345678 1 primary_channel = ret s' \<and>
    request28 0x1F0 (io_log s') = (0x345678, 1)"
  using ata_request_lba [where ch = 0 and ext = False and lba = "0x12345678" and n = 1 and
      s = primary_channel and c = "zero_chan\<lparr>base := 0x1F0, control := 0x3F6\<rparr>"]
  by (simp add: primary_channel_def cur_def zero_chan_def pci_state.defs pit_state.defs idle_pci_def)
    (auto simp: take_bit_eq_mod)

end
