(* ===== verification/Ahci.thy ===== *)
theory Ahci
  imports Ata LibLemmas
begin

text \<open>
  The SATA driver \<^verbatim>\<open>src/src/kernel/bus/ahci.c\<close>. It calls the paging and PCI functions with
  the arguments they have in the loader, so it is modelled on the loader's state. The registers
  of the controller are memory; the structures are volatile and the controller works on the
  same memory, so every read of such a structure comes after one step of the hardware
  \<open>hw t\<close>, an arbitrary function of memory and of the number \<open>t\<close> of steps before.
\<close>

section \<open>State and register access\<close>

record ahci_dev =
  hba_ptr :: u64
  port_no :: u8
  int_pin :: u8
  int_line :: u8
  dev_cmd :: u16
  dev_sts :: u16

record 'h ahci_state = "'h pci_state" +
  ahci_devs :: "ahci_dev list"
  ahci_count :: u64
  hw_time :: nat

type_synonym hardware = "nat \<Rightarrow> mem \<Rightarrow> mem"

abbreviation mem_of :: "('h, 'x) pci_state_scheme \<Rightarrow> mem" where
  "mem_of s \<equiv> ram (pages s)"

definition vstep :: "hardware \<Rightarrow> ('h, 'x) ahci_state_scheme \<Rightarrow> ('h, 'x) ahci_state_scheme" where
  "vstep hw s = (set_ram (hw (hw_time s)) s)\<lparr>hw_time := Suc (hw_time s)\<rparr>"

definition vread8 :: "hardware \<Rightarrow> u64 \<Rightarrow> ('h, 'x) ahci_state_scheme \<Rightarrow> u8 \<times> ('h, 'x) ahci_state_scheme" where
  "vread8 hw a s = (let s = vstep hw s in (mem_of s a, s))"

definition vread32 :: "hardware \<Rightarrow> u64 \<Rightarrow> ('h, 'x) ahci_state_scheme \<Rightarrow> u32 \<times> ('h, 'x) ahci_state_scheme" where
  "vread32 hw a s = (let s = vstep hw s in (load32 (mem_of s) a, s))"

definition vread64 :: "hardware \<Rightarrow> u64 \<Rightarrow> ('h, 'x) ahci_state_scheme \<Rightarrow> u64 \<times> ('h, 'x) ahci_state_scheme" where
  "vread64 hw a s = (let s = vstep hw s in (load64 (mem_of s) a, s))"

text \<open>A bit field: reading it, and writing it, which reads the word around it first.\<close>

definition get_field :: "nat \<Rightarrow> nat \<Rightarrow> u32 \<Rightarrow> u32" where
  "get_field pos len w = take_bit len (drop_bit pos w)"

definition vfield :: "hardware \<Rightarrow> u64 \<Rightarrow> nat \<Rightarrow> nat \<Rightarrow> ('h, 'x) ahci_state_scheme \<Rightarrow> u32 \<times> ('h, 'x) ahci_state_scheme" where
  "vfield hw a pos len s = (let (w, s) = vread32 hw a s in (get_field pos len w, s))"

definition vset :: "hardware \<Rightarrow> u64 \<Rightarrow> nat \<Rightarrow> nat \<Rightarrow> u32 \<Rightarrow> ('h, 'x) ahci_state_scheme \<Rightarrow> ('h, 'x) ahci_state_scheme" where
  "vset hw a pos len v s =
     (let (w, s) = vread32 hw a s in set_ram (\<lambda>m. store32 m a (set_field pos len v w)) s)"

section \<open>Registers and structures\<close>

text \<open>Offsets of \<^verbatim>\<open>ahci_hba_t\<close> and \<^verbatim>\<open>ahci_port_t\<close>.\<close>

abbreviation (input) HBA_CAP :: u64 where "HBA_CAP \<equiv> 0x00"
abbreviation (input) HBA_GHC :: u64 where "HBA_GHC \<equiv> 0x04"
abbreviation (input) HBA_PI :: u64 where "HBA_PI \<equiv> 0x0C"
abbreviation (input) PORT_CLB :: u64 where "PORT_CLB \<equiv> 0x00"
abbreviation (input) PORT_IS :: u64 where "PORT_IS \<equiv> 0x10"
abbreviation (input) PORT_CMD :: u64 where "PORT_CMD \<equiv> 0x18"
abbreviation (input) PORT_TFD :: u64 where "PORT_TFD \<equiv> 0x20"
abbreviation (input) PORT_SIG :: u64 where "PORT_SIG \<equiv> 0x24"
abbreviation (input) PORT_SSTS :: u64 where "PORT_SSTS \<equiv> 0x28"
abbreviation (input) PORT_SACT :: u64 where "PORT_SACT \<equiv> 0x34"
abbreviation (input) PORT_CI :: u64 where "PORT_CI \<equiv> 0x38"

definition hba_port :: "u64 \<Rightarrow> u8 \<Rightarrow> u64" where
  "hba_port hba n = hba + 256 + 128 * ucast n"

abbreviation (input) AHCI_DEV_NONE :: u32 where "AHCI_DEV_NONE \<equiv> 0x00000000"
abbreviation (input) AHCI_DEV_SATA :: u32 where "AHCI_DEV_SATA \<equiv> 0x00000101"
abbreviation (input) AHCI_DEV_SATAPI :: u32 where "AHCI_DEV_SATAPI \<equiv> 0xEB140101"
abbreviation (input) AHCI_DEV_SEMB :: u32 where "AHCI_DEV_SEMB \<equiv> 0xC33C0101"
abbreviation (input) AHCI_DEV_PM :: u32 where "AHCI_DEV_PM \<equiv> 0x96690101"
abbreviation (input) AHCI_HBA_MASK :: u64 where "AHCI_HBA_MASK \<equiv> 0xFFFFFFFFFFFFE000"
abbreviation (input) AHCI_BLOCK_SIZE :: u64 where "AHCI_BLOCK_SIZE \<equiv> 0x1000"
abbreviation (input) ATA_CMD_IDENTIFY_DEVICE :: u8 where "ATA_CMD_IDENTIFY_DEVICE \<equiv> 0xEC"
abbreviation (input) ATA_CMD_READ_DMA_EX :: u8 where "ATA_CMD_READ_DMA_EX \<equiv> 0x25"
abbreviation (input) FIS_TYPE_REG_H2D :: u8 where "FIS_TYPE_REG_H2D \<equiv> 0x27"
abbreviation (input) SIZEOF_CMD_HEADER :: u64 where "SIZEOF_CMD_HEADER \<equiv> 32"
abbreviation (input) SIZEOF_CMD_TBL :: u64 where "SIZEOF_CMD_TBL \<equiv> 144"
abbreviation (input) SIZEOF_PRDT_ENTRY :: u64 where "SIZEOF_PRDT_ENTRY \<equiv> 16"

section \<open>Finding devices\<close>

definition ahci_get_type :: "hardware \<Rightarrow> u64 \<Rightarrow> ('h, 'x) ahci_state_scheme \<Rightarrow> u32 \<times> ('h, 'x) ahci_state_scheme" where
  "ahci_get_type hw port s =
    (let (det, s) = vfield hw (port + PORT_SSTS) 0 4 s in
     if det \<noteq> 3 then (AHCI_DEV_NONE, s)
     else let (ipm, s) = vfield hw (port + PORT_SSTS) 8 4 s in
       if ipm \<noteq> 1 then (AHCI_DEV_NONE, s)
       else let (sig, s) = vread32 hw (port + PORT_SIG) s in
         if sig = AHCI_DEV_SATAPI \<or> sig = AHCI_DEV_SEMB \<or> sig = AHCI_DEV_PM
         then vread32 hw (port + PORT_SIG) s
         else (AHCI_DEV_SATA, s))"

definition is_ahci_type :: "u32 \<Rightarrow> bool" where
  "is_ahci_type t \<longleftrightarrow> t = AHCI_DEV_SATA \<or> t = AHCI_DEV_SATAPI \<or> t = AHCI_DEV_SEMB \<or> t = AHCI_DEV_PM"

text \<open>Storing into the array of 256 devices; \<open>cfg\<close> is the configuration of the controller.\<close>

definition ahci_store :: "u64 \<Rightarrow> u8 \<Rightarrow> u32 list \<Rightarrow> ('h, 'x) ahci_state_scheme \<Rightarrow> ('h, 'x) ahci_state_scheme result" where
  "ahci_store hba i cfg s =
    (if unat (ahci_count s) < length (ahci_devs s) then
       ret (s\<lparr>ahci_devs := (ahci_devs s)[unat (ahci_count s) :=
                \<lparr>hba_ptr = hba, port_no = i, int_pin = ucast (drop_bit 8 (cfg ! 15)), int_line = ucast (cfg ! 15),
                 dev_cmd = command (header_of cfg), dev_sts = status (header_of cfg)\<rparr>],
              ahci_count := ahci_count s + 1\<rparr>)
     else fail OutOfBounds)"

primrec port_loop ::
  "nat list \<Rightarrow> hardware \<Rightarrow> u64 \<Rightarrow> u32 list \<Rightarrow> u32 \<Rightarrow> ('h, 'x) ahci_state_scheme \<Rightarrow> ('h, 'x) ahci_state_scheme result" where
  "port_loop [] hw hba cfg ports s = ret s"
| "port_loop (i # is) hw hba cfg ports s =
     rbind (if ports AND 1 \<noteq> 0 then
              let (dev_type, s) = ahci_get_type hw (hba_port hba (of_nat i)) s in
              if is_ahci_type dev_type then
                let s = vset hw (hba + HBA_GHC) 31 1 1 s;
                    s = vset hw (hba + HBA_GHC) 1 1 1 s
                in ahci_store hba (of_nat i) cfg s
              else ret s
            else ret s)
       (port_loop is hw hba cfg (drop_bit 1 ports))"

definition ahci_init_port ::
  "hardware \<Rightarrow> u64 \<Rightarrow> u32 list \<Rightarrow> ('h, 'x) ahci_state_scheme \<Rightarrow> ('h, 'x) ahci_state_scheme result" where
  "ahci_init_port hw hba cfg s =
     (let (ports, s) = vread32 hw (hba + HBA_PI) s in port_loop [0..<32] hw hba cfg ports s)"

definition zero_ahci_dev :: ahci_dev where
  "zero_ahci_dev = \<lparr>hba_ptr = 0, port_no = 0, int_pin = 0, int_line = 0, dev_cmd = 0, dev_sts = 0\<rparr>"

text \<open>Mapping a page of registers; the result of \<^verbatim>\<open>page_map_mmio\<close> is not used.\<close>

definition ahci_map :: "nat \<Rightarrow> u64 \<Rightarrow> ('h, 'x) pci_state_scheme \<Rightarrow> ('h, 'x) pci_state_scheme result" where
  "ahci_map d a s = rbind (from_option (page_map_mmio (table_al d) (pages s) a a)) (\<lambda>(p, _). ret (s\<lparr>pages := p\<rparr>))"

text \<open>One controller: its configuration is read into the block \<open>dev\<close> and used from there.\<close>

definition init_hba ::
  "nat \<Rightarrow> device \<Rightarrow> hardware \<Rightarrow> u64 \<Rightarrow> nat \<Rightarrow> ('h, 'x) ahci_state_scheme \<Rightarrow> ('h, 'x) ahci_state_scheme result" where
  "init_hba d pci hw dev i s =
    (case pci_get_device 0x1 0x6 (of_nat i) s of
       None \<Rightarrow> ret s
     | Some addr \<Rightarrow>
         let (cfg, s) = run_state (pci_get_config pci addr) s;
             s = set_ram (\<lambda>m. store_rows m dev cfg) s;
             abar = ucast (bar cfg 5) AND AHCI_HBA_MASK
         in rbind (each (\<lambda>k. ahci_map d (abar + 0x1000 * of_nat k)) [0..<2] s) (ahci_init_port hw abar cfg))"

definition ahci_init ::
  "nat \<Rightarrow> device \<Rightarrow> hardware \<Rightarrow> ('h, 'x) ahci_state_scheme \<Rightarrow> (bool \<times> ('h, 'x) ahci_state_scheme) result" where
  "ahci_init d pci hw s =
    rbind (pci_alloc_clean d SIZEOF_PCI_DEVICE s) (\<lambda>(dev, s).
    rbind (pci_alloc_clean d (16 * 256) s) (\<lambda>(_, s).
      let s = s\<lparr>ahci_devs := replicate 256 zero_ahci_dev, ahci_count := 0\<rparr>;
          dev_count = pci_num_device 0x1 0x6 s
      in rbind (each (init_hba d pci hw dev) [0..<unat dev_count] s) (\<lambda>s.
           ret (ahci_count s > 0, s))))"

definition ahci_num_dev :: "('h, 'x) ahci_state_scheme \<Rightarrow> u64" where
  "ahci_num_dev s = ahci_count s"

section \<open>Commands\<close>

text \<open>The search for a free command slot; \<open>None\<close> is the result -1. The capability register
  is read in every turn; its field has 5 bits, so the loop ends before 32.\<close>

primrec slot_loop ::
  "nat list \<Rightarrow> hardware \<Rightarrow> u64 \<Rightarrow> u32 \<Rightarrow> ('h, 'x) ahci_state_scheme \<Rightarrow> nat option \<times> ('h, 'x) ahci_state_scheme" where
  "slot_loop [] hw hba used s = (None, s)"
| "slot_loop (i # is) hw hba used s =
     (let (ncs, s) = vfield hw (hba + HBA_CAP) 8 5 s in
      if i < unat ncs then
        if used AND 1 = 0 then (Some i, s) else slot_loop is hw hba (drop_bit 1 used) s
      else (None, s))"

definition ahci_free_slot ::
  "hardware \<Rightarrow> u64 \<Rightarrow> u64 \<Rightarrow> ('h, 'x) ahci_state_scheme \<Rightarrow> nat option \<times> ('h, 'x) ahci_state_scheme" where
  "ahci_free_slot hw hba port s =
    (let (sact, s) = vread32 hw (port + PORT_SACT) s;
         (ci, s) = vread32 hw (port + PORT_CI) s
     in slot_loop [0..<32] hw hba (sact OR ci) s)"

text \<open>The command header: length of the FIS in words, direction, clear-busy, entry count.\<close>

definition setup_header :: "hardware \<Rightarrow> u64 \<Rightarrow> u32 \<Rightarrow> ('h, 'x) ahci_state_scheme \<Rightarrow> ('h, 'x) ahci_state_scheme" where
  "setup_header hw cmd prdtl s =
    (let s = vset hw cmd 0 5 (20 div 4) s;
         s = vset hw cmd 6 1 0 s;
         s = vset hw cmd 10 1 1 s
     in vset hw cmd 16 16 prdtl s)"

definition prdt_entry :: "hardware \<Rightarrow> u64 \<Rightarrow> u64 \<Rightarrow> u64 \<Rightarrow> u64 \<Rightarrow> ('h, 'x) ahci_state_scheme \<Rightarrow> ('h, 'x) ahci_state_scheme" where
  "prdt_entry hw tbl i buff len s =
    (let e = tbl + 128 + SIZEOF_PRDT_ENTRY * i;
         s = set_ram (\<lambda>m. store64 m e buff) s;
         s = vset hw (e + 12) 0 22 (ucast len) s
     in vset hw (e + 12) 31 1 1 s)"

text \<open>The loop over all entries but the last. \<^verbatim>\<open>prdtl - 1\<close> is an \<^verbatim>\<open>int\<close> that is
  converted for the comparison: for 0 entries the bound is \<open>2 ^ 64 - 1\<close>.\<close>

definition last_entry :: "u32 \<Rightarrow> u64" where
  "last_entry prdtl = ucast prdtl - 1"

partial_function (option) prdt_loop ::
  "hardware \<Rightarrow> u64 \<Rightarrow> u64 \<Rightarrow> u64 \<Rightarrow> u64 \<Rightarrow> u64 \<Rightarrow> ('h, 'x) ahci_state_scheme \<Rightarrow>
   (u64 \<times> u64 \<times> u64 \<times> ('h, 'x) ahci_state_scheme) option" where
  "prdt_loop hw cmd tbl i buff len s =
    (case vfield hw cmd 16 16 s of (prdtl, s) \<Rightarrow>
       if i < last_entry prdtl then
         prdt_loop hw cmd tbl (i + 1) (buff + AHCI_BLOCK_SIZE) (len - AHCI_BLOCK_SIZE)
           (prdt_entry hw tbl i buff AHCI_BLOCK_SIZE s)
       else Some (i, buff, len, s))"

definition vset_cmd :: "hardware \<Rightarrow> u64 \<Rightarrow> ('h, 'x) ahci_state_scheme \<Rightarrow> ('h, 'x) ahci_state_scheme" where
  "vset_cmd hw fis s = (let (b, s) = vread8 hw (fis + 1) s in set_ram (\<lambda>m. m(fis + 1 := b OR 0x80)) s)"

definition set8 :: "u64 \<Rightarrow> u8 \<Rightarrow> ('h, 'x) ahci_state_scheme \<Rightarrow> ('h, 'x) ahci_state_scheme" where
  "set8 a v s = set_ram (\<lambda>m. m(a := v)) s"

text \<open>The register FIS of a read: the bytes of the address and the count.\<close>

definition read_fis :: "hardware \<Rightarrow> u64 \<Rightarrow> u64 \<Rightarrow> u64 \<Rightarrow> ('h, 'x) ahci_state_scheme \<Rightarrow> ('h, 'x) ahci_state_scheme" where
  "read_fis hw fis addr n s =
    (let s = set8 fis FIS_TYPE_REG_H2D s;
         s = vset_cmd hw fis s;
         s = set8 (fis + 2) ATA_CMD_READ_DMA_EX s;
         s = set8 (fis + 4) (ucast addr) s;
         s = set8 (fis + 5) (ucast (drop_bit 8 addr)) s;
         s = set8 (fis + 6) (ucast (drop_bit 16 addr)) s;
         s = set8 (fis + 7) (push_bit 6 1) s;
         s = set8 (fis + 8) (ucast (drop_bit 24 addr)) s;
         s = set8 (fis + 9) (ucast (drop_bit 32 addr)) s;
         s = set8 (fis + 10) (ucast (drop_bit 40 addr)) s
     in set_ram (\<lambda>m. store_le 2 m (fis + 12) (ucast (ucast n :: u16))) s)"

text \<open>Polling: \<open>n\<close> is \<open>1000000 - spin\<close>. The result is what is left, 0 is a timeout. The
  operand \<^verbatim>\<open>busy | drq\<close> reads the status twice.\<close>

definition port_busy :: "hardware \<Rightarrow> u64 \<Rightarrow> ('h, 'x) ahci_state_scheme \<Rightarrow> bool \<times> ('h, 'x) ahci_state_scheme" where
  "port_busy hw port s =
    (let (b, s) = vread8 hw (port + PORT_TFD) s;
         (q, s) = vread8 hw (port + PORT_TFD) s
     in (bit b 7 \<or> bit q 3, s))"

primrec idle_wait :: "nat \<Rightarrow> hardware \<Rightarrow> u64 \<Rightarrow> ('h, 'x) ahci_state_scheme \<Rightarrow> nat \<times> ('h, 'x) ahci_state_scheme" where
  "idle_wait 0 hw port s = (let (_, s) = port_busy hw port s in (0, s))"
| "idle_wait (Suc n) hw port s =
     (let (busy, s) = port_busy hw port s in if busy then idle_wait n hw port s else (Suc n, s))"

text \<open>Waiting for the end of the command; the result is false for a task file error.\<close>

primrec done_wait :: "nat \<Rightarrow> hardware \<Rightarrow> u64 \<Rightarrow> nat \<Rightarrow> ('h, 'x) ahci_state_scheme \<Rightarrow> bool \<times> ('h, 'x) ahci_state_scheme" where
  "done_wait 0 hw port slot s = (True, s)"
| "done_wait (Suc n) hw port slot s =
     (let (ci, s) = vread32 hw (port + PORT_CI) s in
      if ci AND push_bit slot 1 = 0 then (True, s)
      else let (tfes, s) = vfield hw (port + PORT_IS) 30 1 s in
        if tfes \<noteq> 0 then (False, s) else done_wait n hw port slot s)"

text \<open>Issuing the command, starting the port, waiting, and the final look at the error bit. It
  is the same code in \<^verbatim>\<open>ahci_read\<close> and \<^verbatim>\<open>ahci_id\<close>.\<close>

definition issue :: "hardware \<Rightarrow> u64 \<Rightarrow> nat \<Rightarrow> ('h, 'x) ahci_state_scheme \<Rightarrow> bool \<times> ('h, 'x) ahci_state_scheme" where
  "issue hw port slot s =
    (let s = set_ram (\<lambda>m. store32 m (port + PORT_CI) (push_bit slot 1)) s;
         (st, s) = vfield hw (port + PORT_CMD) 0 1 s;
         (started, s) =
           (if st = 0 then
              let (fre, s) = vfield hw (port + PORT_CMD) 4 1 s
              in if fre \<noteq> 0 then (True, vset hw (port + PORT_CMD) 0 1 1 s) else (False, s)
            else (True, s))
     in if started then
          let (ok, s) = done_wait 1000000 hw port slot s in
          if ok then let (tfes, s) = vfield hw (port + PORT_IS) 30 1 s in (tfes = 0, s)
          else (False, s)
        else (False, s))"

text \<open>Access to the device of an index.\<close>

definition with_dev ::
  "u64 \<Rightarrow> ('h, 'x) ahci_state_scheme \<Rightarrow> (u64 \<Rightarrow> u64 \<Rightarrow> (bool \<times> ('h, 'x) ahci_state_scheme) result) \<Rightarrow>
   (bool \<times> ('h, 'x) ahci_state_scheme) result" where
  "with_dev idx s f =
    (if idx < ahci_count s then
       if unat idx < length (ahci_devs s) then
         let e = ahci_devs s ! unat idx in f (hba_ptr e) (hba_port (hba_ptr e) (port_no e))
       else fail OutOfBounds
     else ret (False, s))"

definition read_count :: "u64 \<Rightarrow> u32" where
  "read_count len = ucast (ucast ((len - 1) div AHCI_BLOCK_SIZE) :: u16) + 1"

definition table_size :: "u32 \<Rightarrow> u64" where
  "table_size prdtl = SIZEOF_CMD_TBL + last_entry prdtl * SIZEOF_PRDT_ENTRY"

text \<open>Clearing the table and filling its entries.\<close>

definition fill_prdt :: "hardware \<Rightarrow> u64 \<Rightarrow> u64 \<Rightarrow> u64 \<Rightarrow> u64 \<Rightarrow> ('h, 'x) ahci_state_scheme \<Rightarrow>
    ('h, 'x) ahci_state_scheme option" where
  "fill_prdt hw cmd tbl buff len s =
    (let (prdtl, s) = vfield hw cmd 16 16 s;
         s = set_ram (\<lambda>m. mem_fill m tbl 0 (table_size prdtl)) s
     in map_option (\<lambda>(i, buff, len, s). prdt_entry hw tbl i buff len s) (prdt_loop hw cmd tbl 0 buff len s))"

text \<open>Filling header, table, entries and FIS; the result is the address of the table. The two
  mappings stand where the code has them.\<close>

definition read_table_at :: "nat \<Rightarrow> hardware \<Rightarrow> u64 \<Rightarrow> u64 \<Rightarrow> u64 \<Rightarrow> u64 \<Rightarrow> ('h, 'x) ahci_state_scheme \<Rightarrow>
    ('h, 'x) ahci_state_scheme result" where
  "read_table_at d hw cmd addr buff len s =
    (let s = setup_header hw cmd (read_count len) s;
         (tbl, s) = vread64 hw (cmd + 8) s
     in rbind (ahci_map d tbl s) (\<lambda>s.
        rbind (from_option (fill_prdt hw cmd tbl buff len s)) (\<lambda>s.
        rbind (ahci_map d tbl s) (\<lambda>s. ret (read_fis hw tbl addr (len div AHCI_BLOCK_SIZE) s)))))"

definition ahci_read :: "nat \<Rightarrow> hardware \<Rightarrow> u64 \<Rightarrow> u64 \<Rightarrow> u64 \<Rightarrow> u64 \<Rightarrow> ('h, 'x) ahci_state_scheme \<Rightarrow>
    (bool \<times> ('h, 'x) ahci_state_scheme) result" where
  "ahci_read d hw idx addr buff len s = with_dev idx s (\<lambda>hba port.
     case ahci_free_slot hw hba port s of
       (None, s) \<Rightarrow> ret (False, s)
     | (Some slot, s) \<Rightarrow>
         let (cmd, s) = vread64 hw (port + PORT_CLB) s
         in rbind (ahci_map d cmd s) (\<lambda>s.
            rbind (read_table_at d hw (cmd + SIZEOF_CMD_HEADER * of_nat slot) addr buff len s) (\<lambda>s.
              let (n, s) = idle_wait 1000000 hw port s
              in if n = 0 then ret (False, s) else ret (issue hw port slot s))))"

definition ahci_write :: "u64 \<Rightarrow> u64 \<Rightarrow> u64 \<Rightarrow> u64 \<Rightarrow> ('h, 'x) ahci_state_scheme \<Rightarrow>
    (bool \<times> ('h, 'x) ahci_state_scheme) result" where
  "ahci_write idx addr buff len s = with_dev idx s (\<lambda>hba port. ret (False, s))"

definition ahci_id :: "hardware \<Rightarrow> u64 \<Rightarrow> u64 \<Rightarrow> ('h, 'x) ahci_state_scheme \<Rightarrow>
    (bool \<times> ('h, 'x) ahci_state_scheme) result" where
  "ahci_id hw idx buff s = with_dev idx s (\<lambda>hba port.
     case ahci_free_slot hw hba port s of
       (None, s) \<Rightarrow> ret (False, s)
     | (Some slot, s) \<Rightarrow>
         let (cmd, s) = vread64 hw (port + PORT_CLB) s;
             cmd = cmd + SIZEOF_CMD_HEADER * of_nat slot;
             s = setup_header hw cmd 1 s;
             (tbl, s) = vread64 hw (cmd + 8) s;
             s = set_ram (\<lambda>m. mem_fill m tbl 0 SIZEOF_CMD_TBL) s;
             s = prdt_entry hw tbl 0 buff 512 s;
             s = set8 tbl FIS_TYPE_REG_H2D s;
             s = set8 (tbl + 2) ATA_CMD_IDENTIFY_DEVICE s;
             s = set8 (tbl + 7) 0 s;
             s = vset_cmd hw tbl s
         in ret (issue hw port slot s))"

section \<open>Hardware that leaves memory alone\<close>

text \<open>The properties of the set-up are stated for hardware that changes nothing meanwhile: a
  port whose command is not issued yet. \<open>later k\<close> is the same state after \<open>k\<close> reads.\<close>

definition quiet :: hardware where
  "quiet = (\<lambda>_ m. m)"

definition later :: "nat \<Rightarrow> ('h, 'x) ahci_state_scheme \<Rightarrow> ('h, 'x) ahci_state_scheme" where
  "later k s = s\<lparr>hw_time := hw_time s + k\<rparr>"

lemma later_simps [simp]:
  "pages (later k s) = pages s" "ahci_devs (later k s) = ahci_devs s" "ahci_count (later k s) = ahci_count s"
  "later j (later k s) = later (k + j) s" "set_ram f (later k s) = later k (set_ram f s)" "later 0 s = s"
  by (simp_all add: later_def set_ram_def)

lemma set_ram_simps [simp]:
  "mem_of (set_ram f s) = f (mem_of s)" "ahci_devs (set_ram f s) = ahci_devs s" "ahci_count (set_ram f s) = ahci_count s"
  "set_ram g (set_ram f s) = set_ram (g \<circ> f) s"
  for s :: "('h, 'x) ahci_state_scheme"
  by (simp_all add: set_ram_def)

lemma quiet_step [simp]: "vstep quiet s = later 1 s"
  by (simp add: vstep_def quiet_def set_ram_def later_def)

lemma quiet_reads [simp]:
  "vread8 quiet a s = (mem_of s a, later 1 s)"
  "vread32 quiet a s = (load32 (mem_of s) a, later 1 s)"
  "vread64 quiet a s = (load64 (mem_of s) a, later 1 s)"
  "vfield quiet a p n s = (get_field p n (load32 (mem_of s) a), later 1 s)"
  "vset quiet a p n v s = later 1 (set_ram (\<lambda>m. store32 m a (set_field p n v (load32 m a))) s)"
  by (simp_all add: vread8_def vread32_def vread64_def vfield_def vset_def)
     (simp add: set_ram_def later_def)

lemma get_set_field:
  "get_field p n (set_field p n v w) = take_bit n v" if "p + n \<le> 32"
  using that by (intro bit_word_eqI) (auto simp: get_field_def set_field_def bit_simps)

lemma get_set_field_other:
  "p + n \<le> q \<or> q + k \<le> p \<Longrightarrow> get_field p n (set_field q k v w) = get_field p n w"
  by (intro bit_word_eqI) (auto simp: get_field_def set_field_def bit_simps dest: bit_imp_le_length)

section \<open>The devices found\<close>

text \<open>What the registers of port \<open>i\<close> say: a device is there and active.\<close>

definition port_active :: "mem \<Rightarrow> u64 \<Rightarrow> nat \<Rightarrow> bool" where
  "port_active m hba i \<longleftrightarrow>
    (let ssts = load32 m (hba_port hba (of_nat i) + PORT_SSTS) in get_field 0 4 ssts = 3 \<and> get_field 8 4 ssts = 1)"

definition device_at :: "u64 \<Rightarrow> u32 list \<Rightarrow> nat \<Rightarrow> ahci_dev" where
  "device_at hba cfg i = \<lparr>hba_ptr = hba, port_no = of_nat i, int_pin = ucast (drop_bit 8 (cfg ! 15)),
     int_line = ucast (cfg ! 15), dev_cmd = command (header_of cfg), dev_sts = status (header_of cfg)\<rparr>"

definition found_devices :: "('h, 'x) ahci_state_scheme \<Rightarrow> ahci_dev list" where
  "found_devices s = take (unat (ahci_count s)) (ahci_devs s)"

lemma get_type_quiet:
  "\<exists>t k. ahci_get_type quiet (hba_port hba (of_nat i)) s = (t, later k s) \<and>
     (is_ahci_type t \<longleftrightarrow> port_active (mem_of s) hba i)"
proof -
  let ?p = "hba_port hba (of_nat i)"
  have "\<exists>t k. ahci_get_type quiet ?p s = (t, later k s) \<and>
    (is_ahci_type t \<longleftrightarrow> get_field 0 4 (load32 (mem_of s) (?p + PORT_SSTS)) = 3 \<and>
       get_field 8 4 (load32 (mem_of s) (?p + PORT_SSTS)) = 1)"
    unfolding ahci_get_type_def Let_def by (auto simp: is_ahci_type_def)
  then show ?thesis by (simp add: port_active_def Let_def)
qed

lemma ahci_store_room:
  assumes "unat (ahci_count s) < length (ahci_devs s)" "length (ahci_devs s) < 2 ^ 64"
  shows "\<exists>s'. ahci_store hba (of_nat i) cfg s = ret s' \<and> found_devices s' = found_devices s @ [device_at hba cfg i] \<and>
    length (ahci_devs s') = length (ahci_devs s) \<and> unat (ahci_count s') = Suc (unat (ahci_count s)) \<and> pages s' = pages s"
proof -
  have "unat (ahci_count s + 1) = Suc (unat (ahci_count s))" using assms by (simp add: unat_word_ariths)
  then show ?thesis using assms by (simp add: ahci_store_def found_devices_def device_at_def take_Suc_conv_app_nth)
qed

text \<open>Writing the global control register does not touch the ports.\<close>

definition ghc_only :: "u64 \<Rightarrow> mem \<Rightarrow> mem \<Rightarrow> bool" where
  "ghc_only hba m m' \<longleftrightarrow> (\<forall>x. x \<notin> addrs (hba + HBA_GHC) 4 \<longrightarrow> m' x = m x)"

lemma ghc_only_store: "ghc_only hba m m' \<Longrightarrow> ghc_only hba m (store32 m' (hba + HBA_GHC) v)"
  by (simp add: ghc_only_def frame)

lemma port_active_ghc:
  assumes "ghc_only hba m m'" "i < 32"
  shows "port_active m' hba i = port_active m hba i"
proof -
  have "x \<notin> addrs (hba + HBA_GHC) 4" if "x \<in> addrs (hba_port hba (of_nat i) + PORT_SSTS) 4" for x
  proof
    assume "x \<in> addrs (hba + HBA_GHC) 4"
    then have 1: "unat (x - (hba + 4)) < 4" by (simp add: addrs_def)
    have i: "unat ((ucast (of_nat i :: u8) :: u64)) = i" using assms(2)
      by (simp add: unsigned_ucast_eq unsigned_of_nat take_bit_nat_eq_self)
    define d where "d = 0x124 + 128 * (ucast (of_nat i :: u8) :: u64)"
    have d: "unat d = 0x124 + 128 * i" using assms(2) i by (simp add: d_def unat_word_ariths)
    have "x - (hba_port hba (of_nat i) + PORT_SSTS) = (x - (hba + 4)) - d"
      by (simp add: hba_port_def d_def algebra_simps)
    with that have r: "unat ((x - (hba + 4)) - d) < 4" by (simp add: addrs_def)
    have "unat ((x - (hba + 4)) - d + d) = unat ((x - (hba + 4)) - d) + unat d"
      by (subst unat_add_lem [THEN iffD1]) (use r d assms(2) in simp_all)
    then have "unat d \<le> unat (x - (hba + 4))" by simp
    with 1 d show False by simp
  qed
  then have "load32 m' (hba_port hba (of_nat i) + PORT_SSTS) = load32 m (hba_port hba (of_nat i) + PORT_SSTS)"
    using assms(1) by (intro load32_cong) (auto simp: ghc_only_def)
  then show ?thesis by (simp add: port_active_def)
qed

lemma port_loop_quiet:
  assumes len: "length (ahci_devs s) < 2 ^ 64"
  shows "k + n = 32 \<Longrightarrow> unat (ahci_count s) + n \<le> length (ahci_devs s) \<Longrightarrow> ghc_only hba m (mem_of s) \<Longrightarrow>
    length (ahci_devs s) < 2 ^ 64 \<Longrightarrow>
    \<exists>s'. port_loop [k..<k + n] quiet hba cfg (drop_bit k P) s = ret s' \<and> ghc_only hba m (mem_of s') \<and>
      found_devices s' = found_devices s @ map (device_at hba cfg) (filter (\<lambda>i. bit P i \<and> port_active m hba i) [k..<k + n])"
  using len
proof (induction n arbitrary: k s)
  case 0 then show ?case by simp
next
  case (Suc n)
  have k: "k < 32" "Suc k + n = 32" using Suc.prems(1) by simp_all
  have b: "(drop_bit k P AND 1 \<noteq> 0) = bit P k"
    by (simp add: and_one_eq odd_iff_mod_2_eq_one bit_iff_odd_drop_bit)
  have u: "[k..<k + Suc n] = k # [Suc k..<Suc k + n]" by (simp add: upt_conv_Cons)
  have d: "drop_bit 1 (drop_bit k P) = drop_bit (Suc k) P" by simp
  obtain t j where t: "ahci_get_type quiet (hba_port hba (of_nat k)) s = (t, later j s)"
    "is_ahci_type t \<longleftrightarrow> port_active m hba k"
    using get_type_quiet[of hba k s] port_active_ghc[OF Suc.prems(3) k(1)] by blast
  show ?case
  proof (cases "bit P k \<and> port_active m hba k")
    case True
    define s1 where "s1 = vset quiet (hba + HBA_GHC) 1 1 1 (vset quiet (hba + HBA_GHC) 31 1 1 (later j s))"
    have s1: "ahci_devs s1 = ahci_devs s" "ahci_count s1 = ahci_count s" "found_devices s1 = found_devices s"
      "ghc_only hba m (mem_of s1)"
      using Suc.prems(3) by (simp_all add: s1_def found_devices_def ghc_only_store)
    obtain s2 where s2: "ahci_store hba (of_nat k) cfg s1 = ret s2" "found_devices s2 = found_devices s @ [device_at hba cfg k]"
      "length (ahci_devs s2) = length (ahci_devs s)" "unat (ahci_count s2) = Suc (unat (ahci_count s))" "pages s2 = pages s1"
      using ahci_store_room[of s1 hba k cfg] s1 Suc.prems by auto
    obtain s' where s': "port_loop [Suc k..<Suc k + n] quiet hba cfg (drop_bit (Suc k) P) s2 = ret s'"
      "ghc_only hba m (mem_of s')"
      "found_devices s' = found_devices s2 @ map (device_at hba cfg) (filter (\<lambda>i. bit P i \<and> port_active m hba i) [Suc k..<Suc k + n])"
      using Suc.IH[OF k(2), of s2] s2 s1 Suc.prems by auto
    have "port_loop [k..<k + Suc n] quiet hba cfg (drop_bit k P) s = ret s'"
      using True t s2(1) s'(1) unfolding u port_loop.simps d b by (simp add: s1_def)
    then show ?thesis using s' s2 True unfolding u by simp
  next
    case False
    have r: "(if bit P k then let (dev_type, s) = (t, later j s) in
              if is_ahci_type dev_type then
                let s = vset quiet (hba + HBA_GHC) 31 1 1 s;
                    s = vset quiet (hba + HBA_GHC) 1 1 1 s
                in ahci_store hba (of_nat k) cfg s
              else ret s
            else ret s) = ret (later (if bit P k then j else 0) s)"
      using False t(2) by auto
    obtain s' where s': "port_loop [Suc k..<Suc k + n] quiet hba cfg (drop_bit (Suc k) P) (later (if bit P k then j else 0) s) = ret s'"
      "ghc_only hba m (mem_of s')"
      "found_devices s' = found_devices s @ map (device_at hba cfg) (filter (\<lambda>i. bit P i \<and> port_active m hba i) [Suc k..<Suc k + n])"
      using Suc.IH[OF k(2), of "later (if bit P k then j else 0) s"] Suc.prems by (auto simp: found_devices_def)
    have "port_loop [k..<k + Suc n] quiet hba cfg (drop_bit k P) s = ret s'"
      using s'(1) unfolding u port_loop.simps d b t(1) r by simp
    then show ?thesis using s' False unfolding u by simp
  qed
qed

text \<open>C29. Device discovery. On a controller whose registers do not change meanwhile, and with
  room for 32 more devices, \<^verbatim>\<open>ahci_init_port\<close> appends exactly one entry for every port that
  is implemented and reports an active device, in the order of the ports, and writes nothing
  but the global control register.\<close>

theorem ahci_ports_found:
  assumes "unat (ahci_count s) + 32 \<le> length (ahci_devs s)" "length (ahci_devs s) < 2 ^ 64"
  shows "\<exists>s'. ahci_init_port quiet hba cfg s = ret s' \<and> ghc_only hba (mem_of s) (mem_of s') \<and>
    found_devices s' = found_devices s @ map (device_at hba cfg)
      (filter (\<lambda>i. bit (load32 (mem_of s) (hba + HBA_PI)) i \<and> port_active (mem_of s) hba i) [0..<32])"
proof -
  have "ghc_only hba (mem_of s) (mem_of s)" by (simp add: ghc_only_def)
  then show ?thesis
    using port_loop_quiet[of "later 1 s" 0 32 hba "mem_of s" cfg "load32 (mem_of s) (hba + HBA_PI)"] assms
    by (simp add: ahci_init_port_def found_devices_def del: upt_rec_numeral)
qed

text \<open>A controller at 0x10000 that implements the ports 0, 1 and 3, with devices at 1 and 3.\<close>

definition two_disks :: mem where
  "two_disks = (\<lambda>_. 0)(0x1000C := 0x0B, 0x101A8 := 0x23, 0x101A9 := 0x01, 0x102A8 := 0x23, 0x102A9 := 0x01,
     0x1012A := 0x03)"

definition ahci_start :: "mem \<Rightarrow> unit ahci_state" where
  "ahci_start m = \<lparr>io_log = [], int_enabled = False, cpu_if = False, idt = [], idtr = (0, 0),
     isr_handlers = [], irq_handlers = [], pit_counter = 0, pit_mode = 0, pit_ticks = 0, tick_update = False,
     pages = \<lparr>ram = m, heap_var = 0, placement_addr = 0x104000, cr3 = 0x1000, pml4_var = 0x1000, total_mem = 0,
       available_mem = 0, page_list = (\<lambda>_. 0), page_tree = 0\<rparr>, cache_ptr = 0, cache = [], cache_len = 0,
     ahci_devs = replicate 256 zero_ahci_dev, ahci_count = 0, hw_time = 0\<rparr>"

lemma ahci_ports_found_witness:
  "\<exists>s'. ahci_init_port quiet 0x10000 (replicate 16 0) (ahci_start two_disks) = ret s' \<and>
     map port_no (found_devices s') = [1, 3]"
proof -
  let ?s = "ahci_start two_disks"
  have f: "ahci_devs ?s = replicate 256 zero_ahci_dev" "ahci_count ?s = 0" "mem_of ?s = two_disks"
    by (simp_all add: ahci_start_def)
  have "filter (\<lambda>i. bit (load32 two_disks (0x10000 + HBA_PI)) i \<and> port_active two_disks 0x10000 i) [0..<32] = [1, 3]"
    by code_simp
  then show ?thesis
    using ahci_ports_found[of ?s "0x10000" "replicate 16 0"] unfolding f
    by (auto simp: device_at_def found_devices_def f(2) simp del: upt_rec_numeral)
qed

section \<open>Slots, polling and completion\<close>

lemma slot_loop_quiet:
  "slot_loop [k..<32] quiet hba (drop_bit k used) s =
    (find (\<lambda>i. \<not> bit used i) [k..<unat (get_field 8 5 (load32 (mem_of s) hba))],
     snd (slot_loop [k..<32] quiet hba (drop_bit k used) s))" if "k \<le> 32"
proof -
  let ?n = "unat (get_field 8 5 (load32 (mem_of s) hba))"
  have n: "?n < 32"
    using take_bit_nat_less_exp[of 5 "unat (drop_bit 8 (load32 (mem_of s) hba))"]
    by (simp add: get_field_def unsigned_take_bit_eq)
  have "fst (slot_loop [32 - j..<32] quiet hba (drop_bit (32 - j) used) s') = find (\<lambda>i. \<not> bit used i) [32 - j..<?n]"
    if "j \<le> 32" "mem_of s' = mem_of s" for j and s' :: "('a, 'b) ahci_state_scheme"
    using that
  proof (induction j arbitrary: s')
    case 0 then show ?case using n by simp
  next
    case (Suc j)
    let ?k = "32 - Suc j"
    have k: "Suc ?k = 32 - j" "?k < 32" using Suc.prems(1) by (simp_all add: Suc_diff_Suc)
    have u: "[?k..<32] = ?k # [32 - j..<32]" unfolding k(1)[symmetric] by (rule upt_conv_Cons[OF k(2)])
    have b: "(drop_bit ?k used AND 1 = 0) = (\<not> bit used ?k)"
      by (simp add: and_one_eq odd_iff_mod_2_eq_one bit_iff_odd_drop_bit)
    have d: "drop_bit 1 (drop_bit ?k used) = drop_bit (32 - j) used" unfolding k(1)[symmetric] by simp
    have f: "find P [?k..<?n] = (if ?k < ?n then if P ?k then Some ?k else find P [32 - j..<?n] else None)" for P
      unfolding k(1)[symmetric] by (simp add: upt_conv_Cons)
    have IH: "fst (slot_loop [32 - j..<32] quiet hba (drop_bit (32 - j) used) (later 1 s')) = find (\<lambda>i. \<not> bit used i) [32 - j..<?n]"
      using Suc.prems by (intro Suc.IH) simp_all
    show ?case
      unfolding u slot_loop.simps f d b using Suc.prems(2) IH by (simp add: Let_def)
  qed
  from this[of "32 - k" s] that show ?thesis by (simp add: prod_eq_iff)
qed

lemma done_wait_stuck:
  assumes "load32 (mem_of s) (port + PORT_CI) AND push_bit slot 1 \<noteq> 0"
    and "get_field 30 1 (load32 (mem_of s) (port + PORT_IS)) = 0"
  shows "\<exists>k. done_wait n quiet port slot s = (True, later k s)"
  using assms
proof (induction n arbitrary: s)
  case 0 then show ?case by (auto intro: exI[of _ 0])
next
  case (Suc n)
  then obtain k where "done_wait n quiet port slot (later 2 s) = (True, later k (later 2 s))"
    using Suc.IH[of "later 2 s"] by auto
  then show ?case using Suc.prems by (auto simp: numeral_2_eq_2)
qed

lemma idle_wait_busy:
  assumes "bit (mem_of s (port + PORT_TFD)) 7 \<or> bit (mem_of s (port + PORT_TFD)) 3"
  shows "\<exists>k. idle_wait n quiet port s = (0, later k s)"
  using assms
proof (induction n arbitrary: s)
  case 0 then show ?case by (simp add: port_busy_def) blast
next
  case (Suc n)
  then obtain k where "idle_wait n quiet port (later 2 s) = (0, later k (later 2 s))"
    using Suc.IH[of "later 2 s"] by auto
  then show ?case using Suc.prems by (auto simp: port_busy_def numeral_2_eq_2)
qed

text \<open>The slot of a command is the lowest one below the value of the capability field that is
  neither active nor issued. The field holds the number of slots minus one (the driver prints
  it with 1 added), so the last slot is never used, and a controller with one slot has none.\<close>

theorem ahci_free_slot_first:
  "fst (ahci_free_slot quiet hba port s) =
     find (\<lambda>i. \<not> bit (load32 (mem_of s) (port + PORT_SACT) OR load32 (mem_of s) (port + PORT_CI)) i)
       [0..<unat (get_field 8 5 (load32 (mem_of s) hba))]"
proof -
  let ?u = "load32 (mem_of s) (port + PORT_SACT) OR load32 (mem_of s) (port + PORT_CI)"
  have "ahci_free_slot quiet hba port s = slot_loop [0..<32] quiet hba (drop_bit 0 ?u) (later 2 s)"
    by (simp add: ahci_free_slot_def numeral_2_eq_2 del: upt_rec_numeral)
  then show ?thesis using slot_loop_quiet[of 0 hba ?u "later 2 s"] by (simp del: upt_rec_numeral) (metis fst_conv)
qed

text \<open>C30. A command that is never answered. When the hardware does nothing, issuing a command
  gives true exactly when the port is started or can be started and no error is flagged: the
  loop gives up after a million turns and the result is the same as for a command that was
  carried out, although the command is still pending.\<close>

theorem ahci_unanswered:
  assumes "slot < 32"
  shows "\<exists>s'. issue quiet port slot s =
      ((get_field 0 1 (load32 (mem_of s) (port + PORT_CMD)) \<noteq> 0 \<or> get_field 4 1 (load32 (mem_of s) (port + PORT_CMD)) \<noteq> 0) \<and>
       get_field 30 1 (load32 (mem_of s) (port + PORT_IS)) = 0, s') \<and>
    load32 (mem_of s') (port + PORT_CI) = push_bit slot 1"
proof -
  let ?s1 = "set_ram (\<lambda>m. store32 m (port + PORT_CI) (push_bit slot 1)) s"
  let ?cmd = "load32 (mem_of s) (port + PORT_CMD)" and ?is = "load32 (mem_of s) (port + PORT_IS)"
  have bit: "(push_bit slot 1 :: u32) AND push_bit slot 1 \<noteq> 0"
    using assms by (auto simp: bit_eq_iff bit_simps)
  have run: "\<exists>s'. (let (ok, s) = done_wait 1000000 quiet port slot t in
          if ok then let (tfes, s) = vfield quiet (port + PORT_IS) 30 1 s in (tfes = 0, s)
          else (False, s)) = (get_field 30 1 ?is = 0, s') \<and> load32 (mem_of s') (port + PORT_CI) = push_bit slot 1"
    if t: "load32 (mem_of t) (port + PORT_CI) = push_bit slot 1" "load32 (mem_of t) (port + PORT_IS) = ?is" for t :: "('a, 'b) ahci_state_scheme"
  proof (cases "get_field 30 1 ?is = 0")
    case True
    then obtain k where "done_wait 1000000 quiet port slot t = (True, later k t)"
      using done_wait_stuck[of t port slot] bit t by auto
    then show ?thesis using t True by simp
  next
    case False
    have "done_wait (Suc 999999) quiet port slot t = (False, later 2 t)"
      using bit t False unfolding done_wait.simps by (simp add: numeral_2_eq_2)
    then show ?thesis using t False by simp
  qed
  have ap: "4 \<le> (port + a) - (port + b)" if "4 \<le> a - b" for a b :: u64 using that by simp
  have s1: "load32 (mem_of ?s1) (port + PORT_CMD) = ?cmd" "load32 (mem_of ?s1) (port + PORT_IS) = ?is"
    "load32 (mem_of ?s1) (port + PORT_CI) = push_bit slot 1"
    by (simp_all add: load32_store32_apart ap)
  let ?s2 = "set_ram (\<lambda>m. store32 m (port + PORT_CMD) (set_field 0 1 1 (load32 m (port + PORT_CMD)))) ?s1"
  have s2: "load32 (mem_of ?s2) (port + PORT_IS) = ?is" "load32 (mem_of ?s2) (port + PORT_CI) = push_bit slot 1"
    by (simp_all add: load32_store32_apart ap)
  consider "get_field 0 1 ?cmd \<noteq> 0" | "get_field 0 1 ?cmd = 0" "get_field 4 1 ?cmd \<noteq> 0" | "get_field 0 1 ?cmd = 0" "get_field 4 1 ?cmd = 0"
    by blast
  then show ?thesis
  proof cases
    case 1
    with s1 run[of "later 1 ?s1"] show ?thesis by (simp add: issue_def)
  next
    case 2
    with s1 s2 run[of "later 3 ?s2"] show ?thesis by (simp add: issue_def comp_def numeral_3_eq_3)
  next
    case 3
    with s1 show ?thesis by (simp add: issue_def)
  qed
qed

lemma ahci_unanswered_witness:
  "\<exists>s'. issue quiet 0x10180 3 (ahci_start (two_disks(0x10198 := 1))) = (True, s') \<and>
     load32 (mem_of s') 0x101B8 = 8"
proof -
  let ?m = "two_disks(0x10198 := 1)"
  have m: "mem_of (ahci_start ?m) = ?m" by (simp add: ahci_start_def)
  have f: "get_field 0 1 (load32 ?m 0x10198) \<noteq> 0" "get_field 30 1 (load32 ?m 0x10190) = 0" by code_simp+
  show ?thesis using ahci_unanswered[of 3 "0x10180" "ahci_start ?m"] f unfolding m by simp
qed

section \<open>The scatter list\<close>

definition entry_at :: "u64 \<Rightarrow> nat \<Rightarrow> u64" where
  "entry_at tbl i = tbl + 128 + SIZEOF_PRDT_ENTRY * of_nat i"

definition entry_mem :: "mem \<Rightarrow> u64 \<Rightarrow> u64 \<Rightarrow> u64 \<Rightarrow> mem" where
  "entry_mem m e b l =
    (let m = store64 m e b;
         m = store32 m (e + 12) (set_field 0 22 (ucast l) (load32 m (e + 12)))
     in store32 m (e + 12) (set_field 31 1 1 (load32 m (e + 12))))"

text \<open>What the controller reads in an entry: address, length and the interrupt bit.\<close>

definition entry_is :: "mem \<Rightarrow> u64 \<Rightarrow> u64 \<Rightarrow> u64 \<Rightarrow> bool" where
  "entry_is m e b l \<longleftrightarrow> load64 m e = b \<and> get_field 0 22 (load32 m (e + 12)) = take_bit 22 (ucast l) \<and>
     get_field 31 1 (load32 m (e + 12)) = 1"

lemma prdt_entry_quiet:
  "prdt_entry quiet tbl (of_nat i) b l s = later 2 (set_ram (\<lambda>m. entry_mem m (entry_at tbl i) b l) s)"
  by (simp add: prdt_entry_def entry_mem_def entry_at_def Let_def comp_def numeral_2_eq_2)

lemma entry_cell: "addrs (e + 12) 4 \<subseteq> addrs e 16" "addrs e 8 \<subseteq> addrs e 16" "addrs e 8 \<inter> addrs (e + 12) 4 = {}"
proof -
  have r: "unat (x - e) = unat (x - (e + 12)) + 12" if "unat (x - (e + 12)) < 4" for x
  proof -
    have "unat ((x - (e + 12)) + 12) = unat (x - (e + 12)) + unat (12 :: u64)"
      by (subst unat_add_lem [THEN iffD1]) (use that in simp_all)
    then show ?thesis by simp
  qed
  show "addrs (e + 12) 4 \<subseteq> addrs e 16" "addrs e 8 \<subseteq> addrs e 16" "addrs e 8 \<inter> addrs (e + 12) 4 = {}"
    using r by (fastforce simp: addrs_def)+
qed

lemma entry_mem_is: "entry_is (entry_mem m e b l) e b l"
proof -
  have "load64 (store32 m' (e + 12) v) e = load64 m' e" for m' v
    by (rule load64_cong) (use entry_cell(3)[of e] in \<open>auto intro: store32_other\<close>)
  then show ?thesis by (simp add: entry_is_def entry_mem_def Let_def get_set_field get_set_field_other)
qed

lemma entry_mem_other: "x \<notin> addrs e 16 \<Longrightarrow> entry_mem m e b l x = m x"
proof -
  assume x: "x \<notin> addrs e 16"
  then have "x \<notin> addrs (e + 12) 4" "x \<notin> addrs e 8" using entry_cell(1,2)[of e] by blast+
  then show ?thesis by (simp add: entry_mem_def Let_def frame)
qed

lemma entry_is_cong: "(\<And>x. x \<in> addrs e 16 \<Longrightarrow> m' x = m x) \<Longrightarrow> entry_is m' e b l = entry_is m e b l"
  using load64_cong[of e m' m] load32_cong[of "e + 12" m' m] entry_cell[of e] by (auto simp: entry_is_def subset_iff)

definition entries :: "u64 \<Rightarrow> nat \<Rightarrow> u64 set" where
  "entries tbl n = addrs (tbl + 128) (16 * n)"

lemma entry_subset:
  assumes "i < n" "n < 2 ^ 32" shows "addrs (entry_at tbl i) 16 \<subseteq> entries tbl n"
proof
  fix x assume "x \<in> addrs (entry_at tbl i) 16"
  then have x: "unat (x - entry_at tbl i) < 16" by (simp add: addrs_def)
  have i: "unat (16 * of_nat i :: u64) = 16 * i" using assms by (simp add: unat_word_ariths unat_of_nat_small)
  have e: "x - (tbl + 128) = (x - entry_at tbl i) + 16 * of_nat i" by (simp add: entry_at_def)
  have "unat (x - (tbl + 128)) = unat (x - entry_at tbl i) + 16 * i"
    unfolding e using x i assms by (subst unat_add_lem [THEN iffD1]) simp_all
  then show "x \<in> entries tbl n" using x assms(1) by (simp add: entries_def addrs_def)
qed

lemma entry_apart:
  assumes "i < j" "j < 2 ^ 32" shows "addrs (entry_at tbl j) 16 \<inter> addrs (entry_at tbl i) 16 = {}"
proof -
  have False if a: "unat (x - entry_at tbl j) < 16" and b: "unat (x - (tbl + 128)) < 16 * j" for x
  proof -
    have j: "unat (16 * of_nat j :: u64) = 16 * j" using assms by (simp add: unat_word_ariths unat_of_nat_small)
    have e: "x - (tbl + 128) = (x - entry_at tbl j) + 16 * of_nat j" by (simp add: entry_at_def)
    have "unat (x - (tbl + 128)) = unat (x - entry_at tbl j) + 16 * j"
      unfolding e using a j assms by (subst unat_add_lem [THEN iffD1]) simp_all
    with b show False by simp
  qed
  moreover have "addrs (entry_at tbl i) 16 \<subseteq> entries tbl j" using assms by (rule entry_subset)
  ultimately show ?thesis by (fastforce simp: entries_def addrs_def)
qed

lemma prdt_loop_run:
  assumes lim: "last_entry (get_field 16 16 h) = of_nat k" and k: "k < 2 ^ 32"
    and hdr: "\<forall>j<k. addrs cmd 4 \<inter> addrs (entry_at tbl j) 16 = {}"
  shows "i + n = k \<Longrightarrow> load32 (mem_of s) cmd = h \<Longrightarrow>
    \<exists>s'. prdt_loop quiet cmd tbl (of_nat i) b l s = Some (of_nat k, b + 0x1000 * of_nat n, l - 0x1000 * of_nat n, s') \<and>
      (\<forall>x. (\<forall>j. i \<le> j \<and> j < k \<longrightarrow> x \<notin> addrs (entry_at tbl j) 16) \<longrightarrow> mem_of s' x = mem_of s x) \<and>
      (\<forall>j. i \<le> j \<and> j < k \<longrightarrow> entry_is (mem_of s') (entry_at tbl j) (b + 0x1000 * of_nat (j - i)) 0x1000)"
proof (induction n arbitrary: i b l s)
  case 0
  then show ?case using lim by (subst prdt_loop.simps) auto
next
  case (Suc n)
  have i: "i < k" "Suc i + n = k" using Suc.prems(1) by simp_all
  have lt: "(of_nat i :: u64) < of_nat k" using i(1) k by (simp add: word_less_nat_alt unat_of_nat_small)
  let ?s = "set_ram (\<lambda>m. entry_mem m (entry_at tbl i) b 0x1000) s"
  have h: "load32 (mem_of ?s) cmd = h"
    using hdr i(1) Suc.prems(2) by (subst load32_cong[of cmd _ "mem_of s"]) (auto intro!: entry_mem_other)
  obtain s' where s': "prdt_loop quiet cmd tbl (of_nat (Suc i)) (b + 0x1000) (l - 0x1000) (later 3 ?s) =
      Some (of_nat k, b + 0x1000 + 0x1000 * of_nat n, l - 0x1000 - 0x1000 * of_nat n, s')"
    "\<forall>x. (\<forall>j. Suc i \<le> j \<and> j < k \<longrightarrow> x \<notin> addrs (entry_at tbl j) 16) \<longrightarrow> mem_of s' x = mem_of ?s x"
    "\<forall>j. Suc i \<le> j \<and> j < k \<longrightarrow> entry_is (mem_of s') (entry_at tbl j) (b + 0x1000 + 0x1000 * of_nat (j - Suc i)) 0x1000"
    using Suc.IH[OF i(2), of "later 3 ?s" "b + 0x1000" "l - 0x1000"] h by auto
  have "prdt_loop quiet cmd tbl (of_nat i) b l s = prdt_loop quiet cmd tbl (of_nat (Suc i)) (b + 0x1000) (l - 0x1000) (later 3 ?s)"
    using lim lt Suc.prems(2) by (subst prdt_loop.simps) (simp add: prdt_entry_quiet numeral_3_eq_3 ac_simps)
  moreover have "entry_is (mem_of s') (entry_at tbl i) b 0x1000"
  proof (subst entry_is_cong)
    fix x assume x: "x \<in> addrs (entry_at tbl i) 16"
    have "x \<notin> addrs (entry_at tbl j) 16" if "Suc i \<le> j" "j < k" for j
      using entry_apart[of i j tbl] that k x by auto
    then show "mem_of s' x = entry_mem (mem_of s) (entry_at tbl i) b 0x1000 x" using s'(2) by simp
  qed (rule entry_mem_is)
  then have "entry_is (mem_of s') (entry_at tbl j) (b + 0x1000 * of_nat (j - i)) 0x1000" if "i \<le> j" "j < k" for j
  proof (cases "i = j")
    case False
    then have j: "Suc i \<le> j" using that by simp
    have "b + 0x1000 + 0x1000 * of_nat (j - Suc i) = b + 0x1000 * of_nat (j - i)"
      using j by (simp add: of_nat_diff algebra_simps)
    then show ?thesis using s'(3) j that(2) by metis
  qed simp
  moreover have "mem_of s' x = mem_of s x" if "\<forall>j. i \<le> j \<and> j < k \<longrightarrow> x \<notin> addrs (entry_at tbl j) 16" for x
    using s'(2) that i(1) by (simp add: entry_mem_other)
  ultimately show ?case using s'(1) by (simp add: algebra_simps)
qed

lemma entry_in_table:
  assumes "i < n" "n < 2 ^ 32" shows "addrs (entry_at tbl i) 16 \<subseteq> addrs tbl (128 + 16 * n)"
proof
  fix x assume "x \<in> addrs (entry_at tbl i) 16"
  with entry_subset[OF assms] have x: "unat (x - (tbl + 128)) < 16 * n" by (auto simp: entries_def addrs_def)
  have "unat ((x - (tbl + 128)) + 128) = unat (x - (tbl + 128)) + unat (128 :: u64)"
    by (subst unat_add_lem [THEN iffD1]) (use x assms in simp_all)
  then show "x \<in> addrs tbl (128 + 16 * n)" using x by (simp add: addrs_def)
qed

lemma read_count_unat:
  assumes "0 < len" "unat len \<le> 0xFFFF * 0x1000"
  shows "unat (read_count len) = (unat len + 4095) div 4096"
proof -
  have l: "unat (len - 1) = unat len - 1" "0 < unat len" using assms(1) by (simp_all add: unat_minus_one word_gt_0 unat_gt_0)
  have d: "unat ((len - 1) div 0x1000) = (unat len - 1) div 4096" by (simp add: unat_div l)
  have b: "(unat len - 1) div 4096 < 65535" using assms(2) l(2) by auto
  have u: "unat (ucast ((len - 1) div 0x1000) :: u16) = (unat len - 1) div 4096"
    using b by (simp add: unsigned_ucast_eq take_bit_nat_eq_self d)
  have "unat (ucast w :: u32) = unat w" for w :: u16
    using unsigned_less[of w, where 'a = nat] by (simp add: unsigned_ucast_eq take_bit_nat_eq_self)
  from this[of "ucast ((len - 1) div 0x1000)"]
  have "unat (ucast (ucast ((len - 1) div 0x1000) :: u16) :: u32) = (unat len - 1) div 4096"
    unfolding u .
  then have "unat (read_count len) = (unat len - 1) div 4096 + 1" using b by (simp add: read_count_def unat_word_ariths)
  then show ?thesis using l(2) by auto
qed

lemma setup_header_quiet:
  "\<exists>f. setup_header quiet cmd p s = later 4 (set_ram f s) \<and> get_field 16 16 (load32 (f m) cmd) = take_bit 16 p \<and>
     (\<forall>x. x \<notin> addrs cmd 4 \<longrightarrow> f m x = m x)"
proof -
  have four: "Suc (Suc (Suc (Suc 0))) = 4" by simp
  let ?f = "\<lambda>p n v m. store32 m cmd (set_field p n v (load32 m cmd))"
  have "setup_header quiet cmd p s =
      later (Suc (Suc (Suc (Suc 0)))) (set_ram (\<lambda>m. ?f 16 16 p (?f 10 1 1 (?f 6 1 0 (?f 0 5 5 m)))) s)"
    by (simp add: setup_header_def Let_def comp_def)
  then show ?thesis unfolding four by (intro exI conjI) (auto simp: get_set_field frame)
qed

lemma last_entry_of_nat:
  assumes "0 < n" "n < 65536"
  shows "last_entry (of_nat n) = of_nat (n - 1)"
proof -
  have "(ucast (of_nat n :: u32) :: u64) = of_nat n"
    by (subst word_unat_eq_iff) (use assms in \<open>simp add: unsigned_ucast_eq unat_of_nat_small take_bit_nat_eq_self\<close>)
  then show ?thesis using assms by (simp add: last_entry_def of_nat_diff)
qed

lemma take_read_count:
  assumes "0 < len" "unat len \<le> 0xFFFF * 0x1000" "n = (unat len + 4095) div 4096"
  shows "take_bit 16 (read_count len) = of_nat n" "0 < n" "n < 65536"
    and "0 < unat len - 4096 * (n - 1)" "unat len - 4096 * (n - 1) \<le> 4096"
proof -
  have l: "0 < unat len" using assms(1) by (simp add: word_gt_0 unat_gt_0)
  then show n: "0 < n" "n < 65536" using assms(2) unfolding assms(3) by auto
  have "read_count len = of_nat n"
    using read_count_unat[OF assms(1,2)] n(2) by (subst word_unat_eq_iff) (simp add: assms(3) unat_of_nat_small)
  then show "take_bit 16 (read_count len) = of_nat n" using n(2) by (simp add: take_bit_of_nat take_bit_nat_eq_self)
  define q where "q = unat len - 1"
  have q: "unat len = Suc q" using l by (simp add: q_def)
  have "n = Suc (q div 4096)" unfolding assms(3) q by simp
  moreover have "q mod 4096 < 4096" "4096 * (q div 4096) + q mod 4096 = q" by simp_all
  ultimately show "0 < unat len - 4096 * (n - 1)" "unat len - 4096 * (n - 1) \<le> 4096" unfolding q by simp_all
qed

text \<open>The header outlives the entries, which do not overlap it; the whole table is filled, the
  last entry with what is left of the length.\<close>

lemma fill_prdt_entries:
  assumes n: "0 < n" "n < 65536" and hdr: "get_field 16 16 (load32 (mem_of s) cmd) = of_nat n"
    and apart: "addrs cmd 4 \<inter> addrs tbl (128 + 16 * n) = {}"
  shows "\<exists>s'. fill_prdt quiet cmd tbl buff len s = Some s' \<and> load32 (mem_of s') cmd = load32 (mem_of s) cmd \<and>
    (\<forall>i<n. entry_is (mem_of s') (entry_at tbl i) (buff + 0x1000 * of_nat i)
       (if Suc i < n then 0x1000 else len - 0x1000 * of_nat (n - 1)))"
proof -
  let ?h = "load32 (mem_of s) cmd" and ?e = "entry_at tbl (n - 1)"
  let ?b = "buff + 0x1000 * of_nat (n - 1)" and ?l = "len - 0x1000 * of_nat (n - 1)"
  define s0 where "s0 = later 1 (set_ram (\<lambda>m. mem_fill m tbl 0 (table_size (of_nat n))) s)"
  have ts: "unat (table_size (of_nat n)) = 128 + 16 * n"
    unfolding table_size_def last_entry_of_nat[OF n] using n by (simp add: unat_word_ariths unat_of_nat_small)
  have h: "load32 (mem_of s0) cmd = ?h"
    by (rule load32_cong) (use apart in \<open>auto simp: s0_def mem_fill_eq ts\<close>)
  have n32: "n - 1 < 2 ^ 32" "n < 2 ^ 32" using n by simp_all
  have sep: "addrs cmd 4 \<inter> addrs (entry_at tbl j) 16 = {}" if "j < n" for j
    using entry_in_table[OF that n32(2), of tbl] apart by auto
  have lim: "last_entry (get_field 16 16 ?h) = of_nat (n - 1)" unfolding hdr by (rule last_entry_of_nat[OF n])
  have "\<forall>j < n - 1. addrs cmd 4 \<inter> addrs (entry_at tbl j) 16 = {}" using sep by simp
  from prdt_loop_run[OF lim n32(1) this _ h, where i = 0 and n = "n - 1" and b = buff and l = len]
  obtain s' where s': "prdt_loop quiet cmd tbl (of_nat 0) buff len s0 = Some (of_nat (n - 1), ?b, ?l, s')"
    "\<forall>x. (\<forall>j<n - 1. x \<notin> addrs (entry_at tbl j) 16) \<longrightarrow> mem_of s' x = mem_of s0 x"
    "\<forall>j<n - 1. entry_is (mem_of s') (entry_at tbl j) (buff + 0x1000 * of_nat j) 0x1000"
    by (auto simp only: add_0 of_nat_0 diff_zero le0 True_implies_equals simp_thms)
  let ?t = "later 2 (set_ram (\<lambda>m. entry_mem m ?e ?b ?l) s')"
  have "fill_prdt quiet cmd tbl buff len s = Some ?t"
    using s'(1) hdr by (simp add: fill_prdt_def prdt_entry_quiet s0_def comp_def numeral_eq_Suc)
  moreover have "load32 (mem_of ?t) cmd = ?h"
  proof -
    have "mem_of ?t x = mem_of s0 x" if "x \<in> addrs cmd 4" for x
      using s'(2)[rule_format, of x] sep that n(1) by (auto simp: entry_mem_other disjoint_iff)
    then show ?thesis using load32_cong[of cmd "mem_of ?t" "mem_of s0"] h by simp
  qed
  moreover have "entry_is (mem_of ?t) (entry_at tbl i) (buff + 0x1000 * of_nat i) 0x1000" if "i < n - 1" for i
  proof (subst entry_is_cong)
    show "entry_is (mem_of s') (entry_at tbl i) (buff + 0x1000 * of_nat i) 0x1000" using s'(3) that by blast
    fix x assume "x \<in> addrs (entry_at tbl i) 16"
    then have "x \<notin> addrs ?e 16" using entry_apart[OF that n32(1), of tbl] by blast
    then show "mem_of ?t x = mem_of s' x" by (simp add: entry_mem_other)
  qed
  then have "entry_is (mem_of ?t) (entry_at tbl i) (buff + 0x1000 * of_nat i) (if Suc i < n then 0x1000 else ?l)"
    if "i < n" for i
    using that by (cases "Suc i < n") (auto simp: entry_mem_is less_Suc_eq dest!: Suc_lessI)
  ultimately show ?thesis by blast
qed

text \<open>C28. The scatter list of a read. For a length of up to 65535 blocks and a table that does
  not overlap the command header, the header gets the number of entries, and the entries tile
  the buffer: entry \<open>i\<close> points at block \<open>i\<close> of 4096 bytes, the last has what is left, which is
  neither 0 nor more than a block; the interrupt bit is set in all of them. For length 0 the
  number of entries is 0 and the bound of the loop \<open>2 ^ 64 - 1\<close>.\<close>

theorem ahci_prdt_tiles:
  assumes len: "0 < len" "unat len \<le> 0xFFFF * 0x1000" and n: "n = (unat len + 4095) div 4096"
    and apart: "addrs cmd 4 \<inter> addrs tbl (128 + 16 * n) = {}"
  shows "(\<exists>s'. fill_prdt quiet cmd tbl buff len (setup_header quiet cmd (read_count len) s) = Some s' \<and>
      get_field 16 16 (load32 (mem_of s') cmd) = of_nat n \<and>
      (\<forall>i<n. entry_is (mem_of s') (entry_at tbl i) (buff + 0x1000 * of_nat i)
         (if Suc i < n then 0x1000 else len - 0x1000 * of_nat (n - 1)))) \<and>
    0 < unat len - 4096 * (n - 1) \<and> unat len - 4096 * (n - 1) \<le> 4096 \<and>
    last_entry (get_field 16 16 (load32 (mem_of (setup_header quiet cmd (read_count 0) s)) cmd)) = - 1"
proof -
  note r = take_read_count[OF len n]
  have hdr: "get_field 16 16 (load32 (mem_of (setup_header quiet cmd p s)) cmd) = take_bit 16 p" for p
    using setup_header_quiet[of cmd p s "mem_of s"] by auto
  have "get_field 16 16 (load32 (mem_of (setup_header quiet cmd (read_count len) s)) cmd) = of_nat n"
    unfolding hdr by (rule r(1))
  from fill_prdt_entries[OF r(2,3) this apart, of buff len] this
  have "\<exists>s'. fill_prdt quiet cmd tbl buff len (setup_header quiet cmd (read_count len) s) = Some s' \<and>
      get_field 16 16 (load32 (mem_of s') cmd) = of_nat n \<and>
      (\<forall>i<n. entry_is (mem_of s') (entry_at tbl i) (buff + 0x1000 * of_nat i)
         (if Suc i < n then 0x1000 else len - 0x1000 * of_nat (n - 1)))" by metis
  moreover have "last_entry (get_field 16 16 (load32 (mem_of (setup_header quiet cmd (read_count 0) s)) cmd)) = - 1"
    unfolding hdr by (simp add: last_entry_def read_count_def)
  ultimately show ?thesis using r(4,5) by blast
qed

text \<open>A read of 5000 bytes: two entries, of 4096 and of 904 bytes.\<close>

lemma ahci_prdt_tiles_witness:
  "\<exists>s'. fill_prdt quiet 0x3000 0x4000 0x9000 5000 (setup_header quiet 0x3000 (read_count 5000) (ahci_start two_disks)) = Some s' \<and>
     entry_is (mem_of s') (entry_at 0x4000 0) 0x9000 4096 \<and> entry_is (mem_of s') (entry_at 0x4000 1) 0xA000 904"
proof -
  have d: "addrs 0x3000 4 \<inter> addrs 0x4000 (128 + 16 * 2) = {}" by (rule addrs_disjointI(1)) simp_all
  have l: "(0 :: u64) < 5000" "unat (5000 :: u64) \<le> 0xFFFF * 0x1000" "2 = (unat (5000 :: u64) + 4095) div 4096" by simp_all
  obtain s' where s': "fill_prdt quiet 0x3000 0x4000 0x9000 5000 (setup_header quiet 0x3000 (read_count 5000) (ahci_start two_disks)) = Some s'"
    "\<forall>i<2. entry_is (mem_of s') (entry_at 0x4000 i) (0x9000 + 0x1000 * of_nat i)
         (if Suc i < 2 then 0x1000 else 5000 - 0x1000 * of_nat (2 - 1))"
    using ahci_prdt_tiles[OF l d, of "0x9000" "ahci_start two_disks"] by blast
  from s'(2) have "entry_is (mem_of s') (entry_at 0x4000 0) 0x9000 4096" "entry_is (mem_of s') (entry_at 0x4000 1) 0xA000 904"
    by (simp_all add: All_less_two)
  with s'(1) show ?thesis by blast
qed

section \<open>The command FIS\<close>

text \<open>What the device reads: the sector address and the count.\<close>

definition fis_lba :: "mem \<Rightarrow> u64 \<Rightarrow> u64" where
  "fis_lba m fis = load_le 3 m (fis + 4) OR push_bit 24 (load_le 3 m (fis + 8))"

definition fis_count :: "mem \<Rightarrow> u64 \<Rightarrow> u16" where
  "fis_count m fis = load16 m (fis + 12)"

lemma store_le_2: "store_le 2 m a v = m(a + 1 := ucast (drop_bit 8 v), a := ucast v)"
  by (simp add: eval_nat_numeral)

lemma store_le_3:
  "store_le 3 m a v = m(a + 2 := ucast (drop_bit 16 v), a + 1 := ucast (drop_bit 8 v), a := ucast v)"
  by (simp add: numeral_3_eq_3 add.assoc)

text \<open>Memory that holds the bytes of a value gives it back.\<close>

lemma load_le_bytes:
  "m a = ucast v \<Longrightarrow> m (a + 1) = ucast (drop_bit 8 v) \<Longrightarrow> load_le 2 m a = take_bit 16 v"
  "m a = ucast v \<Longrightarrow> m (a + 1) = ucast (drop_bit 8 v) \<Longrightarrow> m (a + 2) = ucast (drop_bit 16 v) \<Longrightarrow>
    load_le 3 m a = take_bit 24 v"
  using load_store_le[of 2 m a v] load_store_le[of 3 m a v]
  by (simp_all add: store_le_2 store_le_3 fun_upd_idem)

text \<open>C31. The command of a read. The 48 bits of the sector address can be read back from the six
  address bytes, the command and the flags are those of a DMA read with a 48-bit address, and
  the count is the length in blocks of 4096 bytes: it is 0 for a shorter read although the
  scatter list has an entry then.\<close>

theorem read_fis_roundtrip:
  "let s' = read_fis quiet fis addr (len div AHCI_BLOCK_SIZE) s; m = mem_of s' in
     fis_lba m fis = take_bit 48 addr \<and>
     fis_count m fis = (if len < 0x1000 then 0 else ucast (len div 0x1000)) \<and>
     m fis = 0x27 \<and> m (fis + 2) = 0x25 \<and> m (fis + 7) = 0x40 \<and> bit (m (fis + 1)) 7"
proof -
  let ?m = "mem_of (read_fis quiet fis addr (len div AHCI_BLOCK_SIZE) s)"
  have b: "?m fis = 0x27" "?m (fis + 2) = 0x25" "?m (fis + 7) = 0x40" "?m (fis + 1) = mem_of s (fis + 1) OR 0x80"
    "?m (fis + 4) = ucast addr" "?m (fis + 5) = ucast (drop_bit 8 addr)" "?m (fis + 6) = ucast (drop_bit 16 addr)"
    "?m (fis + 8) = ucast (drop_bit 24 addr)" "?m (fis + 9) = ucast (drop_bit 32 addr)" "?m (fis + 10) = ucast (drop_bit 40 addr)"
    "?m (fis + 12) = ucast (len div 0x1000)" "?m (fis + 13) = ucast (drop_bit 8 (ucast (len div 0x1000) :: u16))"
    by (simp_all add: read_fis_def Let_def set8_def vset_cmd_def comp_def store_le_2)
       (rule bit_word_eqI, simp add: bit_simps)+
  have l: "load_le 3 ?m (fis + 4) = take_bit 24 addr" "load_le 3 ?m (fis + 8) = take_bit 24 (drop_bit 24 addr)"
    by (rule load_le_bytes(2); use b in \<open>simp add: add.assoc\<close>)+
  have "fis_lba ?m fis = take_bit 48 addr"
    unfolding fis_lba_def l by (rule bit_word_eqI) (auto simp: bit_simps)
  moreover have c: "fis_count ?m fis = ucast (len div 0x1000)"
  proof -
    let ?w = "ucast (len div 0x1000) :: u16"
    have "?m (fis + 12) = ucast (ucast ?w :: u64)" "?m (fis + 12 + 1) = ucast (drop_bit 8 (ucast ?w :: u64))"
      using b(11,12) by (simp_all add: add.assoc) (rule bit_word_eqI, simp add: bit_simps)+
    then have "load_le 2 ?m (fis + 12) = take_bit 16 (ucast ?w)" by (rule load_le_bytes(1))
    then show ?thesis unfolding fis_count_def load16_def by (simp, intro bit_word_eqI) (auto simp: bit_simps)
  qed
  moreover have "len div 0x1000 = 0" if "len < 0x1000"
    using that by (simp add: word_less_nat_alt unat_div word_unat_eq_iff)
  moreover have "bit (?m (fis + 1)) 7" unfolding b(4) by (simp add: bit_simps)
  ultimately show ?thesis using b(1-3) by (auto simp: Let_def simp del: ucast_0)
qed

end
