(* ===== verification/KernelLib.thy ===== *)
theory KernelLib
  imports LibLemmas
begin

text \<open>
  The helper library of the kernel, \<^verbatim>\<open>src/src/lib/lib.c\<close>. It is an earlier state of the
  loader's: block and string functions take the length before the source or the value, and
  the format interpreter has no \<^verbatim>\<open>%g\<close>. The bodies are otherwise the same, so the
  definitions run the loops of the Lib theory with the kernel's parameter order.
\<close>

definition k_mem_copy :: "mem \<Rightarrow> u64 \<Rightarrow> u64 \<Rightarrow> u64 \<Rightarrow> mem" where
  "k_mem_copy m dest len src = movsb (unat len) m dest src"

definition k_mem_fill :: "mem \<Rightarrow> u64 \<Rightarrow> u64 \<Rightarrow> u8 \<Rightarrow> mem" where
  "k_mem_fill m dest len val = stosb (unat len) m dest val"

definition k_mem_compare :: "mem \<Rightarrow> u64 \<Rightarrow> u64 \<Rightarrow> u64 \<Rightarrow> bool" where
  "k_mem_compare m buff1 buff2 len = compare_loop (unat len) m buff1 buff2"

definition k_str_copy :: "mem \<Rightarrow> u64 \<Rightarrow> u64 \<Rightarrow> u64 \<Rightarrow> mem \<times> u64" where
  "k_str_copy m dest len src = str_copy_loop (unat len) m dest src 0"

definition k_str_length :: "mem \<Rightarrow> u64 \<Rightarrow> u64 option" where
  "k_str_length m str = str_length_loop m str 0"

definition k_str_char_idx :: "mem \<Rightarrow> u64 \<Rightarrow> u8 \<Rightarrow> u64 \<Rightarrow> u64 option" where
  "k_str_char_idx m haystack needle offset =
     (case skip_offset (unat offset) m haystack of
        None \<Rightarrow> Some (- 1)
      | Some h \<Rightarrow> char_idx_loop m h needle 0)"

definition k_int_to_str :: "mem \<Rightarrow> u64 \<Rightarrow> u64 \<Rightarrow> u64 \<Rightarrow> u64 \<Rightarrow> int \<Rightarrow> c_error + mem \<times> u64" where
  "k_int_to_str m tmp dest len val base =
     (let m = k_mem_fill m tmp (of_nat (MAX_INT_STR + 1)) 0;
          r = (if sint val \<ge> 0 then digit_loop pos_digit MAX_INT_STR m tmp (sint val) base
               else ebind (digit_loop neg_digit MAX_INT_STR m tmp (sint val) base) (\<lambda>(m, p).
                      if base = 10
                      then if p = 0 then Inl OutOfBounds else Inr (m(tmp + of_nat (p - 1) := 45), p - 1)
                      else Inr (m, p)))
      in ebind r (\<lambda>(m, p). Inr (k_str_copy m dest len (tmp + of_nat p))))"

definition k_str_to_int :: "mem \<Rightarrow> u64 \<Rightarrow> u64 \<Rightarrow> u64 option" where
  "k_str_to_int m str base =
     Option.bind (skip_blanks m str) (\<lambda>b.
     let negative = (m b = 45)
     in Option.bind (decimal_loop m b 0) (\<lambda>val. Some (if negative then 0 - val else val)))"

definition k_write_f :: "mem \<Rightarrow> u64 \<Rightarrow> u64 \<Rightarrow> u64 \<Rightarrow> u64 \<Rightarrow> u64 list \<Rightarrow> (c_error + mem \<times> u64) option" where
  "k_write_f m tmp dest len format args = write_loop False tmp len format args (m, dest, 0)"

definition k_str_write_f :: "mem \<Rightarrow> u64 \<Rightarrow> u64 \<Rightarrow> u64 \<Rightarrow> u64 \<Rightarrow> u64 list \<Rightarrow> (c_error + mem \<times> u64) option" where
  "k_str_write_f m tmp dest len format args = k_write_f m tmp dest len format args"

definition k_read_f :: "mem \<Rightarrow> u64 \<Rightarrow> u64 \<Rightarrow> u64 list \<Rightarrow> u64" where
  "k_read_f m src format args = 0"

definition k_str_read_f :: "mem \<Rightarrow> u64 \<Rightarrow> u64 \<Rightarrow> u64 list \<Rightarrow> u64" where
  "k_str_read_f m src format args = k_read_f m src format args"

section \<open>The two libraries agree\<close>

lemma k_lib_eq:
  "k_mem_copy m dest len src = mem_copy m dest src len"
  "k_mem_fill m dest len val = mem_fill m dest val len"
  "k_mem_compare m buff1 buff2 len = mem_compare m buff1 buff2 len"
  "k_str_copy m dest len src = str_copy m dest len src"
  by (simp_all add: k_mem_copy_def mem_copy_def k_mem_fill_def mem_fill_def k_mem_compare_def mem_compare_def
      k_str_copy_def str_copy_def)

lemma k_int_to_str_eq: "k_int_to_str m tmp dest len val base = int_to_str m tmp dest len val base"
  by (auto simp: k_int_to_str_def int_to_str_def k_lib_eq ebind_def Let_def split: sum.splits if_splits)

lemma k_str_to_int_eq: "k_str_to_int m str base = str_to_int m str base"
  by (simp add: k_str_to_int_def str_to_int_def Let_def)

end
