(* ===== verification/KernelPaging.thy ===== *)
theory KernelPaging
  imports KernelLib PageMapping Results
begin

text \<open>
  Paging in the kernel, \<^verbatim>\<open>src/src/kernel/memory/paging.c\<close> (\<^verbatim>\<open>heap.c\<close> beside it is the
  same file): a bit set of used frames, identity mapping with tables taken from the end of
  the page structures, and access to single entries. The E820 map and the 4-level entries
  are those of the loader; an entry's address is all of its bits from 12 on. The initial
  values of \<^verbatim>\<open>_pml4\<close> and \<^verbatim>\<open>_page_offset\<close> (\<^verbatim>\<open>PT_LOC\<close>, which no header defines) are
  fields of the state.
\<close>

section \<open>State and frames\<close>

record kpage_state =
  kram :: mem
  pml4_loc :: u64
  page_offset :: u64
  ktotal_mem :: u64
  kavailable_mem :: u64
  page_frames :: u64
  page_count :: u64

definition BIT_INDEX :: "u64 \<Rightarrow> u64" where "BIT_INDEX b = b div 64"
definition BIT_OFFSET :: "u64 \<Rightarrow> u64" where "BIT_OFFSET b = b mod 64"

text \<open>\<^verbatim>\<open>0x1 << offset\<close> shifts an \<^verbatim>\<open>int\<close> of 32 bits: a larger count is undefined, bit 31
  is the sign and is extended when the value meets the 64-bit element.\<close>

definition frame_mask :: "u64 \<Rightarrow> c_error + u64" where
  "frame_mask n = (if n < 32 then Inr (scast (push_bit (unat n) (1 :: u32))) else Inl BadShift)"

definition frame_index :: "u64 \<Rightarrow> u64" where "frame_index paddr = BIT_INDEX (paddr div 4069)"
definition frame_offset :: "u64 \<Rightarrow> u64" where "frame_offset paddr = BIT_OFFSET (paddr div 4069)"

definition set_frames :: "u64 \<Rightarrow> (u64 \<Rightarrow> u64) \<Rightarrow> 'x kpage_state_scheme \<Rightarrow> 'x kpage_state_scheme" where
  "set_frames idx f s =
     (let a = page_frames s + 8 * idx in s\<lparr>kram := store64 (kram s) a (f (load64 (kram s) a))\<rparr>)"

definition page_set_frame :: "u64 \<Rightarrow> 'x kpage_state_scheme \<Rightarrow> c_error + 'x kpage_state_scheme" where
  "page_set_frame paddr s =
     ebind (frame_mask (frame_offset paddr)) (\<lambda>b. Inr (set_frames (frame_index paddr) (\<lambda>w. w OR b) s))"

definition page_clear_frame :: "u64 \<Rightarrow> 'x kpage_state_scheme \<Rightarrow> c_error + 'x kpage_state_scheme" where
  "page_clear_frame paddr s =
     ebind (frame_mask (frame_offset paddr)) (\<lambda>b. Inr (set_frames (frame_index paddr) (\<lambda>w. w AND NOT b) s))"

definition page_check_frame :: "u64 \<Rightarrow> 'x kpage_state_scheme \<Rightarrow> c_error + bool" where
  "page_check_frame paddr s =
     ebind (frame_mask (frame_offset paddr)) (\<lambda>b.
       Inr (load64 (kram s) (page_frames s + 8 * frame_index paddr) AND b \<noteq> 0))"

section \<open>The memory map\<close>

text \<open>After sorting, the loop that adds up the memory.\<close>

definition count_entry :: "nat \<Rightarrow> 'x kpage_state_scheme \<Rightarrow> 'x kpage_state_scheme" where
  "count_entry n s =
    (let i = of_nat n;
         base = e820_base (kram s) E820_LOC i; len = e820_length (kram s) E820_LOC i;
         kind = e820_type (kram s) E820_LOC i
     in if kind \<noteq> 2 then
          let s = (if base + len > ktotal_mem s then s\<lparr>ktotal_mem := base + len\<rparr> else s)
          in if kind = kMemOk then s\<lparr>kavailable_mem := kavailable_mem s + len\<rparr> else s
        else s)"

definition k_sort_e820 :: "'x kpage_state_scheme \<Rightarrow> 'x kpage_state_scheme" where
  "k_sort_e820 s =
    (let s = s\<lparr>kram := e820_sort_loop (kram s) E820_LOC (e820_size (kram s) E820_LOC) True\<rparr>
     in fold count_entry [0..<unat (e820_size (kram s) E820_LOC)] s)"

abbreviation (input) K_PAGE_MASK :: u64 where "K_PAGE_MASK \<equiv> 0xFFFFFFFFFFFFF000"

partial_function (option) mark_loop :: "u64 \<Rightarrow> u64 \<Rightarrow> 'x kpage_state_scheme \<Rightarrow> 'x kpage_state_scheme result" where
  "mark_loop paddr_from paddr_to s =
    (if paddr_from < paddr_to then
       rbind (Some (page_set_frame paddr_from s)) (mark_loop (paddr_from + PAGE_SIZE) paddr_to)
     else ret s)"

definition mark_entry :: "nat \<Rightarrow> 'x kpage_state_scheme \<Rightarrow> 'x kpage_state_scheme result" where
  "mark_entry n s =
    (let i = of_nat n; base = e820_base (kram s) E820_LOC i; len = e820_length (kram s) E820_LOC i
     in if e820_type (kram s) E820_LOC i \<noteq> kMemOk
        then mark_loop (base AND K_PAGE_MASK) ((base + len) AND K_PAGE_MASK) s
        else ret s)"

definition round_up :: "u64 \<Rightarrow> u64" where
  "round_up n = n div 512 + (if n mod 512 > 0 then 1 else 0)"

definition k_page_init :: "'x kpage_state_scheme \<Rightarrow> 'x kpage_state_scheme result" where
  "k_page_init s =
    (let s = k_sort_e820 s;
         pages = INIT_MEM div PAGE_SIZE + (if INIT_MEM mod PAGE_SIZE > 0 then 1 else 0);
         table_count = round_up pages;
         directory_count = round_up table_count;
         drawer_count = round_up directory_count;
         s = s\<lparr>page_offset := page_offset s + (8 * 512) * (1 + drawer_count + directory_count + table_count)\<rparr>;
         s = s\<lparr>page_count := ktotal_mem s div PAGE_SIZE\<rparr>;
         s = s\<lparr>page_frames := page_offset s\<rparr>;
         s = s\<lparr>kram := k_mem_fill (kram s) (page_count s) (page_count s div 8) 0\<rparr>;
         s = s\<lparr>page_offset := page_offset s + page_count s div 8\<rparr>;
         s = (if page_offset s AND K_PAGE_MASK \<noteq> page_offset s
              then s\<lparr>page_offset := (page_offset s AND K_PAGE_MASK) + PAGE_SIZE\<rparr> else s)
     in each mark_entry [0..<unat (e820_size (kram s) E820_LOC)] s)"

definition k_page_total_mem :: "'x kpage_state_scheme \<Rightarrow> u64" where "k_page_total_mem s = ktotal_mem s"
definition k_page_available_mem :: "'x kpage_state_scheme \<Rightarrow> u64" where "k_page_available_mem s = kavailable_mem s"

section \<open>Mapping\<close>

text \<open>\<^verbatim>\<open>canonical\<close> is the top 16 bits, \<^verbatim>\<open>drawer_idx & 0x100\<close> is bit 47.\<close>

definition page_normalize_vaddr :: "u64 \<Rightarrow> u64" where
  "page_normalize_vaddr vaddr =
    (if PAGE_PML_IDX vaddr 4 AND 0x100 \<noteq> 0
     then (vaddr AND 0x0000FFFFFFFFFFFF) OR 0xFFFF000000000000
     else vaddr AND 0x0000FFFFFFFFFFFF)"

definition k_address :: "mem \<Rightarrow> u64 \<Rightarrow> u64 \<Rightarrow> u64" where
  "k_address m table idx = load64 m (entry_addr table idx) AND K_PAGE_MASK"

definition k_set_entry :: "bool \<Rightarrow> mem \<Rightarrow> u64 \<Rightarrow> u64 \<Rightarrow> u64 \<Rightarrow> mem" where
  "k_set_entry mmio m table idx raw =
    (let m = store64 m (entry_addr table idx) raw;
         m = set_flag m table idx 0;
         m = set_flag m table idx 1
     in if mmio then set_flag (set_flag m table idx 3) table idx 4 else m)"

text \<open>The table behind an entry, made when it is missing; then the next level.\<close>

definition k_next_table :: "bool \<Rightarrow> u64 \<Rightarrow> u64 \<Rightarrow> 'x kpage_state_scheme \<Rightarrow> c_error + 'x kpage_state_scheme \<times> u64" where
  "k_next_table mmio table idx s =
     ebind (if \<not> pm_present (kram s) table idx then
              ebind (page_set_frame (page_offset s) s) (\<lambda>s.
                let t = page_offset s;
                    s = s\<lparr>kram := k_mem_fill (kram s) t (8 * 512) 0\<rparr>;
                    s = s\<lparr>kram := k_set_entry mmio (kram s) table idx t\<rparr>
                in Inr (s\<lparr>page_offset := page_offset s + 8 * 512\<rparr>))
            else Inr s)
       (\<lambda>s. Inr (s, k_address (kram s) table idx))"

definition map_page :: "bool \<Rightarrow> u64 \<Rightarrow> 'x kpage_state_scheme \<Rightarrow> c_error + 'x kpage_state_scheme \<times> u64" where
  "map_page mmio paddr s =
    (let va = page_normalize_vaddr paddr in
     ebind (k_next_table mmio (pml4_loc s) (PAGE_PML_IDX va 4) s) (\<lambda>(s, pml3).
     ebind (k_next_table mmio pml3 (PAGE_PML_IDX va 3) s) (\<lambda>(s, pml2).
     ebind (k_next_table mmio pml2 (PAGE_PML_IDX va 2) s) (\<lambda>(s, pml1).
       let i = PAGE_PML_IDX va 1 in
       Inr (if \<not> pm_present (kram s) pml1 i
            then s\<lparr>kram := k_set_entry mmio (kram s) pml1 i (paddr AND K_PAGE_MASK)\<rparr> else s, va)))))"

definition k_page_map :: "u64 \<Rightarrow> 'x kpage_state_scheme \<Rightarrow> c_error + 'x kpage_state_scheme \<times> u64" where
  "k_page_map paddr s = map_page False paddr s"

definition k_page_map_mmio :: "u64 \<Rightarrow> 'x kpage_state_scheme \<Rightarrow> c_error + 'x kpage_state_scheme \<times> u64" where
  "k_page_map_mmio paddr s = map_page True paddr s"

section \<open>Looking up\<close>

definition k_page_resolve :: "u64 \<Rightarrow> 'x kpage_state_scheme \<Rightarrow> u64" where
  "k_page_resolve va s =
    (let m = kram s; t4 = pml4_loc s in
     if pm_present m t4 (PAGE_PML_IDX va 4) then
       let t3 = k_address m t4 (PAGE_PML_IDX va 4) in
       if pm_present m t3 (PAGE_PML_IDX va 3) then
         let t2 = k_address m t3 (PAGE_PML_IDX va 3) in
         if pm_present m t2 (PAGE_PML_IDX va 2) then
           let t1 = k_address m t2 (PAGE_PML_IDX va 2) in
           if pm_present m t1 (PAGE_PML_IDX va 1)
           then (va AND 0xFFF) OR k_address m t1 (PAGE_PML_IDX va 1)
           else 0
         else 0
       else 0
     else 0)"

definition page_get_pml_entry :: "u64 \<Rightarrow> u8 \<Rightarrow> 'x kpage_state_scheme \<Rightarrow> u64" where
  "page_get_pml_entry va level s =
    (let m = kram s; t4 = pml4_loc s in
     if level \<ge> 3 then load64 m (entry_addr t4 (PAGE_PML_IDX va 4))
     else let t3 = k_address m t4 (PAGE_PML_IDX va 4) in
     if level = 2 then load64 m (entry_addr t3 (PAGE_PML_IDX va 3))
     else let t2 = k_address m t3 (PAGE_PML_IDX va 3) in
     if level = 1 then load64 m (entry_addr t2 (PAGE_PML_IDX va 2))
     else let t1 = k_address m t2 (PAGE_PML_IDX va 2) in
     load64 m (entry_addr t1 (PAGE_PML_IDX va 1)))"

text \<open>Only the getter returns early: here every level continues to the last table.\<close>

definition page_set_pml_entry :: "u64 \<Rightarrow> u8 \<Rightarrow> u64 \<Rightarrow> 'x kpage_state_scheme \<Rightarrow> 'x kpage_state_scheme" where
  "page_set_pml_entry vaddr level pe s =
    (let va = page_normalize_vaddr vaddr;
         m = kram s; t4 = pml4_loc s; a4 = entry_addr t4 (PAGE_PML_IDX va 4);
         m = (if level \<ge> 3 then store64 m a4 pe else m);
         t3 = k_address m t4 (PAGE_PML_IDX va 4); a3 = entry_addr t3 (PAGE_PML_IDX va 3);
         m = (if level = 2 then store64 m a3 pe else m);
         t2 = k_address m t3 (PAGE_PML_IDX va 3); a2 = entry_addr t2 (PAGE_PML_IDX va 2);
         m = (if level = 1 then store64 m a2 pe else m);
         t1 = k_address m t2 (PAGE_PML_IDX va 2)
     in s\<lparr>kram := store64 m (entry_addr t1 (PAGE_PML_IDX va 1)) pe\<rparr>)"

section \<open>The bit set of frames\<close>

lemma frame_mask_bit:
  assumes "n < 32"
  obtains b where "frame_mask n = Inr b" "\<And>k. k < 64 \<Longrightarrow> bit b k \<longleftrightarrow> k = unat n \<or> (unat n = 31 \<and> 31 \<le> k)"
proof
  have n: "unat n < 32" using assms by (simp add: word_less_nat_alt)
  show "frame_mask n = Inr (scast (push_bit (unat n) (1 :: u32)))" using assms by (simp add: frame_mask_def)
  show "bit (scast (push_bit (unat n) (1 :: u32)) :: u64) k \<longleftrightarrow> k = unat n \<or> (unat n = 31 \<and> 31 \<le> k)" if "k < 64" for k
  proof -
    have b: "bit ((2 :: u32) ^ unat n) j \<longleftrightarrow> j = unat n" for j
      using n by (auto simp: bit_exp_iff)
    show ?thesis using that n by (auto simp: bit_signed_iff b)
  qed
qed

lemma frame_masks_meet:
  assumes "n < 32" "k < 32" "frame_mask n = Inr a" "frame_mask k = Inr b"
  shows "a AND b = 0 \<longleftrightarrow> n \<noteq> k" "b AND a = (if n = k then b else 0)"
proof -
  have nk: "unat n < 32" "unat k < 32" using assms by (simp_all add: word_less_nat_alt)
  from frame_mask_bit[OF assms(1)] assms(3)
  have a: "bit a j \<longleftrightarrow> j = unat n \<or> (unat n = 31 \<and> 31 \<le> j)" if "j < 64" for j using that by auto
  from frame_mask_bit[OF assms(2)] assms(4)
  have b: "bit b j \<longleftrightarrow> j = unat k \<or> (unat k = 31 \<and> 31 \<le> j)" if "j < 64" for j using that by auto
  show e: "b AND a = (if n = k then b else 0)"
  proof (rule bit_eqI)
    fix j :: nat
    assume "possible_bit TYPE(u64) j"
    then have "j < 64" by simp
    then show "bit (b AND a) j = bit (if n = k then b else 0) j"
      using a b nk by (auto simp: bit_and_iff word_unat_eq_iff)
  qed
  have "bit b (unat k)" using b nk by simp
  then have "b \<noteq> 0" by auto
  then show "a AND b = 0 \<longleftrightarrow> n \<noteq> k" using e by (simp add: and.commute)
qed

lemma frame_number: "p div 4069 = q div 4069 \<longleftrightarrow> frame_index p = frame_index q \<and> frame_offset p = frame_offset q"
proof
  assume "frame_index p = frame_index q \<and> frame_offset p = frame_offset q"
  then have "unat (p div 4069) div 64 = unat (q div 4069) div 64" "unat (p div 4069) mod 64 = unat (q div 4069) mod 64"
    by (simp_all add: frame_index_def frame_offset_def BIT_INDEX_def BIT_OFFSET_def word_unat_eq_iff unat_div unat_mod)
  then have "unat (p div 4069) = unat (q div 4069)" by (metis div_mult_mod_eq)
  then show "p div 4069 = q div 4069" by (simp only: word_unat_eq_iff)
qed (simp add: frame_index_def frame_offset_def)

lemma frame_cells_apart:
  assumes "frame_index p \<noteq> frame_index q"
  shows "apart (a + 8 * frame_index p) (a + 8 * frame_index q)"
proof -
  have b: "unat (frame_index r) < 2 ^ 60" for r
  proof -
    have "unat (frame_index r) = unat r div 4069 div 64"
      by (simp add: frame_index_def BIT_INDEX_def unat_div)
    then show ?thesis using unat64_lt[of r] by (simp add: div_mult2_eq [symmetric] less_mult_imp_div_less)
  qed
  have u: "unat (8 * frame_index r) = 8 * unat (frame_index r)" for r
    using b[of r] by (simp add: unat_word_ariths)
  have "unat (frame_index p) \<noteq> unat (frame_index q)" using assms by (simp add: word_unat_eq_iff)
  then have "8 \<le> unat (8 * frame_index p - 8 * frame_index q)" "8 \<le> unat (8 * frame_index q - 8 * frame_index p)"
    using b[of p] b[of q] by (auto simp: unat_sub_if' u not_le)
  then show ?thesis by (simp add: apart_def word_le_nat_alt)
qed

section \<open>Properties\<close>

text \<open>The frame bit set. A frame number \<open>paddr / 4069\<close> whose position in its word is 32 or
  more cannot be handled: the shift is undefined. For the others, setting and clearing behave
  like insertion into and removal from a set of frame numbers, as far as
  \<^verbatim>\<open>page_check_frame\<close> can ask (position 31 also changes the 32 bits above it).\<close>

theorem frame_bit_set:
  shows "(frame_offset p \<ge> 32 \<longrightarrow> page_set_frame p s = Inl BadShift \<and> page_clear_frame p s = Inl BadShift \<and>
      page_check_frame p s = Inl BadShift) \<and>
    (frame_offset p < 32 \<longrightarrow> (\<exists>s1 s2. page_set_frame p s = Inr s1 \<and> page_clear_frame p s = Inr s2 \<and>
      (\<forall>q. frame_offset q < 32 \<longrightarrow>
        page_check_frame q s1 = (if q div 4069 = p div 4069 then Inr True else page_check_frame q s) \<and>
        page_check_frame q s2 = (if q div 4069 = p div 4069 then Inr False else page_check_frame q s))))"
proof (cases "frame_offset p < 32")
  case False
  then show ?thesis by (simp add: page_set_frame_def page_clear_frame_def page_check_frame_def frame_mask_def)
next
  case True
  obtain a where a: "frame_mask (frame_offset p) = Inr a" using frame_mask_bit[OF True] by blast
  let ?s1 = "set_frames (frame_index p) (\<lambda>w. w OR a) s" and ?s2 = "set_frames (frame_index p) (\<lambda>w. w AND NOT a) s"
  have "page_check_frame q ?s1 = (if q div 4069 = p div 4069 then Inr True else page_check_frame q s) \<and>
      page_check_frame q ?s2 = (if q div 4069 = p div 4069 then Inr False else page_check_frame q s)"
    if q: "frame_offset q < 32" for q
  proof -
    obtain b where b: "frame_mask (frame_offset q) = Inr b" using frame_mask_bit[OF q] by blast
    note m = frame_masks_meet[OF True q a b]
    show ?thesis
    proof (cases "frame_index q = frame_index p")
      case same: True
      let ?w = "load64 (kram s) (page_frames s + 8 * frame_index p)"
      have 1: "(?w OR a) AND b = (?w AND b) OR (a AND b)" by (simp add: bit.conj_disj_distrib2)
      have 2: "(?w AND NOT a) AND b = ?w AND (b AND NOT a)" by (simp add: ac_simps)
      show ?thesis
      proof (cases "frame_offset q = frame_offset p")
        case off: True
        then have "a = b" using a b by simp
        moreover have "b \<noteq> 0" using m(1) off \<open>a = b\<close> by auto
        moreover have "?w AND b OR b = b" by (rule bit_eqI) (auto simp: bit_simps)
        moreover have "(?w AND NOT b) AND b = 0" by (simp add: and.assoc)
        ultimately show ?thesis
          using same off b by (simp add: page_check_frame_def set_frames_def Let_def frame_number 1 2)
      next
        case False
        then have "a AND b = 0" "b AND a = 0" using m by auto
        moreover have "b AND NOT a = b"
        proof (rule bit_eqI)
          fix j
          show "bit (b AND NOT a) j = bit b j"
            using arg_cong[OF \<open>a AND b = 0\<close>, of "\<lambda>w. bit w j"] by (auto simp: bit_simps dest: bit_imp_le_length)
        qed
        ultimately show ?thesis
          using same False by (simp add: page_check_frame_def set_frames_def Let_def b frame_number 1 2)
      qed
    next
      case False
      then show ?thesis
        using frame_cells_apart[OF False, of "page_frames s"]
        by (simp add: page_check_frame_def set_frames_def Let_def b frame_number frame)
    qed
  qed
  then show ?thesis using True a by (simp add: page_set_frame_def page_clear_frame_def)
qed

definition no_frames :: kpage_state where
  "no_frames = \<lparr>kram = (\<lambda>_. 0), pml4_loc = 0x1000, page_offset = 0x5000, ktotal_mem = 0,
     kavailable_mem = 0, page_frames = 0x9000, page_count = 0\<rparr>"

lemma frame_bit_set_witness:
  "page_set_frame 0x21000 no_frames = Inl BadShift \<and>
   (\<exists>s1. page_set_frame 0x1000 no_frames = Inr s1 \<and> page_check_frame 0x1000 s1 = Inr True \<and>
     page_check_frame 0x2000 s1 = Inr False)"
proof -
  have o: "32 \<le> frame_offset 0x21000" "frame_offset 0x1000 < 32" "frame_offset 0x2000 < 32"
    by (simp_all add: frame_offset_def BIT_OFFSET_def)
  have c: "page_check_frame 0x2000 no_frames = Inr False"
    by (simp add: page_check_frame_def frame_mask_def o no_frames_def)
  from frame_bit_set[of "0x21000" no_frames] o(1) have "page_set_frame 0x21000 no_frames = Inl BadShift" by blast
  moreover have "\<exists>s1. page_set_frame 0x1000 no_frames = Inr s1 \<and> page_check_frame 0x1000 s1 = Inr True \<and>
     page_check_frame 0x2000 s1 = Inr False"
    using frame_bit_set[of "0x1000" no_frames] o c by auto
  ultimately show ?thesis by blast
qed

text \<open>\<^verbatim>\<open>page_normalize_vaddr\<close> is sign extension from bit 47, the canonical form the
  processor asks for; the loader's \<^verbatim>\<open>PAGE_CANONICAL\<close>, which its comment calls a sign
  extension too, clears the upper 16 bits instead.\<close>

theorem page_normalize_sign_extends:
  "page_normalize_vaddr va = signed_take_bit 47 va \<and> PAGE_CANONICAL va = take_bit 48 va"
proof
  have h: "PAGE_PML_IDX va 4 AND 0x100 \<noteq> 0 \<longleftrightarrow> bit va 47"
  proof -
    have "PAGE_PML_IDX va 4 AND 0x100 = (if bit va 47 then 0x100 else 0)"
    proof (rule bit_eqI)
      fix n
      have "bit ((2 :: u64) ^ 8) n \<longleftrightarrow> n = 8" by (simp only: bit_exp_iff) auto
      then have "bit (0x100 :: u64) n \<longleftrightarrow> n = 8" by simp
      then show "bit (PAGE_PML_IDX va 4 AND 0x100) n = bit (if bit va 47 then 0x100 else 0 :: u64) n"
        by (auto simp: bit_and_iff bit_idx)
    qed
    then show ?thesis by simp
  qed
  have lo: "(0x0000FFFFFFFFFFFF :: u64) = mask 48" and hi: "(0xFFFF000000000000 :: u64) = NOT (mask 48)"
    by (simp_all add: mask_eq_exp_minus_1)
  show "page_normalize_vaddr va = signed_take_bit 47 va"
    unfolding page_normalize_vaddr_def h lo hi
  proof (rule bit_eqI)
    fix n
    show "bit (if bit va 47 then va AND mask 48 OR NOT (mask 48) else va AND mask 48) n = bit (signed_take_bit 47 va) n"
      by (cases "n < 47"; cases "n = 47") (auto simp: bit_signed_take_bit_iff bit_simps min_def)
  qed
  show "PAGE_CANONICAL va = take_bit 48 va"
    by (rule bit_eqI) (auto simp: PAGE_CANONICAL_def bit_simps)
qed

text \<open>Entries of different tables are apart; the indices only depend on bits 12 to 47.\<close>

lemma table_entries_apart:
  assumes "4096 dvd unat t" "4096 dvd unat u" "t \<noteq> u" "i < 512" "j < 512"
  shows "apart (entry_addr t i) (entry_addr u j)"
proof -
  let ?a = "entry_addr t i" and ?b = "entry_addr u j"
  have d: "addrs ?a 8 \<inter> addrs ?b 8 = {}"
    using pages_disjoint[OF assms(1-3)] entry_in_page[OF assms(4), of t] entry_in_page[OF assms(5), of u] by blast
  have "?a \<in> addrs ?a 8" "?b \<in> addrs ?b 8" by (simp_all add: in_addrs_iff)
  then have "?a \<notin> addrs ?b 8" "?b \<notin> addrs ?a 8" using d by blast+
  then show ?thesis by (simp add: apart_def in_addrs_iff word_le_nat_alt not_less)
qed

lemma idx_normalize:
  assumes "1 \<le> j" "j \<le> 4" shows "PAGE_PML_IDX (page_normalize_vaddr va) j = PAGE_PML_IDX va j"
proof (rule bit_eqI)
  fix n
  have "bit (page_normalize_vaddr va) k \<longleftrightarrow> bit va k" if "k < 48" for k
  proof -
    have lo: "(0x0000FFFFFFFFFFFF :: u64) = mask 48" and hi: "(0xFFFF000000000000 :: u64) = NOT (mask 48)"
      by (simp_all add: mask_eq_exp_minus_1)
    show ?thesis using that unfolding page_normalize_vaddr_def lo hi by (simp add: bit_simps)
  qed
  then show "bit (PAGE_PML_IDX (page_normalize_vaddr va) j) n = bit (PAGE_PML_IDX va j) n"
    using assms by (auto simp: bit_idx)
qed

text \<open>The entries an address goes through: \<open>a\<close> gives the one of each level, from 4 for the
  root to 1 for the page.\<close>

definition entries_on :: "mem \<Rightarrow> u64 \<Rightarrow> u64 \<Rightarrow> (nat \<Rightarrow> u64) \<Rightarrow> bool" where
  "entries_on m t4 va a \<longleftrightarrow> a 4 = entry_addr t4 (PAGE_PML_IDX va 4) \<and>
     a 3 = entry_addr (load64 m (a 4) AND K_PAGE_MASK) (PAGE_PML_IDX va 3) \<and>
     a 2 = entry_addr (load64 m (a 3) AND K_PAGE_MASK) (PAGE_PML_IDX va 2) \<and>
     a 1 = entry_addr (load64 m (a 2) AND K_PAGE_MASK) (PAGE_PML_IDX va 1)"

lemma entries_on_address:
  assumes "entries_on m t4 va a"
  shows "entry_addr t4 (PAGE_PML_IDX va 4) = a 4"
    "entry_addr (load64 m (a 4) AND K_PAGE_MASK) (PAGE_PML_IDX va 3) = a 3"
    "entry_addr (load64 m (a 3) AND K_PAGE_MASK) (PAGE_PML_IDX va 2) = a 2"
    "entry_addr (load64 m (a 2) AND K_PAGE_MASK) (PAGE_PML_IDX va 1) = a 1"
  using assms by (simp_all add: entries_on_def)

lemma store_keeps_address:
  assumes "\<And>i j. i \<in> {1..4} \<Longrightarrow> j \<in> {1..4} \<Longrightarrow> i \<noteq> j \<Longrightarrow> apart (a i) (a j)"
    and "k \<in> {1..4}" "k \<noteq> 1 \<Longrightarrow> v AND K_PAGE_MASK = load64 m (a k) AND K_PAGE_MASK" "i \<in> {2..4 :: nat}"
  shows "load64 (store64 m (a k) v) (a i) AND K_PAGE_MASK = load64 m (a i) AND K_PAGE_MASK"
  using assms(1)[of k i] assms(1)[of i k] assms(2-4) by (cases "k = i") (auto simp: load64_store64_apart)

lemma entries_on_store:
  assumes "entries_on m t4 va a" "\<And>i j. i \<in> {1..4} \<Longrightarrow> j \<in> {1..4} \<Longrightarrow> i \<noteq> j \<Longrightarrow> apart (a i) (a j)"
    and "k \<in> {1..4}" "k \<noteq> 1 \<Longrightarrow> v AND K_PAGE_MASK = load64 m (a k) AND K_PAGE_MASK"
  shows "entries_on (store64 m (a k) v) t4 va a"
proof -
  note e = store_keeps_address[of a k v m, OF assms(2-4)]
  have "load64 (store64 m (a k) v) (a 4) AND K_PAGE_MASK = load64 m (a 4) AND K_PAGE_MASK"
    "load64 (store64 m (a k) v) (a 3) AND K_PAGE_MASK = load64 m (a 3) AND K_PAGE_MASK"
    "load64 (store64 m (a k) v) (a 2) AND K_PAGE_MASK = load64 m (a 2) AND K_PAGE_MASK"
    by (rule e; simp)+
  then show ?thesis using assms(1) unfolding entries_on_def by (simp only:)
qed

lemma level_cases:
  fixes l :: u8
  assumes "l \<in> {1, 2, 3}"
  obtains "l = 1" "\<not> 3 \<le> l" "l \<noteq> 2" "Suc (unat l) = 2" | "l = 2" "\<not> 3 \<le> l" "l \<noteq> 1" "Suc (unat l) = 3"
    | "l = 3" "3 \<le> l" "l \<noteq> 1" "l \<noteq> 2" "Suc (unat l) = 4"
  using assms by (auto simp: word_le_nat_alt)

lemma get_entry_on:
  assumes "entries_on (kram s) (pml4_loc s) va a"
  shows "level \<in> {1, 2, 3} \<Longrightarrow> page_get_pml_entry va level s = load64 (kram s) (a (Suc (unat level)))"
    and "page_get_pml_entry va 0 s = load64 (kram s) (a 1)"
proof -
  note e = entries_on_address[OF assms]
  show "page_get_pml_entry va level s = load64 (kram s) (a (Suc (unat level)))" if "level \<in> {1, 2, 3}"
    by (rule level_cases[OF that]) (simp_all only: page_get_pml_entry_def Let_def k_address_def e if_True if_False refl)
  show "page_get_pml_entry va 0 s = load64 (kram s) (a 1)"
    using e by (simp add: page_get_pml_entry_def Let_def k_address_def word_le_nat_alt)
qed

lemma resolve_on:
  assumes "entries_on (kram s) (pml4_loc s) va a" "k_page_resolve va s \<noteq> 0"
  shows "k_page_resolve va s = (va AND 0xFFF) OR (load64 (kram s) (a 1) AND K_PAGE_MASK)"
  using assms(2) unfolding k_page_resolve_def Let_def k_address_def entries_on_address[OF assms(1)]
  by (simp split: if_splits)

lemma set_entry_on:
  assumes on: "entries_on (kram s) (pml4_loc s) va a"
    and ap: "\<And>i j. i \<in> {1..4} \<Longrightarrow> j \<in> {1..4} \<Longrightarrow> i \<noteq> j \<Longrightarrow> apart (a i) (a j)"
    and level: "level \<in> {1, 2, 3}" and pe: "pe AND K_PAGE_MASK = load64 (kram s) (a (Suc (unat level))) AND K_PAGE_MASK"
  shows "page_set_pml_entry va level pe s = s\<lparr>kram := store64 (store64 (kram s) (a (Suc (unat level))) pe) (a 1) pe\<rparr>"
proof -
  let ?k = "Suc (unat level)"
  have k: "?k \<in> {1..4}" using level by auto
  have e': "load64 (store64 (kram s) (a ?k) pe) (a i) AND K_PAGE_MASK = load64 (kram s) (a i) AND K_PAGE_MASK" if "i \<in> {2..4}" for i
    using store_keeps_address[of a ?k pe "kram s" i, OF ap k pe that] .
  note e = entries_on_address[OF on] e'[of 4, simplified] e'[of 3, simplified] e'[of 2, simplified]
  have i: "PAGE_PML_IDX (page_normalize_vaddr va) 1 = PAGE_PML_IDX va 1" "PAGE_PML_IDX (page_normalize_vaddr va) 2 = PAGE_PML_IDX va 2"
    "PAGE_PML_IDX (page_normalize_vaddr va) 3 = PAGE_PML_IDX va 3" "PAGE_PML_IDX (page_normalize_vaddr va) 4 = PAGE_PML_IDX va 4"
    by (rule idx_normalize; simp)+
  show ?thesis
  proof (rule level_cases[OF level])
    assume l: "level = 1" "\<not> 3 \<le> level" "level \<noteq> 2" "?k = 2"
    have c: "(level = 1) = True" using l(1) by simp
    show ?thesis using e unfolding page_set_pml_entry_def Let_def k_address_def i l(4)
      by (simp only: c l(2,3) if_True if_False refl)
  next
    assume l: "level = 2" "\<not> 3 \<le> level" "level \<noteq> 1" "?k = 3"
    have c: "(level = 2) = True" using l(1) by simp
    show ?thesis using e unfolding page_set_pml_entry_def Let_def k_address_def i l(4)
      by (simp only: c l(2,3) if_True if_False refl)
  next
    assume l: "level = 3" "3 \<le> level" "level \<noteq> 1" "level \<noteq> 2" "?k = 4"
    show ?thesis using e unfolding page_set_pml_entry_def Let_def k_address_def i l(5)
      by (simp only: l(2,3,4) if_True if_False refl)
  qed
qed


text \<open>Four tables at 0x1000 to 0x4000 and the page 0x5000: switching the cache off in the entry
  of level 1 maps the page to its page table, 0x4000.\<close>

definition four_tables :: kpage_state where
  "four_tables = \<lparr>kram = (\<lambda>_. 0)(0x1000 := 3, 0x1001 := 0x20, 0x2000 := 3, 0x2001 := 0x30,
       0x3000 := 3, 0x3001 := 0x40, 0x4028 := 3, 0x4029 := 0x50),
     pml4_loc = 0x1000, page_offset = 0, ktotal_mem = 0, kavailable_mem = 0, page_frames = 0, page_count = 0\<rparr>"


end
