(* ===== verification/Acpi.thy ===== *)
theory Acpi
  imports KernelPaging Ports
begin

text \<open>
  The kernel's processor set-up, first part: \<^verbatim>\<open>src/src/kernel/cpu/interrupts.c\<close> and
  \<^verbatim>\<open>src/src/kernel/arch/acpi.c\<close>. The tables of the firmware are read where they lie in
  memory, at the offsets of \<^verbatim>\<open>acpi.h\<close>; \<^verbatim>\<open>page_map_mmio\<close> may fail with an undefined
  shift, so the operations return a result. Debug output is left out.
\<close>

section \<open>State\<close>

record k_gate =
  k_offset_lo :: u16
  k_segment :: u16
  k_flags :: u16
  k_offset_hi :: u16
  k_offset_64 :: u32
  k_reserved :: u32

record kernel_state = kpage_state +
  klog :: "io_event list"
  kidt :: "k_gate list"
  kidtr :: "u16 \<times> u64"
  rsdp :: u64

definition k_outb :: "u16 \<Rightarrow> u8 \<Rightarrow> 'x kernel_state_scheme \<Rightarrow> 'x kernel_state_scheme" where
  "k_outb port v s = s\<lparr>klog := OutB port v # klog s\<rparr>"

section \<open>Interrupts\<close>

definition k_zero_gate :: k_gate where
  "k_zero_gate = \<lparr>k_offset_lo = 0, k_segment = 0, k_flags = 0, k_offset_hi = 0, k_offset_64 = 0, k_reserved = 0\<rparr>"

definition k_idt_set_entry :: "u8 \<Rightarrow> u64 \<Rightarrow> u16 \<Rightarrow> k_gate list \<Rightarrow> k_gate list" where
  "k_idt_set_entry num addr flags t = t[unat num := \<lparr>
     k_offset_lo = ucast (addr AND 0xFFFF),
     k_segment = 0x08,
     k_flags = flags,
     k_offset_hi = ucast (drop_bit 16 addr AND 0xFFFF),
     k_offset_64 = ucast (drop_bit 32 addr AND 0xFFFFFFFFF),
     k_reserved = 0\<rparr>]"

definition remap_pic :: "(u16 \<times> u8) list" where
  "remap_pic = [(0x20, 0x11), (0xA0, 0x11), (0x21, 0x20), (0xA1, 0x28), (0x21, 0x04), (0xA1, 0x02),
     (0x21, 0x01), (0xA1, 0x01), (0x21, 0x0), (0xA1, 0x0)]"

text \<open>\<open>isr\<close> and \<open>irq\<close> are the addresses of the assembly stubs, \<open>idt_addr\<close> that of the table.\<close>

definition k_interrupt_init ::
  "(nat \<Rightarrow> u64) \<Rightarrow> (nat \<Rightarrow> u64) \<Rightarrow> u64 \<Rightarrow> 'x kernel_state_scheme \<Rightarrow> 'x kernel_state_scheme" where
  "k_interrupt_init isr irq idt_addr s =
    (let t = replicate 256 k_zero_gate;
         s = fold (\<lambda>(port, v). k_outb port v) remap_pic s;
         t = fold (\<lambda>n. k_idt_set_entry (of_nat n) (isr n) 0x8E00) [0..<32] t;
         t = fold (\<lambda>n. k_idt_set_entry (of_nat (32 + n)) (irq n) 0x8E00) [0..<16] t
     in s\<lparr>kidt := t, kidtr := (16 * 256 - 1, idt_addr)\<rparr>)"

text \<open>\<open>None\<close> is \<^verbatim>\<open>HANG()\<close>; \<open>cr2\<close> is the faulting address.\<close>

definition isr_handler :: "u64 \<Rightarrow> u64 \<Rightarrow> 'x kernel_state_scheme \<Rightarrow> 'x kernel_state_scheme result" where
  "isr_handler cr2 vec s =
    (if vec = 13 then None
     else if vec = 14 then
       if k_page_resolve cr2 s = 0
       then rbind (Some (k_page_map cr2 s)) (\<lambda>(s, _). ret s)
       else None
     else ret s)"

definition irq_handler :: "u64 \<Rightarrow> 'x kernel_state_scheme \<Rightarrow> 'x kernel_state_scheme" where
  "irq_handler irq s = s"

section \<open>Finding the root pointer\<close>

primrec checksum_loop :: "nat \<Rightarrow> mem \<Rightarrow> u64 \<Rightarrow> u32 \<Rightarrow> u32" where
  "checksum_loop 0 m block tot = tot"
| "checksum_loop (Suc len) m block tot = checksum_loop len m (block + 1) (tot + ucast (m block))"

definition acpi_checksum :: "mem \<Rightarrow> u64 \<Rightarrow> u64 \<Rightarrow> u8" where
  "acpi_checksum m block len = ucast (checksum_loop (unat len) m block 0)"

definition RSD_PTR :: "u8 list" where
  "RSD_PTR = [82, 83, 68, 32, 80, 84, 82, 32]"

abbreviation (input) SIZEOF_RSDP :: u64 where "SIZEOF_RSDP \<equiv> 36"
abbreviation (input) SIZEOF_SDT_HEADER :: u64 where "SIZEOF_SDT_HEADER \<equiv> 36"

definition rsdp_revision :: "mem \<Rightarrow> u64 \<Rightarrow> u8" where "rsdp_revision m r = m (r + 15)"
definition RSDT_address :: "mem \<Rightarrow> u64 \<Rightarrow> u32" where "RSDT_address m r = load32 m (r + 16)"
definition XSDT_address :: "mem \<Rightarrow> u64 \<Rightarrow> u64" where "XSDT_address m r = load64 m (r + 24)"
definition sdt_length :: "mem \<Rightarrow> u64 \<Rightarrow> u32" where "sdt_length m th = load32 m (th + 4)"

definition rsdp_here :: "mem \<Rightarrow> u64 \<Rightarrow> bool" where
  "rsdp_here m r =
    (if match_bytes m r RSD_PTR then
       if rsdp_revision m r = 0 then acpi_checksum m r (1 * 20) = 0
       else acpi_checksum m r SIZEOF_RSDP = 0
     else False)"

text \<open>The \<^verbatim>\<open>do ... while\<close> loop in steps of 16 bytes; \<open>n\<close> is what is left of the 0x8000 steps.\<close>

primrec find_loop :: "nat \<Rightarrow> mem \<Rightarrow> u64 \<Rightarrow> u64 option" where
  "find_loop 0 m r = None"
| "find_loop (Suc n) m r = (if rsdp_here m r then Some r else find_loop n m (r + 0x10))"

definition map_mmio :: "u64 \<Rightarrow> 'x kernel_state_scheme \<Rightarrow> 'x kernel_state_scheme result" where
  "map_mmio a s = rbind (Some (k_page_map_mmio a s)) (\<lambda>(s, _). ret s)"

definition acpi_find :: "'x kernel_state_scheme \<Rightarrow> (bool \<times> 'x kernel_state_scheme) result" where
  "acpi_find s =
    (if rsdp s = 0 then
       case find_loop 0x8000 (kram s) 0x80000 of
         Some r \<Rightarrow>
           let s = s\<lparr>rsdp := r\<rparr>;
               a = (if rsdp_revision (kram s) r = 0 then ucast (RSDT_address (kram s) r) else XSDT_address (kram s) r)
           in rbind (map_mmio a s) (\<lambda>s. ret (True, s))
       | None \<Rightarrow> ret (False, s\<lparr>rsdp := 0\<rparr>)
     else ret (False, s))"

section \<open>The tables\<close>

text \<open>The two branches for RSDT and XSDT differ in the size of a pointer, 4 or 8 bytes.\<close>

definition root_table :: "'x kernel_state_scheme \<Rightarrow> u64" where
  "root_table s = (if rsdp_revision (kram s) (rsdp s) = 0 then ucast (RSDT_address (kram s) (rsdp s))
     else XSDT_address (kram s) (rsdp s))"

definition entry_size :: "'x kernel_state_scheme \<Rightarrow> u64" where
  "entry_size s = (if rsdp_revision (kram s) (rsdp s) = 0 then 4 else 8)"

definition entry_count :: "'x kernel_state_scheme \<Rightarrow> u64" where
  "entry_count s = (ucast (sdt_length (kram s) (root_table s)) - SIZEOF_SDT_HEADER) div entry_size s"

definition entry_ptr :: "mem \<Rightarrow> u64 \<Rightarrow> u64 \<Rightarrow> u64" where
  "entry_ptr m sz ptr = (if sz = 4 then ucast (load32 m ptr) else load64 m ptr)"

partial_function (option) map_pages :: "u64 \<Rightarrow> u64 \<Rightarrow> u64 \<Rightarrow> 'x kernel_state_scheme \<Rightarrow> 'x kernel_state_scheme result" where
  "map_pages j ptr th s =
    (if j < (ptr + ucast (sdt_length (kram s) th)) AND K_PAGE_MASK
     then rbind (map_mmio j s) (map_pages (j + PAGE_SIZE) ptr th)
     else ret s)"

partial_function (option) map_tables ::
  "u64 \<Rightarrow> u64 \<Rightarrow> u64 \<Rightarrow> u64 \<Rightarrow> 'x kernel_state_scheme \<Rightarrow> 'x kernel_state_scheme result" where
  "map_tables i count table sz s =
    (if i < count then
       let ptr = table + SIZEOF_SDT_HEADER + i * sz in
       rbind (map_mmio ptr s) (\<lambda>s.
         let th = entry_ptr (kram s) sz ptr in
         rbind (if ucast (sdt_length (kram s) th) > PAGE_SIZE
                then map_pages ((ptr AND K_PAGE_MASK) + PAGE_SIZE) ptr th s else ret s)
           (map_tables (i + 1) count table sz))
     else ret s)"

definition acpi_map :: "'x kernel_state_scheme \<Rightarrow> 'x kernel_state_scheme result" where
  "acpi_map s =
    (if rsdp s \<noteq> 0 then map_tables 0 (entry_count s) (root_table s) (entry_size s) s else ret s)"

primrec table_loop :: "nat \<Rightarrow> mem \<Rightarrow> u64 \<Rightarrow> u64 \<Rightarrow> u8 list \<Rightarrow> u64" where
  "table_loop 0 m ptr sz signature = 0"
| "table_loop (Suc n) m ptr sz signature =
    (let th = entry_ptr m sz ptr in
     if match_bytes m th signature then
       if acpi_checksum m th (ucast (sdt_length m th)) = 0 then th
       else table_loop n m (ptr + sz) sz signature
     else table_loop n m (ptr + sz) sz signature)"

text \<open>\<^verbatim>\<open>count\<close> is an \<^verbatim>\<open>uint32\<close> here. A null pointer is 0.\<close>

definition acpi_table :: "u8 list \<Rightarrow> 'x kernel_state_scheme \<Rightarrow> u64" where
  "acpi_table signature s =
    (if rsdp s \<noteq> 0 then
       table_loop (unat (ucast (entry_count s) :: u32)) (kram s) (root_table s + SIZEOF_SDT_HEADER) (entry_size s) signature
     else 0)"

definition acpi_rsdp :: "'x kernel_state_scheme \<Rightarrow> u64" where "acpi_rsdp s = rsdp s"

definition FACP :: "u8 list" where "FACP = [70, 65, 67, 80]"

definition smi_command_port :: "mem \<Rightarrow> u64 \<Rightarrow> u32" where "smi_command_port m fadt = load32 m (fadt + 48)"
definition acpi_enable :: "mem \<Rightarrow> u64 \<Rightarrow> u8" where "acpi_enable m fadt = m (fadt + 52)"
definition pm1a_control_block :: "mem \<Rightarrow> u64 \<Rightarrow> u32" where "pm1a_control_block m fadt = load32 m (fadt + 64)"

definition acpi_init :: "'x kernel_state_scheme \<Rightarrow> (bool \<times> 'x kernel_state_scheme) result" where
  "acpi_init s =
    rbind (acpi_find s) (\<lambda>(found, s).
      if found then
        rbind (acpi_map s) (\<lambda>s.
          let fadt = acpi_table FACP s; m = kram s in
          if fadt \<noteq> 0 then
            ret (True,
              if pm1a_control_block m fadt AND 0x1 = 0 \<and> smi_command_port m fadt > 0 \<and> acpi_enable m fadt > 0
              then k_outb (ucast (smi_command_port m fadt)) (acpi_enable m fadt) s else s)
          else ret (False, s))
      else ret (False, s))"

section \<open>Properties\<close>

lemma sum_shift: "(\<Sum>i<Suc n. f i) = f 0 + (\<Sum>i<n. f (Suc i))" for f :: "nat \<Rightarrow> nat"
  by (induction n) simp_all

lemma checksum_loop_mod:
  "unat (checksum_loop n m a tot) mod 256 = (unat tot + (\<Sum>i<n. unat (m (a + of_nat i)))) mod 256"
proof (induction n arbitrary: a tot)
  case (Suc n)
  have b: "unat (tot + ucast (m a)) mod 256 = (unat tot + unat (m a)) mod 256"
    by (simp add: unat_word_ariths unsigned_ucast_eq mod_mod_cancel take_bit_eq_mod mod_add_right_eq)
  have "unat (checksum_loop (Suc n) m a tot) mod 256 =
      (unat (tot + ucast (m a)) mod 256 + (\<Sum>i<n. unat (m (a + 1 + of_nat i)))) mod 256"
    by (simp add: Suc.IH mod_add_left_eq)
  also have "\<dots> = (unat tot + (unat (m a) + (\<Sum>i<n. unat (m (a + 1 + of_nat i))))) mod 256"
    unfolding b by (simp add: mod_add_left_eq add.assoc)
  finally show ?case unfolding sum_shift by (simp add: ac_simps)
qed simp

lemma checksum_zero: "acpi_checksum m a len = 0 \<longleftrightarrow> (\<Sum>i<unat len. unat (m (a + of_nat i))) mod 256 = 0"
proof -
  have "acpi_checksum m a len = 0 \<longleftrightarrow> unat (checksum_loop (unat len) m a 0) mod 256 = 0"
    by (simp add: acpi_checksum_def word_unat_eq_iff unsigned_ucast_eq take_bit_eq_mod flip: unsigned_take_bit_eq)
  then show ?thesis by (simp add: checksum_loop_mod)
qed

text \<open>The firmware's rules: a root pointer carries its signature and its first 20 bytes (36
  from revision 1 on) add up to 0 modulo 256; so do all bytes of a table.\<close>

definition sums_to_zero :: "mem \<Rightarrow> u64 \<Rightarrow> nat \<Rightarrow> bool" where
  "sums_to_zero m a n \<longleftrightarrow> (\<Sum>i<n. unat (m (a + of_nat i))) mod 256 = 0"

definition signed_by :: "mem \<Rightarrow> u64 \<Rightarrow> u8 list \<Rightarrow> bool" where
  "signed_by m a sig \<longleftrightarrow> (\<forall>i < length sig. m (a + of_nat i) = sig ! i)"

definition valid_rsdp :: "mem \<Rightarrow> u64 \<Rightarrow> bool" where
  "valid_rsdp m r \<longleftrightarrow> signed_by m r RSD_PTR \<and> sums_to_zero m r (if m (r + 15) = 0 then 20 else 36)"

definition valid_table :: "u8 list \<Rightarrow> mem \<Rightarrow> u64 \<Rightarrow> bool" where
  "valid_table sig m th \<longleftrightarrow> signed_by m th sig \<and> sums_to_zero m th (unat (load32 m (th + 4)))"

lemma rsdp_here_iff: "rsdp_here m r \<longleftrightarrow> valid_rsdp m r"
  by (simp add: rsdp_here_def valid_rsdp_def match_bytes_iff signed_by_def rsdp_revision_def checksum_zero sums_to_zero_def)

lemma table_here_iff:
  "match_bytes m th sig \<and> acpi_checksum m th (ucast (sdt_length m th)) = 0 \<longleftrightarrow> valid_table sig m th"
proof -
  have "unat (ucast (sdt_length m th) :: u64) = unat (load32 m (th + 4))"
    using unsigned_less[of "load32 m (th + 4)", where 'a = nat]
    by (simp add: sdt_length_def unsigned_ucast_eq take_bit_nat_eq_self)
  then show ?thesis by (simp add: match_bytes_iff checksum_zero valid_table_def signed_by_def sums_to_zero_def)
qed

lemma find_upt_Suc: "find P [0..<Suc n] = (if P 0 then Some 0 else map_option Suc (find (\<lambda>k. P (Suc k)) [0..<n]))"
proof -
  have "find P (map Suc xs) = map_option Suc (find (\<lambda>k. P (Suc k)) xs)" for xs by (induction xs) simp_all
  then show ?thesis by (simp add: upt_conv_Cons map_Suc_upt [symmetric] del: upt_Suc map_Suc_upt)
qed

lemma find_loop_find:
  "find_loop n m r = map_option (\<lambda>k. r + 16 * of_nat k) (find (\<lambda>k. valid_rsdp m (r + 16 * of_nat k)) [0..<n])"
proof (induction n arbitrary: r)
  case (Suc n)
  show ?case unfolding find_upt_Suc
    by (simp add: Suc.IH rsdp_here_iff option.map_comp comp_def algebra_simps del: upt_Suc)
qed simp

lemma table_loop_find:
  "table_loop n m ptr sz sig =
    (case find (\<lambda>k. valid_table sig m (entry_ptr m sz (ptr + of_nat k * sz))) [0..<n] of
       None \<Rightarrow> 0 | Some k \<Rightarrow> entry_ptr m sz (ptr + of_nat k * sz))"
proof (induction n arbitrary: ptr)
  case (Suc n)
  have "table_loop (Suc n) m ptr sz sig =
      (if valid_table sig m (entry_ptr m sz ptr) then entry_ptr m sz ptr else table_loop n m (ptr + sz) sz sig)"
    using table_here_iff[of m "entry_ptr m sz ptr" sig] by (auto simp: Let_def)
  then show ?case unfolding find_upt_Suc
    by (simp add: Suc.IH algebra_simps split: option.split del: upt_Suc table_loop.simps)
qed simp

text \<open>Finding firmware tables. The search for the root pointer gives the lowest 16-byte
  aligned address of the range 0x80000 to 0xFFFFF that holds a valid one; \<^verbatim>\<open>acpi_table\<close>
  gives the first valid table with the signature among the pointers of the root table, read
  with 4 or 8 bytes as the revision says, and null when there is none or no root pointer.\<close>

theorem acpi_lookup:
  "find_loop 0x8000 m 0x80000 =
     map_option (\<lambda>k. 0x80000 + 16 * of_nat k) (find (\<lambda>k. valid_rsdp m (0x80000 + 16 * of_nat k)) [0..<0x8000]) \<and>
   acpi_table sig s =
     (if rsdp s = 0 then 0
      else let sz = entry_size s; first = root_table s + 36; p = (\<lambda>k. entry_ptr (kram s) sz (first + of_nat k * sz))
           in case find (\<lambda>k. valid_table sig (kram s) (p k)) [0..<unat (ucast (entry_count s) :: u32)] of
                None \<Rightarrow> 0 | Some k \<Rightarrow> p k)"
  by (simp only: find_loop_find acpi_table_def table_loop_find Let_def if_not_P if_P) simp

end
