(* ===== verification/Drivers.thy ===== *)
theory Drivers
  imports Pci Ahci KernelPaging
begin

text \<open>
  The drivers written for the kernel: \<^verbatim>\<open>src/src/drivers/bus/pci.c\<close> and
  \<^verbatim>\<open>src/src/drivers/storage/ahci.c\<close>. The PCI driver is the one of the loader with the cache
  in a static array of 256 entries and without an allocator; the access to configuration space
  is the same text and is taken from \<open>Pci\<close>. The SATA driver runs on the paging of the kernel.
  Registers are read as in \<open>Ahci\<close>, one hardware step before each read.
\<close>

section \<open>State\<close>

record drv_state = io_state +
  d_cache :: "pci_cache list"
  d_cache_len :: u8
  d_kernel :: kpage_state
  d_devs :: "(u64 \<times> u8) list"
  d_count :: u64
  d_time :: nat

section \<open>The bus scan\<close>

definition drv_store :: "pci_cache \<Rightarrow> 'x drv_state_scheme \<Rightarrow> 'x drv_state_scheme" where
  "drv_store e s = s\<lparr>d_cache := (d_cache s)[unat (d_cache_len s) := e], d_cache_len := d_cache_len s + 1\<rparr>"

definition drv_enum_function ::
  "device \<Rightarrow> (u16 \<Rightarrow> 'x drv_state_scheme \<Rightarrow> 'x drv_state_scheme result) \<Rightarrow>
   u16 \<Rightarrow> u8 \<Rightarrow> u8 \<Rightarrow> 'x drv_state_scheme \<Rightarrow> 'x drv_state_scheme result" where
  "drv_enum_function dev enum_bus bus device func s =
    (let addr = pci_address bus device func;
         (header, s) = run_state (pci_get_header dev addr) s
     in if vendor_id header \<noteq> 0xFFFF then
          let s = drv_store (cache_entry addr header) s in
          if class_id header = 0x06 \<and> subclass_id header = 0x04 then
            let (secondary_bus, s) = run_state (pci_get_secondary_bus dev bus device func) s
            in if secondary_bus \<noteq> bus then enum_bus secondary_bus s else ret s
          else ret s
        else ret s)"

definition drv_enum_device ::
  "device \<Rightarrow> (u16 \<Rightarrow> 'x drv_state_scheme \<Rightarrow> 'x drv_state_scheme result) \<Rightarrow>
   u16 \<Rightarrow> u8 \<Rightarrow> 'x drv_state_scheme \<Rightarrow> 'x drv_state_scheme result" where
  "drv_enum_device dev enum_bus bus device s =
    (let (header, s) = run_state (pci_get_header dev (pci_address bus device 0)) s
     in if vendor_id header \<noteq> 0xFFFF then
          if header_type header AND 0x80 \<noteq> 0
          then each (\<lambda>f. drv_enum_function dev enum_bus bus device (of_nat f)) [1..<8] s
          else drv_enum_function dev enum_bus bus device 0 s
        else ret s)"

primrec drv_enum_bus :: "nat \<Rightarrow> device \<Rightarrow> u16 \<Rightarrow> 'x drv_state_scheme \<Rightarrow> 'x drv_state_scheme result" where
  "drv_enum_bus 0 dev bus s = None"
| "drv_enum_bus (Suc n) dev bus s =
     each (\<lambda>d. drv_enum_device dev (drv_enum_bus n dev) bus (of_nat d)) [0..<32] s"

definition drv_pci_init :: "nat \<Rightarrow> device \<Rightarrow> 'x drv_state_scheme \<Rightarrow> 'x drv_state_scheme result" where
  "drv_pci_init n dev s =
    (let addr = 0x80000000;
         (header, s) = run_state (pci_get_header dev addr) s
     in if header_type header AND 0x80 \<noteq> 0 then
          each (\<lambda>bus s.
            let (header, s) = run_state (pci_get_header dev (set_bus (of_nat bus) addr)) s
            in if vendor_id header \<noteq> 0xFFFF then drv_enum_bus n dev (of_nat bus) s else ret s) [0..<8] s
        else drv_enum_bus n dev 0 s)"

definition drv_num_device :: "u8 \<Rightarrow> u8 \<Rightarrow> 'x drv_state_scheme \<Rightarrow> u8" where
  "drv_num_device class sub s = num_loop class sub (take (unat (d_cache_len s)) (d_cache s)) 0"

text \<open>The address 0 stands for "none".\<close>

definition drv_get_device :: "u8 \<Rightarrow> u8 \<Rightarrow> u8 \<Rightarrow> 'x drv_state_scheme \<Rightarrow> u32" where
  "drv_get_device class sub idx s =
    (case get_loop class sub idx (take (unat (d_cache_len s)) (d_cache s)) 0 of None \<Rightarrow> 0 | Some addr \<Rightarrow> addr)"

section \<open>The SATA driver\<close>

definition drv_read32 :: "hardware \<Rightarrow> u64 \<Rightarrow> 'x drv_state_scheme \<Rightarrow> u32 \<times> 'x drv_state_scheme" where
  "drv_read32 hw a s =
    (let k = d_kernel s; s = s\<lparr>d_kernel := k\<lparr>kram := hw (d_time s) (kram k)\<rparr>, d_time := Suc (d_time s)\<rparr>
     in (load32 (kram (d_kernel s)) a, s))"

definition drv_field :: "hardware \<Rightarrow> u64 \<Rightarrow> nat \<Rightarrow> nat \<Rightarrow> 'x drv_state_scheme \<Rightarrow> u32 \<times> 'x drv_state_scheme" where
  "drv_field hw a pos len s = (let (w, s) = drv_read32 hw a s in (get_field pos len w, s))"

definition drv_get_type :: "hardware \<Rightarrow> u64 \<Rightarrow> 'x drv_state_scheme \<Rightarrow> u32 \<times> 'x drv_state_scheme" where
  "drv_get_type hw port s =
    (let (det, s) = drv_field hw (port + PORT_SSTS) 0 4 s in
     if det \<noteq> 3 then (0, s)
     else let (ipm, s) = drv_field hw (port + PORT_SSTS) 8 4 s in
       if ipm \<noteq> 1 then (0, s)
       else let (sig, s) = drv_read32 hw (port + PORT_SIG) s in
         if sig = AHCI_DEV_SATAPI \<or> sig = AHCI_DEV_SEMB \<or> sig = AHCI_DEV_PM
         then drv_read32 hw (port + PORT_SIG) s
         else (AHCI_DEV_SATA, s))"

definition drv_add :: "u64 \<Rightarrow> u8 \<Rightarrow> 'x drv_state_scheme \<Rightarrow> 'x drv_state_scheme result" where
  "drv_add hba i s =
    (if unat (d_count s) < length (d_devs s) then
       ret (s\<lparr>d_devs := (d_devs s)[unat (d_count s) := (hba, i)], d_count := d_count s + 1\<rparr>)
     else fail OutOfBounds)"

text \<open>The loop counts \<open>i\<close> up twice in every turn while it shifts the port bits once.\<close>

function drv_port_loop :: "hardware \<Rightarrow> u64 \<Rightarrow> nat \<Rightarrow> u32 \<Rightarrow> 'x drv_state_scheme \<Rightarrow> 'x drv_state_scheme result" where
  "drv_port_loop hw hba i ports s =
    (if i < 32 then
       rbind (if ports AND 1 \<noteq> 0 then
                let (dev_type, s) = drv_get_type hw (hba_port hba (of_nat i)) s in
                if is_ahci_type dev_type then drv_add hba (of_nat i) s else ret s
              else ret s)
         (drv_port_loop hw hba (i + 1 + 1) (drop_bit 1 ports))
     else ret s)"
  by pat_completeness auto
termination by (relation "measure (\<lambda>(hw, hba, i, ports, s). 32 - i)") auto

declare drv_port_loop.simps [simp del]

definition drv_init_port :: "hardware \<Rightarrow> u64 \<Rightarrow> 'x drv_state_scheme \<Rightarrow> 'x drv_state_scheme result" where
  "drv_init_port hw hba s =
    (let (ports, s) = drv_read32 hw (hba + HBA_PI) s in drv_port_loop hw hba 0 ports s)"

definition drv_map :: "u64 \<Rightarrow> 'x drv_state_scheme \<Rightarrow> 'x drv_state_scheme result" where
  "drv_map a s = (case k_page_map_mmio a (d_kernel s) of Inl e \<Rightarrow> fail e | Inr (k, _) \<Rightarrow> ret (s\<lparr>d_kernel := k\<rparr>))"

definition drv_init_hba :: "device \<Rightarrow> hardware \<Rightarrow> nat \<Rightarrow> 'x drv_state_scheme \<Rightarrow> 'x drv_state_scheme result" where
  "drv_init_hba pci hw i s =
    (let addr = drv_get_device 0x1 0x6 (of_nat i) s in
     if addr \<noteq> 0 then
       let (cfg, s) = run_state (pci_get_config pci addr) s;
           abar = ucast (bar cfg 5)
       in rbind (drv_map abar s) (drv_init_port hw abar)
     else ret s)"

definition drv_ahci_init :: "device \<Rightarrow> hardware \<Rightarrow> 'x drv_state_scheme \<Rightarrow> (bool \<times> 'x drv_state_scheme) result" where
  "drv_ahci_init pci hw s =
    (let dev_count = drv_num_device 0x1 0x6 s in
     if dev_count > 0 then rbind (each (drv_init_hba pci hw) [0..<unat dev_count] s) (\<lambda>s. ret (True, s))
     else ret (False, s))"

text \<open>Both stubs look the device up and give false.\<close>

definition drv_lookup :: "u64 \<Rightarrow> 'x drv_state_scheme \<Rightarrow> bool result" where
  "drv_lookup idx s =
    (if idx < d_count s then if unat idx < length (d_devs s) then ret False else fail OutOfBounds else ret False)"

definition drv_ahci_read :: "u64 \<Rightarrow> u64 \<Rightarrow> u64 \<Rightarrow> 'x drv_state_scheme \<Rightarrow> bool result" where
  "drv_ahci_read idx buff len s = drv_lookup idx s"

definition drv_ahci_write :: "u64 \<Rightarrow> u64 \<Rightarrow> u64 \<Rightarrow> 'x drv_state_scheme \<Rightarrow> bool result" where
  "drv_ahci_write idx buff len s = drv_lookup idx s"

section \<open>The scan and the scan of the loader\<close>

text \<open>A state of the driver and one of the loader with the same port history and devices.\<close>

definition scan_rel :: "('h, 'x) pci_state_scheme \<Rightarrow> 'y drv_state_scheme \<Rightarrow> bool" where
  "scan_rel t s \<longleftrightarrow> io_log t = io_log s \<and> cache_len t = d_cache_len s \<and> cache_ok t \<and> length (d_cache s) = 256 \<and>
     devices t = take (unat (d_cache_len s)) (d_cache s)"

text \<open>The driver follows a run of the loader that ends without an error.\<close>

definition follows :: "('h, 'x) pci_state_scheme result \<Rightarrow> 'y drv_state_scheme result \<Rightarrow> bool" where
  "follows r q \<longleftrightarrow> (\<forall>t. r = ret t \<longrightarrow> (\<exists>s. q = ret s \<and> scan_rel t s))"

lemma scan_rel_log: "scan_rel t s \<Longrightarrow> scan_rel (t\<lparr>io_log := l\<rparr>) (s\<lparr>io_log := l\<rparr>)"
  by (auto simp: scan_rel_def cache_ok_def devices_def)

lemma fail_not_ret [simp]: "fail e \<noteq> ret x"
  by (simp add: ret_def fail_def)

lemma follows_ret: "scan_rel t s \<Longrightarrow> follows (ret t) (ret s)"
  by (simp add: follows_def)

lemma follows_bind:
  assumes "follows r q" "\<And>t s. scan_rel t s \<Longrightarrow> follows (f t) (g s)"
  shows "follows (rbind r f) (rbind q g)"
  using assms by (cases r rule: rbind_cases) (auto simp: follows_def)

lemma follows_if:
  "(P \<Longrightarrow> follows a b) \<Longrightarrow> (\<not> P \<Longrightarrow> follows c d) \<Longrightarrow> follows (if P then a else c) (if P then b else d)"
  by simp

lemma follows_each:
  assumes "\<And>x t s. scan_rel t s \<Longrightarrow> follows (f x t) (g x s)"
  shows "scan_rel t s \<Longrightarrow> follows (each f xs t) (each g xs s)"
proof (induction xs arbitrary: t s)
  case Nil then show ?case by (simp add: follows_ret)
next
  case (Cons x xs)
  show ?case unfolding each.simps by (rule follows_bind[OF assms[OF Cons.prems] Cons.IH])
qed

lemma both_rows:
  fixes t :: "'a io_state_scheme" and s :: "'b io_state_scheme"
  assumes "io_log t = io_log s"
  shows "\<exists>v l. run_state (read_rows dev addr rows) t = (v, t\<lparr>io_log := l\<rparr>) \<and>
    run_state (read_rows dev addr rows) s = (v, s\<lparr>io_log := l\<rparr>)"
  using assms
proof (induction rows arbitrary: addr t s)
  case Nil
  have "t = t\<lparr>io_log := io_log t\<rparr>" "s = s\<lparr>io_log := io_log t\<rparr>" using Nil by simp_all
  then have "\<exists>l. t = t\<lparr>io_log := l\<rparr> \<and> s = s\<lparr>io_log := l\<rparr>" by blast
  then show ?case by simp
next
  case (Cons r rows)
  let ?a = "set_reg (of_nat r) addr"
  let ?v = "dev (OutD PCI_CONFIG_ADDRESS ?a # io_log s) PCI_CONFIG_DATA"
  let ?l = "InD PCI_CONFIG_DATA ?v # OutD PCI_CONFIG_ADDRESS ?a # io_log s"
  obtain v l where "run_state (read_rows dev ?a rows) (t\<lparr>io_log := ?l\<rparr>) = (v, t\<lparr>io_log := l\<rparr>)"
    "run_state (read_rows dev ?a rows) (s\<lparr>io_log := ?l\<rparr>) = (v, s\<lparr>io_log := l\<rparr>)"
    using Cons.IH[of "t\<lparr>io_log := ?l\<rparr>" "s\<lparr>io_log := ?l\<rparr>" ?a] by auto
  then show ?case using Cons.prems by (auto simp: pci_read_def)
qed

lemma both_header:
  assumes "scan_rel t s"
  obtains v l where "run_state (pci_get_header dev addr) t = (v, t\<lparr>io_log := l\<rparr>)"
    "run_state (pci_get_header dev addr) s = (v, s\<lparr>io_log := l\<rparr>)" "scan_rel (t\<lparr>io_log := l\<rparr>) (s\<lparr>io_log := l\<rparr>)"
proof -
  from assms have "io_log t = io_log s" by (simp add: scan_rel_def)
  from both_rows[OF this, of dev addr "[0..<4]"] obtain v l where
    "run_state (read_rows dev addr [0..<4]) t = (v, t\<lparr>io_log := l\<rparr>)"
    "run_state (read_rows dev addr [0..<4]) s = (v, s\<lparr>io_log := l\<rparr>)" by blast
  then show ?thesis by (intro that[of "header_of v" l] scan_rel_log[OF assms]) (simp_all add: pci_get_header_def)
qed

lemma both_secondary:
  assumes "scan_rel t s"
  obtains v l where "run_state (pci_get_secondary_bus dev bus device func) t = (v, t\<lparr>io_log := l\<rparr>)"
    "run_state (pci_get_secondary_bus dev bus device func) s = (v, s\<lparr>io_log := l\<rparr>)"
    "scan_rel (t\<lparr>io_log := l\<rparr>) (s\<lparr>io_log := l\<rparr>)"
proof (cases "bus < 256 \<and> device < 32 \<and> func < 8")
  case True
  show ?thesis
    by (rule that[OF _ _ scan_rel_log[OF assms]])
      (use assms True in \<open>simp_all add: pci_get_secondary_bus_def pci_read_def Let_def scan_rel_def\<close>)
next
  case False
  have "t = t\<lparr>io_log := io_log t\<rparr>" "s = s\<lparr>io_log := io_log t\<rparr>" using assms by (simp_all add: scan_rel_def)
  then show ?thesis using False assms that[of bus "io_log t"] by (auto simp: pci_get_secondary_bus_def)
qed

lemma follows_store:
  assumes "scan_rel t s" shows "follows (cache_store e t) (ret (drv_store e s))"
proof (cases "unat (cache_len t) < CACHE_ENTRIES")
  case True
  let ?i = "unat (cache_len t)"
  from assms have r: "io_log t = io_log s" "cache_len t = d_cache_len s" "length (cache t) = CACHE_ENTRIES"
    "length (d_cache s) = 256" "take ?i (cache t) = take ?i (d_cache s)"
    by (auto simp: scan_rel_def cache_ok_def devices_def)
  have i: "?i < 170" using True by (simp add: CACHE_ENTRIES_def)
  then have n: "unat (cache_len t + 1) = Suc ?i" by (simp add: unat_word_ariths)
  have "scan_rel (t\<lparr>cache := (cache t)[?i := e], cache_len := cache_len t + 1\<rparr>) (drv_store e s)"
    using r i n True by (auto simp: scan_rel_def cache_ok_def devices_def drv_store_def take_Suc_conv_app_nth)
  then show ?thesis using True by (simp add: cache_store_def Let_def follows_ret)
next
  case False
  then show ?thesis by (simp add: cache_store_def Let_def follows_def)
qed

lemma follows_function:
  assumes below: "\<And>b t s. scan_rel t s \<Longrightarrow> follows (eb b t) (db b s)" and r: "scan_rel t s"
  shows "follows (pci_enum_function dev eb bus device func t) (drv_enum_function dev db bus device func s)"
proof -
  obtain v l where h: "run_state (pci_get_header dev (pci_address bus device func)) t = (v, t\<lparr>io_log := l\<rparr>)"
    "run_state (pci_get_header dev (pci_address bus device func)) s = (v, s\<lparr>io_log := l\<rparr>)"
    "scan_rel (t\<lparr>io_log := l\<rparr>) (s\<lparr>io_log := l\<rparr>)"
    using both_header[OF r] by blast
  let ?F = "\<lambda>s. if class_id v = 0x06 \<and> subclass_id v = 0x04 then
         let (secondary_bus, s) = run_state (pci_get_secondary_bus dev bus device func) s
         in if secondary_bus \<noteq> bus then eb secondary_bus s else ret s else ret s"
  let ?G = "\<lambda>s. if class_id v = 0x06 \<and> subclass_id v = 0x04 then
         let (secondary_bus, s) = run_state (pci_get_secondary_bus dev bus device func) s
         in if secondary_bus \<noteq> bus then db secondary_bus s else ret s else ret s"
  let ?e = "cache_entry (pci_address bus device func) v"
  have rest: "follows (?F t) (?G s)" if st: "scan_rel t s" for t s
  proof -
    obtain w k where "run_state (pci_get_secondary_bus dev bus device func) t = (w, t\<lparr>io_log := k\<rparr>)"
      "run_state (pci_get_secondary_bus dev bus device func) s = (w, s\<lparr>io_log := k\<rparr>)"
      "scan_rel (t\<lparr>io_log := k\<rparr>) (s\<lparr>io_log := k\<rparr>)" using both_secondary[OF st] by blast
    then show ?thesis using below st by (simp add: follows_ret)
  qed
  have "follows (rbind (cache_store ?e (t\<lparr>io_log := l\<rparr>)) ?F) (rbind (ret (drv_store ?e (s\<lparr>io_log := l\<rparr>))) ?G)"
    by (rule follows_bind[OF follows_store[OF h(3)] rest])
  moreover have "pci_enum_function dev eb bus device func t =
      (if vendor_id v \<noteq> 0xFFFF then rbind (cache_store ?e (t\<lparr>io_log := l\<rparr>)) ?F else ret (t\<lparr>io_log := l\<rparr>))"
    "drv_enum_function dev db bus device func s =
      (if vendor_id v \<noteq> 0xFFFF then rbind (ret (drv_store ?e (s\<lparr>io_log := l\<rparr>))) ?G else ret (s\<lparr>io_log := l\<rparr>))"
    unfolding pci_enum_function_def drv_enum_function_def by (simp_all only: h(1,2) Let_def prod.case rbind_simps)
  ultimately show ?thesis using follows_ret[OF h(3)] by simp
qed

lemma follows_device:
  assumes below: "\<And>b t s. scan_rel t s \<Longrightarrow> follows (eb b t) (db b s)" and r: "scan_rel t s"
  shows "follows (pci_enum_device dev eb bus device t) (drv_enum_device dev db bus device s)"
proof -
  obtain v l where h: "run_state (pci_get_header dev (pci_address bus device 0)) t = (v, t\<lparr>io_log := l\<rparr>)"
    "run_state (pci_get_header dev (pci_address bus device 0)) s = (v, s\<lparr>io_log := l\<rparr>)"
    "scan_rel (t\<lparr>io_log := l\<rparr>) (s\<lparr>io_log := l\<rparr>)"
    using both_header[OF r] by blast
  have f: "follows (pci_enum_function dev eb bus device func t) (drv_enum_function dev db bus device func s)"
    if "scan_rel t s" for func t s
    by (rule follows_function) (use below that in auto)
  show ?thesis
    unfolding pci_enum_device_def drv_enum_device_def Let_def h(1,2) prod.case
    by (intro follows_if follows_ret[OF h(3)] follows_each[OF _ h(3)] f[OF h(3)]) (rule f)
qed

lemma follows_bus: "scan_rel t s \<Longrightarrow> follows (pci_enum_bus n dev bus t) (drv_enum_bus n dev bus s)"
proof (induction n arbitrary: bus t s)
  case 0 then show ?case by (simp add: follows_def)
next
  case (Suc n)
  show ?case unfolding pci_enum_bus.simps drv_enum_bus.simps
    by (rule follows_each[OF _ Suc.prems], rule follows_device, rule Suc.IH)
qed

lemma both_read_at:
  assumes "scan_rel t s"
  obtains v l u where "read_header_at dev p addr t = (v, u)"
    "run_state (pci_get_header dev addr) s = (v, s\<lparr>io_log := l\<rparr>)" "scan_rel u (s\<lparr>io_log := l\<rparr>)"
proof -
  from assms have "io_log t = io_log s" by (simp add: scan_rel_def)
  from both_rows[OF this, of dev addr "[0..<4]"] obtain v l where
    r: "run_state (read_rows dev addr [0..<4]) t = (v, t\<lparr>io_log := l\<rparr>)"
    "run_state (read_rows dev addr [0..<4]) s = (v, s\<lparr>io_log := l\<rparr>)" by blast
  let ?u = "t\<lparr>io_log := l, pages := (pages t)\<lparr>ram := store_rows (ram (pages t)) p v\<rparr>\<rparr>"
  have "scan_rel ?u (s\<lparr>io_log := l\<rparr>)"
    using scan_rel_log[OF assms, of l] by (auto simp: scan_rel_def cache_ok_def devices_def)
  moreover have "read_header_at dev p addr t = (header_of v, ?u)" by (simp add: read_header_at_def Let_def r)
  moreover have "run_state (pci_get_header dev addr) s = (header_of v, s\<lparr>io_log := l\<rparr>)"
    by (simp add: pci_get_header_def r)
  ultimately show ?thesis by (rule that[rotated 2])
qed

lemma alloc_log: "pci_alloc_clean d sz t = ret (p, t') \<Longrightarrow> io_log t' = io_log t"
  by (cases "mem_alloc_clean d sz (pages t)") (auto simp: pci_alloc_clean_def)

lemma free_keeps:
  "pci_free p t = ret t' \<Longrightarrow> io_log t' = io_log t \<and> cache t' = cache t \<and> cache_len t' = cache_len t"
  by (cases "mem_free p (pages t)") (auto simp: pci_free_def)

lemma follows_buses:
  assumes "scan_rel t s"
  shows "follows (each (\<lambda>bus t.
        let (header, t) = read_header_at dev p (set_bus (of_nat bus) 0x80000000) t
        in if vendor_id header \<noteq> 0xFFFF then pci_enum_bus n dev (of_nat bus) t else ret t) bs t)
    (each (\<lambda>bus s.
        let (header, s) = run_state (pci_get_header dev (set_bus (of_nat bus) 0x80000000)) s
        in if vendor_id header \<noteq> 0xFFFF then drv_enum_bus n dev (of_nat bus) s else ret s) bs s)"
proof (rule follows_each[OF _ assms])
  fix bus :: nat and t :: "('a, 'b) pci_state_scheme" and s :: "'c drv_state_scheme"
  assume r: "scan_rel t s"
  obtain v l u where h: "read_header_at dev p (set_bus (of_nat bus) 0x80000000) t = (v, u)"
    "run_state (pci_get_header dev (set_bus (of_nat bus) 0x80000000)) s = (v, s\<lparr>io_log := l\<rparr>)"
    "scan_rel u (s\<lparr>io_log := l\<rparr>)"
    using both_read_at[OF r] by blast
  show "follows (let (header, t) = read_header_at dev p (set_bus (of_nat bus) 0x80000000) t
        in if vendor_id header \<noteq> 0xFFFF then pci_enum_bus n dev (of_nat bus) t else ret t)
      (let (header, s) = run_state (pci_get_header dev (set_bus (of_nat bus) 0x80000000)) s
        in if vendor_id header \<noteq> 0xFFFF then drv_enum_bus n dev (of_nat bus) s else ret s)"
    unfolding h(1,2) Let_def prod.case by (intro follows_if follows_bus[OF h(3)] follows_ret[OF h(3)])
qed

text \<open>C32. The PCI driver of the kernel against the scan of the loader. Started with the same port
  history and an empty cache, whenever \<^verbatim>\<open>pci_init\<close> of the loader returns, the driver returns
  too and has the same devices in the same order; so counting and looking up devices give the
  same answers, with the address 0 in place of false.\<close>

theorem drv_scan_equals_loader:
  assumes "pci_init d n dev t = ret (b, t')" and "io_log s = io_log t" "d_cache_len s = 0" "length (d_cache s) = 256"
  shows "\<exists>s'. drv_pci_init n dev s = ret s' \<and> io_log s' = io_log t' \<and>
    take (unat (d_cache_len s')) (d_cache s') = devices t' \<and>
    drv_num_device class sub s' = pci_num_device class sub t' \<and>
    drv_get_device class sub idx s' = (case pci_get_device class sub idx t' of None \<Rightarrow> 0 | Some a \<Rightarrow> a)"
proof -
  from assms(1) obtain p t1 where t1: "pci_alloc_clean d SIZEOF_PCI_HEADER t = ret (p, t1)"
    unfolding pci_init_def by (cases "pci_alloc_clean d SIZEOF_PCI_HEADER t" rule: rbind_cases) auto
  from assms(1) obtain q t2 where t2: "pci_alloc_clean d (8 * 256) t1 = ret (q, t2)"
    unfolding pci_init_def t1 by (cases "pci_alloc_clean d (8 * 256) t1" rule: rbind_cases) auto
  let ?t = "t2\<lparr>cache_ptr := q, cache := replicate CACHE_ENTRIES zero_cache, cache_len := 0\<rparr>"
  have "io_log t2 = io_log t" using alloc_log[OF t1] alloc_log[OF t2] by simp
  then have r0: "scan_rel ?t s" using assms(2-4) by (simp add: scan_rel_def cache_ok_def devices_def)
  obtain v l u where h: "read_header_at dev p 0x80000000 ?t = (v, u)"
    "run_state (pci_get_header dev 0x80000000) s = (v, s\<lparr>io_log := l\<rparr>)" "scan_rel u (s\<lparr>io_log := l\<rparr>)"
    using both_read_at[OF r0] by blast
  note f = follows_if[OF follows_buses[OF h(3), where dev = dev and p = p and n = n and bs = "[0..<8]"]
      follows_bus[OF h(3), where dev = dev and n = n and bus = 0], where P = "header_type v AND 0x80 \<noteq> 0"]
  let ?r = "if header_type v AND 0x80 \<noteq> 0 then each (\<lambda>bus t.
        let (header, t) = read_header_at dev p (set_bus (of_nat bus) 0x80000000) t
        in if vendor_id header \<noteq> 0xFFFF then pci_enum_bus n dev (of_nat bus) t else ret t) [0..<8] u
      else pci_enum_bus n dev 0 u"
  have "pci_init d n dev t = rbind ?r (\<lambda>s. rbind (pci_free p s) (\<lambda>s. ret (cache_len s > 0, s)))"
    unfolding pci_init_def by (simp only: t1 t2 rbind_simps prod.case Let_def h(1))
  with assms(1) obtain t3 where t3: "?r = ret t3" "rbind (pci_free p t3) (\<lambda>s. ret (cache_len s > 0, s)) = ret (b, t')"
    by (cases ?r rule: rbind_cases) auto
  with f obtain s' where s': "drv_pci_init n dev s = ret s'" "scan_rel t3 s'"
    unfolding follows_def drv_pci_init_def Let_def h(2) prod.case by blast
  have "pci_free p t3 = ret t'"
    by (rule rbind_cases[of "pci_free p t3"]) (use t3(2) in simp_all)
  note e = free_keeps[OF this]
  have "take (unat (d_cache_len s')) (d_cache s') = devices t'" "io_log s' = io_log t'"
    using s'(2) e by (auto simp: scan_rel_def devices_def)
  with s'(1) show ?thesis
    by (intro exI[of _ s']) (simp add: drv_num_device_def pci_num_device_def drv_get_device_def pci_get_device_def devices_def)
qed

text \<open>The scan leaves the allocator alone, so the loader's \<^verbatim>\<open>pci_init\<close> returns where the scan
  does when memory is handed out by placement.\<close>

lemma each_keeps:
  assumes "\<And>x s s'. f x s = ret s' \<Longrightarrow> h s' = h s" "each f xs s = ret s'"
  shows "h s' = h s"
  using assms(2)
proof (induction xs arbitrary: s)
  case (Cons x xs)
  then obtain t where t: "f x s = ret t" "each f xs t = ret s'" by (cases "f x s" rule: rbind_cases) auto
  then show ?case using Cons.IH[OF t(2)] assms(1)[OF t(1)] by simp
qed simp

lemma header_log: "\<exists>v l. run_state (pci_get_header dev addr) s = (v, s\<lparr>io_log := l\<rparr>)"
  using both_rows[of s s dev addr "[0..<4]"] by (auto simp: pci_get_header_def)

lemma enum_function_pages:
  assumes "\<And>b s s'. eb b s = ret s' \<Longrightarrow> pages s' = pages s" "pci_enum_function dev eb bus device func s = ret s'"
  shows "pages s' = pages s"
proof -
  obtain v l where h: "run_state (pci_get_header dev (pci_address bus device func)) s = (v, s\<lparr>io_log := l\<rparr>)"
    using header_log by blast
  have c: "pages t' = pages t" if "cache_store e t = ret t'" for e and t t' :: "('a, 'b) pci_state_scheme"
    using that by (auto simp: cache_store_def Let_def split: if_splits)
  have b: "pages (snd (run_state (pci_get_secondary_bus dev bus device func) t)) = pages t" for t :: "('a, 'b) pci_state_scheme"
    by (simp add: pci_get_secondary_bus_def pci_read_def Let_def)
  show ?thesis
  proof (cases "vendor_id v \<noteq> 0xFFFF")
    case True
    with assms(2) h obtain t where t: "cache_store (cache_entry (pci_address bus device func) v) (s\<lparr>io_log := l\<rparr>) = ret t"
      by (cases "cache_store (cache_entry (pci_address bus device func) v) (s\<lparr>io_log := l\<rparr>)" rule: rbind_cases)
        (auto simp: pci_enum_function_def)
    then show ?thesis using assms True h c[OF t] b[of t]
      by (auto simp: pci_enum_function_def split: if_splits prod.splits)
  next
    case False
    then show ?thesis using assms(2) h by (auto simp: pci_enum_function_def)
  qed
qed

lemma enum_bus_pages:
  fixes s s' :: "('h, 'x) pci_state_scheme"
  shows "pci_enum_bus n dev bus s = ret s' \<Longrightarrow> pages s' = pages s"
proof (induction n arbitrary: bus s s')
  case (Suc n)
  have "pages t' = pages t" if "pci_enum_device dev (pci_enum_bus n dev) bus device t = ret t'"
    for device and t t' :: "('h, 'x) pci_state_scheme"
  proof -
    obtain v l where h: "run_state (pci_get_header dev (pci_address bus device 0)) t = (v, t\<lparr>io_log := l\<rparr>)"
      using header_log by blast
    have f: "pages u' = pages u" if "pci_enum_function dev (pci_enum_bus n dev) bus device func u = ret u'"
      for func and u u' :: "('h, 'x) pci_state_scheme"
      by (rule enum_function_pages[OF _ that]) (rule Suc.IH)
    have e: "pages t' = pages t"
      if "each (\<lambda>f. pci_enum_function dev (pci_enum_bus n dev) bus device (of_nat f)) [1..<8] (t\<lparr>io_log := l\<rparr>) = ret t'"
      using each_keeps[where h = pages, OF f that] by simp
    show ?thesis
      using that f[of 0 "t\<lparr>io_log := l\<rparr>" t'] e unfolding pci_enum_device_def Let_def h prod.case
      by (auto split: if_splits simp del: upt_rec_numeral)
  qed
  then show ?case using Suc.prems unfolding pci_enum_bus.simps by (rule each_keeps[where h = pages])
qed simp

lemma alloc_placement:
  assumes "heap_var (pages s) = 0"
  shows "\<exists>q. pci_alloc_clean d sz s = ret (placement_addr (pages s), s\<lparr>pages := q\<rparr>) \<and> heap_var q = 0"
  using assms by (simp add: pci_alloc_clean_def mem_alloc_clean_def Let_def) (intro exI conjI, rule refl, simp)

lemma one_device_init:
  "\<exists>t'. pci_init 1 1 last_address idle_pci = ret (True, t') \<and>
     devices t' = [cache_entry 0x80000000 (header_at one_device 0 0 0)]"
proof -
  let ?e = "cache_entry 0x80000000 (header_at one_device 0 0 0)"
  have i: "heap_var (pages idle_pci) = 0" by (simp add: idle_pci_def boot_state_def pit_state.defs)
  obtain p q1 where t1: "pci_alloc_clean 1 SIZEOF_PCI_HEADER idle_pci = ret (p, idle_pci\<lparr>pages := q1\<rparr>)" "heap_var q1 = 0"
    using alloc_placement[OF i] by blast
  obtain q q2 where t2: "pci_alloc_clean 1 (8 * 256) (idle_pci\<lparr>pages := q1\<rparr>) = ret (q, idle_pci\<lparr>pages := q2\<rparr>)" "heap_var q2 = 0"
    using alloc_placement[of "idle_pci\<lparr>pages := q1\<rparr>" 1 "8 * 256"] t1(2) by auto
  let ?t = "idle_pci\<lparr>pages := q2, cache_ptr := q, cache := replicate CACHE_ENTRIES zero_cache, cache_len := 0\<rparr>"
  have cs: "config_space last_address one_device" by (simp add: config_space_def last_address_def)
  have a: "pci_address 0 0 0 = 0x80000000" by (simp add: pci_address_def set_bus_def set_device_def set_function_def
      set_field_def mask_eq_exp_minus_1)
  obtain l where l: "run_state (read_rows last_address 0x80000000 [0..<4]) ?t = (rows_at one_device 0x80000000 [0..<4], ?t\<lparr>io_log := l\<rparr>)"
    using run_read_rows[OF cs] by blast
  have hd: "header_of (rows_at one_device 0x80000000 [0..<4]) = header_at one_device 0 0 0" by (simp only: header_at_def a)
  define u where "u = ?t\<lparr>io_log := l, pages := q2\<lparr>ram := store_rows (ram q2) p (rows_at one_device 0x80000000 [0..<4])\<rparr>\<rparr>"
  have h: "read_header_at last_address p 0x80000000 ?t = (header_at one_device 0 0 0, u)"
    by (simp only: read_header_at_def Let_def l prod.case hd) (simp add: u_def)
  have u: "cache_ok u" "devices u = []" "heap_var (pages u) = 0"
    using t2(2) by (simp_all add: u_def cache_ok_def devices_def)
  obtain t3 where t3: "pci_enum_bus 1 last_address 0 u = ret t3" "devices t3 = [?e]"
    using enum_bus_appends[OF cs u(1), of 0 1] u(2) unfolding one_device_found by (auto simp: appends_def CACHE_ENTRIES_def)
  have "heap_var (pages t3) = 0" using enum_bus_pages[OF t3(1)] u(3) by simp
  then have f: "pci_free p t3 = ret t3" by (simp add: pci_free_def mem_free_def)
  have n: "cache_len t3 > 0" using t3(2) by (auto simp: devices_def word_gt_0)
  have ty: "header_type (header_at one_device 0 0 0) AND 0x80 = 0" by (simp add: one_device_bridge)
  have "pci_init 1 1 last_address idle_pci = ret (True, t3)"
    unfolding pci_init_def by (simp only: t1(1) t2(1) rbind_simps prod.case Let_def h ty simp_thms if_False t3(1) f n)
  with t3(2) show ?thesis by blast
qed

definition idle_drv :: drv_state where
  "idle_drv = \<lparr>io_log = [], d_cache = replicate 256 zero_cache, d_cache_len = 0, d_kernel = four_tables,
     d_devs = replicate 256 (0, 0), d_count = 0, d_time = 0\<rparr>"

lemma drv_scan_equals_loader_witness:
  "\<exists>s'. drv_pci_init 1 last_address idle_drv = ret s' \<and> drv_num_device 6 0 s' = 1 \<and> drv_get_device 6 0 0 s' = 0x80000000"
proof -
  let ?e = "cache_entry 0x80000000 (header_at one_device 0 0 0)"
  obtain t' where t': "pci_init 1 1 last_address idle_pci = ret (True, t')" "devices t' = [?e]"
    using one_device_init by blast
  have e: "class_match 6 0 ?e" "c_address ?e = 0x80000000" by (simp_all add: class_match_def cache_entry_def one_device_bridge)
  have i: "io_log idle_drv = io_log idle_pci" "d_cache_len idle_drv = 0" "length (d_cache idle_drv) = 256"
    by (simp_all add: idle_drv_def idle_pci_def idle_timer_def idle_ints_def pit_state.defs int_state.defs)
  obtain s' where "drv_pci_init 1 last_address idle_drv = ret s'" "take (unat (d_cache_len s')) (d_cache s') = [?e]"
    using drv_scan_equals_loader[OF t'(1) i, of 6 0 0] t'(2) by auto
  then show ?thesis using e by (intro exI[of _ s']) (simp add: drv_num_device_def drv_get_device_def)
qed

section \<open>The ports the SATA driver looks at\<close>

definition drv_later :: "nat \<Rightarrow> 'x drv_state_scheme \<Rightarrow> 'x drv_state_scheme" where
  "drv_later k s = s\<lparr>d_time := d_time s + k\<rparr>"

definition drv_list :: "'x drv_state_scheme \<Rightarrow> (u64 \<times> u8) list" where
  "drv_list s = take (unat (d_count s)) (d_devs s)"

lemma drv_later_simps [simp]:
  "d_kernel (drv_later k s) = d_kernel s" "d_devs (drv_later k s) = d_devs s" "d_count (drv_later k s) = d_count s"
  "drv_later j (drv_later k s) = drv_later (k + j) s" "drv_list (drv_later k s) = drv_list s"
  by (simp_all add: drv_later_def drv_list_def)

lemma drv_quiet_reads [simp]:
  "drv_read32 quiet a s = (load32 (kram (d_kernel s)) a, drv_later 1 s)"
  "drv_field quiet a p n s = (get_field p n (load32 (kram (d_kernel s)) a), drv_later 1 s)"
  by (simp_all add: drv_read32_def drv_field_def Let_def quiet_def drv_later_def)

lemma drv_type_quiet:
  "\<exists>t k. drv_get_type quiet (hba_port hba (of_nat i)) s = (t, drv_later k s) \<and>
     (is_ahci_type t \<longleftrightarrow> port_active (kram (d_kernel s)) hba i)"
proof -
  let ?p = "hba_port hba (of_nat i)"
  have "\<exists>t k. drv_get_type quiet ?p s = (t, drv_later k s) \<and>
    (is_ahci_type t \<longleftrightarrow> get_field 0 4 (load32 (kram (d_kernel s)) (?p + PORT_SSTS)) = 3 \<and>
       get_field 8 4 (load32 (kram (d_kernel s)) (?p + PORT_SSTS)) = 1)"
    unfolding drv_get_type_def Let_def by (auto simp: is_ahci_type_def)
  then show ?thesis by (simp add: port_active_def Let_def)
qed

lemma drv_add_room:
  assumes "unat (d_count s) < length (d_devs s)" "length (d_devs s) < 2 ^ 64"
  shows "\<exists>s'. drv_add hba i s = ret s' \<and> drv_list s' = drv_list s @ [(hba, i)] \<and> d_kernel s' = d_kernel s \<and>
    length (d_devs s') = length (d_devs s) \<and> unat (d_count s') = Suc (unat (d_count s))"
proof -
  have "unat (d_count s + 1) = Suc (unat (d_count s))" using assms by (simp add: unat_word_ariths)
  then show ?thesis using assms by (simp add: drv_add_def drv_list_def take_Suc_conv_app_nth)
qed

text \<open>The implemented-port bit \<open>k\<close> decides about port \<open>2 k\<close>.\<close>

definition drv_ports :: "mem \<Rightarrow> u64 \<Rightarrow> u32 \<Rightarrow> nat list \<Rightarrow> (u64 \<times> u8) list" where
  "drv_ports m hba P ks = map (\<lambda>k. (hba, of_nat (2 * k))) (filter (\<lambda>k. bit P k \<and> port_active m hba (2 * k)) ks)"

lemma drv_loop_quiet:
  "k + n = 16 \<Longrightarrow> unat (d_count s) + n \<le> length (d_devs s) \<Longrightarrow> length (d_devs s) < 2 ^ 64 \<Longrightarrow>
    \<exists>s'. drv_port_loop quiet hba (2 * k) (drop_bit k P) s = ret s' \<and>
      drv_list s' = drv_list s @ drv_ports (kram (d_kernel s)) hba P [k..<k + n]"
proof (induction n arbitrary: k s)
  case 0 then show ?case by (simp add: drv_port_loop.simps drv_ports_def)
next
  case (Suc n)
  let ?m = "kram (d_kernel s)"
  have k: "2 * k < 32" "Suc k + n = 16" "2 * k + 1 + 1 = 2 * Suc k" using Suc.prems(1) by simp_all
  have b: "(drop_bit k P AND 1 \<noteq> 0) = bit P k"
    by (simp add: and_one_eq odd_iff_mod_2_eq_one bit_iff_odd_drop_bit)
  have d: "drop_bit 1 (drop_bit k P) = drop_bit (Suc k) P" by simp
  have u: "drv_ports ?m hba P [k..<k + Suc n] =
      (if bit P k \<and> port_active ?m hba (2 * k) then [(hba, of_nat (2 * k))] else []) @ drv_ports ?m hba P [Suc k..<Suc k + n]"
  proof -
    have "[k..<k + Suc n] = k # [Suc k..<Suc k + n]" by (simp add: upt_conv_Cons)
    then show ?thesis by (simp only: drv_ports_def) simp
  qed
  obtain t j where t: "drv_get_type quiet (hba_port hba (of_nat (2 * k))) s = (t, drv_later j s)"
    "is_ahci_type t \<longleftrightarrow> port_active ?m hba (2 * k)" using drv_type_quiet by blast
  have "\<exists>s1. (if bit P k then
        let (dev_type, s) = drv_get_type quiet (hba_port hba (of_nat (2 * k))) s
        in if is_ahci_type dev_type then drv_add hba (of_nat (2 * k)) s else ret s else ret s) = ret s1 \<and>
      drv_list s1 = drv_list s @ (if bit P k \<and> port_active ?m hba (2 * k) then [(hba, of_nat (2 * k))] else []) \<and>
      kram (d_kernel s1) = ?m \<and> unat (d_count s1) + n \<le> length (d_devs s1) \<and> length (d_devs s1) < 2 ^ 64"
    using Suc.prems t drv_add_room[of "drv_later j s" hba "of_nat (2 * k)"] by (auto simp: Let_def)
  then obtain s1 where s1: "(if bit P k then
        let (dev_type, s) = drv_get_type quiet (hba_port hba (of_nat (2 * k))) s
        in if is_ahci_type dev_type then drv_add hba (of_nat (2 * k)) s else ret s else ret s) = ret s1"
      "drv_list s1 = drv_list s @ (if bit P k \<and> port_active ?m hba (2 * k) then [(hba, of_nat (2 * k))] else [])"
      "kram (d_kernel s1) = ?m" "unat (d_count s1) + n \<le> length (d_devs s1)" "length (d_devs s1) < 2 ^ 64"
    by blast
  obtain s' where "drv_port_loop quiet hba (2 * Suc k) (drop_bit (Suc k) P) s1 = ret s'"
    "drv_list s' = drv_list s1 @ drv_ports ?m hba P [Suc k..<Suc k + n]"
    using Suc.IH[OF k(2) s1(4,5)] s1(3) by auto
  then show ?case
    using k(1) s1(1,2) unfolding u by (subst drv_port_loop.simps) (simp only: b d k(3) if_True rbind_simps, simp)
qed

text \<open>C33. The ports of the SATA driver: its loop counts the port number up twice in every turn,
  so it records port \<open>2 k\<close> when bit \<open>k\<close> of the implemented-ports register is set and port \<open>2 k\<close>
  is active. No device at an odd port is ever found.\<close>

theorem drv_skips_odd_ports:
  assumes "unat (d_count s) + 16 \<le> length (d_devs s)" "length (d_devs s) < 2 ^ 64"
  shows "\<exists>s'. drv_init_port quiet hba s = ret s' \<and>
    drv_list s' = drv_list s @ drv_ports (kram (d_kernel s)) hba (load32 (kram (d_kernel s)) (hba + HBA_PI)) [0..<16]"
  using drv_loop_quiet[of 0 16 "drv_later 1 s" hba "load32 (kram (d_kernel s)) (hba + HBA_PI)"] assms
  by (simp add: drv_init_port_def del: upt_rec_numeral)

text \<open>The controller of \<open>Ahci\<close> with devices at the ports 1 and 3: none of them is found.\<close>

lemma drv_skips_odd_ports_witness:
  "\<exists>s'. drv_init_port quiet 0x10000 (idle_drv\<lparr>d_kernel := four_tables\<lparr>kram := two_disks\<rparr>\<rparr>) = ret s' \<and> drv_list s' = []"
proof -
  let ?s = "idle_drv\<lparr>d_kernel := four_tables\<lparr>kram := two_disks\<rparr>\<rparr>"
  have f: "d_devs ?s = replicate 256 (0, 0)" "d_count ?s = 0" "kram (d_kernel ?s) = two_disks"
    by (simp_all add: idle_drv_def)
  have "drv_ports two_disks 0x10000 (load32 two_disks (0x10000 + HBA_PI)) [0..<16] = []" by code_simp
  then show ?thesis
    using drv_skips_odd_ports[of ?s "0x10000"] unfolding f by (auto simp: drv_list_def f(2) simp del: upt_rec_numeral)
qed

end
