(* ===== verification/Listings.thy ===== *)
theory Listings
  imports HeapListing Ata Ahci Acpi Drivers
begin

text \<open>
  The other diagnostic listings, compiled when \<^verbatim>\<open>DEBUG\<close> is 1, as the calls of
  \<^verbatim>\<open>debug_print\<close> they make. An argument narrower than 64 bits is passed in a register
  of 64 bits and shown here with its upper bits clear.
\<close>

section \<open>Memory and the PCI bus\<close>

definition mem_list :: "page_state \<Rightarrow> message list option" where
  "mem_list s =
     (if heap_var s \<noteq> 0 then heap_list (ram s) (heap_var s)
      else Some [(DC_WB, ''Placement address: %x'', [Num (placement_addr s)])])"

text \<open>The bit fields of \<^verbatim>\<open>pci_addr_t\<close>.\<close>

definition addr_field :: "nat \<Rightarrow> nat \<Rightarrow> u32 \<Rightarrow> print_arg" where
  "addr_field pos len a = Num (ucast (take_bit len (drop_bit pos a)))"

definition pci_line :: "pci_cache \<Rightarrow> message" where
  "pci_line c = (DC_BW, ''pci:%u:%u:%u, class:0x%x:0x%x, vendor:0x%x:0x%x'',
     [addr_field 16 8 (c_address c), addr_field 11 5 (c_address c), addr_field 8 3 (c_address c),
      Num (ucast (c_class_id c)), Num (ucast (c_subclass_id c)),
      Num (ucast (c_vendor_id c)), Num (ucast (c_device_id c))])"

definition pci_list :: "('h, 'x) pci_state_scheme \<Rightarrow> message list result" where
  "pci_list s = each (\<lambda>i out.
       if i < length (cache s) then ret (out @ [pci_line (cache s ! i)]) else fail OutOfBounds)
     [0..<unat (cache_len s)] []"

text \<open>The same function of the kernel's driver.\<close>

definition drv_pci_list :: "'x drv_state_scheme \<Rightarrow> message list result" where
  "drv_pci_list s = each (\<lambda>i out.
       if i < length (d_cache s) then ret (out @ [pci_line (d_cache s ! i)]) else fail OutOfBounds)
     [0..<unat (d_cache_len s)] []"

section \<open>ATA drives\<close>

definition ata_line :: "('h, 'x) ata_state_scheme \<Rightarrow> nat \<Rightarrow> message list \<Rightarrow> message list result" where
  "ata_line s i out =
     (if i < length (drives s) then
        let d = drives s ! i in
        if unat (channel d) < length (chans s) then
          ret (out @
            [(DC_WB, ''ATA drive %d @0x%x (%s%s%s%s)'',
               [Num (of_nat i), Num (ucast (base (chans s ! unat (channel d)))),
                Str (if slave d then ''Slave'' else ''Master''), Str (if atapi d then '', ATAPI'' else ''''),
                Str (if lba48 d then '', LBA48'' else ''''), Str (if largesect d then '', Large Sector'' else '''')]),
             (DC_WB, ''    Size %d (%d x %d)'',
               [Num (sectors d * sector_size d), Num (sectors d), Num (sector_size d)]),
             (DC_WB, ''    Model %s'', [Chars (model d)])])
        else fail OutOfBounds
      else fail OutOfBounds)"

definition ata_list :: "('h, 'x) ata_state_scheme \<Rightarrow> message list result" where
  "ata_list s =
     rbind (each (\<lambda>i out.
         if i < length (chans s)
         then ret (out @ [(DC_WB, ''   Channel %d: %x'', [Num (of_nat i), Num (ucast (base (chans s ! i)))])])
         else fail OutOfBounds)
       [0..<unat (chan_count s)] [(DC_WB, ''IDE channels: %d'', [Num (ucast (chan_count s))])]) (\<lambda>out.
     each (ata_line s) [0..<unat (drive_count s)]
       (out @ [(DC_WB, ''ATA devices: %d'', [Num (ucast (drive_count s))])]))"

section \<open>ACPI tables\<close>

text \<open>A table's signature, copied to a buffer of five bytes that ends with 0. The counter of the
  entries is an \<^verbatim>\<open>uint32\<close>.\<close>

definition acpi_line :: "mem \<Rightarrow> u64 \<Rightarrow> message" where
  "acpi_line m th = (DC_WB, ''%s @%x'', [Chars (map (\<lambda>i. m (th + of_nat i)) [0..<4] @ [0]), Num th])"

definition acpi_list :: "'x kernel_state_scheme \<Rightarrow> message list" where
  "acpi_list s =
     (let m = kram s; r = rsdp s in
      if r \<noteq> 0 then
        (DC_WB, ''RSDP @%x'', [Num r]) #
        (if rsdp_revision m r = 0 then
           (let rsdt = ucast (RSDT_address m r);
                count = ucast ((ucast (sdt_length m rsdt) - SIZEOF_SDT_HEADER) div 4 :: u64) :: u32
            in [(DC_WB, ''ACPI v1.0'', []), (DC_WB, ''XSDT @%x'', [Num rsdt])] @
               map (\<lambda>i. acpi_line m (ucast (load32 m (rsdt + 36 + ucast (of_nat i * 4 :: u32))))) [0..<unat count])
         else
           (let xsdt = XSDT_address m r;
                count = ucast ((ucast (sdt_length m xsdt) - SIZEOF_SDT_HEADER) div 8 :: u64) :: u32
            in [(DC_WB, ''ACPI v%d'', [Num (ucast (rsdp_revision m r))]), (DC_WB, ''XSDT @%x'', [Num xsdt])] @
               map (\<lambda>i. acpi_line m (load64 m (xsdt + 36 + ucast (of_nat i * 8 :: u32)))) [0..<unat count]))
      else [])"

section \<open>SATA devices\<close>

definition ahci_type_line :: "u8 \<Rightarrow> u32 \<Rightarrow> message" where
  "ahci_type_line port t =
     (if t = AHCI_DEV_SATA then (DC_WGR, ''SATA drive found at port %d'', [Num (ucast port)])
      else if t = AHCI_DEV_SATAPI then (DC_WGR, ''SATAPI drive found at port %d'', [Num (ucast port)])
      else if t = AHCI_DEV_SEMB then (DC_WGR, ''SEMB drive found at port %d'', [Num (ucast port)])
      else if t = AHCI_DEV_PM then (DC_WGR, ''PM drive found at port %d'', [Num (ucast port)])
      else (DC_WGR, ''Unknown at port %d, %x'', [Num (ucast port), Num (ucast t)]))"

definition ahci_line :: "hardware \<Rightarrow> nat \<Rightarrow> message list \<times> ('h, 'x) ahci_state_scheme
    \<Rightarrow> (message list \<times> ('h, 'x) ahci_state_scheme) result" where
  "ahci_line hw i = (\<lambda>(out, s).
     if i < length (ahci_devs s) then
       let dev = ahci_devs s ! i;
           port = hba_port (hba_ptr dev) (port_no dev);
           (t, s) = ahci_get_type hw port s;
           (fb, s) = vread64 hw (port + 8) s;
           (clb, s) = vread64 hw (port + PORT_CLB) s
       in ret (out @
         [ahci_type_line (port_no dev) t,
          (DC_WGR, ''     FIS base @0x%x'', [Num fb]),
          (DC_WGR, ''     CL base  @0x%x'', [Num clb]),
          (DC_WGR, ''     INT pin: %d, line: %d'', [Num (ucast (int_pin dev)), Num (ucast (int_line dev))]),
          (DC_WGR, ''     CMD: %x, STS: %x'', [Num (ucast (dev_cmd dev)), Num (ucast (dev_sts dev))])], s)
     else fail OutOfBounds)"

definition ahci_list :: "hardware \<Rightarrow> ('h, 'x) ahci_state_scheme \<Rightarrow> (message list \<times> ('h, 'x) ahci_state_scheme) result" where
  "ahci_list hw s = each (ahci_line hw) [0..<unat (ahci_count s)] ([], s)"

section \<open>Bounds\<close>

text \<open>Appending one line per index that is in range.\<close>

lemma each_lines:
  assumes "\<And>i. i \<in> set is \<Longrightarrow> i < n"
  shows "each (\<lambda>i out. if i < n then ret (out @ [f i]) else fail OutOfBounds) is out = ret (out @ map f is)"
  using assms by (induction "is" arbitrary: out) auto

text \<open>As long as the counter is within the cache, the listing of the bus is one line for each
  cached device, in order.\<close>

lemma pci_list_lines:
  assumes "unat (cache_len s) \<le> length (cache s)"
  shows "pci_list s = ret (map pci_line (take (unat (cache_len s)) (cache s)))"
  unfolding pci_list_def using assms
  by (subst each_lines) (auto intro!: arg_cong[where f = ret] nth_equalityI)

end
