(* ===== verification/Layout.thy ===== *)
theory Layout
  imports Prelude
begin

text \<open>
  How the compiler lays out the structures of the headers: a description of C types, the
  System V rules for size, alignment and bit-fields, the place of a member under a path of
  names, and the value of a member in memory. The structures themselves are in \<open>Structs\<close>.
\<close>

section \<open>Types and their layout\<close>

text \<open>An integer or pointer of so many bytes, an array, a structure (packed or not) or a
  union; a member is a field of some type or a bit-field: bytes of its type and width.\<close>

datatype ctype = UInt nat | Arr nat ctype | Struct bool "member list" | Union bool "member list"
  and member = Mem string ctype | Bit string nat nat

abbreviation (input) U8 where "U8 \<equiv> UInt 1"
abbreviation (input) U16 where "U16 \<equiv> UInt 2"
abbreviation (input) U32 where "U32 \<equiv> UInt 4"
abbreviation (input) U64 where "U64 \<equiv> UInt 8"

definition pad_to :: "nat \<Rightarrow> nat \<Rightarrow> nat" where
  "pad_to k n = (n + (k - 1)) div k * k"

fun align_of :: "ctype \<Rightarrow> nat" and align_all :: "member list \<Rightarrow> nat" where
  "align_of (UInt n) = n"
| "align_of (Arr _ t) = align_of t"
| "align_of (Struct p ms) = (if p then 1 else align_all ms)"
| "align_of (Union p ms) = (if p then 1 else align_all ms)"
| "align_all [] = 1"
| "align_all (Mem _ t # ms) = max (align_of t) (align_all ms)"
| "align_all (Bit _ u _ # ms) = max u (align_all ms)"

text \<open>A bit-field starts at the next free bit unless it would cross the boundary of a unit of
  its type; in a packed structure it always does.\<close>

definition bit_start :: "bool \<Rightarrow> nat \<Rightarrow> nat \<Rightarrow> nat \<Rightarrow> nat" where
  "bit_start p pos u w =
    (if p \<or> pos div (8 * u) = (pos + w - 1) div (8 * u) then pos else pad_to (8 * u) pos)"

definition mem_start :: "bool \<Rightarrow> nat \<Rightarrow> nat \<Rightarrow> nat" where
  "mem_start p pos al = pad_to (if p then 8 else 8 * al) pos"

fun size_of :: "ctype \<Rightarrow> nat"
  and end_of :: "bool \<Rightarrow> nat \<Rightarrow> member list \<Rightarrow> nat"
  and widest :: "member list \<Rightarrow> nat" where
  "size_of (UInt n) = n"
| "size_of (Arr n t) = n * size_of t"
| "size_of (Struct p ms) = pad_to (8 * align_of (Struct p ms)) (end_of p 0 ms) div 8"
| "size_of (Union p ms) = pad_to (8 * align_of (Union p ms)) (widest ms) div 8"
| "end_of p pos [] = pos"
| "end_of p pos (Mem _ t # ms) = end_of p (mem_start p pos (align_of t) + 8 * size_of t) ms"
| "end_of p pos (Bit _ u w # ms) = end_of p (bit_start p pos u w + w) ms"
| "widest [] = 0"
| "widest (Mem _ t # ms) = max (8 * size_of t) (widest ms)"
| "widest (Bit _ _ w # ms) = max w (widest ms)"

fun start_of :: "bool \<Rightarrow> nat \<Rightarrow> member \<Rightarrow> nat" where
  "start_of p pos (Mem _ t) = mem_start p pos (align_of t)"
| "start_of p pos (Bit _ u w) = bit_start p pos u w"

fun width_of :: "member \<Rightarrow> nat" where
  "width_of (Mem _ t) = 8 * size_of t"
| "width_of (Bit _ _ w) = w"

fun name_of :: "member \<Rightarrow> string" where
  "name_of (Mem n _) = n"
| "name_of (Bit n _ _) = n"

text \<open>The members of a structure with the bit each starts at.\<close>

primrec places :: "bool \<Rightarrow> nat \<Rightarrow> member list \<Rightarrow> (nat \<times> member) list" where
  "places p pos [] = []"
| "places p pos (x # ms) = (start_of p pos x, x) # places p (start_of p pos x + width_of x) ms"

text \<open>First bit and width of the member under a path of names; an array stands for its first
  element.\<close>

fun place_of :: "ctype \<Rightarrow> string list \<Rightarrow> (nat \<times> nat) option" where
  "place_of t [] = Some (0, 8 * size_of t)"
| "place_of (UInt _) (x # xs) = None"
| "place_of (Arr n t) (x # xs) = place_of t (x # xs)"
| "place_of (Struct p ms) (x # xs) =
    (case List.find (\<lambda>(_, y). name_of y = x) (places p 0 ms) of
       None \<Rightarrow> None
     | Some (b, Mem _ t) \<Rightarrow> map_option (\<lambda>(o', w). (b + o', w)) (place_of t xs)
     | Some (b, Bit _ _ w) \<Rightarrow> if xs = [] then Some (b, w) else None)"
| "place_of (Union p ms) (x # xs) =
    (case List.find (\<lambda>y. name_of y = x) ms of
       None \<Rightarrow> None
     | Some (Mem _ t) \<Rightarrow> place_of t xs
     | Some (Bit _ _ w) \<Rightarrow> if xs = [] then Some (0, w) else None)"

text \<open>Byte offset of a member that starts at a byte.\<close>

definition offset_of :: "ctype \<Rightarrow> string list \<Rightarrow> nat option" where
  "offset_of t xs = (case place_of t xs of None \<Rightarrow> None | Some (b, _) \<Rightarrow> if b mod 8 = 0 then Some (b div 8) else None)"

text \<open>The value of \<open>w\<close> bits from bit \<open>b\<close> on of the structure at \<open>a\<close>.\<close>

definition bits_at :: "mem \<Rightarrow> u64 \<Rightarrow> nat \<Rightarrow> nat \<Rightarrow> u64" where
  "bits_at m a b w =
    take_bit w (drop_bit (b mod 8) (load_le ((b mod 8 + w + 7) div 8) m (a + of_nat (b div 8))))"

definition member_at :: "ctype \<Rightarrow> string list \<Rightarrow> mem \<Rightarrow> u64 \<Rightarrow> u64 option" where
  "member_at t xs m a = map_option (\<lambda>(b, w). bits_at m a b w) (place_of t xs)"

section \<open>Members do not overlap\<close>

lemma pad_to_ge: "0 < k \<Longrightarrow> n \<le> pad_to k n"
  unfolding pad_to_def using div_mult_mod_eq[of "n + (k - 1)" k] mod_less_divisor[of k "n + (k - 1)"]
  by linarith

text \<open>No type of size 0 and no bit-field of width 0 or of more bits than its type has.\<close>

fun wf_type :: "ctype \<Rightarrow> bool" and wf_members :: "member list \<Rightarrow> bool" where
  "wf_type (UInt n) = (0 < n)"
| "wf_type (Arr _ t) = wf_type t"
| "wf_type (Struct _ ms) = wf_members ms"
| "wf_type (Union _ ms) = wf_members ms"
| "wf_members [] = True"
| "wf_members (Mem _ t # ms) = (wf_type t \<and> wf_members ms)"
| "wf_members (Bit _ u w # ms) = (0 < w \<and> w \<le> 8 * u \<and> wf_members ms)"

lemma align_pos: "wf_type t \<Longrightarrow> 0 < align_of t" "wf_members ms \<Longrightarrow> 0 < align_all ms"
  by (induction t and ms rule: align_of_align_all.induct) auto

lemma start_of_ge: "wf_members [x] \<Longrightarrow> pos \<le> start_of p pos x"
  using align_pos by (cases x) (auto simp: mem_start_def bit_start_def intro!: pad_to_ge)

lemma places_end:
  "end_of p pos ms = (case places p pos ms of [] \<Rightarrow> pos | _ \<Rightarrow> let (b, x) = last (places p pos ms) in b + width_of x)"
proof (induction ms arbitrary: pos)
  case (Cons x ms)
  then show ?case by (cases x; cases ms) (auto simp: Let_def split: list.splits)
qed simp

lemma end_of_ge: "wf_members ms \<Longrightarrow> pos \<le> end_of p pos ms"
proof (induction ms arbitrary: pos)
  case (Cons y ys)
  then have "wf_members [y]" "wf_members ys" by (cases y; simp)+
  then show ?case
    using start_of_ge[of y pos p] Cons.IH[of "start_of p pos y + width_of y"] by (cases y) simp_all
qed simp

text \<open>Each member begins after the end of the ones before it, and all end within the size.\<close>

lemma places_ordered:
  "wf_members ms \<Longrightarrow> sorted_wrt (\<lambda>(b, x) (b', _). b + width_of x \<le> b') (places p pos ms) \<and>
    (\<forall>(b, x) \<in> set (places p pos ms). pos \<le> b \<and> b + width_of x \<le> end_of p pos ms)"
proof (induction ms arbitrary: pos)
  case (Cons x ms)
  have wf: "wf_members [x]" "wf_members ms" using Cons.prems by (cases x; simp)+
  let ?e = "start_of p pos x + width_of x"
  have e: "end_of p pos (x # ms) = end_of p ?e ms" by (cases x) simp_all
  have ge: "?e \<le> end_of p ?e ms" "pos \<le> start_of p pos x"
    by (rule end_of_ge[OF wf(2)], rule start_of_ge[OF wf(1)])
  from Cons.IH[OF wf(2), of ?e] ge show ?case unfolding e by fastforce
qed simp

section \<open>Reading a member\<close>

lemma bit_load_le:
  "bit (load_le n m a) i \<longleftrightarrow> i < 64 \<and> i < 8 * n \<and> bit (m (a + of_nat (i div 8))) (i mod 8)"
proof (induction n arbitrary: a i)
  case (Suc n)
  show ?case
  proof (cases "i < 8")
    case True
    then show ?thesis by (auto simp: bit_simps)
  next
    case False
    then have i: "i div 8 = Suc ((i - 8) div 8)" "i mod 8 = (i - 8) mod 8" by (simp_all add: div_if mod_if)
    have n: "i - 8 < 8 * n \<longleftrightarrow> i < 8 * Suc n" using False by arith
    have "\<not> bit (m a) i" using False bit_imp_le_length[of "m a" i] by auto
    then show ?thesis using False Suc.IH[of "a + 1" "i - 8"] i n
      by (auto simp: bit_simps add.assoc)
  qed
qed simp

lemma bit_bits_at:
  "b mod 8 + w \<le> 64 \<Longrightarrow>
   bit (bits_at m a b w) i \<longleftrightarrow> i < w \<and> bit (m (a + of_nat ((b + i) div 8))) ((b + i) mod 8)"
proof -
  assume w: "b mod 8 + w \<le> 64"
  have "(b + i) div 8 = (8 * (b div 8) + (b mod 8 + i)) div 8" by (simp only: add.assoc[symmetric] mult_div_mod_eq)
  also have "\<dots> = b div 8 + (b mod 8 + i) div 8" by (rule div_mult_self4) simp
  finally have d: "(b + i) div 8 = b div 8 + (b mod 8 + i) div 8" "(b + i) mod 8 = (b mod 8 + i) mod 8"
    by (simp_all add: mod_add_left_eq)
  have n: "b mod 8 + i < 8 * ((b mod 8 + w + 7) div 8)" if "i < w"
    using that div_mult_mod_eq[of "b mod 8 + w + 7" 8] mod_less_divisor[of 8 "b mod 8 + w + 7"] by linarith
  show ?thesis unfolding bits_at_def d
    using w n by (auto simp: bit_simps bit_load_le add.assoc)
qed

text \<open>A field of a 32-bit register, read with the shift and mask of the register.\<close>

lemma field_of_load:
  assumes "s + w \<le> 8 * n" "n \<le> 8"
  shows "take_bit w (drop_bit s (load_le n m (a + of_nat r))) = bits_at m a (8 * r + s) w"
proof (rule bit_word_eqI)
  fix i :: nat
  have "(8 * r + s) mod 8 + w \<le> 64" using assms mod_le_divisor[of 8 s] mod_less_eq_dividend[of s 8] by simp
  then show "bit (take_bit w (drop_bit s (load_le n m (a + of_nat r)))) i = bit (bits_at m a (8 * r + s) w) i"
    using assms by (auto simp: bit_bits_at bit_simps bit_load_le add.assoc)
qed

lemma member_atI: "place_of t xs = Some (b, w) \<Longrightarrow> bits_at m a b w = v \<Longrightarrow> member_at t xs m a = Some v"
  by (simp add: member_at_def)

lemma bits_at_load:
  "n \<le> 8 \<Longrightarrow> bits_at m a (8 * r) (8 * n) = load_le n m (a + of_nat r)"
proof (rule bit_word_eqI)
  fix i :: nat assume "n \<le> 8"
  then show "bit (bits_at m a (8 * r) (8 * n)) i = bit (load_le n m (a + of_nat r)) i"
    by (subst bit_bits_at) (auto simp: bit_load_le add.assoc)
qed

lemma bits_at_field:
  assumes "s + w \<le> 32"
  shows "bits_at m a (8 * r + s) w = ucast (take_bit w (drop_bit s (load32 m (a + of_nat r))))"
proof -
  have "bits_at m a (8 * r + s) w = take_bit w (drop_bit s (load_le 4 m (a + of_nat r)))"
    using assms by (simp add: field_of_load)
  also have "\<dots> = ucast (take_bit w (drop_bit s (load32 m (a + of_nat r))))"
    unfolding load32_def using assms by (intro bit_word_eqI) (auto simp: bit_simps bit_load_le)
  finally show ?thesis .
qed

lemma bits_at_byte: "s + w \<le> 8 \<Longrightarrow> bits_at m a (8 * r + s) w = ucast (take_bit w (drop_bit s (m (a + of_nat r))))"
proof -
  assume "s + w \<le> 8"
  then have "bits_at m a (8 * r + s) w = take_bit w (drop_bit s (load_le 1 m (a + of_nat r)))"
    using field_of_load[of s w 1] by simp
  then show ?thesis using \<open>s + w \<le> 8\<close> by (auto intro!: bit_word_eqI simp: bit_simps bit_load_le)
qed

end
