(* ===== verification/Apic.thy ===== *)
theory Apic
  imports Acpi
begin

text \<open>
  The kernel's processor set-up, second part: \<^verbatim>\<open>src/src/kernel/cpu/apic.c\<close>, which
  enumerates the interrupt controllers of the MADT, and the first half of
  \<^verbatim>\<open>kmain.c\<close>. The two static arrays of 256 pointers are lists of the length of their
  counters; storing behind their end is an error. Device registers are read through the
  parameter \<open>rd\<close>, as what they hold is up to the hardware; the base address register of the
  processor is a field of the state.
\<close>

section \<open>State and registers\<close>

record apic_state = kernel_state +
  lapic :: "u64 list"
  ioapic :: "u64 list"
  lapic_addr :: u64
  msr_apic_base :: u64

type_synonym mmio = "mem \<Rightarrow> u64 \<Rightarrow> u32"

abbreviation (input) APIC_LAPIC_VERSION :: u64 where "APIC_LAPIC_VERSION \<equiv> 0x30"
abbreviation (input) APIC_TYPE_LAPIC :: u8 where "APIC_TYPE_LAPIC \<equiv> 0"
abbreviation (input) APIC_TYPE_IOAPIC :: u8 where "APIC_TYPE_IOAPIC \<equiv> 1"
abbreviation (input) SIZEOF_MADT :: u64 where "SIZEOF_MADT \<equiv> 48"

definition apic_get_base :: "'x apic_state_scheme \<Rightarrow> u64" where
  "apic_get_base s = msr_apic_base s"

definition apic_set_base :: "u64 \<Rightarrow> 'x apic_state_scheme \<Rightarrow> 'x apic_state_scheme" where
  "apic_set_base addr s = s\<lparr>msr_apic_base := addr\<rparr>"

definition apic_read_reg :: "mmio \<Rightarrow> u64 \<Rightarrow> 'x apic_state_scheme \<Rightarrow> u32" where
  "apic_read_reg rd reg s = rd (kram s) (lapic_addr s + reg)"

definition apic_write_reg :: "u64 \<Rightarrow> u32 \<Rightarrow> 'x apic_state_scheme \<Rightarrow> 'x apic_state_scheme" where
  "apic_write_reg reg val s = s\<lparr>kram := store32 (kram s) (lapic_addr s + reg) val\<rparr>"

definition apic_read_ioapic :: "mmio \<Rightarrow> u64 \<Rightarrow> u32 \<Rightarrow> 'x apic_state_scheme \<Rightarrow> u32 \<times> 'x apic_state_scheme" where
  "apic_read_ioapic rd addr reg s =
    (let s = s\<lparr>kram := store32 (kram s) addr (reg AND 0xFFFF)\<rparr> in (rd (kram s) (addr + 16), s))"

definition apic_write_ioapic :: "u64 \<Rightarrow> u32 \<Rightarrow> u32 \<Rightarrow> 'x apic_state_scheme \<Rightarrow> 'x apic_state_scheme" where
  "apic_write_ioapic addr reg data s =
    (let s = s\<lparr>kram := store32 (kram s) addr (reg AND 0xFFFF)\<rparr>
     in s\<lparr>kram := store32 (kram s) (addr + 16) data\<rparr>)"

section \<open>Initialisation\<close>

text \<open>Switching the cache off: bit 4 of the entry of the given level.\<close>

definition uncache :: "u64 \<Rightarrow> u8 \<Rightarrow> 'x kpage_state_scheme \<Rightarrow> 'x kpage_state_scheme" where
  "uncache addr level s = page_set_pml_entry addr level (page_get_pml_entry addr level s OR push_bit 4 1) s"

definition lapic_init :: "mmio \<Rightarrow> 'x apic_state_scheme \<Rightarrow> (u32 \<times> 'x apic_state_scheme) result" where
  "lapic_init rd s =
    (let s = s\<lparr>lapic_addr := apic_get_base s AND K_PAGE_MASK\<rparr>; a = lapic_addr s in
     rbind (map_mmio a s) (\<lambda>s.
       let s = fold (\<lambda>i. uncache a (of_nat i)) [0..<4] s
       in ret (apic_read_reg rd APIC_LAPIC_VERSION s, s)))"

text \<open>The inner loop runs over \<open>l\<close> but passes the index \<open>i\<close> of the controller as the level.\<close>

definition ioapic_step :: "nat \<Rightarrow> 'x apic_state_scheme \<Rightarrow> 'x apic_state_scheme result" where
  "ioapic_step i s =
    (let a = ucast (load32 (kram s) (ioapic s ! i + 4)) AND K_PAGE_MASK in
     rbind (map_mmio a s) (\<lambda>s. ret (fold (\<lambda>l. uncache a (of_nat i)) [0..<4] s)))"

definition ioapic_init :: "'x apic_state_scheme \<Rightarrow> 'x apic_state_scheme result" where
  "ioapic_init s = each ioapic_step [0..<length (ioapic s)] s"

text \<open>One entry of the MADT, then the loop; the remaining length is unsigned.\<close>

definition madt_entry :: "u64 \<Rightarrow> 'x apic_state_scheme \<Rightarrow> 'x apic_state_scheme result" where
  "madt_entry ah s =
    (if kram s ah = APIC_TYPE_LAPIC then
       if load32 (kram s) (ah + 4) AND 1 \<noteq> 0 then
         if length (lapic s) < 256 then ret (s\<lparr>lapic := lapic s @ [ah]\<rparr>) else fail OutOfBounds
       else ret s
     else if kram s ah = APIC_TYPE_IOAPIC then
       if length (ioapic s) < 256 then ret (s\<lparr>ioapic := ioapic s @ [ah]\<rparr>) else fail OutOfBounds
     else ret s)"

partial_function (option) madt_loop :: "u64 \<Rightarrow> u64 \<Rightarrow> 'x apic_state_scheme \<Rightarrow> 'x apic_state_scheme result" where
  "madt_loop len ah s =
    (if len > 0 then
       rbind (madt_entry ah s) (\<lambda>s.
         madt_loop (len - ucast (kram s (ah + 1))) (ah + ucast (kram s (ah + 1))) s)
     else ret s)"

definition APIC :: "u8 list" where "APIC = [65, 80, 73, 67]"

text \<open>The result of the function is missing in the code.\<close>

definition apic_init :: "mmio \<Rightarrow> 'x apic_state_scheme \<Rightarrow> 'x apic_state_scheme result" where
  "apic_init rd s =
    (let madt = acpi_table APIC s in
     if madt \<noteq> 0 then
       let s = s\<lparr>lapic_addr := ucast (load32 (kram s) (madt + 36))\<rparr>;
           len = ucast (sdt_length (kram s) madt) - SIZEOF_MADT + 4
       in rbind (madt_loop len (madt + 44) s) (\<lambda>s.
          rbind (lapic_init rd s) (\<lambda>(_, s). ioapic_init s))
     else ret s)"

text \<open>The part of \<^verbatim>\<open>kmain\<close> before the drivers.\<close>

definition kmain_cpu ::
  "mmio \<Rightarrow> (nat \<Rightarrow> u64) \<Rightarrow> (nat \<Rightarrow> u64) \<Rightarrow> u64 \<Rightarrow> 'x apic_state_scheme \<Rightarrow> (bool \<times> 'x apic_state_scheme) result" where
  "kmain_cpu rd isr irq idt_addr s =
    rbind (k_page_init s) (\<lambda>s.
      let s = k_interrupt_init isr irq idt_addr s in
      rbind (acpi_init s) (\<lambda>(ok, s).
        if ok then rbind (apic_init rd s) (\<lambda>s. ret (True, s)) else ret (False, s)))"

section \<open>Properties\<close>

text \<open>The entries of a MADT of \<open>n\<close> bytes from \<open>a\<close> on: their addresses, or \<open>None\<close> when an
  entry of length 0 comes up or the last one is longer than what is left.\<close>

function madt_entries :: "mem \<Rightarrow> nat \<Rightarrow> u64 \<Rightarrow> u64 list option" where
  "madt_entries m n a =
    (if n = 0 then Some []
     else let l = unat (m (a + 1)) in
       if l = 0 \<or> n < l then None
       else map_option (Cons a) (madt_entries m (n - l) (a + of_nat l)))"
  by pat_completeness auto
termination by (relation "measure (\<lambda>(m, n, a). n)") auto

declare madt_entries.simps [simp del]

definition enabled_lapic :: "mem \<Rightarrow> u64 \<Rightarrow> bool" where
  "enabled_lapic m a \<longleftrightarrow> m a = 0 \<and> load32 m (a + 4) AND 1 \<noteq> 0"

text \<open>What the loop does to the two arrays on entries \<open>es\<close>.\<close>

definition add_controllers :: "u64 list \<Rightarrow> 'x apic_state_scheme \<Rightarrow> 'x apic_state_scheme" where
  "add_controllers es s =
    s\<lparr>lapic := lapic s @ filter (enabled_lapic (kram s)) es,
      ioapic := ioapic s @ filter (\<lambda>e. kram s e = 1) es\<rparr>"

lemma madt_loop_prefix:
  "madt_entries (kram s) n a = Some es \<Longrightarrow> n + k < 2 ^ 64 \<Longrightarrow>
   length (lapic s) + length es \<le> 256 \<Longrightarrow> length (ioapic s) + length es \<le> 256 \<Longrightarrow>
   madt_loop (of_nat (n + k)) a s = madt_loop (of_nat k) (a + of_nat n) (add_controllers es s)"
proof (induction "kram s" n a arbitrary: s es rule: madt_entries.induct)
  case (1 n a)
  let ?m = "kram s" and ?l = "unat (kram s (a + 1))"
  show ?case
  proof (cases "n = 0")
    case True
    then have "es = []" using "1.prems"(1) by (subst (asm) madt_entries.simps) simp
    then show ?thesis using True by (simp add: add_controllers_def)
  next
    case False
    with "1.prems"(1) obtain fs where es: "es = a # fs" and l: "?l \<noteq> 0" "?l \<le> n" and
      fs: "madt_entries ?m (n - ?l) (a + of_nat ?l) = Some fs"
      by (subst (asm) madt_entries.simps) (auto simp: Let_def not_less split: if_splits)
    define s1 where "s1 = (if enabled_lapic ?m a then s\<lparr>lapic := lapic s @ [a]\<rparr>
      else if ?m a = 1 then s\<lparr>ioapic := ioapic s @ [a]\<rparr> else s)"
    have e: "madt_entry a s = ret s1"
      using "1.prems"(3,4) by (auto simp: madt_entry_def s1_def enabled_lapic_def es)
    have m: "kram s1 = ?m" by (simp add: s1_def)
    have pos: "(0 :: u64) < of_nat (n + k)"
      using False "1.prems"(2) unfolding word_less_nat_alt by (subst unat_of_nat_small) simp_all
    have c: "(ucast (kram s (a + 1)) :: u64) = of_nat ?l" by simp
    have d: "(of_nat (n + k) :: u64) - of_nat ?l = of_nat (n - ?l + k)" using l(2) by (simp add: of_nat_diff)
    have g: "a + of_nat ?l + of_nat (n - ?l) = a + of_nat n" using l(2) by (simp add: of_nat_diff)
    have step: "madt_loop (of_nat (n + k)) a s = madt_loop (of_nat (n - ?l + k)) (a + of_nat ?l) s1"
      using pos e m by (subst madt_loop.simps) (simp only: if_True rbind_simps m c d)
    have "madt_loop (of_nat (n - ?l + k)) (a + of_nat ?l) s1 =
      madt_loop (of_nat k) (a + of_nat ?l + of_nat (n - ?l)) (add_controllers fs s1)"
      by (rule "1.hyps"[of ?l s1 fs])
        (use False l fs m "1.prems" in \<open>auto simp: s1_def es\<close>)
    moreover have "add_controllers fs s1 = add_controllers es s"
      by (simp add: add_controllers_def es s1_def enabled_lapic_def)
    ultimately show ?thesis unfolding step g by simp
  qed
qed

text \<open>An entry of length 0 is visited again and again until the array is full, or for ever.\<close>

definition stuck_entry :: "mem \<Rightarrow> u64 \<Rightarrow> bool" where
  "stuck_entry m a \<longleftrightarrow> m (a + 1) = 0 \<and> m a \<noteq> 0 \<and> m a \<noteq> 1"

lemma madt_loop_not_stuck:
  assumes "madt_loop len ah s = Some r"
  shows "\<not> (len > 0 \<and> stuck_entry (kram s) ah)"
proof (rule madt_loop.raw_induct[where P = "\<lambda>len ah s r. \<not> (len > 0 \<and> stuck_entry (kram s) ah)", OF _ assms])
  fix f len ah r and s :: "'a apic_state_scheme"
  assume IH: "\<And>len ah (s :: 'a apic_state_scheme) r. f len ah s = Some r \<Longrightarrow> \<not> (len > 0 \<and> stuck_entry (kram s) ah)"
    and run: "(if len > 0 then
       rbind (madt_entry ah s) (\<lambda>s. f (len - ucast (kram s (ah + 1))) (ah + ucast (kram s (ah + 1))) s)
     else ret s) = Some r"
  show "\<not> (len > 0 \<and> stuck_entry (kram s) ah)"
  proof (intro notI, elim conjE)
    assume z: "len > 0" "stuck_entry (kram s) ah"
    then have "madt_entry ah s = ret s" "kram s (ah + 1) = 0" by (simp_all add: madt_entry_def stuck_entry_def)
    with run z(1) have "f len ah s = Some r" by simp
    from IH[OF this] z show False by simp
  qed
qed

text \<open>C39. \<^verbatim>\<open>apic_init\<close> on the entries of the MADT. When \<open>n\<close> bytes from \<open>a\<close> on are entries
  of non-zero length and the arrays have room, the loop records exactly the enabled local
  APICs and the I/O APICs among them, in order, and returns at the end of the table. When
  bytes are left and an entry of another type with length 0 comes next, it never returns.\<close>

theorem madt_enumerates:
  assumes "madt_entries (kram s) n a = Some es" and "n + k < 2 ^ 64"
    and "length (lapic s) + length es \<le> 256" "length (ioapic s) + length es \<le> 256"
  shows "(k = 0 \<longrightarrow> madt_loop (of_nat (n + k)) a s = ret (add_controllers es s)) \<and>
    (0 < k \<and> stuck_entry (kram s) (a + of_nat n) \<longrightarrow> madt_loop (of_nat (n + k)) a s = None)"
proof -
  let ?s = "add_controllers es s"
  have "madt_loop 0 b ?s = ret ?s" for b by (subst madt_loop.simps) simp
  moreover have "madt_loop (of_nat k) (a + of_nat n) ?s = None"
    if "0 < k" "stuck_entry (kram s) (a + of_nat n)"
  proof -
    have "(0 :: u64) < of_nat k"
      using that(1) assms(2) unfolding word_less_nat_alt by (subst unat_of_nat_small) simp_all
    then show ?thesis
      using madt_loop_not_stuck that(2) by (cases "madt_loop (of_nat k) (a + of_nat n) ?s")
        (fastforce simp: add_controllers_def)+
  qed
  ultimately show ?thesis using madt_loop_prefix[OF assms] by (cases "k = 0") simp_all
qed

text \<open>A local APIC (enabled), a disabled one, an I/O APIC, then an entry of type 2 and length 0.\<close>

definition madt_mem :: mem where
  "madt_mem = (\<lambda>_. 0)(0x101 := 8, 0x104 := 1, 0x109 := 8, 0x110 := 1, 0x111 := 12, 0x11C := 2)"

definition madt_start :: apic_state where
  "madt_start = \<lparr>kram = madt_mem, pml4_loc = 0x1000, page_offset = 0, ktotal_mem = 0, kavailable_mem = 0,
     page_frames = 0, page_count = 0, klog = [], kidt = [], kidtr = (0, 0), rsdp = 0,
     lapic = [], ioapic = [], lapic_addr = 0, msr_apic_base = 0\<rparr>"

lemma madt_enumerates_witness:
  "madt_loop 28 0x100 madt_start = ret (madt_start\<lparr>lapic := [0x100], ioapic := [0x110]\<rparr>) \<and>
   madt_loop 30 0x100 madt_start = None"
proof -
  have es: "madt_entries madt_mem 28 0x100 = Some [0x100, 0x108, 0x110]"
    by (simp add: madt_entries.simps madt_mem_def)
  have st: "kram madt_start = madt_mem" "lapic madt_start = []" "ioapic madt_start = []"
    by (simp_all add: madt_start_def)
  have ac: "add_controllers [0x100, 0x108, 0x110] madt_start = madt_start\<lparr>lapic := [0x100], ioapic := [0x110]\<rparr>"
  proof -
    have "filter (enabled_lapic madt_mem) [0x100, 0x108, 0x110] = [0x100]"
      "filter (\<lambda>e. madt_mem e = 1) [0x100, 0x108, 0x110] = [0x110]" by code_simp+
    then show ?thesis by (simp only: add_controllers_def st append_Nil)
  qed
  have "stuck_entry madt_mem 0x11C" by (simp add: stuck_entry_def madt_mem_def)
  then show ?thesis
    using madt_enumerates[of madt_start 28 "0x100" "[0x100, 0x108, 0x110]" 0]
      madt_enumerates[of madt_start 28 "0x100" "[0x100, 0x108, 0x110]" 2] es st ac by simp
qed

end
