(* ===== verification/Kmain.thy ===== *)
theory Kmain
  imports Layout Apic Drivers
begin

text \<open>
  The registers of the processor behind \<^verbatim>\<open>cr.h\<close> and \<^verbatim>\<open>msr.h\<close>, and the entry
  \<^verbatim>\<open>kmain\<close> of the kernel, which puts its parts together.
\<close>

section \<open>Registers\<close>

record registers =
  reg_cr0 :: u64
  reg_cr2 :: u64
  reg_cr3 :: u64
  reg_cr4 :: u64
  reg_cr8 :: u64
  reg_msr :: "u32 \<Rightarrow> u64"

definition get_cr0 :: "registers \<Rightarrow> u64" where "get_cr0 r = reg_cr0 r"
definition set_cr0 :: "u64 \<Rightarrow> registers \<Rightarrow> registers" where "set_cr0 cr r = r\<lparr>reg_cr0 := cr\<rparr>"
definition get_cr2 :: "registers \<Rightarrow> u64" where "get_cr2 r = reg_cr2 r"
definition set_cr2 :: "u64 \<Rightarrow> registers \<Rightarrow> registers" where "set_cr2 cr r = r\<lparr>reg_cr2 := cr\<rparr>"
definition get_cr3 :: "registers \<Rightarrow> u64" where "get_cr3 r = reg_cr3 r"
definition set_cr3 :: "u64 \<Rightarrow> registers \<Rightarrow> registers" where "set_cr3 cr r = r\<lparr>reg_cr3 := cr\<rparr>"
definition get_cr4 :: "registers \<Rightarrow> u64" where "get_cr4 r = reg_cr4 r"
definition set_cr4 :: "u64 \<Rightarrow> registers \<Rightarrow> registers" where "set_cr4 cr r = r\<lparr>reg_cr4 := cr\<rparr>"
definition get_cr8 :: "registers \<Rightarrow> u64" where "get_cr8 r = reg_cr8 r"
definition set_cr8 :: "u64 \<Rightarrow> registers \<Rightarrow> registers" where "set_cr8 cr r = r\<lparr>reg_cr8 := cr\<rparr>"

text \<open>\<^verbatim>\<open>rdmsr\<close> gives the halves in EDX and EAX, which go to the two halves of the
  variable at \<open>p\<close>; \<^verbatim>\<open>wrmsr\<close> takes them from there.\<close>

definition msr_read :: "u32 \<Rightarrow> u64 \<Rightarrow> registers \<Rightarrow> mem \<Rightarrow> mem" where
  "msr_read msr p r m =
     (let low = ucast (reg_msr r msr) :: u32; high = ucast (drop_bit 32 (reg_msr r msr)) :: u32
      in store32 (store32 m p low) (p + 4) high)"

definition msr_write :: "u32 \<Rightarrow> u64 \<Rightarrow> registers \<Rightarrow> registers" where
  "msr_write msr v r =
     (let low = ucast v :: u32; high = ucast (drop_bit 32 v) :: u32
      in r\<lparr>reg_msr := (reg_msr r)(msr := push_bit 32 (ucast high) OR ucast low)\<rparr>)"

lemma load_le_add: "load_le (n + k) m a = load_le n m a OR push_bit (8 * n) (load_le k m (a + of_nat n))"
proof (induction n arbitrary: a)
  case 0 then show ?case by simp
next
  case (Suc n)
  show ?case
    by (simp add: Suc push_bit_or push_bit_push_bit or.assoc add.assoc add.commute[of 1])
qed

lemma load_le_ucast32: "ucast (load32 m a) = load_le 4 m a"
  by (rule bit_word_eqI) (auto simp: load32_def bit_simps bit_load_le)

lemma msr_roundtrip: "load64 (msr_read msr p (msr_write msr v r) m) p = v"
proof -
  let ?lo = "ucast v :: u32" and ?hi = "ucast (drop_bit 32 v) :: u32"
  have w: "push_bit 32 (ucast ?hi) OR ucast ?lo = v" by (rule bit_word_eqI) (auto simp: bit_simps)
  let ?m = "store32 (store32 m p ?lo) (p + 4) ?hi"
  have eq: "msr_read msr p (msr_write msr v r) m = ?m" by (simp add: msr_read_def msr_write_def Let_def w)
  have lo: "load32 ?m p = ?lo" by (subst load32_store32_apart) simp_all
  have hi: "load32 ?m (p + 4) = ?hi" by simp
  have "load64 ?m p = load_le 4 ?m p OR push_bit 32 (load_le 4 ?m (p + 4))"
    using load_le_add[of 4 4 ?m p] by (simp add: load64_def)
  then show ?thesis unfolding eq load_le_ucast32[symmetric] lo hi using w by (simp add: or.commute)
qed

section \<open>The entry of the kernel\<close>

text \<open>The kernel's parts share the paging state: the drivers take it over from the processor's
  part and give it back. Debug output is left out. The last loop of \<^verbatim>\<open>kmain\<close> never ends; the result is the state in
  which it spins. \<open>None\<close> is a part that does not return.\<close>

record kmain_state =
  k_cpu :: apic_state
  k_drv :: drv_state

definition kmain_drivers :: "nat \<Rightarrow> device \<Rightarrow> hardware \<Rightarrow> kmain_state \<Rightarrow> kmain_state result" where
  "kmain_drivers n pci hw s =
     (let d = (k_drv s)\<lparr>d_kernel := kpage_state.truncate (k_cpu s)\<rparr>
      in rbind (drv_pci_init n pci d) (\<lambda>d.
         rbind (drv_ahci_init pci hw d) (\<lambda>(_, d).
           ret (s\<lparr>k_drv := d, k_cpu := kpage_state.extend (d_kernel d) (kpage_state.more (k_cpu s))\<rparr>))))"

definition kmain ::
  "mmio \<Rightarrow> (nat \<Rightarrow> u64) \<Rightarrow> (nat \<Rightarrow> u64) \<Rightarrow> u64 \<Rightarrow> nat \<Rightarrow> device \<Rightarrow> hardware \<Rightarrow> kmain_state \<Rightarrow> kmain_state result" where
  "kmain rd isr irq idt_addr n pci hw s =
     rbind (kmain_cpu rd isr irq idt_addr (k_cpu s)) (\<lambda>(acpi, c).
       let s = s\<lparr>k_cpu := c\<rparr> in
       if acpi then kmain_drivers n pci hw s else ret s)"

text \<open>The drivers work on the page tables and nothing else of the processor's part: what
  \<^verbatim>\<open>acpi_init\<close> and \<^verbatim>\<open>apic_init\<close> found stays.\<close>

lemma kmain_drivers_keep:
  assumes "kmain_drivers n pci hw s = ret s'"
  shows "kpage_state.more (k_cpu s') = kpage_state.more (k_cpu s)"
proof -
  let ?d = "(k_drv s)\<lparr>d_kernel := kpage_state.truncate (k_cpu s)\<rparr>"
  obtain d1 where "drv_pci_init n pci ?d = ret d1"
    using assms unfolding kmain_drivers_def Let_def by (cases "drv_pci_init n pci ?d" rule: rbind_cases) auto
  note p = this
  obtain ok d2 where "drv_ahci_init pci hw d1 = ret (ok, d2)"
    using assms unfolding kmain_drivers_def Let_def p by (cases "drv_ahci_init pci hw d1" rule: rbind_cases) auto
  with p assms show ?thesis by (auto simp: kmain_drivers_def Let_def kpage_state.defs)
qed

text \<open>Without the ACPI root pointer \<^verbatim>\<open>kmain\<close> goes straight to its last loop: no interrupt
  controller, bus or drive is initialised.\<close>

lemma kmain_without_acpi:
  assumes "kmain_cpu rd isr irq idt_addr (k_cpu s) = ret (False, c)"
  shows "kmain rd isr irq idt_addr n pci hw s = ret (s\<lparr>k_cpu := c\<rparr>)"
  using assms by (simp add: kmain_def Let_def)

end
