(* ===== verification/PageFaults.thy ===== *)
theory PageFaults
  imports Memory
begin

text \<open>
  The fault handler and the block lists of \<^verbatim>\<open>paging.c\<close>: which faults are repaired, and
  the segregated lists of free physical blocks as a second instance of the list interface.
\<close>

section \<open>The free lists of physical blocks\<close>

definition pages_sep :: "nat set \<Rightarrow> u64 set \<Rightarrow> bool" where
  "pages_sep H N \<longleftrightarrow> (\<forall>a\<in>N. \<forall>b\<in>N. a \<noteq> b \<longrightarrow>
     apart (a + 16) (b + 16) \<and> apart (a + 16) (b + 24) \<and> apart (a + 24) (b + 24))"

interpretation pl: dlist "\<lambda>s :: page_state. prev_block (ram s)" "\<lambda>s. next_block (ram s)"
  "\<lambda>s b v. s\<lparr>ram := set_prev (ram s) b v\<rparr>" "\<lambda>s b v. s\<lparr>ram := set_next (ram s) b v\<rparr>"
  page_list "\<lambda>s h v. s\<lparr>page_list := (page_list s)(h := v)\<rparr>" pages_sep
proof unfold_locales
  fix H N and a b v :: u64 and s :: page_state
  assume ok: "pages_sep H N" and "a \<in> N" "b \<in> N"
  then have *: "a \<noteq> b \<Longrightarrow> apart (b + 16) (a + 16) \<and> apart (b + 24) (a + 24)
      \<and> apart (b + 16) (a + 24) \<and> apart (b + 24) (a + 16)"
    using apart_sym unfolding pages_sep_def by metis
  show "prev_block (ram (s\<lparr>ram := set_prev (ram s) a v\<rparr>)) b = (if a = b then v else prev_block (ram s) b)"
    and "next_block (ram (s\<lparr>ram := set_next (ram s) a v\<rparr>)) b = (if a = b then v else next_block (ram s) b)"
    using * by (simp_all add: link_defs frame)
  show "prev_block (ram (s\<lparr>ram := set_next (ram s) a v\<rparr>)) b = prev_block (ram s) b"
    and "next_block (ram (s\<lparr>ram := set_prev (ram s) a v\<rparr>)) b = next_block (ram s) b"
    using * by (cases "a = b"; simp add: link_defs frame link_apart)+
qed simp_all

lemma page_list_insert_eq: "page_list_insert s i b = pl.push s i b"
  by (simp add: page_list_insert_def pl.push_def)

lemma page_list_remove_eq:
  assumes "pages_sep {..<31} N" "b \<in> N" "next_block (ram s) b = 0 \<or> next_block (ram s) b \<in> N" "i < 31"
  shows "page_list_remove s i b = Inr (pl.unlink s i b)"
proof (cases "next_block (ram s) b = 0")
  case False
  then have "next_block (set_prev (ram s) (next_block (ram s) b) 0) b = next_block (ram s) b"
    using pl.getn_setp[OF assms(1), of "next_block (ram s) b" b s 0] assms by simp
  then show ?thesis using assms(4) by (simp add: page_list_remove_def pl.unlink_def Let_def)
qed (use assms in \<open>simp add: page_list_remove_def pl.unlink_def Let_def\<close>)

text \<open>All 31 lists; \<open>L\<close> gives the blocks of each.\<close>

definition page_lists :: "page_state \<Rightarrow> (nat \<Rightarrow> u64 list) \<Rightarrow> bool" where
  "page_lists s L \<longleftrightarrow>
     (\<forall>h<31. dll (next_block (ram s)) (prev_block (ram s)) (page_list s h) (L h) \<and> distinct (L h)) \<and>
     (\<forall>h<31. \<forall>k<31. h \<noteq> k \<longrightarrow> set (L h) \<inter> set (L k) = {})"

lemma page_lists_eq: "page_lists s L \<longleftrightarrow> pl.family s {..<31} L"
  by (auto simp: page_lists_def pl.family_def)

lemma PAGE_SIZE_IDX_eq:
  "s div PAGE_SIZE \<le> PAGE_LIST_MAX \<Longrightarrow> PAGE_SIZE_IDX s = int (unat (s div PAGE_SIZE))"
  "\<not> s div PAGE_SIZE \<le> PAGE_LIST_MAX \<Longrightarrow> PAGE_SIZE_IDX s = - 1"
  by (simp_all add: PAGE_SIZE_IDX_def sint_ucast_byte word_le_nat_alt)

lemma page_free_remove_list:
  assumes L: "page_lists s L" and sep: "pages_sep {..<31} N" and N: "\<forall>h<31. set (L h) \<subseteq> N"
    and n: "n = unat (page_size (ram s) b div PAGE_SIZE)" "n < 31" and b: "b \<in> set (L n)"
  shows "\<exists>s'. page_free_remove s b = Inr s' \<and> page_lists s' (L(n := remove1 b (L n)))"
proof -
  have "page_size (ram s) b div PAGE_SIZE \<le> PAGE_LIST_MAX" using n by (simp add: word_le_nat_alt)
  then have i: "PAGE_SIZE_IDX (page_size (ram s) b) = int n" using n PAGE_SIZE_IDX_eq(1) by simp
  obtain ys zs where sp: "L n = ys @ b # zs" using b by (meson split_list)
  have "dll (next_block (ram s)) (prev_block (ram s)) (page_list s n) (ys @ b # zs)"
    using L n(2) by (simp add: page_lists_def flip: sp)
  from dll_next[OF this] have "next_block (ram s) b = 0 \<or> next_block (ram s) b \<in> set (L n)"
    by (auto simp: sp)
  then have "page_list_remove s n b = Inr (pl.unlink s n b)"
    using N n(2) b by (intro page_list_remove_eq[OF sep]) auto
  moreover have "pl.family (pl.unlink s n b) {..<31} (L(n := remove1 b (L n)))"
    by (rule pl.unlink_family[OF sep]) (use L N n(2) b in \<open>auto simp: page_lists_eq [symmetric]\<close>)
  ultimately show ?thesis using i by (simp add: page_free_remove_def page_lists_eq)
qed

section \<open>Properties\<close>

text \<open>C24. The lists of free physical blocks. \<open>n\<close> is the size of the block in pages: up to 30
  the block is pushed on list \<open>n\<close> and all other lists stay; for 31 and 32 the code indexes
  \<^verbatim>\<open>_page_list[31]\<close> out of its bounds; larger blocks go to the tree.\<close>

theorem page_free_insert_cases:
  assumes L: "page_lists s L" and sep: "pages_sep {..<31} N" and N: "\<forall>h<31. set (L h) \<subseteq> N"
    and b: "b \<in> N" "b \<noteq> 0" "\<forall>h<31. b \<notin> set (L h)"
    and n: "n = unat (page_size (ram s) b div PAGE_SIZE)"
  shows "if n < 31 then \<exists>s'. page_free_insert s b = Some (Inr s') \<and> page_lists s' (L(n := b # L n))
    else if n \<le> 32 then page_free_insert s b = Some (Inl OutOfBounds)
    else page_free_insert s b = map_option (\<lambda>(s', _). Inr s') (page_tree_insert s b)"
proof -
  let ?q = "page_size (ram s) b div PAGE_SIZE"
  have le: "?q \<le> PAGE_LIST_MAX \<longleftrightarrow> n \<le> 32" by (simp add: n word_le_nat_alt)
  show ?thesis
  proof (cases "n < 31")
    case True
    then have i: "PAGE_SIZE_IDX (page_size (ram s) b) = int n" using le n PAGE_SIZE_IDX_eq(1) by simp
    have "pl.family (pl.push s n b) {..<31} (L(n := b # L n))"
      by (rule pl.push_family[OF sep]) (use L N b True in \<open>auto simp: page_lists_eq [symmetric]\<close>)
    with i True show ?thesis
      by (simp add: page_free_insert_def page_list_insert_eq page_lists_eq)
  next
    case False
    show ?thesis
    proof (cases "n \<le> 32")
      case True
      then have "PAGE_SIZE_IDX (page_size (ram s) b) = int n" using le n PAGE_SIZE_IDX_eq(1) by simp
      with False True show ?thesis by (simp add: page_free_insert_def)
    next
      case big: False
      then have "PAGE_SIZE_IDX (page_size (ram s) b) = - 1" using le PAGE_SIZE_IDX_eq(2) by blast
      with False big show ?thesis
        by (cases "page_tree_insert s b") (auto simp: page_free_insert_def)
    qed
  qed
qed

theorem page_free_insert_cases_witness:
  "\<exists>s'. page_free_insert (boot_state\<lparr>ram := store64 (\<lambda>_. 0) 0x200008 0x1000\<rparr>) 0x200000 = Some (Inr s') \<and>
     page_lists s' ((\<lambda>_. [])(1 := [0x200000]))"
proof -
  let ?s = "boot_state\<lparr>ram := store64 (\<lambda>_. 0) 0x200008 0x1000\<rparr>"
  have L: "page_lists ?s (\<lambda>_. [])" by (simp add: page_lists_def boot_state_def)
  have sep: "pages_sep {..<31} {0x200000}" by (simp add: pages_sep_def)
  have n: "1 = unat (page_size (ram ?s) 0x200000 div PAGE_SIZE)" by (simp add: page_size_def)
  from page_free_insert_cases[OF L sep _ _ _ _ n] show ?thesis by simp
qed

text \<open>When no table is missing, the allocator of tables does not matter.\<close>

interpretation no_alloc: table_allocator al "\<lambda>s T k. k = 0" for al
  by unfold_locales simp_all



end
