(* ===== verification/E820.thy ===== *)
theory E820
  imports Paging "HOL-Library.Multiset"
begin

text \<open>
  \<^verbatim>\<open>sort_e820\<close>: the bubble sort on the packed entries of the memory map refines a
  bubble sort on the list of entries, which sorts by base address and keeps every entry.
\<close>

section \<open>Bubble sort on lists\<close>

definition swap_at :: "nat \<Rightarrow> 'a list \<Rightarrow> 'a list" where
  "swap_at i xs = xs[i := xs ! Suc i, Suc i := xs ! i]"

function bubble_pass :: "('a \<Rightarrow> 'k::linorder) \<Rightarrow> nat \<Rightarrow> nat \<Rightarrow> 'a list \<Rightarrow> bool \<Rightarrow> 'a list \<times> bool" where
  "bubble_pass f i bound xs sw =
    (if i < bound then
       if f (xs ! Suc i) < f (xs ! i) then bubble_pass f (Suc i) bound (swap_at i xs) True
       else bubble_pass f (Suc i) bound xs sw
     else (xs, sw))"
  by pat_completeness auto
termination by (relation "measure (\<lambda>(f, i, b, xs, sw). b - i)") auto

declare bubble_pass.simps [simp del]

function bubble_loop :: "('a \<Rightarrow> 'k::linorder) \<Rightarrow> nat \<Rightarrow> 'a list \<Rightarrow> bool \<Rightarrow> 'a list" where
  "bubble_loop f cnt xs sw =
    (if cnt > 0 \<and> sw then
       let (xs, sw) = bubble_pass f 0 (cnt - 1) xs False in bubble_loop f (cnt - 1) xs sw
     else xs)"
  by pat_completeness auto
termination by (relation "measure (\<lambda>(f, c, xs, sw). c)") auto

declare bubble_loop.simps [simp del]

lemma length_swap_at [simp]: "length (swap_at i xs) = length xs"
  by (simp add: swap_at_def)

lemma swap_at_nth:
  "Suc i < length xs \<Longrightarrow> swap_at i xs ! k = (if k = i then xs ! Suc i else if k = Suc i then xs ! i else xs ! k)"
  by (auto simp: swap_at_def nth_list_update)

lemma mset_swap_at: "Suc i < length xs \<Longrightarrow> mset (swap_at i xs) = mset xs"
  unfolding swap_at_def using mset_swap[of "Suc i" xs i] by simp

text \<open>A pass over the first \<open>bound + 1\<close> elements moves their maximum to the end of them and
  keeps the rest; a pass without exchange found them sorted.\<close>

definition prefix_sorted :: "('a \<Rightarrow> 'k::linorder) \<Rightarrow> nat \<Rightarrow> 'a list \<Rightarrow> bool" where
  "prefix_sorted f n xs \<longleftrightarrow> (\<forall>k. Suc k < n \<longrightarrow> f (xs ! k) \<le> f (xs ! Suc k))"

lemma bubble_pass_spec:
  assumes "bubble_pass f i b xs sw = (ys, sw')" "b < length xs" "i \<le> b" "\<forall>k<i. f (xs ! k) \<le> f (xs ! i)"
  shows "mset ys = mset xs \<and> length ys = length xs \<and> (\<forall>k. b < k \<longrightarrow> k < length xs \<longrightarrow> ys ! k = xs ! k) \<and>
    (\<forall>k<b. f (ys ! k) \<le> f (ys ! b)) \<and>
    mset (take (Suc b) ys) = mset (take (Suc b) xs) \<and> (sw \<longrightarrow> sw') \<and>
    (\<not> sw' \<longrightarrow> ys = xs \<and> (\<forall>k. i \<le> k \<longrightarrow> k < b \<longrightarrow> f (xs ! k) \<le> f (xs ! Suc k)))"
  using assms
proof (induction f i b xs sw arbitrary: ys sw' rule: bubble_pass.induct)
  case (1 f i b xs sw)
  show ?case
  proof (cases "i < b")
    case False
    then have "ys = xs" "sw' = sw" "i = b"
      using "1.prems"(1,3) by (simp_all add: bubble_pass.simps[of f b b xs sw])
    then show ?thesis using "1.prems"(4) by simp
  next
    case lt: True
    show ?thesis
    proof (cases "f (xs ! Suc i) < f (xs ! i)")
      case True
      let ?zs = "swap_at i xs"
      have len: "Suc i < length xs" using lt "1.prems"(2) by simp
      have step: "bubble_pass f (Suc i) b ?zs True = (ys, sw')"
        using "1.prems"(1) lt True by (simp add: bubble_pass.simps[of f i b xs sw])
      have pre: "\<forall>k<Suc i. f (?zs ! k) \<le> f (?zs ! Suc i)"
      proof (intro allI impI)
        fix k assume "k < Suc i"
        then show "f (?zs ! k) \<le> f (?zs ! Suc i)"
          using "1.prems"(4) True by (cases "k = i") (simp_all add: swap_at_nth[OF len])
      qed
      have "mset (take (Suc b) ?zs) = mset (take (Suc b) xs)"
      proof -
        have "take (Suc b) ?zs = swap_at i (take (Suc b) xs)"
          using lt len by (intro nth_equalityI) (auto simp: swap_at_nth)
        then show ?thesis using lt len by (simp add: mset_swap_at)
      qed
      moreover have "\<forall>k. b < k \<longrightarrow> k < length xs \<longrightarrow> ?zs ! k = xs ! k"
        using lt by (simp add: swap_at_nth[OF len])
      ultimately show ?thesis
        using "1.IH"(1)[OF lt True step] pre "1.prems"(2) lt by (simp add: mset_swap_at[OF len])
    next
      case False
      have step: "bubble_pass f (Suc i) b xs sw = (ys, sw')"
        using "1.prems"(1) lt False by (simp add: bubble_pass.simps[of f i b xs sw])
      have le: "f (xs ! i) \<le> f (xs ! Suc i)" using False by simp
      then have pre: "\<forall>k<Suc i. f (xs ! k) \<le> f (xs ! Suc i)"
        using "1.prems"(4) by (auto simp: less_Suc_eq intro: order_trans)
      have "\<forall>k. i \<le> k \<longrightarrow> k < b \<longrightarrow> f (xs ! k) \<le> f (xs ! Suc k)"
        if "\<forall>k. Suc i \<le> k \<longrightarrow> k < b \<longrightarrow> f (xs ! k) \<le> f (xs ! Suc k)"
        using that le by (metis Suc_leI le_neq_implies_less)
      then show ?thesis
        using "1.IH"(2)[OF lt False step] pre "1.prems"(2) lt by simp
    qed
  qed
qed

text \<open>The loop: the elements from \<open>cnt\<close> on are in order and not smaller than any before.\<close>

lemma bubble_loop_spec:
  assumes "cnt \<le> length xs" "sw \<or> prefix_sorted f cnt xs"
    and "\<forall>k. cnt \<le> k \<longrightarrow> Suc k < length xs \<longrightarrow> f (xs ! k) \<le> f (xs ! Suc k)"
    and "\<forall>j k. j < cnt \<longrightarrow> cnt \<le> k \<longrightarrow> k < length xs \<longrightarrow> f (xs ! j) \<le> f (xs ! k)"
  shows "mset (bubble_loop f cnt xs sw) = mset xs \<and> prefix_sorted f (length xs) (bubble_loop f cnt xs sw)"
  using assms
proof (induction f cnt xs sw rule: bubble_loop.induct)
  case (1 f cnt xs sw)
  show ?case
  proof (cases "cnt > 0 \<and> sw")
    case False
    have "f (xs ! k) \<le> f (xs ! Suc k)" if "Suc k < length xs" for k
    proof -
      consider "Suc k < cnt" | "Suc k = cnt" | "cnt \<le> k" by linarith
      then show ?thesis
        using "1.prems" False that by cases (auto simp: prefix_sorted_def)
    qed
    with False show ?thesis by (subst (1 2) bubble_loop.simps) (auto simp: prefix_sorted_def)
  next
    case True
    let ?b = "cnt - 1"
    obtain ys sw' where p: "bubble_pass f 0 ?b xs False = (ys, sw')" by (meson surj_pair)
    have b: "?b < length xs" "Suc ?b = cnt" using True "1.prems"(1) by auto
    note s = bubble_pass_spec[OF p b(1)]
    have ys: "mset ys = mset xs" "length ys = length xs" "\<And>k. ?b < k \<Longrightarrow> k < length xs \<Longrightarrow> ys ! k = xs ! k"
      "\<And>k. k < ?b \<Longrightarrow> f (ys ! k) \<le> f (ys ! ?b)" "mset (take cnt ys) = mset (take cnt xs)"
      "\<not> sw' \<Longrightarrow> prefix_sorted f cnt ys"
      using s b(2) by (auto simp: prefix_sorted_def)
    have old: "f (ys ! j) \<le> f (xs ! k)" if "j < cnt" "cnt \<le> k" "k < length xs" for j k
    proof -
      have "ys ! j \<in> set (take cnt ys)" using that ys(2) by (auto simp: in_set_conv_nth)
      then have "ys ! j \<in> set (take cnt xs)" using ys(5) by (metis set_mset_mset)
      then obtain j' where "j' < cnt" "ys ! j = xs ! j'" using that by (auto simp: in_set_conv_nth)
      then show ?thesis using "1.prems"(4) that by simp
    qed
    have A: "f (ys ! k) \<le> f (ys ! Suc k)" if "?b \<le> k" "Suc k < length ys" for k
    proof (cases "k = ?b")
      case True
      then show ?thesis using old[of ?b "Suc ?b"] ys(2,3) that b by simp
    next
      case False
      then show ?thesis using "1.prems"(3) ys(2,3) that b by simp
    qed
    have B: "f (ys ! j) \<le> f (ys ! k)" if "j < ?b" "?b \<le> k" "k < length ys" for j k
    proof (cases "k = ?b")
      case True then show ?thesis using ys(4) that by simp
    next
      case False then show ?thesis using old[of j k] ys(2,3) that b by simp
    qed
    have C: "sw' \<or> prefix_sorted f ?b ys" using ys(6) b by (auto simp: prefix_sorted_def)
    have "bubble_loop f cnt xs sw = bubble_loop f ?b ys sw'"
      using True p by (subst bubble_loop.simps) simp
    with "1.IH"[OF True p [symmetric]] A B C ys(1,2) b show ?thesis by auto
  qed
qed

lemma bubble_sorts:
  "mset (bubble_loop f (length xs) xs True) = mset xs"
  "sorted (map f (bubble_loop f (length xs) xs True))"
proof -
  note s = bubble_loop_spec[of "length xs" xs True f]
  show m: "mset (bubble_loop f (length xs) xs True) = mset xs" using s by simp
  have "length (bubble_loop f (length xs) xs True) = length xs" using m by (metis size_mset)
  then show "sorted (map f (bubble_loop f (length xs) xs True))"
    using s by (simp add: prefix_sorted_def sorted_iff_nth_Suc)
qed

section \<open>The map in memory\<close>

text \<open>The entries of a map of \<open>n\<close> entries, each as its 26 bytes, and the fields of such an entry.\<close>

definition e820_list :: "mem \<Rightarrow> u64 \<Rightarrow> nat \<Rightarrow> u8 list list" where
  "e820_list m mmap n = map (\<lambda>i. read_entry m (e820_entry mmap (of_nat i))) [0..<n]"

definition base_of :: "u8 list \<Rightarrow> u64" where
  "base_of bs = load64 (\<lambda>a. bs ! unat a) 2"

definition len_of :: "u8 list \<Rightarrow> u64" where
  "len_of bs = load64 (\<lambda>a. bs ! unat a) 10"

definition type_of :: "u8 list \<Rightarrow> u32" where
  "type_of bs = load32 (\<lambda>a. bs ! unat a) 18"

definition map_fits :: "u64 \<Rightarrow> nat \<Rightarrow> bool" where
  "map_fits mmap n \<longleftrightarrow> unat mmap + 2 + 26 * n < 2 ^ 64 \<and> n < 65536"

lemma e820_list_length [simp]: "length (e820_list m mmap n) = n"
  by (simp add: e820_list_def)

lemma e820_list_nth [simp]: "i < n \<Longrightarrow> e820_list m mmap n ! i = read_entry m (e820_entry mmap (of_nat i))"
  by (simp add: e820_list_def)

lemma load_le_shift:
  "n + unat b \<le> 26 \<Longrightarrow> load_le n m (a + b) = load_le n (\<lambda>c. read_entry m a ! unat c) b"
proof (induction n arbitrary: b)
  case (Suc n)
  have u: "unat (b + 1) = Suc (unat b)" using Suc.prems unat64_lt[of b] by (simp add: unat_word_ariths)
  have "read_entry m a ! unat b = m (a + b)"
    using Suc.prems by (simp add: read_entry_def)
  moreover have "load_le n m (a + b + 1) = load_le n (\<lambda>c. read_entry m a ! unat c) (b + 1)"
    using Suc.IH[of "b + 1"] Suc.prems u by (simp add: add.assoc)
  ultimately show ?case by simp
qed simp

lemma e820_base_entry: "e820_base m mmap i = base_of (read_entry m (e820_entry mmap i))"
  unfolding e820_base_def base_of_def load64_def by (rule load_le_shift) simp

lemma e820_length_entry: "e820_length m mmap i = len_of (read_entry m (e820_entry mmap i))"
  unfolding e820_length_def len_of_def load64_def by (rule load_le_shift) simp

lemma e820_type_entry: "e820_type m mmap i = type_of (read_entry m (e820_entry mmap i))"
  unfolding e820_type_def type_of_def load32_def by (subst load_le_shift) simp_all

lemma entry_unat:
  assumes "map_fits mmap n" "i \<le> n"
  shows "unat (e820_entry mmap (of_nat i)) = unat mmap + 2 + 26 * i"
proof -
  have i: "i < 65536" "unat mmap + 2 + 26 * i < 2 ^ 64" using assms by (auto simp: map_fits_def)
  have u: "unat (of_nat i :: u64) = i" by (rule unat_of_nat_small) (use i in simp)
  have "unat (26 * of_nat i :: u64) = 26 * i" using i by (simp add: unat_word_ariths u)
  moreover have "unat (mmap + 2) = unat mmap + 2" using i by (simp add: unat_word_ariths)
  ultimately show ?thesis using i unfolding e820_entry_def by (simp add: unat_word_ariths)
qed

text \<open>Reading back what was written, and what a write leaves alone.\<close>

lemma write_bytes_fold:
  "k \<le> 26 \<Longrightarrow> fold (\<lambda>k m. m(a + of_nat k := bs ! k)) [0..<k] m x =
     (if x \<in> addrs a k then bs ! unat (x - a) else m x)"
proof (induction k)
  case (Suc k)
  have "x \<in> addrs a (Suc k) \<longleftrightarrow> x = a + of_nat k \<or> x \<in> addrs a k"
  proof -
    have "unat (of_nat k :: u64) = k" by (rule unat_of_nat_small) (use Suc.prems in simp)
    then have "unat (x - a) = k \<longleftrightarrow> x = a + of_nat k"
      by (metis add_diff_cancel_left' diff_add_cancel add.commute word_unat_eq_iff)
    then show ?thesis by (auto simp: in_addrs_iff less_Suc_eq)
  qed
  moreover have "unat (a + of_nat k - a) = k" using Suc.prems by (simp add: unat_of_nat_small)
  ultimately show ?case using Suc by auto
qed simp

lemma write_entry_eq: "write_entry m a bs x = (if x \<in> addrs a 26 then bs ! unat (x - a) else m x)"
  unfolding write_entry_def by (rule write_bytes_fold) simp

lemma read_write_entry:
  assumes "length bs = 26"
  shows "read_entry (write_entry m a bs) a = bs"
proof (rule nth_equalityI)
  fix i assume "i < length (read_entry (write_entry m a bs) a)"
  then have i: "i < 26" by (simp add: read_entry_def)
  then have "unat (of_nat i :: u64) = i" by (intro unat_of_nat_small) simp
  with i show "read_entry (write_entry m a bs) a ! i = bs ! i"
    by (simp add: read_entry_def write_entry_eq in_addrs_iff)
qed (use assms in \<open>simp add: read_entry_def\<close>)

lemma read_entry_cong: "(\<And>x. x \<in> addrs a 26 \<Longrightarrow> m' x = m x) \<Longrightarrow> read_entry m' a = read_entry m a"
  by (simp add: read_entry_def)

lemma read_entry_length [simp]: "length (read_entry m a) = 26"
  by (simp add: read_entry_def)

text \<open>The exchange in memory is the exchange in the list, and touches nothing else.\<close>

lemma e820_swap_refines:
  assumes fit: "map_fits mmap n" and i: "Suc i < n"
  shows "e820_list (e820_swap m mmap (of_nat i)) mmap n = swap_at i (e820_list m mmap n)"
    and "x \<notin> addrs (mmap + 2) (26 * n) \<Longrightarrow> e820_swap m mmap (of_nat i) x = m x"
proof -
  let ?a = "\<lambda>k. e820_entry mmap (of_nat k)"
  have s: "e820_entry mmap (of_nat i + 1) = ?a (Suc i)" by (simp add: add.commute)
  have u: "unat (?a k) = unat mmap + 2 + 26 * k" if "k \<le> n" for k by (rule entry_unat[OF fit that])
  have top: "unat mmap + 2 + 26 * n \<le> 2 ^ 64" using fit by (simp add: map_fits_def)
  have dj: "addrs (?a j) 26 \<inter> addrs (?a k) 26 = {}" if "j < n" "k < n" "j \<noteq> k" for j k
    using addrs_disjointI[of "?a j" 26 "?a k" 26] addrs_disjointI[of "?a k" 26 "?a j" 26] u[of j] u[of k] that top
    by (cases "j < k") auto
  let ?m1 = "write_entry m (?a i) (read_entry m (?a (Suc i)))"
  let ?m2 = "write_entry ?m1 (?a (Suc i)) (read_entry m (?a i))"
  have sw: "e820_swap m mmap (of_nat i) = ?m2" by (simp add: e820_swap_def Let_def s)
  have ii: "i < n" "i \<noteq> Suc i" using i by auto
  have "read_entry ?m2 (?a i) = read_entry ?m1 (?a i)"
    by (rule read_entry_cong) (use dj[OF ii(1) i ii(2)] in \<open>auto simp: write_entry_eq\<close>)
  then have r1: "read_entry ?m2 (?a i) = read_entry m (?a (Suc i))" by (simp add: read_write_entry)
  have r2: "read_entry ?m2 (?a (Suc i)) = read_entry m (?a i)" by (simp add: read_write_entry)
  have r3: "read_entry ?m2 (?a k) = read_entry m (?a k)" if "k < n" "k \<noteq> i" "k \<noteq> Suc i" for k
    by (rule read_entry_cong)
       (use dj[OF that(1) i that(3)] dj[OF that(1) ii(1) that(2)] in \<open>auto simp: write_entry_eq\<close>)
  show "e820_list (e820_swap m mmap (of_nat i)) mmap n = swap_at i (e820_list m mmap n)"
  proof (rule nth_equalityI)
    fix k assume "k < length (e820_list (e820_swap m mmap (of_nat i)) mmap n)"
    then have "k < n" by simp
    then show "e820_list (e820_swap m mmap (of_nat i)) mmap n ! k = swap_at i (e820_list m mmap n) ! k"
      using r1 r2 r3[of k] i by (simp add: swap_at_nth sw del: of_nat_Suc)
  qed simp
  assume x: "x \<notin> addrs (mmap + 2) (26 * n)"
  have "addrs (?a k) 26 \<subseteq> addrs (mmap + 2) (26 * n)" if "k < n" for k
  proof
    fix y assume "y \<in> addrs (?a k) 26"
    then have "unat (?a k) \<le> unat y \<and> unat y < unat (?a k) + 26"
      using u[of k] that top by (intro addrs_nowrap) auto
    moreover have "unat (mmap + 2) = unat mmap + 2" using fit by (simp add: map_fits_def unat_word_ariths)
    moreover have "26 * Suc k \<le> 26 * n" using that by (intro mult_le_mono2) simp
    ultimately have "unat (mmap + 2) \<le> unat y" "unat y - unat (mmap + 2) < 26 * n"
      using u[of k] that by linarith+
    then show "y \<in> addrs (mmap + 2) (26 * n)"
      by (simp add: in_addrs_iff unat_sub word_le_nat_alt)
  qed
  then have "x \<notin> addrs (?a i) 26" "x \<notin> addrs (?a (Suc i)) 26" using x i ii(1) by blast+
  then show "e820_swap m mmap (of_nat i) x = m x" by (simp add: sw write_entry_eq del: of_nat_Suc)
qed

lemma e820_pass_refines:
  "map_fits mmap n \<Longrightarrow> b < n \<Longrightarrow>
   (case e820_pass m mmap (of_nat i) (of_nat b) sw of (m', sw') \<Rightarrow>
     (e820_list m' mmap n, sw') = bubble_pass base_of i b (e820_list m mmap n) sw \<and>
     (\<forall>x. x \<notin> addrs (mmap + 2) (26 * n) \<longrightarrow> m' x = m x))"
  if "i < 65536"
  using that
proof (induction "b - i" arbitrary: i m sw)
  case 0
  then have "\<not> (of_nat i :: u64) < of_nat b"
    by (simp add: word_less_nat_alt unat_of_nat_small map_fits_def)
  with 0 show ?case by (simp add: e820_pass.simps bubble_pass.simps)
next
  case (Suc d)
  then have b: "b < 65536" "i < b" by (auto simp: map_fits_def)
  then have lt: "(of_nat i :: u64) < of_nat b"
    using Suc.prems by (simp add: word_less_nat_alt unat_of_nat_small)
  have s: "(of_nat i + 1 :: u64) = of_nat (Suc i)" by (simp add: add.commute)
  have key: "e820_base m mmap (of_nat i) > e820_base m mmap (of_nat i + 1) \<longleftrightarrow>
      base_of (e820_list m mmap n ! Suc i) < base_of (e820_list m mmap n ! i)"
    using b Suc.prems by (simp add: e820_base_entry s del: of_nat_Suc)
  have d: "d = b - Suc i" "Suc i < 65536" "Suc i < n" using Suc b by auto
  note sw = e820_swap_refines[OF Suc.prems(1) d(3), where m = m]
  show ?case
  proof (cases "e820_base m mmap (of_nat i) > e820_base m mmap (of_nat i + 1)")
    case True
    have e: "e820_pass m mmap (of_nat i) (of_nat b) sw =
        e820_pass (e820_swap m mmap (of_nat i)) mmap (of_nat (Suc i)) (of_nat b) True"
      using lt True by (subst e820_pass.simps) (simp add: s del: of_nat_Suc)
    have l: "bubble_pass base_of i b (e820_list m mmap n) sw =
        bubble_pass base_of (Suc i) b (e820_list (e820_swap m mmap (of_nat i)) mmap n) True"
      using b True key by (subst bubble_pass.simps) (simp add: sw(1))
    show ?thesis unfolding e l
      using Suc.hyps(1)[OF d(1) Suc.prems(1,2) d(2), of "e820_swap m mmap (of_nat i)" True] sw(2)
      by (auto split: prod.splits)
  next
    case False
    have e: "e820_pass m mmap (of_nat i) (of_nat b) sw = e820_pass m mmap (of_nat (Suc i)) (of_nat b) sw"
      using lt False by (subst e820_pass.simps) (simp add: s del: of_nat_Suc)
    have l: "bubble_pass base_of i b (e820_list m mmap n) sw = bubble_pass base_of (Suc i) b (e820_list m mmap n) sw"
      using b False key by (subst bubble_pass.simps) simp
    show ?thesis unfolding e l by (rule Suc.hyps(1)[OF d(1) Suc.prems(1,2) d(2)])
  qed
qed

lemma e820_sort_loop_refines:
  "map_fits mmap n \<Longrightarrow> c \<le> n \<Longrightarrow>
   e820_list (e820_sort_loop m mmap (of_nat c) sw) mmap n = bubble_loop base_of c (e820_list m mmap n) sw \<and>
   (\<forall>x. x \<notin> addrs (mmap + 2) (26 * n) \<longrightarrow> e820_sort_loop m mmap (of_nat c) sw x = m x)"
proof (induction c arbitrary: m sw)
  case 0
  then show ?case by (simp add: e820_sort_loop.simps bubble_loop.simps)
next
  case (Suc c)
  have c: "c < 65536" "Suc c < 65536" using Suc.prems by (auto simp: map_fits_def)
  then have pos: "(of_nat (Suc c) :: u64) > 0"
    by (simp add: word_less_nat_alt unat_of_nat_small del: of_nat_Suc)
  have pred: "(of_nat (Suc c) - 1 :: u64) = of_nat c" by simp
  show ?case
  proof (cases sw)
    case True
    obtain m' sw' where p: "e820_pass m mmap 0 (of_nat c) False = (m', sw')" by (meson surj_pair)
    have r: "(e820_list m' mmap n, sw') = bubble_pass base_of 0 c (e820_list m mmap n) False"
      "\<forall>x. x \<notin> addrs (mmap + 2) (26 * n) \<longrightarrow> m' x = m x"
      using e820_pass_refines[of 0 mmap n c m False] Suc.prems p by auto
    have e: "e820_sort_loop m mmap (of_nat (Suc c)) sw = e820_sort_loop m' mmap (of_nat c) sw'"
      using True pos p by (subst e820_sort_loop.simps) (simp add: pred del: of_nat_Suc)
    have l: "bubble_loop base_of (Suc c) (e820_list m mmap n) sw = bubble_loop base_of c (e820_list m' mmap n) sw'"
      using True by (subst bubble_loop.simps) (simp flip: r(1))
    show ?thesis unfolding e l using Suc.IH[of m' sw'] Suc.prems r(2) by auto
  next
    case False
    then show ?thesis by (simp add: e820_sort_loop.simps bubble_loop.simps)
  qed
qed

lemma sort_e820_list:
  assumes n: "n = unat (e820_size m mmap)" and fit: "map_fits mmap n"
  shows "sorted (map base_of (e820_list (sort_e820 m mmap) mmap n))"
    "mset (e820_list (sort_e820 m mmap) mmap n) = mset (e820_list m mmap n)"
    "x \<notin> addrs (mmap + 2) (26 * n) \<Longrightarrow> sort_e820 m mmap x = m x"
proof -
  have "e820_size m mmap = of_nat n" by (simp add: n)
  then have e: "sort_e820 m mmap = e820_sort_loop m mmap (of_nat n) True" by (simp add: sort_e820_def)
  note r = e820_sort_loop_refines[OF fit order.refl, of m True]
  show "sorted (map base_of (e820_list (sort_e820 m mmap) mmap n))"
    "mset (e820_list (sort_e820 m mmap) mmap n) = mset (e820_list m mmap n)"
    "x \<notin> addrs (mmap + 2) (26 * n) \<Longrightarrow> sort_e820 m mmap x = m x"
    unfolding e using r bubble_sorts[of base_of "e820_list m mmap n"] by simp_all
qed

section \<open>Properties\<close>

text \<open>C23. \<^verbatim>\<open>sort_e820\<close> sorts the memory map by base address and permutes its entries
  (all 26 bytes of each), keeps the entry count, and writes nothing outside the map.\<close>

theorem sort_e820_sorts:
  assumes n: "n = unat (e820_size m mmap)" and fit: "map_fits mmap n"
  shows "sorted (map base_of (e820_list (sort_e820 m mmap) mmap n)) \<and>
    mset (e820_list (sort_e820 m mmap) mmap n) = mset (e820_list m mmap n) \<and>
    (\<forall>x. x \<notin> addrs (mmap + 2) (26 * n) \<longrightarrow> sort_e820 m mmap x = m x)"
  using sort_e820_list[OF assms] by blast

theorem sort_e820_sorts_witness:
  "let m = (\<lambda>x. if x = 0x500 then 2 else if x = 0x504 then 9 else 0)
   in sorted (map base_of (e820_list (sort_e820 m 0x500) 0x500 2))"
proof -
  let ?m = "(\<lambda>x. if x = 0x500 then 2 else if x = 0x504 then 9 else 0) :: mem"
  have "load_le 2 ?m 0x500 = 2" unfolding numeral_2_eq_2 load_le.simps by simp
  then have n: "2 = unat (e820_size ?m 0x500)" by (simp add: e820_size_def load16_def)
  have "map_fits 0x500 2" by (simp add: map_fits_def)
  from sort_e820_sorts[OF n this] show ?thesis unfolding Let_def by blast
qed

end
