(* ===== verification/Main16.thy ===== *)
theory Main16
  imports E820 Ports
begin

text \<open>
  The 16-bit stage: \<^verbatim>\<open>boot/main16.c\<close> and the routines of \<^verbatim>\<open>boot/bios.asm\<close> it calls.
  All segment registers are 0 (\<^verbatim>\<open>boot.asm\<close>), so a 16-bit offset is an address. The BIOS is a
  parameter: the answer to a call of interrupt 0x15, function E820, depends on the
  continuation value in EBX, the buffer in DI and the memory.
\<close>

section \<open>The routines of bios.asm\<close>

record e820_reply =
  carry :: bool
  r_eax :: u32
  r_ebx :: u32
  r_cx :: u16
  r_mem :: mem

type_synonym e820_bios = "u32 \<Rightarrow> u16 \<Rightarrow> mem \<Rightarrow> e820_reply"

abbreviation (input) SMAP :: u32 where "SMAP \<equiv> 0x534D4150"

text \<open>A call of the video interrupt, with AX, and with BX where the routine sets it.\<close>

datatype video_call = Int10 u16 | Int10_bx u16 u16

record bios_state = io_state +
  low_mem :: mem
  video :: "video_call list"

definition set_video_mode :: "u16 \<Rightarrow> bios_state \<Rightarrow> bios_state" where
  "set_video_mode mode s = s\<lparr>video := video s @ [Int10 (mode AND 0xFF)]\<rparr>"

definition set_svga_mode :: "u16 \<Rightarrow> bios_state \<Rightarrow> bios_state" where
  "set_svga_mode mode s = s\<lparr>video := video s @ [Int10_bx 0x4F02 mode]\<rparr>"

definition enable_a20 :: "device \<Rightarrow> ('x io_state_scheme, unit) state" where
  "enable_a20 dev = do {
     al \<leftarrow> inb dev 0x92;
     if al AND 2 \<noteq> 0 then return_io () else outb 0x92 (al OR 2) }"

text \<open>The loop, with the count that the routine keeps on the stack, and the whole routine.\<close>

partial_function (option) read_more :: "e820_bios \<Rightarrow> u32 \<Rightarrow> u16 \<Rightarrow> u16 \<Rightarrow> mem \<Rightarrow> (u16 \<times> mem) option" where
  "read_more bios ebx di n m =
     (let r = bios ebx di m
      in if carry r then Some (n, r_mem r)
         else if r_eax r \<noteq> SMAP then Some (n, r_mem r)
         else if r_ebx r = 0 then Some (n, r_mem r)
         else read_more bios (r_ebx r) (di + 0x1A) (n + 1) (store_le 2 (r_mem r) (ucast (di - 2)) (ucast (r_cx r))))"

definition read_e820 :: "e820_bios \<Rightarrow> u16 \<Rightarrow> mem \<Rightarrow> mem option" where
  "read_e820 bios mem_map m =
     map_option (\<lambda>(n, m). store_le 2 m (ucast mem_map) (ucast n)) (read_more bios 0 (mem_map + 4) 0 m)"

section \<open>main16\<close>

text \<open>With the debug output of \<^verbatim>\<open>config.h\<close> on and the video mode 1; the result of
  \<^verbatim>\<open>read_e820\<close> is not used. \<open>None\<close> is a BIOS whose answers never end.\<close>

definition main16 :: "device \<Rightarrow> e820_bios \<Rightarrow> bios_state \<Rightarrow> bios_state option" where
  "main16 dev bios s =
     (let s = set_video_mode 3 s;
          s = snd (run_state (enable_a20 dev) s)
      in map_option (\<lambda>m. s\<lparr>low_mem := m\<rparr>) (read_e820 bios 0x500 (low_mem s)))"

section \<open>What the BIOS promises\<close>

text \<open>The documented behaviour for a memory map \<open>es\<close> (base, length, type): the calls enumerate
  the entries by continuation values, from 0 on; the last entry comes with the value 0. A call
  writes into the 24 bytes of its buffer only.\<close>

definition entry_written :: "mem \<Rightarrow> u64 \<Rightarrow> u64 \<times> u64 \<times> u32 \<Rightarrow> bool" where
  "entry_written m a e \<longleftrightarrow> (load64 m a, load64 m (a + 8), load32 m (a + 16)) = e"

definition reports :: "e820_bios \<Rightarrow> (u64 \<times> u64 \<times> u32) list \<Rightarrow> bool" where
  "reports bios es \<longleftrightarrow> (\<exists>cont. cont 0 = 0 \<and> (\<forall>i<length es. \<forall>di m. let r = bios (cont i) di m in
     \<not> carry r \<and> r_eax r = SMAP \<and> r_ebx r = (if Suc i < length es then cont (Suc i) else 0) \<and>
     entry_written (r_mem r) (ucast di) (es ! i) \<and> (\<forall>x. x \<notin> addrs (ucast di) 24 \<longrightarrow> r_mem r x = m x)) \<and>
     (\<forall>i. Suc i < length es \<longrightarrow> cont (Suc i) \<noteq> 0))"

definition map_bios :: "(u64 \<times> u64 \<times> u32) list \<Rightarrow> e820_bios" where
  "map_bios es ebx di m =
     (let (b, l, t) = es ! unat ebx; a = ucast di
      in \<lparr>carry = False, r_eax = SMAP, r_ebx = (if Suc (unat ebx) < length es then ebx + 1 else 0), r_cx = 24,
          r_mem = store32 (store64 (store64 m a b) (a + 8) l) (a + 16) t\<rparr>)"

lemma cells_in_entry:
  "addrs a 8 \<subseteq> addrs a 24" "addrs (a + 8) 8 \<subseteq> addrs a 24" "addrs (a + 16) 4 \<subseteq> addrs a 24" for a :: u64
proof -
  have "addrs (a + of_nat k) n \<subseteq> addrs a 24" if "k + n \<le> 24" for k n
  proof
    fix x assume "x \<in> addrs (a + of_nat k) n"
    then have u: "unat (x - (a + of_nat k)) < n" by (simp add: addrs_def)
    have "x - a = (x - (a + of_nat k)) + of_nat k" by simp
    then have "unat (x - a) \<le> unat (x - (a + of_nat k)) + unat (of_nat k :: u64)" by (metis unat_plus_le)
    moreover have "unat (of_nat k :: u64) = k" using that by (simp add: unat_of_nat_small)
    ultimately show "x \<in> addrs a 24" using u that by (simp add: addrs_def)
  qed
  from this[of 0 8] this[of 8 8] this[of 16 4]
  show "addrs a 8 \<subseteq> addrs a 24" "addrs (a + 8) 8 \<subseteq> addrs a 24" "addrs (a + 16) 4 \<subseteq> addrs a 24" by simp_all
qed

lemma entry_written_cong:
  assumes "\<And>x. x \<in> addrs a 24 \<Longrightarrow> m' x = m x"
  shows "entry_written m' a e = entry_written m a e"
proof -
  have "load64 m' a = load64 m a" "load64 m' (a + 8) = load64 m (a + 8)" "load32 m' (a + 16) = load32 m (a + 16)"
    using assms cells_in_entry[of a]
    by (auto intro!: load64_cong simp: load32_def intro!: arg_cong[where f = ucast] load_le_cong)
  then show ?thesis by (simp add: entry_written_def)
qed

lemma map_bios_reports:
  assumes "length es \<le> 2 ^ 32"
  shows "reports (map_bios es) es"
  unfolding reports_def
proof (intro exI[of _ "of_nat :: nat \<Rightarrow> u32"] conjI allI impI)
  fix i :: nat and di :: u16 and m assume i: "i < length es"
  then have u: "unat (of_nat i :: u32) = i" using assms by (simp add: unat_of_nat_small)
  obtain b l t where e: "es ! i = (b, l, t)" by (cases "es ! i") auto
  let ?a = "ucast di :: u64" and ?m = "store32 (store64 (store64 m (ucast di) b) (ucast di + 8) l) (ucast di + 16) t"
  have r: "map_bios es (of_nat i) di m =
      \<lparr>carry = False, r_eax = SMAP, r_ebx = (if Suc i < length es then of_nat i + 1 else 0), r_cx = 24, r_mem = ?m\<rparr>"
    by (simp add: map_bios_def u e Let_def)
  have "unat ?a < 2 ^ 16" using unsigned_less[of di, where 'a = nat] by (simp add: unsigned_ucast_eq take_bit_nat_eq_self)
  then have "unat (?a + 8) = unat ?a + 8" "unat (?a + 16) = unat ?a + 16" "unat ?a + 20 \<le> 2 ^ 64"
    by (simp_all add: unat_word_ariths)
  then have off: "x \<notin> addrs (?a + 16) 4" if "x \<in> addrs ?a 8 \<or> x \<in> addrs (?a + 8) 8" for x
    using that addrs_disjointI(1)[of ?a 8 "?a + 16" 4] addrs_disjointI(1)[of "?a + 8" 8 "?a + 16" 4] by auto
  have "load64 ?m ?a = b" "load64 ?m (?a + 8) = l"
    using load64_cong[of ?a ?m "store64 (store64 m ?a b) (?a + 8) l"]
      load64_cong[of "?a + 8" ?m "store64 (store64 m ?a b) (?a + 8) l"] off
    by (auto simp: frame apart_def)
  then have "entry_written ?m ?a (es ! i)" by (simp add: entry_written_def e)
  moreover have "?m x = m x" if "x \<notin> addrs ?a 24" for x
  proof -
    have "x \<notin> addrs ?a 8" "x \<notin> addrs (?a + 8) 8" "x \<notin> addrs (?a + 16) 4" using that cells_in_entry[of ?a] by blast+
    then show ?thesis by (simp add: frame)
  qed
  ultimately show "let r = map_bios es (of_nat i) di m in
     \<not> carry r \<and> r_eax r = SMAP \<and> r_ebx r = (if Suc i < length es then of_nat (Suc i) else 0) \<and>
     entry_written (r_mem r) ?a (es ! i) \<and> (\<forall>x. x \<notin> addrs ?a 24 \<longrightarrow> r_mem r x = m x)"
    unfolding r Let_def by simp
next
  fix i assume "Suc i < length es"
  then have "unat (of_nat (Suc i) :: u32) = Suc i" using assms by (intro unat_of_nat_small) simp
  then show "(of_nat (Suc i) :: u32) \<noteq> 0" by (metis unat_0 nat.distinct(1))
qed simp

section \<open>The map that is read\<close>

text \<open>The buffer of entry \<open>i\<close>; the two bytes before it are the size of the entry.\<close>

definition buffer :: "u16 \<Rightarrow> nat \<Rightarrow> u64" where
  "buffer mp i = ucast mp + 4 + 26 * of_nat i"

lemma unat_buffer:
  assumes "unat mp + 4 + 26 * i < 2 ^ 16"
  shows "unat (buffer mp i) = unat mp + 4 + 26 * i" "ucast (mp + 4 + 26 * of_nat i) = buffer mp i"
    "ucast (mp + 4 + 26 * of_nat i - 2) = buffer mp i - 2"
proof -
  have m: "unat (ucast mp :: u64) = unat mp" using unsigned_less[of mp, where 'a = nat] by (simp add: unsigned_ucast_eq take_bit_nat_eq_self)
  have i: "unat (of_nat i :: u64) = i" "unat (of_nat i :: u16) = i" using assms by (simp_all add: unat_of_nat_small)
  show b: "unat (buffer mp i) = unat mp + 4 + 26 * i"
    unfolding buffer_def using m i(1) assms by (simp add: unat_word_ariths)
  have d: "unat (mp + 4 + 26 * of_nat i) = unat mp + 4 + 26 * i" using i(2) assms by (simp add: unat_word_ariths)
  show "ucast (mp + 4 + 26 * of_nat i) = buffer mp i"
    by (subst word_unat_eq_iff) (use b d assms in \<open>simp add: unsigned_ucast_eq take_bit_nat_eq_self\<close>)
  have s: "unat (v - 2) = unat v - 2" if "2 \<le> unat v" for v :: u16
    using that by (simp add: unat_sub word_le_nat_alt)
  have "unat (mp + 4 + 26 * of_nat i - 2) = unat mp + 2 + 26 * i"
    using s[of "mp + 4 + 26 * of_nat i"] unfolding d by simp
  moreover have "unat (buffer mp i - 2) = unat mp + 2 + 26 * i" using b by (simp add: unat_sub word_le_nat_alt)
  ultimately show "ucast (mp + 4 + 26 * of_nat i - 2) = buffer mp i - 2"
    by (subst word_unat_eq_iff) (use assms in \<open>simp add: unsigned_ucast_eq take_bit_nat_eq_self\<close>)
qed

lemma read_more_run:
  assumes cont: "\<And>i di m. i < length es \<Longrightarrow> let r = bios (cont i) di m in
     \<not> carry r \<and> r_eax r = SMAP \<and> r_ebx r = (if Suc i < length es then cont (Suc i) else 0) \<and>
     entry_written (r_mem r) (ucast di) (es ! i) \<and> (\<forall>x. x \<notin> addrs (ucast di) 24 \<longrightarrow> r_mem r x = m x)"
    and nz: "\<And>i. Suc i < length es \<Longrightarrow> cont (Suc i) \<noteq> 0"
    and fit: "unat mp + 4 + 26 * length es < 2 ^ 16"
  shows "i + Suc j = length es \<Longrightarrow>
    \<exists>m'. read_more bios (cont i) (mp + 4 + 26 * of_nat i) n m = Some (n + of_nat j, m') \<and>
      (\<forall>k. i \<le> k \<and> k < length es \<longrightarrow> entry_written m' (buffer mp k) (es ! k)) \<and>
      (\<forall>x. x \<notin> addrs (buffer mp i - 2) (26 * Suc j) \<longrightarrow> m' x = m x)"
proof (induction j arbitrary: i n m)
  case 0
  then have i: "i < length es" "Suc i = length es" by simp_all
  let ?r = "bios (cont i) (mp + 4 + 26 * of_nat i) m"
  have b: "ucast (mp + 4 + 26 * of_nat i) = buffer mp i" by (rule unat_buffer) (use fit i in simp)
  note c = cont[OF i(1), of "mp + 4 + 26 * of_nat i" m, unfolded Let_def b]
  have "read_more bios (cont i) (mp + 4 + 26 * of_nat i) n m = Some (n, r_mem ?r)"
    using c i(2) by (subst read_more.simps) (simp add: Let_def)
  moreover have "addrs (buffer mp i) 24 \<subseteq> addrs (buffer mp i - 2) 26"
    using addrs_tail[of _ "buffer mp i - 1" 24] addrs_tail[of _ "buffer mp i - 2" 25] by auto
  moreover have "k = i" if "i \<le> k" "k < length es" for k using that i by simp
  ultimately show ?case using c by (intro exI[of _ "r_mem ?r"]) auto
next
  case (Suc j)
  then have i: "i < length es" "Suc i < length es" "Suc i + Suc j = length es" by simp_all
  let ?di = "mp + 4 + 26 * of_nat i" let ?r = "bios (cont i) ?di m"
  have fi: "unat mp + 4 + 26 * i < 2 ^ 16" "unat mp + 4 + 26 * Suc i < 2 ^ 16" using fit i by simp_all
  note b = unat_buffer[OF fi(1)] and b' = unat_buffer[OF fi(2)]
  note c = cont[OF i(1), of ?di m, unfolded Let_def b]
  define m1 where "m1 = store_le 2 (r_mem ?r) (buffer mp i - 2) (ucast (r_cx ?r))"
  have e: "read_more bios (cont i) ?di n m =
      read_more bios (cont (Suc i)) (mp + 4 + 26 * of_nat (Suc i)) (n + 1) m1"
  proof -
    have "read_more bios (cont i) ?di n m = read_more bios (cont (Suc i)) (?di + 0x1A) (n + 1)
        (store_le 2 (r_mem ?r) (ucast (?di - 2)) (ucast (r_cx ?r)))"
      using c nz[OF i(2)] i(2) by (subst read_more.simps) (simp add: Let_def)
    moreover have "?di + 0x1A = mp + 4 + 26 * of_nat (Suc i)" by (simp add: algebra_simps)
    ultimately show ?thesis by (simp only: m1_def b(3))
  qed
  from Suc.IH[OF i(3), of "n + 1" m1] obtain m' where
    m': "read_more bios (cont (Suc i)) (mp + 4 + 26 * of_nat (Suc i)) (n + 1) m1 = Some (n + 1 + of_nat j, m')"
      "\<forall>k. Suc i \<le> k \<and> k < length es \<longrightarrow> entry_written m' (buffer mp k) (es ! k)"
      "\<forall>x. x \<notin> addrs (buffer mp (Suc i) - 2) (26 * Suc j) \<longrightarrow> m' x = m1 x" by blast
  have u: "unat (buffer mp i - 2) = unat mp + 2 + 26 * i" "unat (buffer mp (Suc i) - 2) = unat mp + 28 + 26 * i"
    using b(1) b'(1) by (simp_all add: unat_sub word_le_nat_alt)
  have top: "unat mp + 2 + 26 * i + 26 * Suc (Suc j) \<le> 2 ^ 64" using fit i by simp
  have later: "x \<notin> addrs (buffer mp (Suc i) - 2) (26 * Suc j)" if "x \<in> addrs (buffer mp i) 24" for x
    using addrs_disjointI(1)[of "buffer mp i" 24 "buffer mp (Suc i) - 2" "26 * Suc j"] that u b(1) top by auto
  have size: "x \<notin> addrs (buffer mp i - 2) 2" if "x \<in> addrs (buffer mp i) 24" for x
    using addrs_disjointI(1)[of "buffer mp i - 2" 2 "buffer mp i" 24] that u b(1) top by auto
  have "entry_written m' (buffer mp i) (es ! i)"
    using c m'(3) later size by (subst entry_written_cong[of _ m' "r_mem ?r"]) (simp_all add: m1_def store_le_other)
  then have w: "entry_written m' (buffer mp k) (es ! k)" if "i \<le> k" "k < length es" for k
    using that m'(2) by (cases "k = i") auto
  have "m' x = m x" if x: "x \<notin> addrs (buffer mp i - 2) (26 * Suc (Suc j))" for x
  proof -
    have in_all: "addrs a l \<subseteq> addrs (buffer mp i - 2) (26 * Suc (Suc j))"
      if "unat (buffer mp i - 2) \<le> unat a" "unat a + l \<le> unat (buffer mp i - 2) + 26 * Suc (Suc j)" for a l
    proof
      fix y assume "y \<in> addrs a l"
      then have "unat a \<le> unat y" "unat y < unat a + l" using addrs_nowrap[of a l y] that(2) u(1) top by auto
      then have "unat (y - (buffer mp i - 2)) < 26 * Suc (Suc j)" using that by (simp add: unat_sub word_le_nat_alt)
      then show "y \<in> addrs (buffer mp i - 2) (26 * Suc (Suc j))" by (simp add: addrs_def)
    qed
    have "x \<notin> addrs (buffer mp (Suc i) - 2) (26 * Suc j)" "x \<notin> addrs (buffer mp i) 24" "x \<notin> addrs (buffer mp i - 2) 2"
      using x in_all[of "buffer mp (Suc i) - 2" "26 * Suc j"] in_all[of "buffer mp i" 24] in_all[of "buffer mp i - 2" 2] u b(1)
      by auto
    then show ?thesis using m'(3) c by (simp add: m1_def store_le_other)
  qed
  with e m'(1) w show ?case by (intro exI[of _ m']) (simp add: add.assoc)
qed

text \<open>All entries are written, but the one that comes with the continuation value 0 is not counted.\<close>

lemma read_e820_map:
  assumes bios: "reports bios es" and es: "es \<noteq> []" and fit: "unat mp + 4 + 26 * length es < 2 ^ 16"
  shows "\<exists>m'. read_e820 bios mp m = Some m' \<and> e820_size m' (ucast mp) = of_nat (length es - 1) \<and>
    (\<forall>i<length es. (e820_base m' (ucast mp) (of_nat i), e820_length m' (ucast mp) (of_nat i),
       e820_type m' (ucast mp) (of_nat i)) = es ! i) \<and>
    (\<forall>x. x \<notin> addrs (ucast mp) (2 + 26 * length es) \<longrightarrow> m' x = m x)"
proof -
  from bios obtain cont where c: "cont 0 = 0" "\<And>i. Suc i < length es \<Longrightarrow> cont (Suc i) \<noteq> 0"
    and run: "\<And>i di m. i < length es \<Longrightarrow> let r = bios (cont i) di m in
     \<not> carry r \<and> r_eax r = SMAP \<and> r_ebx r = (if Suc i < length es then cont (Suc i) else 0) \<and>
     entry_written (r_mem r) (ucast di) (es ! i) \<and> (\<forall>x. x \<notin> addrs (ucast di) 24 \<longrightarrow> r_mem r x = m x)"
    unfolding reports_def by blast
  obtain j where j: "length es = Suc j" using es by (cases es) auto
  from read_more_run[OF run c(2) fit, of 0 j 0 m] obtain m1 where
    m1: "read_more bios 0 (mp + 4) 0 m = Some (of_nat j, m1)"
      "\<forall>k<length es. entry_written m1 (buffer mp k) (es ! k)"
      "\<forall>x. x \<notin> addrs (buffer mp 0 - 2) (26 * length es) \<longrightarrow> m1 x = m x"
    using j c(1) by auto
  have b0: "buffer mp 0 - 2 = ucast mp + 2" by (simp add: buffer_def)
  let ?m = "store_le 2 m1 (ucast mp) (ucast (of_nat j :: u16))"
  have u: "unat (ucast mp :: u64) = unat mp"
    using unsigned_less[of mp, where 'a = nat] by (simp add: unsigned_ucast_eq take_bit_nat_eq_self)
  have "read_e820 bios mp m = Some ?m" using m1(1) by (simp add: read_e820_def)
  moreover have "e820_size ?m (ucast mp) = of_nat (length es - 1)"
  proof -
    have "unat (of_nat j :: u16) = j" using fit j by (simp add: unat_of_nat_small)
    then have "(ucast (of_nat j :: u16) :: u64) = of_nat j"
      by (subst word_unat_eq_iff) (use fit j in \<open>simp add: unsigned_ucast_eq unat_of_nat_small take_bit_nat_eq_self\<close>)
    moreover have "e820_size ?m (ucast mp) = ucast (of_nat j :: u16)"
      by (simp add: e820_size_def load16_def load_store_le) (rule bit_word_eqI, simp add: bit_simps)
    ultimately show ?thesis by (simp add: j)
  qed
  moreover have "(e820_base ?m (ucast mp) (of_nat i), e820_length ?m (ucast mp) (of_nat i),
       e820_type ?m (ucast mp) (of_nat i)) = es ! i" if i: "i < length es" for i
  proof -
    have fi: "unat mp + 4 + 26 * i < 2 ^ 16" using fit i by simp
    have "?m x = m1 x" if "x \<in> addrs (buffer mp i) 24" for x
      using addrs_disjointI(1)[of "ucast mp :: u64" 2 "buffer mp i" 24] that unat_buffer(1)[OF fi] u fi
      by (intro store_le_other) auto
    from entry_written_cong[OF this] m1(2) i have "entry_written ?m (buffer mp i) (es ! i)" by simp
    moreover have "e820_entry (ucast mp) (of_nat i) + 2 = buffer mp i"
      "e820_entry (ucast mp) (of_nat i) + 10 = buffer mp i + 8" "e820_entry (ucast mp) (of_nat i) + 18 = buffer mp i + 16"
      by (simp_all add: e820_entry_def buffer_def)
    ultimately show ?thesis by (simp only: entry_written_def e820_base_def e820_length_def e820_type_def)
  qed
  moreover have "?m x = m x" if x: "x \<notin> addrs (ucast mp) (2 + 26 * length es)" for x
  proof -
    have "addrs (ucast mp) 2 \<subseteq> addrs (ucast mp) (2 + 26 * length es)" by (rule addrs_mono) simp
    moreover have "x \<notin> addrs (ucast mp + 1 + 1) (26 * length es)"
      using x addrs_tail[of x "ucast mp" "Suc (26 * length es)"] addrs_tail[of x "ucast mp + 1" "26 * length es"] fit by auto
    then have "x \<notin> addrs (ucast mp + 2) (26 * length es)" unfolding add.assoc one_add_one .
    ultimately have "x \<notin> addrs (ucast mp) 2" "m1 x = m x" using x m1(3)[unfolded b0] by blast+
    then show ?thesis by (simp add: store_le_other)
  qed
  ultimately show ?thesis by blast
qed

text \<open>C16. The 16-bit stage. For a BIOS that reports the memory map \<open>es\<close> as documented
  \<^verbatim>\<open>main16\<close> returns, with the text mode set, the gate A20 opened by port 0x92 if it was closed,
  and the base, length and type of every entry at 0x500; nothing else is written. The count in
  front of the entries is one too low: the loop ends at the continuation value 0 before it
  counts the entry that came with it. So the later stages never see the last entry, and with a
  single one they see no memory at all.\<close>

theorem main16_drops_last:
  assumes bios: "reports bios es" and es: "es \<noteq> []" and fit: "length es \<le> 2000"
    and a20: "a20 = ucast (dev (io_log s) 0x92)"
  shows "\<exists>s'. main16 dev bios s = Some s' \<and> video s' = video s @ [Int10 3] \<and>
    io_log s' = (if bit a20 1 then [] else [OutB 0x92 (a20 OR 2)]) @ InB 0x92 a20 # io_log s \<and>
    e820_size (low_mem s') 0x500 = of_nat (length es - 1) \<and>
    (\<forall>i<length es. (e820_base (low_mem s') 0x500 (of_nat i), e820_length (low_mem s') 0x500 (of_nat i),
       e820_type (low_mem s') 0x500 (of_nat i)) = es ! i) \<and>
    (\<forall>x. x \<notin> addrs 0x500 (2 + 26 * length es) \<longrightarrow> low_mem s' x = low_mem s x)"
proof -
  let ?s = "snd (run_state (enable_a20 dev) (set_video_mode 3 s))"
  have two: "(a20 AND 2 = 0) \<longleftrightarrow> \<not> bit a20 1"
    using and_exp_eq_0_iff_not_bit[of a20 1] by simp
  have e: "low_mem ?s = low_mem s" "video ?s = video s @ [Int10 3]"
    "io_log ?s = (if bit a20 1 then [] else [OutB 0x92 (a20 OR 2)]) @ InB 0x92 a20 # io_log s"
    using two by (auto simp: enable_a20_def set_video_mode_def io_defs a20 run_state_bind)
  have "unat (0x500 :: u16) + 4 + 26 * length es < 2 ^ 16" using fit by simp
  from read_e820_map[OF bios es this, of "low_mem s"] show ?thesis
    unfolding main16_def Let_def e(1) by (auto simp: e)
qed

text \<open>A machine with 640 KB and 127 MB of memory: only the first region is counted.\<close>

theorem main16_drops_last_witness:
  "\<exists>s'. main16 (\<lambda>_ _. 0) (map_bios [(0, 0x9FC00, 1), (0x100000, 0x7F00000, 1)])
       \<lparr>io_log = [], low_mem = \<lambda>_. 0, video = []\<rparr> = Some s' \<and>
     e820_size (low_mem s') 0x500 = 1 \<and> e820_length (low_mem s') 0x500 0 = 0x9FC00 \<and>
     io_log s' = [OutB 0x92 2, InB 0x92 0]"
proof -
  let ?es = "[(0, 0x9FC00, 1), (0x100000, 0x7F00000, 1)] :: (u64 \<times> u64 \<times> u32) list"
  let ?s = "\<lparr>io_log = [], low_mem = \<lambda>_. 0, video = []\<rparr> :: bios_state"
  have r: "reports (map_bios ?es) ?es" by (rule map_bios_reports) simp
  have "?es \<noteq> []" "length ?es \<le> 2000" by simp_all
  from main16_drops_last[OF r this refl, of "\<lambda>_ _. 0" ?s] obtain s' where
    s': "main16 (\<lambda>_ _. 0) (map_bios ?es) ?s = Some s'" "e820_size (low_mem s') 0x500 = of_nat (length ?es - 1)"
      "io_log s' = (if bit (ucast (0 :: u32) :: u8) 1 then [] else [OutB 0x92 (ucast (0 :: u32) OR 2)]) @ InB 0x92 (ucast (0 :: u32)) # io_log ?s"
      "\<forall>i<length ?es. (e820_base (low_mem s') 0x500 (of_nat i), e820_length (low_mem s') 0x500 (of_nat i),
         e820_type (low_mem s') 0x500 (of_nat i)) = ?es ! i"
    by blast
  have "e820_length (low_mem s') 0x500 0 = 0x9FC00" using s'(4)[rule_format, of 0] by simp
  then show ?thesis using s'(1,2,3) by (intro exI[of _ s']) simp
qed

end
