(* ===== verification/Gpt.thy ===== *)
theory Gpt
  imports Ata LibLemmas
begin

text \<open>
  The GPT driver, \<^verbatim>\<open>src/src/boot/bios/bbp/loader/gpt.c\<close>: the partition table of each
  drive is read into memory, its used entries are counted, and entries are looked up by
  index. The three static arrays of 4 elements are lists; an index outside them is an error.
  The headers and the tables they point to stay in memory, at their offsets of \<^verbatim>\<open>gpt.h\<close>.
\<close>

section \<open>State and layout\<close>

record 'h gpt_state = "'h ata_state" +
  gpt_disks :: "u64 list"
  gpt_parts :: "u64 list"
  part_count :: "u64 list"

record guid =
  data1 :: u32
  data2 :: u16
  data3 :: u16
  data4 :: "u8 list"

definition load_guid :: "mem \<Rightarrow> u64 \<Rightarrow> guid" where
  "load_guid m a = \<lparr>data1 = load32 m a, data2 = load16 m (a + 4), data3 = load16 m (a + 6),
     data4 = map (\<lambda>i. m (a + 8 + of_nat i)) [0..<8]\<rparr>"

definition empty_guid :: guid where
  "empty_guid = \<lparr>data1 = 0, data2 = 0, data3 = 0, data4 = replicate 8 0\<rparr>"

abbreviation (input) SIZEOF_GPT_HEADER :: u64 where "SIZEOF_GPT_HEADER \<equiv> 512"
abbreviation (input) SIZEOF_PART_ENTRY :: u64 where "SIZEOF_PART_ENTRY \<equiv> 128"
abbreviation (input) SIZEOF_MBR :: u64 where "SIZEOF_MBR \<equiv> 512"

definition mbr_part_type :: "mem \<Rightarrow> u64 \<Rightarrow> nat \<Rightarrow> u8" where
  "mbr_part_type m mbr i = m (mbr + 446 + 16 * of_nat i + 4)"

definition part_arr_lba :: "mem \<Rightarrow> u64 \<Rightarrow> u64" where
  "part_arr_lba m h = load64 m (h + 72)"

definition part_item_count :: "mem \<Rightarrow> u64 \<Rightarrow> u32" where
  "part_item_count m h = load32 m (h + 80)"

definition part_at :: "u64 \<Rightarrow> nat \<Rightarrow> u64" where
  "part_at p j = p + of_nat j * SIZEOF_PART_ENTRY"

definition with_nth :: "'a list \<Rightarrow> nat \<Rightarrow> ('a \<Rightarrow> 'b result) \<Rightarrow> 'b result" where
  "with_nth xs i f = (if i < length xs then f (xs ! i) else fail OutOfBounds)"

section \<open>Comparisons\<close>

definition EFI_PART :: "u8 list" where
  "EFI_PART = [69, 70, 73, 32, 80, 65, 82, 84]"

definition gpt_test_sign :: "mem \<Rightarrow> u64 \<Rightarrow> bool" where
  "gpt_test_sign m sign = match_bytes m sign EFI_PART"

primrec data4_loop :: "nat list \<Rightarrow> guid \<Rightarrow> guid \<Rightarrow> bool" where
  "data4_loop [] g h = True"
| "data4_loop (i # is) g h = (if data4 g ! i \<noteq> data4 h ! i then False else data4_loop is g h)"

definition guid_compare :: "guid \<Rightarrow> guid \<Rightarrow> bool" where
  "guid_compare g h =
    (if data1 g \<noteq> data1 h then False
     else if data2 g \<noteq> data2 h then False
     else if data3 g \<noteq> data3 h then False
     else data4_loop [0..<8] g h)"

section \<open>Operations\<close>

definition init_disk :: "nat \<Rightarrow> nat \<Rightarrow> ('h, 'x) gpt_state_scheme \<Rightarrow> ('h, 'x) gpt_state_scheme result" where
  "init_disk d i s =
     rbind (pci_alloc_clean d SIZEOF_GPT_HEADER s) (\<lambda>(p, s).
     with_nth (gpt_disks s) i (\<lambda>_.
     rbind (pci_alloc_clean d (SIZEOF_PART_ENTRY * 128) (s\<lparr>gpt_disks := (gpt_disks s)[i := p]\<rparr>)) (\<lambda>(p, s).
     with_nth (gpt_parts s) i (\<lambda>_. with_nth (part_count s) i (\<lambda>_.
       ret (s\<lparr>gpt_parts := (gpt_parts s)[i := p], part_count := (part_count s)[i := 0]\<rparr>))))))"

definition gpt_init :: "nat \<Rightarrow> ('h, 'x) gpt_state_scheme \<Rightarrow> ('h, 'x) gpt_state_scheme result" where
  "gpt_init d s = each (init_disk d) [0..<unat (ata_num_device s)] s"

text \<open>The loop over the entries of the partition table.\<close>

definition count_parts :: "mem \<Rightarrow> u64 \<Rightarrow> nat \<Rightarrow> u64 \<Rightarrow> u64" where
  "count_parts m p n c =
     fold (\<lambda>j c. if \<not> guid_compare (load_guid m (part_at p j)) empty_guid then c + 1 else c) [0..<n] c"

text \<open>The steps once a protective partition entry was found; the result is \<^verbatim>\<open>found\<close>.\<close>

definition read_table ::
  "nat \<Rightarrow> device \<Rightarrow> schedule \<Rightarrow> u64 \<Rightarrow> ('h, 'x) gpt_state_scheme \<Rightarrow> (bool \<times> ('h, 'x) gpt_state_scheme) result" where
  "read_table d dev irqs drive s =
     with_nth (gpt_disks s) (unat drive) (\<lambda>hdr.
     rbind (ata_read d dev irqs hdr (ucast drive) 1 SIZEOF_GPT_HEADER s) (\<lambda>(ok, s).
       if ok \<and> gpt_test_sign (ram (pages s)) hdr then
         with_nth (gpt_parts s) (unat drive) (\<lambda>p.
         let lba = part_arr_lba (ram (pages s)) hdr;
             len = SIZEOF_PART_ENTRY * ucast (part_item_count (ram (pages s)) hdr)
         in rbind (ata_read d dev irqs p (ucast drive) lba len s) (\<lambda>(ok, s).
              if ok then
                with_nth (part_count s) (unat drive) (\<lambda>c.
                  let m = ram (pages s);
                      c' = count_parts m p (unat (part_item_count m hdr)) c
                  in ret (True, s\<lparr>part_count := (part_count s)[unat drive := c']\<rparr>))
              else ret (False, s)))
       else ret (False, s)))"

primrec mbr_loop ::
  "nat list \<Rightarrow> nat \<Rightarrow> device \<Rightarrow> schedule \<Rightarrow> u64 \<Rightarrow> u64 \<Rightarrow> ('h, 'x) gpt_state_scheme \<Rightarrow>
   (bool \<times> ('h, 'x) gpt_state_scheme) result" where
  "mbr_loop [] d dev irqs mbr drive s = ret (False, s)"
| "mbr_loop (i # is) d dev irqs mbr drive s =
     (if mbr_part_type (ram (pages s)) mbr i = 0xEE then read_table d dev irqs drive s
      else mbr_loop is d dev irqs mbr drive s)"

definition gpt_init_drive ::
  "nat \<Rightarrow> device \<Rightarrow> schedule \<Rightarrow> u64 \<Rightarrow> ('h, 'x) gpt_state_scheme \<Rightarrow> (bool \<times> ('h, 'x) gpt_state_scheme) result" where
  "gpt_init_drive d dev irqs drive s =
    (if drive < ucast (ata_num_device s) then
       rbind (pci_alloc_clean d SIZEOF_MBR s) (\<lambda>(mbr, s).
       rbind (ata_read d dev irqs mbr (ucast drive) 0 512 s) (\<lambda>(ok, s).
       rbind (if ok then mbr_loop [0..<4] d dev irqs mbr drive s else ret (False, s)) (\<lambda>(found, s).
       rbind (pci_free mbr s) (\<lambda>s. ret (found, s)))))
     else ret (False, s))"

definition gpt_num_part :: "u64 \<Rightarrow> ('h, 'x) gpt_state_scheme \<Rightarrow> u64 result" where
  "gpt_num_part drive s = with_nth (part_count s) (unat drive) ret"

text \<open>The search loop of \<^verbatim>\<open>gpt_part_entry\<close>. Its counter \<open>i\<close> is declared in the body, so
  every turn starts with 0. \<open>None\<close> is the end of the loop.\<close>

primrec entry_loop :: "nat list \<Rightarrow> mem \<Rightarrow> u64 \<Rightarrow> u64 \<Rightarrow> nat option" where
  "entry_loop [] m p part = None"
| "entry_loop (j # js) m p part =
    (let i = 0 :: u64 in
     if \<not> guid_compare (load_guid m (part_at p j)) empty_guid then
       if i = part then Some j else let i = i + 1 in entry_loop js m p part
     else entry_loop js m p part)"

definition gpt_part_entry ::
  "u64 \<Rightarrow> u64 \<Rightarrow> u64 \<Rightarrow> ('h, 'x) gpt_state_scheme \<Rightarrow> (bool \<times> ('h, 'x) gpt_state_scheme) result" where
  "gpt_part_entry entry drive part s =
    (if drive < ucast (ata_num_device s) then
       with_nth (part_count s) (unat drive) (\<lambda>c.
       if part < c then
         with_nth (gpt_disks s) (unat drive) (\<lambda>hdr.
         with_nth (gpt_parts s) (unat drive) (\<lambda>p.
           case entry_loop [0..<unat (part_item_count (ram (pages s)) hdr)] (ram (pages s)) p part of
             Some j \<Rightarrow> ret (True, set_ram (\<lambda>m. mem_copy m entry (part_at p j) SIZEOF_PART_ENTRY) s)
           | None \<Rightarrow> ret (False, s)))
       else ret (False, s))
     else ret (False, s))"

section \<open>Properties\<close>

lemma data4_loop_iff: "data4_loop is g h \<longleftrightarrow> (\<forall>i \<in> set is. data4 g ! i = data4 h ! i)"
  by (induction "is") auto

lemma guid_compare_iff: "length (data4 g) = 8 \<Longrightarrow> length (data4 h) = 8 \<Longrightarrow> guid_compare g h \<longleftrightarrow> g = h"
  by (cases g, cases h) (auto simp: guid_compare_def data4_loop_iff list_eq_iff_nth_eq)

lemma guid_compare_empty: "guid_compare (load_guid m a) empty_guid \<longleftrightarrow> load_guid m a = empty_guid"
  by (rule guid_compare_iff) (simp_all add: load_guid_def empty_guid_def)

text \<open>The used entries of a table of \<open>n\<close> entries at \<open>p\<close>.\<close>

definition used_parts :: "mem \<Rightarrow> u64 \<Rightarrow> nat \<Rightarrow> nat list" where
  "used_parts m p n = filter (\<lambda>j. load_guid m (part_at p j) \<noteq> empty_guid) [0..<n]"

lemma count_fold:
  "fold (\<lambda>j c. if P j then c + 1 else c) js (c :: u64) = c + of_nat (length (filter P js))"
  by (induction js arbitrary: c) auto

lemma count_parts_used: "count_parts m p n c = c + of_nat (length (used_parts m p n))"
  by (simp add: count_parts_def guid_compare_empty used_parts_def count_fold)

lemma entry_loop_first:
  "entry_loop js m p part =
    (if part = 0 then find (\<lambda>j. load_guid m (part_at p j) \<noteq> empty_guid) js else None)"
  by (induction js) (auto simp: guid_compare_empty Let_def)

lemma find_filter: "find P xs = (if filter P xs = [] then None else Some (hd (filter P xs)))"
  by (induction xs) auto

text \<open>Partition lookup. Reading a table adds the number of its used entries to the counter
  of the drive. Of these \<^verbatim>\<open>gpt_part_entry\<close> can only find the first: its counter is
  declared inside the loop, so any other index, also one that is smaller than the count, gives
  false; the entry is copied exactly when the index is 0.\<close>

theorem gpt_part_entry_first:
  assumes drive: "drive < ucast (ata_num_device s)" "unat drive < 4"
    and arrays: "length (gpt_disks s) = 4" "length (gpt_parts s) = 4" "length (part_count s) = 4"
    and m: "m = ram (pages s)" and p: "p = gpt_parts s ! unat drive"
    and n: "n = unat (part_item_count m (gpt_disks s ! unat drive))"
  shows "count_parts m p n c = c + of_nat (length (used_parts m p n)) \<and>
    gpt_part_entry entry drive part s =
      (if part = 0 \<and> part_count s ! unat drive \<noteq> 0 \<and> used_parts m p n \<noteq> [] then
         ret (True, set_ram (\<lambda>r. mem_copy r entry (part_at p (hd (used_parts m p n))) 128) s)
       else ret (False, s))"
proof -
  have "entry_loop [0..<n] m p part =
      (if part = 0 \<and> used_parts m p n \<noteq> [] then Some (hd (used_parts m p n)) else None)"
    by (simp add: entry_loop_first find_filter used_parts_def)
  moreover have "part < part_count s ! unat drive \<and> part = 0 \<longleftrightarrow> part = 0 \<and> part_count s ! unat drive \<noteq> 0"
    by (auto simp: word_neq_0_conv)
  ultimately show ?thesis
    using assms by (auto simp: count_parts_used gpt_part_entry_def with_nth_def)
qed

text \<open>A drive with two partitions: the entries 0 and 2 of the table at 0x2000 are used, the
  header is at 0x1000. Index 0 is found, index 1 is not.\<close>

definition two_parts_ram :: mem where
  "two_parts_ram = (\<lambda>_. 0)(0x1050 := 3, 0x2000 := 1, 0x2100 := 1)"

definition two_parts :: "unit gpt_state" where
  "two_parts = ata_state.extend (set_ram (\<lambda>_. two_parts_ram) (primary_channel\<lparr>drive_count := 1\<rparr>))
     \<lparr>gpt_disks = [0x1000, 0, 0, 0], gpt_parts = [0x2000, 0, 0, 0], part_count = [2, 0, 0, 0]\<rparr>"

lemma two_parts_table:
  "used_parts two_parts_ram 0x2000 3 = [0, 2]" "unat (part_item_count two_parts_ram 0x1000) = 3"
  by code_simp+

lemma two_parts_simps:
  "ram (pages two_parts) = two_parts_ram" "gpt_disks two_parts = [0x1000, 0, 0, 0]"
  "gpt_parts two_parts = [0x2000, 0, 0, 0]" "part_count two_parts = [2, 0, 0, 0]"
  "ata_num_device two_parts = 1"
  by (simp_all add: two_parts_def ata_state.defs set_ram_def ata_num_device_def)

lemma gpt_part_entry_first_witness:
  "gpt_part_entry 0x9000 0 1 two_parts = ret (False, two_parts) \<and>
   (\<exists>s'. gpt_part_entry 0x9000 0 0 two_parts = ret (True, s'))"
  using gpt_part_entry_first [where s = two_parts and drive = 0 and entry = "0x9000" and c = 0]
  by (simp add: two_parts_simps two_parts_table)

end
