(* ===== verification/PageInit.thy ===== *)
theory PageInit
  imports PageFaults E820
begin

text \<open>
  \<^verbatim>\<open>page_init\<close>: it identity maps the pages of the usable regions from 2 MB on that are
  not mapped yet, and turns the usable memory from there on into a block of free pages.
\<close>

section \<open>Windows: the pages below one last table\<close>

definition window :: "u64 \<Rightarrow> nat" where
  "window va = unat (vpage va) div 512"

definition win_addr :: "nat \<Rightarrow> u64" where
  "win_addr w = push_bit 21 (of_nat w)"

text \<open>The number of tables that are missing for the pages of the windows \<open>W\<close>.\<close>

definition need :: "page_state \<Rightarrow> nat set \<Rightarrow> nat" where
  "need s W = (\<Sum>w\<in>W. missing 3 (ram s) (cr3 s) (win_addr w))"

lemma win_addr_window: "win_addr (window va) = push_bit 21 (drop_bit 9 (vpage va))"
proof -
  have "unat (vpage va) div 512 = unat (drop_bit 9 (vpage va))" by (simp add: drop_bit_eq_div unat_div)
  then show ?thesis by (simp add: win_addr_def window_def)
qed

lemma missing_window: "missing 3 m t va = missing 3 m t (win_addr (window va))"
proof (rule missing_same_idx [symmetric], rule bit_eqI)
  fix j n assume j: "(2 :: nat) \<le> j" "j \<le> Suc 3" and "possible_bit TYPE(u64) n"
  have "12 + (j - 1) * 9 + n = 21 + ((j - 2) * 9 + n)" "12 + (9 + ((j - 2) * 9 + n)) = 12 + (j - 1) * 9 + n"
    using j by (simp_all add: diff_mult_distrib)
  moreover have "n < 9 \<Longrightarrow> 9 + ((j - 2) * 9 + n) < 36" using j by linarith
  ultimately show "bit (PAGE_PML_IDX (win_addr (window va)) j) n = bit (PAGE_PML_IDX va j) n"
    by (auto simp: bit_idx win_addr_window bit_push_bit_iff bit_drop_bit_eq bit_vpage add.assoc dest: bit_imp_le_length)
qed

lemma window_finite: "finite {w. \<exists>va. P va \<and> window va = w}"
proof (rule finite_subset)
  show "{w. \<exists>va. P va \<and> window va = w} \<subseteq> {..<2 ^ 64}"
    by (auto simp: window_def intro: le_less_trans[OF div_le_dividend unat64_lt])
qed simp

section \<open>The pages of a region\<close>

text \<open>The pages the loop visits for a region of \<open>len\<close> bytes at \<open>base\<close>: one for every started
  4 KB of the length, from the page of \<open>base\<close> on, without those below 2 MB. When \<open>base\<close> is
  not page aligned the last page of the region can be missing.\<close>

definition region_page :: "nat \<Rightarrow> nat \<Rightarrow> u64 \<Rightarrow> bool" where
  "region_page base len va \<longleftrightarrow> 512 \<le> unat (vpage va) \<and> base div 4096 \<le> unat (vpage va) \<and>
     unat (vpage va) < base div 4096 + (len + 4095) div 4096"

definition identity_frame :: "u64 \<Rightarrow> u64" where
  "identity_frame va = push_bit 12 (vpage va)"

lemma region_page_step:
  assumes "k < len"
  shows "region_page (base + k) (len - k) va \<longleftrightarrow>
    (512 \<le> (base + k) div 4096 \<and> unat (vpage va) = (base + k) div 4096) \<or>
    region_page (base + (k + 4096)) (len - (k + 4096)) va"
proof -
  have b: "(base + (k + 4096)) div 4096 = Suc ((base + k) div 4096)"
    by (metis add.assoc add.commute div_add_self2 plus_1_eq_Suc zero_neq_numeral)
  have l: "(len - k + 4095) div 4096 = Suc ((len - (k + 4096) + 4095) div 4096)"
  proof (cases "k + 4096 \<le> len")
    case True
    then have "len - k + 4095 = (len - (k + 4096) + 4095) + 4096" by simp
    then show ?thesis by (simp only: div_add_self2)
  next
    case False
    then have "len - k + 4095 = (len - k - 1) + 4096" "len - (k + 4096) = 0" "len - k - 1 < 4096"
      using assms by simp_all
    then show ?thesis by (simp only: div_add_self2) simp
  qed
  show ?thesis unfolding region_page_def b l by auto
qed

lemma region_page_end [simp]: "\<not> region_page base 0 va"
  by (simp add: region_page_def)

lemma frame_of_low:
  assumes "unat p < 2 ^ 48"
  shows "PAGE_ALIGN p AND PAGE_FRAME_MASK = push_bit 12 (vpage p)"
proof (rule bit_eqI)
  fix n
  have "\<not> bit p m" if "48 \<le> m" for m
  proof -
    have "take_bit 48 (unat p) = unat p" using assms by (simp add: take_bit_nat_eq_self)
    then have "take_bit 48 p = p" by (metis unsigned_take_bit_eq word_unat_eq_iff)
    then show ?thesis using that by (metis bit_take_bit_iff not_less)
  qed
  then have "bit p n \<Longrightarrow> n < 48" by (meson not_le)
  then show "bit (PAGE_ALIGN p AND PAGE_FRAME_MASK) n = bit (push_bit 12 (vpage p)) n"
    unfolding align_frame by (auto simp: bit_and_iff bit_frame_mask bit_push_bit_iff bit_vpage dest: bit_imp_le_length)
qed

lemma vpage_align [simp]: "vpage (PAGE_ALIGN va) = vpage va"
proof -
  have m: "(0xFFF :: u64) = mask 12" by (simp add: mask_eq_exp_minus_1)
  show ?thesis by (rule bit_eqI) (auto simp: bit_vpage PAGE_ALIGN_def m bit_simps)
qed

lemma vpage_unat: "unat p < 2 ^ 48 \<Longrightarrow> unat (vpage p) = unat p div 4096"
proof -
  assume "unat p < 2 ^ 48"
  then have "unat p div 4096 < 2 ^ 36" by (simp add: div_less_iff_less_mult)
  then have "take_bit 36 (unat p div 4096) = unat p div 4096" by (simp add: take_bit_nat_eq_self)
  then show ?thesis by (simp add: vpage_def unsigned_take_bit_eq drop_bit_eq_div unat_div)
qed

lemma align_ge: "INIT_MEM \<le> PAGE_ALIGN p \<longleftrightarrow> 512 \<le> unat p div 4096"
proof -
  have m: "NOT (0xFFF :: u64) = NOT (mask 12)" by (simp add: mask_eq_exp_minus_1)
  have "p AND NOT (mask 12) = push_bit 12 (drop_bit 12 p)" by (rule bit_word_eqI) (auto simp: bit_simps)
  moreover have "unat (push_bit 12 (drop_bit 12 p)) = unat p div 4096 * 4096"
  proof -
    have "unat (drop_bit 12 p) = unat p div 4096" by (simp add: drop_bit_eq_div unat_div)
    moreover have "unat p div 4096 * 4096 < 18446744073709551616"
      using unat64_lt[of p] div_times_less_eq_dividend[of "unat p" 4096] by (rule le_less_trans[rotated])
    ultimately show ?thesis by (simp add: push_bit_eq_mult unat_word_ariths mult.commute)
  qed
  ultimately have "unat (PAGE_ALIGN p) = unat p div 4096 * 4096" by (simp only: PAGE_ALIGN_def m)
  then show ?thesis by (simp add: word_le_nat_alt)
qed

context table_allocator begin

text \<open>One turn of the loop: the page at offset \<open>k\<close> is mapped to itself, unless it is below
  \<^verbatim>\<open>INIT_MEM\<close> or already mapped; the tables it takes are no longer needed.\<close>

lemma init_map_turn:
  assumes map: "e820_base (ram s0) E820_LOC i = base" "e820_length (ram s0) E820_LOC i = len"
    and low: "unat base + unat len + 4096 \<le> 2 ^ 48" and k: "k < len"
    and W: "finite W" "512 \<le> unat (base + k) div 4096 \<Longrightarrow> window (base + k) \<in> W"
    and st: "room s0 T (need s0 W)" "pt_inv s0 T" "0 \<in> T - tabs 3 (ram s0) (cr3 s0)"
  shows "\<exists>s1 T1. init_map_loop al i k s0 = init_map_loop al i (k + 0x1000) s1 \<and> room s1 T1 (need s1 W) \<and> pt_inv s1 T1 \<and>
    0 \<in> T1 - tabs 3 (ram s1) (cr3 s1) \<and> agree {0} (ram s0) (ram s1) \<and>
    (\<forall>va. mmu s1 va = (if mmu s0 va = None \<and> 512 \<le> unat (base + k) div 4096 \<and> unat (vpage va) = unat (base + k) div 4096
       then Some (identity_frame va) else mmu s0 va))"
proof -
  let ?va = "PAGE_ALIGN (base + k)"
  have bk: "unat (base + k) < 2 ^ 48" using k low by (simp add: unat_word_ariths word_less_nat_alt)
  have vp: "unat (vpage va) = unat (base + k) div 4096 \<longleftrightarrow> vpage va = vpage (base + k)" for va
    unfolding vpage_unat[OF bk, symmetric] by (rule word_unat_eq_iff [symmetric])
  show ?thesis
  proof (cases "INIT_MEM \<le> ?va \<and> mmu s0 ?va = None")
    case True
    then have um: "mmu s0 ?va = None" and hi: "512 \<le> unat (base + k) div 4096" by (simp_all add: align_ge)
    let ?w = "window (base + k)" and ?n = "\<lambda>s w. missing 3 (ram s) (cr3 s) (win_addr w)"
    have w: "?w \<in> W" "window ?va = ?w" using W(2)[OF hi] by (simp_all add: window_def)
    have mw: "missing 3 m t ?va = missing 3 m t (win_addr ?w)" for m t using missing_window[of m t ?va] by (simp only: w(2))
    let ?rest = "\<Sum>w\<in>W - {?w}. ?n s0 w"
    have "need s0 W = missing 3 (ram s0) (cr3 s0) ?va + ?rest"
      unfolding need_def mw by (rule sum.remove[OF W(1) w(1)])
    then have r: "room s0 T (missing 3 (ram s0) (cr3 s0) ?va + ?rest)" using st(1) by simp
    from page_id_map_new[OF r st(2) um, of ?va False] obtain s1 N where
      p: "page_id_map al s0 ?va ?va False = Some (s1, True)" "room s1 (T \<union> N) ?rest" "pt_inv s1 (T \<union> N)"
        "cr3 s1 = cr3 s0" "N \<inter> T = {}" "tabs 3 (ram s1) (cr3 s0) \<subseteq> tabs 3 (ram s0) (cr3 s0) \<union> N" and
      ag: "agree (T - tabs 3 (ram s0) (cr3 s0)) (ram s0) (ram s1)" and
      ms: "\<forall>va. missing 3 (ram s1) (cr3 s0) va \<le> missing 3 (ram s0) (cr3 s0) va" "missing 3 (ram s1) (cr3 s0) ?va = 0" and
      u: "\<forall>va. mmu s1 va = (if vpage va = vpage ?va then Some (?va AND PAGE_FRAME_MASK) else mmu s0 va)"
      by blast
    have "need s1 W = ?n s1 ?w + (\<Sum>w\<in>W - {?w}. ?n s1 w)"
      unfolding need_def by (rule sum.remove[OF W(1) w(1)])
    also have "\<dots> \<le> ?rest" using ms mw by (simp add: p(4) sum_mono)
    finally have room: "room s1 (T \<union> N) (need s1 W)" by (rule room_mono[OF p(2)])
    have z: "0 \<in> T \<union> N - tabs 3 (ram s1) (cr3 s1)" using st(3) p(4-6) by auto
    have a0: "agree {0} (ram s0) (ram s1)" by (rule agree_mono[OF ag]) (use st(3) in simp)
    have e: "init_map_loop al i k s0 = init_map_loop al i (k + 0x1000) s1"
      using k map True p(1) by (subst init_map_loop.simps) (simp add: Let_def)
    have f: "?va AND PAGE_FRAME_MASK = push_bit 12 (vpage ?va)"
      using frame_of_low[OF bk] by (simp add: frame_mask_eq and.assoc flip: align_frame)
    have "mmu s0 va = None" if "vpage va = vpage (base + k)" for va
      using True mmu_vpage[of va ?va s0] that by simp
    then have "mmu s1 va = (if mmu s0 va = None \<and> 512 \<le> unat (base + k) div 4096 \<and> unat (vpage va) = unat (base + k) div 4096
       then Some (identity_frame va) else mmu s0 va)" for va
      unfolding vp using u f hi by (simp add: identity_frame_def)
    with e room p(3) z a0 show ?thesis by blast
  next
    case False
    have "init_map_loop al i k s0 = init_map_loop al i (k + 0x1000) s0"
    proof (cases "?va \<ge> INIT_MEM")
      case True
      with False obtain p where "mmu s0 ?va = Some p" by auto
      from page_id_map_old[OF this, of al ?va False] k map True show ?thesis
        by (subst init_map_loop.simps) (simp add: Let_def)
    qed (use k map in \<open>subst init_map_loop.simps, simp add: Let_def\<close>)
    moreover have "\<not> 512 \<le> unat (base + k) div 4096" if "mmu s0 va = None" "vpage va = vpage (base + k)" for va
      using False that mmu_vpage[of va ?va s0] unfolding align_ge by auto
    then have "\<forall>va. mmu s0 va = (if mmu s0 va = None \<and> 512 \<le> unat (base + k) div 4096 \<and> unat (vpage va) = unat (base + k) div 4096
       then Some (identity_frame va) else mmu s0 va)" unfolding vp by auto
    ultimately show ?thesis using st by (intro exI[of _ s0] exI[of _ T]) simp
  qed
qed

lemma init_map_loop_spec:
  assumes map: "\<And>m. agree {0} (ram s) m \<Longrightarrow> e820_base m E820_LOC i = base \<and> e820_length m E820_LOC i = len"
    and low: "unat base + unat len + 4096 \<le> 2 ^ 48"
    and W: "finite W" "\<And>va. region_page (unat base) (unat len) va \<Longrightarrow> window va \<in> W"
  shows "unat len \<le> unat k + 4096 * n \<Longrightarrow> unat k < unat len + 4096 \<Longrightarrow>
    (\<And>va. region_page (unat base + unat k) (unat len - unat k) va \<Longrightarrow> region_page (unat base) (unat len) va) \<Longrightarrow>
    agree {0} (ram s) (ram s0) \<Longrightarrow> room s0 T (need s0 W) \<Longrightarrow> pt_inv s0 T \<Longrightarrow>
    0 \<in> T - tabs 3 (ram s0) (cr3 s0) \<Longrightarrow>
    \<exists>s' T'. init_map_loop al i k s0 = Some s' \<and> room s' T' (need s' W) \<and> pt_inv s' T' \<and>
      0 \<in> T' - tabs 3 (ram s') (cr3 s') \<and> agree {0} (ram s) (ram s') \<and>
      (\<forall>va. mmu s' va = (if mmu s0 va = None \<and> region_page (unat base + unat k) (unat len - unat k) va
         then Some (identity_frame va) else mmu s0 va))"
proof (induction n arbitrary: k s0 T)
  case 0
  then have "\<not> k < len" "unat len - unat k = 0" by (simp_all add: word_less_nat_alt)
  then have "init_map_loop al i k s0 = Some s0"
    using map[OF "0.prems"(4)] by (subst init_map_loop.simps) simp
  then show ?case using 0 \<open>unat len - unat k = 0\<close> by (intro exI[of _ s0] exI[of _ T]) simp
next
  case (Suc n)
  note m = map[OF Suc.prems(4)]
  show ?case
  proof (cases "k < len")
    case False
    then have l: "unat len - unat k = 0" by (simp add: word_less_nat_alt)
    have "init_map_loop al i k s0 = Some s0" using m False by (subst init_map_loop.simps) simp
    then show ?thesis using Suc.prems l by (intro exI[of _ s0] exI[of _ T]) simp
  next
    case lt: True
    then have ltn: "unat k < unat len" by (simp add: word_less_nat_alt)
    have k: "unat (k + 0x1000) = unat k + 4096" using ltn low by (simp add: unat_word_ariths)
    have bk: "unat (base + k) = unat base + unat k" "unat (base + k) < 2 ^ 48"
      using ltn low by (simp_all add: unat_word_ariths)
    note step = region_page_step[OF ltn, of "unat base"]
    have "window (base + k) \<in> W" if "512 \<le> unat (base + k) div 4096"
    proof (rule W(2), rule Suc.prems(3), subst step)
      show "512 \<le> (unat base + unat k) div 4096 \<and> unat (vpage (base + k)) = (unat base + unat k) div 4096 \<or>
        region_page (unat base + (unat k + 4096)) (unat len - (unat k + 4096)) (base + k)"
        using that vpage_unat[OF bk(2)] bk(1) by simp
    qed
    from init_map_turn[OF conjunct1[OF m] conjunct2[OF m] low lt W(1) this Suc.prems(5-7)] obtain s1 T1 where
      t: "init_map_loop al i k s0 = init_map_loop al i (k + 0x1000) s1" "room s1 T1 (need s1 W)" "pt_inv s1 T1"
        "0 \<in> T1 - tabs 3 (ram s1) (cr3 s1)" "agree {0} (ram s0) (ram s1)" and
      u: "\<forall>va. mmu s1 va = (if mmu s0 va = None \<and> 512 \<le> unat (base + k) div 4096 \<and> unat (vpage va) = unat (base + k) div 4096
         then Some (identity_frame va) else mmu s0 va)" by blast
    have next_k: "unat len \<le> unat (k + 0x1000) + 4096 * n" "unat (k + 0x1000) < unat len + 4096"
      using Suc.prems(1) ltn by (simp_all add: k)
    have sub: "region_page (unat base) (unat len) va"
      if "region_page (unat base + unat (k + 0x1000)) (unat len - unat (k + 0x1000)) va" for va
      by (rule Suc.prems(3), subst step) (use that in \<open>simp add: k\<close>)
    from Suc.IH[OF next_k sub agree_trans[OF Suc.prems(4) t(5)] t(2-4)] obtain s' T' where
      q: "init_map_loop al i (k + 0x1000) s1 = Some s'" "room s' T' (need s' W)" "pt_inv s' T'"
        "0 \<in> T' - tabs 3 (ram s') (cr3 s')" "agree {0} (ram s) (ram s')" and
      v: "\<forall>va. mmu s' va = (if mmu s1 va = None \<and> region_page (unat base + unat (k + 0x1000)) (unat len - unat (k + 0x1000)) va
           then Some (identity_frame va) else mmu s1 va)" by blast
    have "mmu s' va = (if mmu s0 va = None \<and> region_page (unat base + unat k) (unat len - unat k) va
        then Some (identity_frame va) else mmu s0 va)" for va
      using v[rule_format, of va] u[rule_format, of va] step[of va] unfolding k bk(1) by (auto split: if_splits)
    with t(1) q show ?thesis by auto
  qed
qed

end

section \<open>The block of free pages\<close>

text \<open>A block that \<^verbatim>\<open>page_create_block\<close> made and \<^verbatim>\<open>page_free_insert\<close> registered as the only
  one: header and footer point at each other and give the size; up to 30 pages it is the only
  element of its list, from 33 pages on the only node of the tree.\<close>

definition only_block :: "page_state \<Rightarrow> u64 \<Rightarrow> u64 \<Rightarrow> bool" where
  "only_block s b sz \<longleftrightarrow> PAGE_CHECK_HEADER (ram s) b \<and> page_size (ram s) b = sz \<and>
     PAGE_GET_HEADER (ram s) (PAGE_GET_FOOTER (ram s) b) = b \<and>
     (if unat sz div 4096 < 31
      then page_list s (unat sz div 4096) = b \<and> (\<forall>h<31. h \<noteq> unat sz div 4096 \<longrightarrow> page_list s h = 0) \<and>
        prev_block (ram s) b = 0 \<and> next_block (ram s) b = 0 \<and> page_tree s = 0
      else page_tree s = b \<and> (\<forall>h<31. page_list s h = 0) \<and> parent_block (ram s) b = 0 \<and>
        child_block (ram s) b = 0 \<and> smaller_block (ram s) b = 0 \<and> larger_block (ram s) b = 0)"

lemma apart_nat: "unat x + 8 \<le> unat y \<Longrightarrow> unat y < 2 ^ 64 - 8 \<Longrightarrow> apart x y \<and> apart y x"
  by (simp add: apart_def word_le_nat_alt unat_sub_if' del: unat_word_ariths) linarith

lemma store_above: "unat y < unat a \<Longrightarrow> unat a + 8 \<le> 2 ^ 64 \<Longrightarrow> store64 m a v y = m y"
  by (rule store64_other) (use addrs_nowrap[of a 8 y] in auto)

lemma unat_add_8: "unat a + 8 < 2 ^ 64 \<Longrightarrow> unat (a + 8 :: u64) = unat a + 8"
  by (simp add: unat_word_ariths)

lemma page_create_block_facts:
  fixes b x :: u64
  defines "sz \<equiv> PAGE_SIZE_ALIGN x" and "f \<equiv> b + PAGE_SIZE_ALIGN x - 16"
  assumes x: "0 < x" "unat x + 4095 < 2 ^ 64" and b: "unat b + unat sz + 4096 < 2 ^ 64"
  shows "load64 (page_create_block m b x) b = PAGE_MAGIC" "load64 (page_create_block m b x) (b + 8) = sz"
    "load64 (page_create_block m b x) f = PAGE_MAGIC" "load64 (page_create_block m b x) (f + 8) = b"
    "unat y < unat b \<Longrightarrow> page_create_block m b x y = m y"
    "4096 \<le> unat sz" "unat f = unat b + unat sz - 16"
proof -
  have "0 < unat x" using x(1) by (simp add: word_less_nat_alt)
  then have "1 \<le> (unat x + 4095) div 4096" by linarith
  then show s: "4096 \<le> unat sz" by (simp add: sz_def PAGE_SIZE_ALIGN_unat[OF x(2)])
  have bs: "unat (b + sz) = unat b + unat sz" using b by (simp add: unat_word_ariths)
  show f: "unat f = unat b + unat sz - 16" unfolding f_def sz_def[symmetric]
    using s bs by (simp add: unat_sub word_le_nat_alt)
  have u: "unat (b + 8) = unat b + 8" "unat (f + 8) = unat f + 8" using s b f by (simp_all add: unat_word_ariths)
  have a: "apart b (b + 8)" "apart b f" "apart b (f + 8)" "apart (b + 8) f" "apart (b + 8) (f + 8)" "apart f (f + 8)"
    using s b f u by (auto intro!: conjunct1[OF apart_nat])
  have g: "PAGE_GET_FOOTER (store64 (store64 m b PAGE_MAGIC) (b + 8) sz) b = f"
    by (simp add: PAGE_GET_FOOTER_def page_size_def f_def sz_def)
  have e: "page_create_block m b x =
      store64 (store64 (store64 (store64 m b PAGE_MAGIC) (b + 8) sz) (f + 8) b) f PAGE_MAGIC"
    by (simp add: page_create_block_def Let_def g flip: sz_def)
  show "load64 (page_create_block m b x) b = PAGE_MAGIC" "load64 (page_create_block m b x) (b + 8) = sz"
    "load64 (page_create_block m b x) f = PAGE_MAGIC" "load64 (page_create_block m b x) (f + 8) = b"
    unfolding e using a a[THEN apart_sym[THEN iffD1]] by (simp_all add: frame)
  show "page_create_block m b x y = m y" if "unat y < unat b"
    unfolding e using that s b f u by (simp add: store_above)
qed

lemma block_registered:
  fixes b x :: u64
  defines "sz \<equiv> PAGE_SIZE_ALIGN x"
  assumes x: "0 < x" "unat x + 4095 < 2 ^ 64" and b: "unat b + unat sz + 4096 < 2 ^ 64"
    and none: "page_tree s = 0" "\<forall>h<31. page_list s h = 0" and n: "unat sz div 4096 \<notin> {31, 32}"
  shows "\<exists>s'. page_free_insert (s\<lparr>ram := page_create_block (ram s) b x\<rparr>) b = Some (Inr s') \<and> only_block s' b sz \<and>
    (\<forall>y. unat y < unat b \<longrightarrow> ram s' y = ram s y) \<and>
    s' = s\<lparr>ram := ram s', page_list := page_list s', page_tree := page_tree s'\<rparr>"
proof -
  let ?m = "page_create_block (ram s) b x" and ?f = "b + sz - 16"
  note c = page_create_block_facts[OF x b[unfolded sz_def], folded sz_def]
  note c = c(1-4)[of "ram s"] c(5)[of _ "ram s"] c(6,7)
  have back8: "load64 ?m (b + sz - 8) = b" using c(4) by simp
  have ps: "page_size ?m b = sz" by (simp add: page_size_def c)
  have u: "unat (b + 8) = unat b + 8" "unat (b + 16) = unat b + 16" "unat (b + 24) = unat b + 24"
    "unat (b + 32) = unat b + 32" "unat (b + 40) = unat b + 40" using b by (simp_all add: unat_word_ariths)
  have uf: "unat (?f + 8) = unat ?f + 8" by (rule unat_add_8) (use c(6,7) b in simp)
  have ap: "apart p q" if "p \<in> {b, b + 8, ?f, ?f + 8}" "q \<in> {b + 16, b + 24, b + 32, b + 40}" for p q
    using that apart_nat[of p q] apart_nat[of q p] u uf c(6,7) b by auto
  note stores = set_prev_def set_next_def set_parent_def set_child_def set_smaller_def set_larger_def
  have keep: "PAGE_CHECK_HEADER m' b" "page_size m' b = sz" "PAGE_GET_HEADER m' (PAGE_GET_FOOTER m' b) = b"
    if "\<And>p. p \<in> {b, b + 8, ?f, ?f + 8} \<Longrightarrow> load64 m' p = load64 ?m p" for m'
    using that by (simp_all add: PAGE_CHECK_HEADER_def PAGE_GET_FOOTER_def PAGE_GET_HEADER_def page_size_def c back8)
  show ?thesis
  proof (cases "unat sz div 4096 < 31")
    case True
    then have le: "sz div PAGE_SIZE \<le> PAGE_LIST_MAX" by (simp add: word_le_nat_alt unat_div)
    have i: "PAGE_SIZE_IDX sz = int (unat sz div 4096)" using PAGE_SIZE_IDX_eq(1)[OF le] by (simp add: unat_div)
    let ?m' = "store64 (store64 ?m (b + 16) 0) (b + 24) 0"
    let ?s' = "s\<lparr>ram := ?m', page_list := (page_list s)(unat sz div 4096 := b)\<rparr>"
    have nx: "next_block ?m' b = 0" "prev_block ?m' b = 0" by (simp_all add: link_defs frame apart_def)
    have l: "load64 ?m' p = load64 ?m p" if "p \<in> {b, b + 8, ?f, ?f + 8}" for p
      using ap[OF that] by (simp add: frame)
    have "page_free_insert (s\<lparr>ram := ?m\<rparr>) b = Some (Inr ?s')"
      using True i none nx(1) by (simp add: page_free_insert_def ps page_list_insert_def Let_def set_prev_def set_next_def)
    moreover have "only_block ?s' b sz"
      using True keep[OF l] nx none by (simp add: only_block_def)
    moreover have "ram ?s' y = ram s y" if "unat y < unat b" for y
      using that u c(5)[OF that] c(6,7) b by (simp add: store_above)
    ultimately show ?thesis by (intro exI[of _ ?s']) simp
  next
    case False
    then have nle: "\<not> sz div PAGE_SIZE \<le> PAGE_LIST_MAX" using n by (auto simp: word_le_nat_alt unat_div)
    let ?m' = "store64 (store64 (store64 (store64 ?m (b + 40) 0) (b + 32) 0) (b + 16) 0) (b + 24) 0"
    let ?s' = "s\<lparr>ram := ?m', page_tree := b\<rparr>"
    have nx: "parent_block ?m' b = 0" "child_block ?m' b = 0" "smaller_block ?m' b = 0" "larger_block ?m' b = 0"
      by (simp_all add: link_defs frame apart_def)
    have l: "load64 ?m' p = load64 ?m p" if "p \<in> {b, b + 8, ?f, ?f + 8}" for p
      using ap[OF that] by (simp add: frame)
    have "page_free_insert (s\<lparr>ram := ?m\<rparr>) b = Some (Inr ?s')"
      using nle none(1) PAGE_SIZE_IDX_eq(2)[OF nle]
      by (simp add: page_free_insert_def ps page_tree_insert_def Let_def set_parent_def set_child_def set_smaller_def set_larger_def)
    moreover have "only_block ?s' b sz"
      using False keep[OF l] nx none by (simp add: only_block_def)
    moreover have "ram ?s' y = ram s y" if "unat y < unat b" for y
      using that u c(5)[OF that] c(6,7) b by (simp add: store_above)
    ultimately show ?thesis by (intro exI[of _ ?s']) simp
  qed
qed

section \<open>The entries of the memory map\<close>

definition usable :: "u8 list \<Rightarrow> bool" where
  "usable e \<longleftrightarrow> type_of e = kMemOk"

definition entry_top :: "u8 list \<Rightarrow> u64" where
  "entry_top e = base_of e + len_of e"

text \<open>A usable region reaches beyond 2 MB; what lies there becomes a block.\<close>

definition high :: "u8 list \<Rightarrow> bool" where
  "high e \<longleftrightarrow> usable e \<and> INIT_MEM < entry_top e"

definition block_start :: "u8 list \<Rightarrow> u64" where
  "block_start e = (if base_of e < INIT_MEM then INIT_MEM else base_of e)"

definition block_len :: "u8 list \<Rightarrow> u64" where
  "block_len e = len_of e - (block_start e - base_of e)"

definition block_pages :: "u8 list \<Rightarrow> nat" where
  "block_pages e = unat (PAGE_SIZE_ALIGN (block_len e)) div 4096"

text \<open>The pages of all usable regions that the loop visits.\<close>

definition usable_page :: "u8 list list \<Rightarrow> u64 \<Rightarrow> bool" where
  "usable_page es va \<longleftrightarrow> (\<exists>e\<in>set es. usable e \<and> region_page (unat (base_of e)) (unat (len_of e)) va)"

text \<open>A usable region lies below \<open>2 ^ 48\<close>, where addresses need no sign extension.\<close>

definition entry_fits :: "u8 list \<Rightarrow> bool" where
  "entry_fits e \<longleftrightarrow> (usable e \<longrightarrow> unat (base_of e) + unat (len_of e) + 4096 \<le> 2 ^ 48)"

text \<open>What every entry does to the two totals.\<close>

definition count_entry :: "u8 list \<Rightarrow> page_state \<Rightarrow> page_state" where
  "count_entry e s = s\<lparr>total_mem := max (total_mem s) (entry_top e),
     available_mem := available_mem s + (if usable e then len_of e else 0)\<rparr>"

lemma count_entries [simp]:
  "ram (fold count_entry es s) = ram s" "cr3 (fold count_entry es s) = cr3 s"
  "heap_var (fold count_entry es s) = heap_var s" "placement_addr (fold count_entry es s) = placement_addr s"
  "page_tree (fold count_entry es s) = page_tree s" "page_list (fold count_entry es s) = page_list s"
  by (induction es arbitrary: s) (simp_all add: count_entry_def)

lemma count_entries_total: "total_mem (fold count_entry es s) = Max (insert (total_mem s) (entry_top ` set es))"
proof (induction es arbitrary: s)
  case (Cons e es)
  have "total_mem (fold count_entry (e # es) s) =
      Max (insert (max (total_mem s) (entry_top e)) (entry_top ` set es))"
    by (simp add: Cons.IH) (simp add: count_entry_def)
  also have "\<dots> = Max (insert (total_mem s) (insert (entry_top e) (entry_top ` set es)))"
    by (cases "set es = {}") (simp_all add: max.assoc)
  finally show ?case by simp
qed simp

lemma count_entries_available:
  "available_mem (fold count_entry es s) = available_mem s + sum_list (map len_of (filter usable es))"
  by (induction es arbitrary: s) (simp_all add: count_entry_def algebra_simps)

lemma same_regs:
  assumes "ram s' = ram s" "cr3 s' = cr3 s"
  shows "pt_inv s' T = pt_inv s T" "mmu s' va = mmu s va" "need s' W = need s W"
  using assms by (simp_all add: pt_inv_def mmu_def need_def)

text \<open>Memory changes outside of the tables.\<close>

lemma ram_agree:
  assumes inv: "pt_inv s T" and ag: "agree (tabs 3 (ram s) (cr3 s)) (ram s) m"
    and s': "ram s' = m" "cr3 s' = cr3 s"
  shows "pt_inv s' T" "mmu s' va = mmu s va" "need s' W = need s W" "tabs 3 m (cr3 s) = tabs 3 (ram s) (cr3 s)"
  using inv tabs_cong[OF ag] pt_wf_cong[OF ag] translate_cong[OF ag] missing_cong[OF ag] s'
  by (simp_all add: pt_inv_def mmu_def need_def)

text \<open>The entries lie in the first page.\<close>

lemma first_page_entry:
  assumes "i < 100" "agree {0} m m'"
  shows "read_entry m' (e820_entry E820_LOC (of_nat i)) = read_entry m (e820_entry E820_LOC (of_nat i))"
proof (rule read_entry_cong)
  fix x assume x: "x \<in> addrs (e820_entry E820_LOC (of_nat i)) 26"
  have "map_fits E820_LOC 100" by (simp add: map_fits_def)
  from entry_unat[OF this, of i] assms(1) have u: "unat (e820_entry E820_LOC (of_nat i)) = 0x502 + 26 * i" by simp
  then have "unat x < 0x502 + 26 * i + 26"
    using x assms(1) addrs_nowrap[of "e820_entry E820_LOC (of_nat i)" 26 x] by simp
  then have "x \<in> addrs 0 4096" using assms(1) by (simp add: in_addrs_iff)
  then show "m' x = m x" using assms(2) by (simp add: agree_def page_cells_def)
qed

lemma first_page_size: "agree {0} m m' \<Longrightarrow> e820_size m' E820_LOC = e820_size m E820_LOC"
proof -
  assume a: "agree {0} m m'"
  have "load_le 2 m' 0x500 = load_le 2 m 0x500"
  proof (rule load_le_cong)
    fix x :: u64 assume "x \<in> addrs 0x500 2"
    then have "unat x < 0x502" using addrs_nowrap[of "0x500" 2 x] by simp
    then have "x \<in> addrs 0 4096" by (simp add: in_addrs_iff)
    then show "m' x = m x" using a by (simp add: agree_def page_cells_def)
  qed simp
  then show ?thesis by (simp add: e820_size_def load16_def)
qed

lemma first_page_list:
  "n \<le> 100 \<Longrightarrow> agree {0} m m' \<Longrightarrow> e820_list m' E820_LOC n = e820_list m E820_LOC n"
  by (simp add: e820_list_def first_page_entry)

section \<open>Entries that only count\<close>

lemma init_map_loop_low:
  assumes b: "e820_base (ram s) E820_LOC i = base" "e820_length (ram s) E820_LOC i = len"
    and low: "unat base + unat len \<le> unat INIT_MEM"
  shows "unat len \<le> unat k + 4096 * n \<Longrightarrow> init_map_loop al i k s = Some s"
proof (induction n arbitrary: k)
  case 0
  then have "\<not> k < len" by (simp add: word_less_nat_alt)
  then show ?case using b by (subst init_map_loop.simps) simp
next
  case (Suc n)
  show ?case
  proof (cases "k < len")
    case True
    then have l: "unat k < unat len" by (simp add: word_less_nat_alt)
    have u: "unat (k + 0x1000) = unat k + 4096" "unat (base + k) = unat base + unat k"
      using l low by (simp_all add: unat_word_ariths)
    have "\<not> 512 \<le> unat (base + k) div 4096" unfolding u(2) using l low by simp
    then have "\<not> INIT_MEM \<le> PAGE_ALIGN (base + k)" by (simp only: align_ge not_False_eq_True)
    then have "init_map_loop al i k s = init_map_loop al i (k + 0x1000) s"
      using True b by (subst init_map_loop.simps) (simp add: Let_def)
    also have "\<dots> = Some s" by (rule Suc.IH) (use Suc.prems u(1) in simp)
    finally show ?thesis .
  next
    case False
    then show ?thesis using b by (subst init_map_loop.simps) simp
  qed
qed

lemma entry_top_unat:
  assumes "entry_fits e" "usable e"
  shows "unat (entry_top e) = unat (base_of e) + unat (len_of e)"
  using assms by (simp add: entry_fits_def entry_top_def unat_word_ariths)

lemma init_entry_low:
  assumes e: "read_entry (ram s) (e820_entry E820_LOC i) = e" and "\<not> high e" "entry_fits e"
  shows "init_entry al i s = Some (Inr (count_entry e s))"
proof -
  note f = e820_base_entry e820_length_entry e820_type_entry
  show ?thesis
  proof (cases "usable e")
    case True
    then have low: "unat (base_of e) + unat (len_of e) \<le> unat INIT_MEM" "\<not> INIT_MEM < base_of e + len_of e"
      using assms(2) entry_top_unat[OF assms(3)] by (simp_all add: high_def entry_top_def word_less_nat_alt)
    have k: "unat (len_of e) \<le> unat (0 :: u64) + 4096 * unat (len_of e)" by simp
    have "init_map_loop al i 0 s' = Some s'" if "ram s' = ram s" for s'
      by (rule init_map_loop_low[OF _ _ low(1) k]) (simp_all add: f e that)
    then show ?thesis
      using True low(2) by (simp add: init_entry_def Let_def f e usable_def count_entry_def entry_top_def max_def)
  next
    case False
    then show ?thesis by (simp add: init_entry_def Let_def f e usable_def count_entry_def entry_top_def max_def)
  qed
qed

lemma init_entries_skip:
  "es = e820_list (ram s) E820_LOC n \<Longrightarrow> n = unat (e820_size (ram s) E820_LOC) \<Longrightarrow> drop i es = pre @ rest \<Longrightarrow>
   (\<And>e. e \<in> set pre \<Longrightarrow> \<not> high e \<and> entry_fits e) \<Longrightarrow>
   init_entries al (of_nat i) s = init_entries al (of_nat (i + length pre)) (fold count_entry pre s)"
proof (induction pre arbitrary: i s)
  case (Cons e pre)
  have i: "i < n" using Cons.prems(1,3) by (metis Nil_is_append_conv drop_eq_Nil e820_list_length leI list.discI)
  have e: "read_entry (ram s) (e820_entry E820_LOC (of_nat i)) = e"
    using Cons.prems(1,3) i by (metis Cons_nth_drop_Suc append_Cons e820_list_length e820_list_nth list.inject)
  have lt: "(of_nat i :: u64) < e820_size (ram s) E820_LOC"
    using i Cons.prems(2) unat64_lt[of "e820_size (ram s) E820_LOC"] by (simp add: word_less_nat_alt unat_of_nat_small)
  have "drop (Suc i) es = pre @ rest" using Cons.prems(3) by (metis append_Cons drop_Suc list.sel(3) tl_drop)
  then have "init_entries al (of_nat (Suc i)) (count_entry e s) =
      init_entries al (of_nat (Suc i + length pre)) (fold count_entry pre (count_entry e s))"
    using Cons.prems by (intro Cons.IH) (simp_all add: count_entry_def)
  moreover have "init_entries al (of_nat i) s = init_entries al (of_nat (Suc i)) (count_entry e s)"
    using init_entry_low[OF e, of al] Cons.prems(4)[of e] lt by (subst init_entries.simps) (simp add: add.commute)
  ultimately show ?case by simp
qed simp

lemma init_entries_end:
  "n = unat (e820_size (ram s) E820_LOC) \<Longrightarrow> init_entries al (of_nat n) s = Some (Inr s)"
  by (subst init_entries.simps) simp

section \<open>The entry of the free memory\<close>

lemma init_map_loop_vars: "init_map_loop (table_al d) i k s = Some s' \<Longrightarrow> same_vars s s'"
proof -
  have "al = table_al d \<longrightarrow> same_vars s s'" if "init_map_loop al i k s = Some s'" for al
    using that
  proof (rule init_map_loop.raw_induct[rotated], intro impI)
    fix f and al :: table_alloc and i k s s'
    assume IH: "\<And>al i k s s'. f al i k s = Some s' \<Longrightarrow> al = table_al d \<longrightarrow> same_vars s s'" and al: "al = table_al d"
      and r: "(if k < e820_length (ram s) E820_LOC i then
         let va = PAGE_ALIGN (e820_base (ram s) E820_LOC i + k) in
         if va \<ge> INIT_MEM then Option.bind (page_id_map al s va va False) (\<lambda>(s, _). f al i (k + PAGE_SIZE) s)
         else f al i (k + PAGE_SIZE) s
       else Some s) = Some s'"
    show "same_vars s s'"
      using r IH al same_vars_trans[OF page_id_map_vars]
      by (fastforce simp: Let_def bind_eq_Some_conv split: if_splits)
  qed
  then show "init_map_loop (table_al d) i k s = Some s' \<Longrightarrow> same_vars s s'" by blast
qed

lemma init_entry_high:
  assumes e: "\<And>m. agree {0} (ram s) m \<Longrightarrow> read_entry m (e820_entry E820_LOC i) = e"
    and hi: "high e" "entry_fits e" "block_pages e \<notin> {0, 31, 32}"
    and W: "finite W" "\<And>va. region_page (unat (base_of e)) (unat (len_of e)) va \<Longrightarrow> window va \<in> W"
    and st: "low_room s T (need s W)" "pt_inv s T" "0 \<in> T - tabs 3 (ram s) (cr3 s)"
    and none: "page_tree s = 0" "\<forall>h<31. page_list s h = 0"
  shows "\<exists>s2 T2. init_entry (table_al d) i s = Some (Inr (count_entry e s2)) \<and>
    low_room s2 T2 0 \<and> pt_inv s2 T2 \<and> cr3 s2 = cr3 s \<and> total_mem s2 = total_mem s \<and> available_mem s2 = available_mem s \<and>
    agree {0} (ram s) (ram s2) \<and> only_block s2 (block_start e) (PAGE_SIZE_ALIGN (block_len e)) \<and>
    (\<forall>va. mmu s2 va = (if mmu s va = None \<and> region_page (unat (base_of e)) (unat (len_of e)) va
       then Some (identity_frame va) else mmu s va))"
proof -
  let ?len = "len_of e" and ?base = "base_of e" and ?b = "block_start e" and ?x = "block_len e"
  note f = e820_base_entry e820_length_entry e820_type_entry
  have us: "usable e" and gt: "INIT_MEM < ?base + ?len" using hi(1) by (simp_all add: high_def entry_top_def)
  have low: "unat ?base + unat ?len + 4096 \<le> 2 ^ 48" using hi(2) us by (simp add: entry_fits_def)
  have top: "unat (?base + ?len) = unat ?base + unat ?len" using low by (simp add: unat_word_ariths)
  define s0 where "s0 = s\<lparr>total_mem := max (total_mem s) (entry_top e)\<rparr>"
  have s0: "ram s0 = ram s" "cr3 s0 = cr3 s" by (simp_all add: s0_def)
  have st0: "low_room s0 T (need s0 W)" "pt_inv s0 T" "0 \<in> T - tabs 3 (ram s0) (cr3 s0)"
    using st same_regs[OF s0] by (simp_all add: low_room_def place_room_def s0_def)
  have k: "unat ?len \<le> unat (0 :: u64) + 4096 * unat ?len" "unat (0 :: u64) < unat ?len + 4096" by simp_all
  have map: "e820_base m E820_LOC i = ?base \<and> e820_length m E820_LOC i = ?len" if "agree {0} (ram s0) m" for m
    using e that by (simp add: f s0)
  have sub: "region_page (unat ?base) (unat ?len) va"
    if "region_page (unat ?base + unat (0 :: u64)) (unat ?len - unat (0 :: u64)) va" for va using that by simp
  from low.init_map_loop_spec[OF map low W k sub agree_refl st0, of d] obtain s1 T1 where
    l: "init_map_loop (table_al d) i 0 s0 = Some s1" "low_room s1 T1 (need s1 W)" "pt_inv s1 T1"
      "0 \<in> T1 - tabs 3 (ram s1) (cr3 s1)" "agree {0} (ram s) (ram s1)" and
    mm: "\<forall>va. mmu s1 va = (if mmu s0 va = None \<and> region_page (unat ?base) (unat ?len) va
      then Some (identity_frame va) else mmu s0 va)" unfolding s0(1) by auto
  have v: "s1 = s0\<lparr>ram := ram s1, placement_addr := placement_addr s1\<rparr>"
    using init_map_loop_vars[OF l(1)] by (simp add: same_vars_def)
  have v1: "total_mem s1 = max (total_mem s) (entry_top e)" "available_mem s1 = available_mem s" "cr3 s1 = cr3 s"
    "page_tree s1 = 0" "\<forall>h<31. page_list s1 h = 0" "heap_var s1 = heap_var s"
    by (subst v, simp add: s0_def none)+
  have e1: "read_entry (ram s1) (e820_entry E820_LOC i) = e" by (rule e[OF l(5)])
  let ?s1 = "s1\<lparr>available_mem := available_mem s1 + ?len\<rparr>"
  have "?x \<noteq> 0" using hi(3) by (auto simp: block_pages_def PAGE_SIZE_ALIGN_def)
  then have "0 < ?x" by (simp add: word_neq_0_conv)
  then have bs: "unat ?b + unat ?x = unat ?base + unat ?len" "0 < ?x" "unat INIT_MEM \<le> unat ?b"
    using gt low by (auto simp: block_start_def block_len_def top word_less_nat_alt unat_sub_if')
  have x: "unat ?x + 4095 < 2 ^ 64" using bs(1) low by simp
  have sz: "unat (PAGE_SIZE_ALIGN ?x) \<le> unat ?x + 4095" unfolding PAGE_SIZE_ALIGN_unat[OF x] by (rule div_times_less_eq_dividend)
  then have "unat ?b + unat (PAGE_SIZE_ALIGN ?x) + 4096 < 2 ^ 64" using bs(1) low by simp
  from block_registered[OF bs(2) x this, of ?s1] v1 hi(3) obtain s' where
    b: "page_free_insert (?s1\<lparr>ram := page_create_block (ram s1) ?b ?x\<rparr>) ?b = Some (Inr s')"
      "only_block s' ?b (PAGE_SIZE_ALIGN ?x)" "\<forall>y. unat y < unat ?b \<longrightarrow> ram s' y = ram s1 y"
      "s' = ?s1\<lparr>ram := ram s', page_list := page_list s', page_tree := page_tree s'\<rparr>"
    by (auto simp: block_pages_def)
  define s2 where "s2 = s'\<lparr>total_mem := total_mem s, available_mem := available_mem s\<rparr>"
  have s2: "ram s2 = ram s'" "cr3 s2 = cr3 s1" "total_mem s2 = total_mem s" "available_mem s2 = available_mem s"
    "heap_var s2 = heap_var s1" "placement_addr s2 = placement_addr s1"
    by (simp_all add: s2_def) (subst b(4), simp)+
  have c: "count_entry e s2 = s'"
  proof -
    have "total_mem s' = max (total_mem s) (entry_top e)" "available_mem s' = available_mem s + ?len"
      by (subst b(4), simp add: v1)+
    then show ?thesis using us by (simp add: s2_def count_entry_def)
  qed
  have "init_entry (table_al d) i s = Some (Inr s')"
  proof -
    have "s0 = (if total_mem s < ?base + ?len then s\<lparr>total_mem := ?base + ?len\<rparr> else s)"
      by (auto simp: s0_def max_def entry_top_def)
    then have "init_map_loop (table_al d) i 0 (if total_mem s < ?base + ?len then s\<lparr>total_mem := ?base + ?len\<rparr> else s) = Some s1"
      using l(1) by simp
    moreover have "ram (if total_mem s < ?base + ?len then s\<lparr>total_mem := ?base + ?len\<rparr> else s) = ram s" by simp
    ultimately show ?thesis
      using us gt e1 e[OF agree_refl] b(1)
      by (simp add: init_entry_def Let_def f usable_def block_start_def block_len_def split del: if_split cong: if_cong)
  qed
  moreover have T1: "agree T1 (ram s1) (ram s')"
    by (rule low_room_agree[OF l(2)]) (use b(3) bs(3) in \<open>simp add: word_less_nat_alt\<close>)
  then have a: "agree (tabs 3 (ram s1) (cr3 s1)) (ram s1) (ram s')"
    by (rule agree_mono) (use l(3) in \<open>simp add: pt_inv_def\<close>)
  note r = ram_agree[OF l(3) a s2(1,2)]
  have "agree {0} (ram s) (ram s2)"
    unfolding s2(1) by (rule agree_trans[OF l(5) agree_mono[OF T1]]) (use l(4) in simp)
  moreover have "low_room s2 T1 0"
    using low.room_mono[OF l(2), of 0] s2 by (simp add: low_room_def place_room_def)
  moreover have "only_block s2 ?b (PAGE_SIZE_ALIGN ?x)" using b(2) by (simp add: only_block_def s2_def)
  ultimately show ?thesis
    using r(1,2) mm same_regs(2)[OF s0] v1(3) s2 c by (intro exI[of _ s2] exI[of _ T1]) simp
qed

section \<open>The whole function\<close>

definition usable_windows :: "u8 list list \<Rightarrow> nat set" where
  "usable_windows es = {w. \<exists>va. usable_page es va \<and> window va = w}"

text \<open>The memory maps covered: at most 100 entries, and at most one usable region that reaches
  beyond 2 MB, neither empty nor of 31 or 32 pages there.\<close>

definition plain_map :: "u8 list list \<Rightarrow> bool" where
  "plain_map es \<longleftrightarrow> length es \<le> 100 \<and> (\<forall>e\<in>set es. entry_fits e) \<and> length (filter high es) \<le> 1 \<and>
     (\<forall>e\<in>set es. high e \<longrightarrow> block_pages e \<notin> {0, 31, 32})"

lemma plain_map_mset:
  assumes "mset es' = mset es" "plain_map es"
  shows "plain_map es'" "filter high es' = filter high es" "set es' = set es"
    "sum_list (map len_of (filter usable es')) = sum_list (map len_of (filter usable es))"
proof -
  show s: "set es' = set es" using assms(1) by (metis set_mset_mset)
  have m: "mset (filter P es') = mset (filter P es)" for P using assms(1) by simp
  have l: "length (filter high es') = length (filter high es)" using m[of high] by (metis size_mset)
  show "filter high es' = filter high es"
  proof (cases "filter high es")
    case (Cons a as)
    then have "as = []" using assms(2) by (simp add: plain_map_def)
    then have "mset (filter high es') = {#a#}" using m[of high] Cons by (simp del: mset_filter)
    then show ?thesis using Cons \<open>as = []\<close> by (simp only: mset_single_iff)
  qed (use m[of high] in simp)
  show "plain_map es'" using assms(2) l s size_mset[of es'] assms(1) by (simp add: plain_map_def)
  show "sum_list (map len_of (filter usable es')) = sum_list (map len_of (filter usable es))"
    using m[of usable] by (metis mset_map sum_mset_sum_list)
qed

text \<open>The entries of a sorted map: those before and after the high one only count.\<close>

lemma init_entries_plain:
  assumes es: "es = e820_list (ram s) E820_LOC n" "n = unat (e820_size (ram s) E820_LOC)" and pm: "plain_map es"
    and st: "low_room s T (need s (usable_windows es))" "pt_inv s T" "0 \<in> T - tabs 3 (ram s) (cr3 s)"
    and none: "page_tree s = 0" "\<forall>h<31. page_list s h = 0"
  shows "\<exists>s' T'. init_entries (table_al d) 0 s = Some (Inr s') \<and> low_room s' T' 0 \<and> pt_inv s' T' \<and> cr3 s' = cr3 s \<and>
    agree {0} (ram s) (ram s') \<and> total_mem s' = Max (insert (total_mem s) (entry_top ` set es)) \<and>
    available_mem s' = available_mem s + sum_list (map len_of (filter usable es)) \<and>
    (\<forall>va. mmu s' va = (if mmu s va = None \<and> usable_page es va then Some (identity_frame va) else mmu s va)) \<and>
    (case filter high es of [] \<Rightarrow> page_tree s' = 0 \<and> (\<forall>h<31. page_list s' h = 0)
     | e # _ \<Rightarrow> only_block s' (block_start e) (PAGE_SIZE_ALIGN (block_len e)))"
proof -
  have n: "length es = n" "n \<le> 100" using es(1) pm by (simp_all add: plain_map_def)
  have fits: "entry_fits e" if "e \<in> set es" for e using pm that by (simp add: plain_map_def)
  have flat: "\<not> region_page (unat (base_of e)) (unat (len_of e)) va" if "e \<in> set es" "usable e" "\<not> high e" for e va
  proof -
    have "unat (base_of e) + unat (len_of e) \<le> 512 * 4096"
      using that entry_top_unat[OF fits[OF that(1)] that(2)] by (simp add: high_def word_less_nat_alt)
    moreover have "4096 * (unat (base_of e) div 4096) \<le> unat (base_of e)"
      "4096 * ((unat (len_of e) + 4095) div 4096) \<le> unat (len_of e) + 4095" by simp_all
    ultimately have "unat (base_of e) div 4096 + (unat (len_of e) + 4095) div 4096 \<le> 512" by linarith
    then show ?thesis by (simp add: region_page_def)
  qed
  show ?thesis
  proof (cases "filter high es")
    case Nil
    then have low: "\<not> high e \<and> entry_fits e" if "e \<in> set es" for e using fits[OF that] that by (auto simp: filter_empty_conv)
    have "drop 0 es = es @ []" by simp
    from init_entries_skip[OF es this low, of "table_al d"] n init_entries_end[of n "fold count_entry es s" "table_al d"] es(2)
    have r: "init_entries (table_al d) 0 s = Some (Inr (fold count_entry es s))" by simp
    have "\<not> usable_page es va" for va using flat low by (auto simp: usable_page_def)
    moreover have "mmu (fold count_entry es s) va = mmu s va" "pt_inv (fold count_entry es s) T" for va
      using same_regs[of "fold count_entry es s" s] st(2) by simp_all
    moreover have "low_room (fold count_entry es s) T 0"
      using low.room_mono[OF st(1), of 0] by (simp add: low_room_def place_room_def)
    ultimately show ?thesis using r Nil none
      by (intro exI[of _ "fold count_entry es s"] exI[of _ T]) (simp add: count_entries_total count_entries_available)
  next
    case (Cons e hs)
    then have hs: "hs = []" using pm by (simp add: plain_map_def)
    obtain pre post where sp: "es = pre @ e # post" and e: "high e" and pre: "\<forall>x\<in>set pre. \<not> high x"
      and post: "hs = filter high post" using filter_eq_ConsD[OF Cons] by blast
    have "\<forall>x\<in>set post. \<not> high x" using post hs by (metis filter_empty_conv)
    then have low: "\<not> high x \<and> entry_fits x" if "x \<in> set pre \<or> x \<in> set post" for x
      using that pre fits[of x] sp by auto
    have us: "usable e" using e by (simp add: high_def)
    have up: "usable_page es va \<longleftrightarrow> region_page (unat (base_of e)) (unat (len_of e)) va" for va
      using flat low us by (auto simp: usable_page_def sp)
    let ?i = "length pre" and ?s1 = "fold count_entry pre s" and ?W = "usable_windows es"
    have i: "?i < n" "es ! ?i = e" "drop 0 es = pre @ e # post" "drop (Suc ?i) es = post @ []" using sp n by auto
    have r1: "init_entries (table_al d) 0 s = init_entries (table_al d) (of_nat ?i) ?s1"
      using init_entries_skip[OF es i(3), of "table_al d"] low by simp
    have lt: "(of_nat ?i :: u64) < e820_size (ram ?s1) E820_LOC"
      using i(1) es(2) unat64_lt[of "e820_size (ram s) E820_LOC"] by (simp add: word_less_nat_alt unat_of_nat_small)
    have ent: "read_entry m (e820_entry E820_LOC (of_nat ?i)) = e" if "agree {0} (ram ?s1) m" for m
      using first_page_entry[of ?i "ram s" m] that i(1,2) n(2) es(1) by simp
    have W: "finite ?W" "region_page (unat (base_of e)) (unat (len_of e)) va \<Longrightarrow> window va \<in> ?W" for va
      unfolding usable_windows_def up by (rule window_finite) blast
    have bp: "block_pages e \<notin> {0, 31, 32}" "entry_fits e" using pm e sp by (auto simp: plain_map_def)
    have st1: "low_room ?s1 T (need ?s1 ?W)" "pt_inv ?s1 T" "0 \<in> T - tabs 3 (ram ?s1) (cr3 ?s1)"
      using st same_regs[of ?s1 s] by (simp_all add: low_room_def place_room_def)
    from init_entry_high[OF ent e bp(2,1) W st1, of d] none obtain s2 T2 where
      h: "init_entry (table_al d) (of_nat ?i) ?s1 = Some (Inr (count_entry e s2))" "low_room s2 T2 0" "pt_inv s2 T2"
        "cr3 s2 = cr3 s" "total_mem s2 = total_mem ?s1" "available_mem s2 = available_mem ?s1" "agree {0} (ram s) (ram s2)" and
      ob: "only_block s2 (block_start e) (PAGE_SIZE_ALIGN (block_len e))" and
      mm: "\<forall>va. mmu s2 va = (if mmu ?s1 va = None \<and> region_page (unat (base_of e)) (unat (len_of e)) va
        then Some (identity_frame va) else mmu ?s1 va)"
      by auto
    let ?s2 = "count_entry e s2" and ?s' = "fold count_entry post (count_entry e s2)"
    have ce: "ram ?s2 = ram s2" "cr3 ?s2 = cr3 s2" by (simp_all add: count_entry_def)
    have es2: "es = e820_list (ram ?s2) E820_LOC n" "n = unat (e820_size (ram ?s2) E820_LOC)"
      using first_page_list[OF n(2) h(7)] first_page_size[OF h(7)] es by (simp_all add: ce)
    have "init_entries (table_al d) (of_nat ?i) ?s1 = init_entries (table_al d) (of_nat (Suc ?i)) ?s2"
      using lt h(1) by (subst init_entries.simps) (simp add: add.commute)
    also have "\<dots> = init_entries (table_al d) (of_nat n) ?s'"
    proof -
      have "Suc ?i + length post = n" using sp n by simp
      moreover have "\<not> high x \<and> entry_fits x" if "x \<in> set post" for x using low that by blast
      note init_entries_skip[OF es2 i(4) this, of "table_al d"]
      ultimately show ?thesis by (simp only:)
    qed
    also have "\<dots> = Some (Inr ?s')" by (rule init_entries_end) (use es2(2) in simp)
    finally have r: "init_entries (table_al d) 0 s = Some (Inr ?s')" unfolding r1 .
    have rr: "ram ?s' = ram s2" "cr3 ?s' = cr3 s2" "heap_var ?s' = heap_var s2" "placement_addr ?s' = placement_addr s2"
      "page_tree ?s' = page_tree s2" "page_list ?s' = page_list s2" by (simp_all add: count_entry_def)
    have "total_mem ?s' = Max (insert (total_mem s) (entry_top ` set es))"
    proof -
      have "total_mem ?s' = total_mem (fold count_entry post (count_entry e ?s1))"
        unfolding count_entries_total by (simp add: count_entry_def h(5))
      also have "\<dots> = total_mem (fold count_entry es s)" by (simp add: sp)
      finally show ?thesis by (simp add: count_entries_total)
    qed
    moreover have "available_mem ?s' = available_mem s + sum_list (map len_of (filter usable es))"
      using h(6) us by (simp add: count_entries_available sp) (simp add: count_entry_def count_entries_available)
    moreover have "low_room ?s' T2 0" using h(2) rr by (simp add: low_room_def place_room_def)
    moreover have "only_block ?s' (block_start e) (PAGE_SIZE_ALIGN (block_len e))" using ob rr by (simp add: only_block_def)
    moreover have "mmu ?s' va = (if mmu s va = None \<and> usable_page es va then Some (identity_frame va) else mmu s va)" for va
      using mm same_regs(2)[OF rr(1,2), of va] same_regs(2)[of ?s1 s va] by (simp add: up)
    ultimately show ?thesis
      using r h(3,4,7) rr same_regs(1)[OF rr(1,2), of T2] Cons by (intro exI[of _ ?s'] exI[of _ T2]) simp
  qed
qed

lemma page_init_plain:
  assumes es: "n = unat (e820_size (ram s) E820_LOC)" "es = e820_list (ram s) E820_LOC n" and pm: "plain_map es"
    and st: "low_room s T (need s (usable_windows es))" "pt_inv s T" "0 \<in> T - tabs 3 (ram s) (cr3 s)"
  shows "\<exists>s' T'. page_init (table_al d) s = Some (Inr s') \<and> low_room s' T' 0 \<and> pt_inv s' T' \<and> cr3 s' = cr3 s \<and>
    (\<forall>va. mmu s' va = (if mmu s va = None \<and> usable_page es va then Some (identity_frame va) else mmu s va)) \<and>
    mset (e820_list (ram s') E820_LOC n) = mset es \<and> sorted (map base_of (e820_list (ram s') E820_LOC n)) \<and>
    total_mem s' = Max (insert 0 (entry_top ` set es)) \<and> available_mem s' = sum_list (map len_of (filter usable es)) \<and>
    (case filter high es of [] \<Rightarrow> page_tree s' = 0 \<and> (\<forall>h<31. page_list s' h = 0)
     | e # _ \<Rightarrow> only_block s' (block_start e) (PAGE_SIZE_ALIGN (block_len e)))"
proof -
  have n: "n \<le> 100" using pm es(2) by (simp add: plain_map_def)
  then have fit: "map_fits E820_LOC n" by (simp add: map_fits_def)
  define m where "m = sort_e820 (ram s) E820_LOC"
  define s1 where "s1 = s\<lparr>total_mem := 0, available_mem := 0, pml4_var := cr3 s, ram := m, page_tree := 0,
    page_list := (\<lambda>i. if i < PAGE_LIST_COUNT then 0 else page_list s i)\<rparr>"
  have s1: "ram s1 = m" "cr3 s1 = cr3 s" "page_tree s1 = 0" "\<forall>h<31. page_list s1 h = 0" "total_mem s1 = 0" "available_mem s1 = 0"
    by (simp_all add: s1_def)
  note so = sort_e820_list[OF es(1) fit]
  have out: "m x = ram s x" if "x \<notin> addrs (0x500 + 2) (26 * n)" for x unfolding m_def by (rule so(3)[OF that])
  have in0: "addrs (0x500 + 2) (26 * n) \<subseteq> addrs 0 4096"
  proof
    fix x :: u64 assume "x \<in> addrs (0x500 + 2) (26 * n)"
    then have "unat x < 0x502 + 26 * n" using addrs_nowrap[of "0x500 + 2" "26 * n" x] n by simp
    then show "x \<in> addrs 0 4096" using n by (simp add: in_addrs_iff)
  qed
  have "agree (tabs 3 (ram s) (cr3 s)) (ram s) m"
    unfolding agree_def page_cells_def
  proof safe
    fix x t assume t: "t \<in> tabs 3 (ram s) (cr3 s)" "x \<in> addrs t 4096"
    then have "frame_ok t" "frame_ok 0" "t \<noteq> 0" using st(2,3) by (auto simp: pt_inv_def)
    from frame_disjoint[OF this] t(2) in0 show "m x = ram s x" using out by blast
  qed
  note r = ram_agree[OF st(2) this s1(1,2)]
  have sz: "e820_size m E820_LOC = e820_size (ram s) E820_LOC"
  proof -
    have "load_le 2 m 0x500 = load_le 2 (ram s) 0x500"
    proof (rule load_le_cong)
      fix x :: u64 assume "x \<in> addrs 0x500 2"
      then have "unat x < 0x502" using addrs_nowrap[of "0x500" 2 x] by simp
      then have "x \<notin> addrs (0x500 + 2) (26 * n)" using addrs_nowrap[of "0x500 + 2" "26 * n" x] n by fastforce
      then show "m x = ram s x" by (rule out)
    qed simp
    then show ?thesis by (simp add: e820_size_def load16_def)
  qed
  let ?es = "e820_list m E820_LOC n"
  have "mset ?es = mset es" using so(2) es(2) by (simp add: m_def)
  note p = plain_map_mset[OF this pm]
  have w: "usable_page ?es = usable_page es" "usable_windows ?es = usable_windows es"
    unfolding usable_windows_def by (simp_all add: usable_page_def p(3) fun_eq_iff)
  have n1: "?es = e820_list (ram s1) E820_LOC n" "n = unat (e820_size (ram s1) E820_LOC)"
    using es(1) sz by (simp_all add: s1(1))
  have st1: "low_room s1 T (need s1 (usable_windows ?es))" "pt_inv s1 T" "0 \<in> T - tabs 3 (ram s1) (cr3 s1)"
    using st r by (simp_all add: w s1 low_room_def place_room_def) (simp_all add: s1_def)
  from init_entries_plain[OF n1 p(1) st1 s1(3,4), of d] obtain s' T' where
    q: "init_entries (table_al d) 0 s1 = Some (Inr s')" "low_room s' T' 0" "pt_inv s' T'" "cr3 s' = cr3 s1"
      "agree {0} (ram s1) (ram s')" "total_mem s' = Max (insert (total_mem s1) (entry_top ` set ?es))"
      "available_mem s' = available_mem s1 + sum_list (map len_of (filter usable ?es))"
      "\<forall>va. mmu s' va = (if mmu s1 va = None \<and> usable_page ?es va then Some (identity_frame va) else mmu s1 va)"
      "case filter high ?es of [] \<Rightarrow> page_tree s' = 0 \<and> (\<forall>h<31. page_list s' h = 0)
       | e # _ \<Rightarrow> only_block s' (block_start e) (PAGE_SIZE_ALIGN (block_len e))" by blast
  have "page_init (table_al d) s = init_entries (table_al d) 0 s1"
    by (simp add: page_init_def Let_def s1_def m_def cong: if_cong)
  moreover have l: "e820_list (ram s') E820_LOC n = ?es" using first_page_list[OF n q(5)] by (simp add: s1(1))
  have "sorted (map base_of ?es)" using so(1) by (simp add: m_def)
  ultimately show ?thesis
    using q p(2-4) r(2) w(1) \<open>mset ?es = mset es\<close> by (intro exI[of _ s'] exI[of _ T']) (simp add: s1 l)
qed

section \<open>Properties\<close>


text \<open>A map of one usable region of 33 pages at 2 MB.\<close>

definition one_region :: "mem \<Rightarrow> mem" where
  "one_region m = (store64 (store64 m 0x504 0x200000) 0x50C 0x21000)
     (0x500 := 1, 0x501 := 0, 0x514 := 1, 0x515 := 0, 0x516 := 0, 0x517 := 0)"

lemma one_region:
  fixes m defines "e \<equiv> read_entry (one_region m) (e820_entry E820_LOC 0)"
  shows "e820_size (one_region m) E820_LOC = 1" "e820_list (one_region m) E820_LOC 1 = [e]"
    "base_of e = 0x200000" "len_of e = 0x21000" "usable e" "plain_map [e]" "filter high [e] = [e]"
    "block_start e = 0x200000" "PAGE_SIZE_ALIGN (block_len e) = 0x21000" "usable_windows [e] \<subseteq> {1}"
    "usable_page [e] va \<longleftrightarrow> 512 \<le> unat (vpage va) \<and> unat (vpage va) < 545"
    "x \<notin> addrs 0x500 0x18 \<Longrightarrow> one_region m x = m x"
proof -
  have "load_le 2 (one_region m) 0x500 = 1" unfolding numeral_2_eq_2 load_le.simps by (simp add: one_region_def)
  then show "e820_size (one_region m) E820_LOC = 1" by (simp add: e820_size_def load16_def)
  show "e820_list (one_region m) E820_LOC 1 = [e]" by (simp add: e820_list_def e_def)
  have k: "load64 (one_region m) a = load64 (store64 (store64 m 0x504 0x200000) 0x50C 0x21000) a" if "a \<in> {0x504, 0x50C}" for a
  proof (rule load64_cong)
    fix x assume "x \<in> addrs a 8"
    then have "unat a \<le> unat x \<and> unat x < unat a + 8" using that by (intro addrs_nowrap) auto
    then have "unat x \<notin> {0x500, 0x501, 0x514, 0x515, 0x516, 0x517}" using that by auto
    then show "one_region m x = store64 (store64 m 0x504 0x200000) 0x50C 0x21000 x" by (auto simp: one_region_def)
  qed
  have "e820_base (one_region m) E820_LOC 0 = 0x200000" "e820_length (one_region m) E820_LOC 0 = 0x21000"
    using k by (simp_all add: e820_base_def e820_length_def e820_entry_def frame apart_def)
  then show b: "base_of e = 0x200000" "len_of e = 0x21000"
    by (simp_all add: e_def e820_base_entry e820_length_entry)
  have "load_le (Suc (Suc (Suc (Suc 0)))) (one_region m) 0x514 = 1" unfolding load_le.simps by (simp add: one_region_def)
  then have "load_le 4 (one_region m) 0x514 = 1" by (simp only: eval_nat_numeral BitM.simps)
  then have "e820_type (one_region m) E820_LOC 0 = 1" by (simp add: e820_type_def e820_entry_def load32_def)
  then show u: "usable e" by (simp add: usable_def e_def e820_type_entry)
  show bs: "block_start e = 0x200000" and sz: "PAGE_SIZE_ALIGN (block_len e) = 0x21000"
    by (simp_all add: block_start_def block_len_def b PAGE_SIZE_ALIGN_def)
  have h: "high e" using u by (simp add: high_def entry_top_def b)
  then show "filter high [e] = [e]" by simp
  show "plain_map [e]" by (simp add: plain_map_def entry_fits_def b block_pages_def sz)
  show up: "usable_page [e] va \<longleftrightarrow> 512 \<le> unat (vpage va) \<and> unat (vpage va) < 545" for va
    using u by (auto simp: usable_page_def region_page_def b)
  show "usable_windows [e] \<subseteq> {1}" by (auto simp: usable_windows_def up window_def)
  show "one_region m x = m x" if "x \<notin> addrs 0x500 0x18"
  proof -
    have "x \<notin> addrs 0x504 8" "x \<notin> addrs 0x50C 8" using that by (auto simp: in_addrs_iff unat_sub_if' split: if_splits)
    moreover have "x \<notin> {0x500, 0x501, 0x514, 0x515, 0x516, 0x517}" using that by (auto simp: in_addrs_iff)
    ultimately show ?thesis by (simp add: one_region_def frame)
  qed
qed


end
