(* ===== verification/Main32.thy ===== *)
theory Main32
  imports PageInit
begin

text \<open>
  The 32-bit stage, \<^verbatim>\<open>src/src/boot/bios/bbp/boot/main32.c\<close>: it identity maps the first
  2 MB so that long mode can be entered. Pointers and the placement address are 32 bits wide;
  the tables lie below 4 GB. The main result says that the tables it builds are what the
  paging code of the loader relies on.
\<close>

section \<open>Model\<close>

record boot32 =
  ram32 :: mem
  placement_addr32 :: u32
  pml4_ptr32 :: u32

abbreviation (input) PADDR_LOC :: u32 where "PADDR_LOC \<equiv> 0x100000"
abbreviation (input) SIZEOF_TABLE32 :: u32 where "SIZEOF_TABLE32 \<equiv> 8 * 512"

definition PAGE_SIZE_ALIGN32 :: "u32 \<Rightarrow> u32" where
  "PAGE_SIZE_ALIGN32 n = (n + 0xFFF) AND NOT 0xFFF"

primrec clear_loop :: "nat \<Rightarrow> mem \<Rightarrow> u32 \<Rightarrow> mem" where
  "clear_loop 0 m dest = m"
| "clear_loop (Suc len) m dest = clear_loop len (m(ucast dest := 0)) (dest + 1)"

definition mem_clear :: "mem \<Rightarrow> u32 \<Rightarrow> u32 \<Rightarrow> mem" where
  "mem_clear m dest len = clear_loop (unat len) m dest"

definition mem_alloc32 :: "u64 \<Rightarrow> bool \<Rightarrow> boot32 \<Rightarrow> boot32 \<times> u32" where
  "mem_alloc32 psize align s =
    (let s = (if align then s\<lparr>placement_addr32 := PAGE_SIZE_ALIGN32 (placement_addr32 s)\<rparr> else s);
         tmp = placement_addr32 s
     in (s\<lparr>placement_addr32 := ucast (ucast (placement_addr32 s) + psize)\<rparr>, tmp))"

text \<open>Setting one entry: the frame and three flags; the loops over the entries of a level.\<close>

definition boot_entry :: "mem \<Rightarrow> u64 \<Rightarrow> u64 \<Rightarrow> u64 \<Rightarrow> mem" where
  "boot_entry m table idx ptr =
    (let m = set_frame m table idx (PAGE_FRAME ptr);
         m = set_flag m table idx 0;
         m = set_flag m table idx 1
     in set_flag m table idx 3)"

definition fill_table :: "nat \<Rightarrow> u64 \<Rightarrow> (u64 \<Rightarrow> u64) \<Rightarrow> mem \<Rightarrow> mem" where
  "fill_table n table ptr m = fold (\<lambda>p m. boot_entry m table (of_nat p) (ptr (of_nat p))) [0..<n] m"

definition setup_pages :: "u64 \<Rightarrow> boot32 \<Rightarrow> boot32" where
  "setup_pages ammount s =
    (let page_count = ammount div PAGE_SIZE;
         table_count = (page_count + 511) div 512;
         directory_count = (table_count + 511) div 512;
         drawer_count = (directory_count + 511) div 512;
         drawers = SIZEOF_TABLE32 * ucast drawer_count;
         directories = SIZEOF_TABLE32 * ucast directory_count;
         tables = SIZEOF_TABLE32 * ucast table_count;
         (s, pml4) = mem_alloc32 (ucast SIZEOF_TABLE32) True s;
         (s, pml3) = mem_alloc32 (ucast drawers) True s;
         (s, pml2) = mem_alloc32 (ucast directories) True s;
         (s, pml1) = mem_alloc32 (ucast tables) True s;
         m = mem_clear (ram32 s) pml4 SIZEOF_TABLE32;
         m = mem_clear m pml3 drawers;
         m = mem_clear m pml2 directories;
         m = mem_clear m pml1 tables;
         m = fill_table (unat page_count) (ucast pml1) (\<lambda>p. p * PAGE_SIZE) m;
         m = fill_table (unat table_count) (ucast pml2) (\<lambda>t. ucast pml1 + ucast SIZEOF_TABLE32 * t) m;
         m = fill_table (unat directory_count) (ucast pml3) (\<lambda>d. ucast pml2 + ucast SIZEOF_TABLE32 * d) m;
         m = fill_table (unat drawer_count) (ucast pml4) (\<lambda>dr. ucast pml3 + ucast SIZEOF_TABLE32 * dr) m
     in s\<lparr>ram32 := m, pml4_ptr32 := pml4\<rparr>)"

definition main32 :: "boot32 \<Rightarrow> boot32" where
  "main32 s = setup_pages INIT_MEM (s\<lparr>placement_addr32 := PADDR_LOC\<rparr>)"

section \<open>Clearing and filling tables\<close>

lemma ucast_Suc:
  assumes "unat (d :: u32) + 1 < 2 ^ 32"
  shows "(ucast (d + 1) :: u64) = ucast d + 1"
proof -
  have "unat (ucast (d + 1) :: u64) = unat (ucast d + 1 :: u64)"
    using assms by (simp add: unat_word_ariths unsigned_ucast_eq take_bit_nat_eq_self)
  then show ?thesis by (simp only: word_unat_eq_iff)
qed

lemma clear_loop_eq:
  "unat dest + n < 2 ^ 32 \<Longrightarrow> clear_loop n m dest x = (if x \<in> addrs (ucast dest) n then 0 else m x)"
proof (induction n arbitrary: m dest)
  case (Suc n)
  have e: "(ucast (dest + 1) :: u64) = ucast dest + 1" by (rule ucast_Suc) (use Suc.prems in simp)
  have "unat (dest + 1) + n < 2 ^ 32" using Suc.prems by (simp add: unat_word_ariths)
  from Suc.IH[OF this] show ?case using Suc.prems by (auto simp: e addrs_Suc)
qed simp

lemma boot_entry_load:
  "load64 (boot_entry m t i a) (entry_addr t i) =
     ((load64 m (entry_addr t i) AND NOT PAGE_FRAME_MASK) OR (a AND PAGE_FRAME_MASK)) OR 0x0B"
proof -
  have f: "push_bit 12 (PAGE_FRAME a) AND PAGE_FRAME_MASK = a AND PAGE_FRAME_MASK"
    by (rule bit_word_eqI) (auto simp: PAGE_FRAME_def bit_frame_mask bit_simps)
  show ?thesis by (simp add: boot_entry_def set_flag_def set_frame_def Let_def f or.assoc)
qed

lemma boot_entry_other: "x \<notin> addrs (entry_addr t i) 8 \<Longrightarrow> boot_entry m t i a x = m x"
  by (simp add: boot_entry_def Let_def set_flag_other set_frame_def frame)

lemma boot_entry_apart:
  assumes "i < 512" "j < 512" "i \<noteq> j"
  shows "load64 (boot_entry m t i a) (entry_addr t j) = load64 m (entry_addr t j)"
  by (rule load64_cong) (use apart_disjoint[OF entries_disjoint[OF assms, of t]] boot_entry_other in blast)

lemma fill_table_spec:
  assumes "n \<le> 512" and z: "\<And>i. i < 512 \<Longrightarrow> load64 m (entry_addr t i) = 0"
  shows "(\<forall>i < 512. load64 (fill_table n t ptr m) (entry_addr t i) =
      (if unat i < n then (ptr i AND PAGE_FRAME_MASK) OR 0x0B else 0)) \<and>
    (\<forall>x. x \<notin> addrs t 4096 \<longrightarrow> fill_table n t ptr m x = m x)"
  using assms(1)
proof (induction n)
  case 0
  then show ?case using z by (simp add: fill_table_def)
next
  case (Suc n)
  let ?m = "fill_table n t ptr m" and ?n = "of_nat n :: u64"
  have n: "?n < 512" "unat ?n = n" using Suc.prems by (simp_all add: word_less_nat_alt unat_of_nat_small)
  have e: "fill_table (Suc n) t ptr m = boot_entry ?m t ?n (ptr ?n)" by (simp add: fill_table_def)
  note IH = Suc.IH[OF Suc_leD[OF Suc.prems]]
  have "load64 (fill_table (Suc n) t ptr m) (entry_addr t i) =
      (if unat i < Suc n then (ptr i AND PAGE_FRAME_MASK) OR 0x0B else 0)" if i: "i < 512" for i
  proof (cases "i = ?n")
    case True
    then show ?thesis using IH n by (simp add: e boot_entry_load)
  next
    case False
    then have "unat i \<noteq> n" using n by auto
    then show ?thesis using IH i boot_entry_apart[OF n(1) i] False by (auto simp: e less_Suc_eq)
  qed
  moreover have "fill_table (Suc n) t ptr m x = m x" if "x \<notin> addrs t 4096" for x
  proof -
    have "x \<notin> addrs (entry_addr t ?n) 8" using that entry_in_page[OF n(1), of t] by blast
    then show ?thesis using IH that by (simp add: e boot_entry_other)
  qed
  ultimately show ?case by blast
qed

lemma zero_loads:
  assumes "\<And>x. x \<in> addrs t 4096 \<Longrightarrow> m x = 0" "i < 512"
  shows "load64 m (entry_addr t i) = 0"
proof -
  have "load64 m (entry_addr t i) = load64 (\<lambda>_. 0) (entry_addr t i)"
    by (rule load64_cong) (use assms entry_in_page[of i t] in auto)
  then show ?thesis by simp
qed

section \<open>The tables of the first 2 MB\<close>

text \<open>A table whose first \<open>n\<close> entries point to the frames \<open>ptr\<close> and whose others are 0.\<close>

definition filled :: "mem \<Rightarrow> u64 \<Rightarrow> nat \<Rightarrow> (u64 \<Rightarrow> u64) \<Rightarrow> bool" where
  "filled m t n ptr \<longleftrightarrow>
    (\<forall>i < 512. load64 m (entry_addr t i) = (if unat i < n then (ptr i AND PAGE_FRAME_MASK) OR 0x0B else 0))"

lemma filled_entry:
  assumes "filled m t n ptr" "i < 512"
  shows "pm_present m t i \<longleftrightarrow> unat i < n" "unat i < n \<Longrightarrow> PAGE_ADDRESS m t i = ptr i AND PAGE_FRAME_MASK"
proof -
  have b: "\<not> bit PAGE_FRAME_MASK 0" by (simp add: bit_frame_mask)
  have "bit ((ptr i AND PAGE_FRAME_MASK) OR 0x0B) 0" unfolding bit_or_iff by simp
  then have "((ptr i AND PAGE_FRAME_MASK) OR 0x0B) AND 1 \<noteq> 0"
    by (simp add: and_one_eq odd_iff_mod_2_eq_one bit_0)
  then show "pm_present m t i \<longleftrightarrow> unat i < n"
    using assms by (simp add: filled_def pm_present_def)
  have "((ptr i AND PAGE_FRAME_MASK) OR 0x0B) AND PAGE_FRAME_MASK = ptr i AND PAGE_FRAME_MASK"
    by (simp add: bit.conj_disj_distrib2 and.assoc) (simp add: PAGE_FRAME_MASK_def)
  then show "PAGE_ADDRESS m t i = ptr i AND PAGE_FRAME_MASK" if "unat i < n"
    using assms that by (simp add: filled_def PAGE_ADDRESS_def flip: entry_addr_def)
qed

lemma filled_other:
  assumes "filled m t n ptr" "\<And>x. x \<in> addrs t 4096 \<Longrightarrow> m' x = m x"
  shows "filled m' t n ptr"
proof -
  have "load64 m' (entry_addr t i) = load64 m (entry_addr t i)" if "i < 512" for i
    by (rule load64_cong) (use assms(2) entry_in_page[OF that, of t] in auto)
  then show ?thesis using assms(1) by (simp add: filled_def)
qed

lemma filled_fill:
  assumes "n \<le> 512" "\<And>x. x \<in> addrs t 4096 \<Longrightarrow> m x = 0"
  shows "filled (fill_table n t ptr m) t n ptr" "x \<notin> addrs t 4096 \<Longrightarrow> fill_table n t ptr m x = m x"
  using fill_table_spec[OF assms(1), of m t ptr] zero_loads[OF assms(2)] by (auto simp: filled_def)

lemma vpage_parts:
  "vpage va = PAGE_PML_IDX va 1 OR push_bit 9 (PAGE_PML_IDX va 2) OR
     push_bit 18 (PAGE_PML_IDX va 3) OR push_bit 27 (PAGE_PML_IDX va 4)"
proof (rule bit_eqI)
  fix n :: nat
  assume "possible_bit TYPE(u64) n"
  consider "n < 9" | "9 \<le> n" "n < 18" | "18 \<le> n" "n < 27" | "27 \<le> n" "n < 36" | "36 \<le> n" by linarith
  then show "bit (vpage va) n = bit (PAGE_PML_IDX va 1 OR push_bit 9 (PAGE_PML_IDX va 2) OR
     push_bit 18 (PAGE_PML_IDX va 3) OR push_bit 27 (PAGE_PML_IDX va 4)) n"
    using \<open>possible_bit TYPE(u64) n\<close>
    by cases (auto simp: bit_vpage bit_or_iff bit_push_bit_iff bit_idx)
qed

lemma vpage_low: "vpage va < 512 \<longleftrightarrow> PAGE_PML_IDX va 2 = 0 \<and> PAGE_PML_IDX va 3 = 0 \<and> PAGE_PML_IDX va 4 = 0"
proof
  assume "vpage va < 512"
  then have "unat (vpage va) < 2 ^ 9" by (simp add: word_less_nat_alt)
  then have "take_bit 9 (unat (vpage va)) = unat (vpage va)" by (simp add: take_bit_nat_eq_self)
  then have t: "take_bit 9 (vpage va) = vpage va" by (metis unsigned_take_bit_eq word_unat_eq_iff)
  have "\<not> bit (vpage va) n" if "9 \<le> n" for n using that t by (metis bit_take_bit_iff not_le)
  then have b: "\<not> bit va (12 + n)" if "9 \<le> n" "n < 36" for n using that by (auto simp: bit_vpage)
  have "PAGE_PML_IDX va j = 0" if "2 \<le> j" "j \<le> 4" for j
  proof (rule bit_eqI)
    fix n
    show "bit (PAGE_PML_IDX va j) n = bit 0 n"
      using that b[of "(j - 1) * 9 + n"] by (auto simp: bit_idx add.assoc)
  qed
  then show "PAGE_PML_IDX va 2 = 0 \<and> PAGE_PML_IDX va 3 = 0 \<and> PAGE_PML_IDX va 4 = 0" by simp
next
  assume "PAGE_PML_IDX va 2 = 0 \<and> PAGE_PML_IDX va 3 = 0 \<and> PAGE_PML_IDX va 4 = 0"
  then show "vpage va < 512" using vpage_parts[of va] idx_bound[of va 1] by simp
qed

section \<open>Properties\<close>

abbreviation (input) boot_tables :: "u64 set" where "boot_tables \<equiv> {0x100000, 0x101000, 0x102000, 0x103000}"

lemma boot_tables_ok: "\<forall>a \<in> boot_tables. frame_ok a"
  by (auto intro!: frame_okI)

text \<open>A table in which only entry 0 is present; the walk through four such tables.\<close>

lemma single_entry:
  assumes p: "\<And>i. i < 512 \<Longrightarrow> pm_present m t i \<longleftrightarrow> i = 0" and a: "PAGE_ADDRESS m t 0 = t'"
  shows "pt_wf (Suc l) m t \<longleftrightarrow> t \<notin> tabs l m t' \<and> pt_wf l m t'"
    "tabs (Suc l) m t = insert t (tabs l m t')"
    "translate (Suc l) m t va = (if PAGE_PML_IDX va (Suc (Suc l)) = 0 then translate l m t' va else None)"
proof -
  have p0: "pm_present m t 0" using p[of 0] by simp
  have s: "{i. i < 512 \<and> pm_present m t i} = {0}" using p by auto
  have 1: "(\<forall>i<512. pm_present m t i \<longrightarrow> Q i) \<longleftrightarrow> Q 0" for Q using p p0 by auto
  show "pt_wf (Suc l) m t \<longleftrightarrow> t \<notin> tabs l m t' \<and> pt_wf l m t'"
    unfolding pt_wf.simps 1 a using p by auto
  show "tabs (Suc l) m t = insert t (tabs l m t')" by (simp add: s a)
  show "translate (Suc l) m t va = (if PAGE_PML_IDX va (Suc (Suc l)) = 0 then translate l m t' va else None)"
    unfolding translate_Suc Let_def using p[OF idx_bound] a by simp
qed

lemma boot_walk:
  assumes pml4: "filled m 0x100000 1 (\<lambda>i. 0x101000 + 0x1000 * i)"
    and pml3: "filled m 0x101000 1 (\<lambda>i. 0x102000 + 0x1000 * i)"
    and pml2: "filled m 0x102000 1 (\<lambda>i. 0x103000 + 0x1000 * i)"
    and pml1: "filled m 0x103000 512 (\<lambda>i. i * 0x1000)"
  shows "pt_wf 3 m 0x100000" "tabs 3 m 0x100000 = boot_tables"
    "translate 3 m 0x100000 va = (if vpage va < 512 then Some (identity_frame va) else None)"
proof -
  have lt1: "unat i < 1 \<longleftrightarrow> i = 0" for i :: u64 by (simp add: word_unat_eq_iff)
  have p: "pm_present m 0x100000 i \<longleftrightarrow> i = 0" "pm_present m 0x101000 i \<longleftrightarrow> i = 0"
    "pm_present m 0x102000 i \<longleftrightarrow> i = 0" "pm_present m 0x103000 i" if "i < 512" for i
    using filled_entry(1)[OF pml4 that] filled_entry(1)[OF pml3 that] filled_entry(1)[OF pml2 that]
      filled_entry(1)[OF pml1 that] that by (simp_all only: lt1) (simp add: word_less_nat_alt)
  have a: "PAGE_ADDRESS m 0x100000 0 = 0x101000" "PAGE_ADDRESS m 0x101000 0 = 0x102000"
    "PAGE_ADDRESS m 0x102000 0 = 0x103000"
    using filled_entry(2)[OF pml4, of 0] filled_entry(2)[OF pml3, of 0] filled_entry(2)[OF pml2, of 0]
    by (simp_all add: PAGE_FRAME_MASK_def)
  note e2 = single_entry[OF p(3) a(3), of 0] and e3 = single_entry[OF p(2) a(2), of "Suc 0"]
    and e4 = single_entry[OF p(1) a(1), of "Suc (Suc 0)"]
  have t: "tabs (Suc 0) m 0x102000 = {0x102000, 0x103000}"
    "tabs (Suc (Suc 0)) m 0x101000 = {0x101000, 0x102000, 0x103000}"
    by (simp_all only: e3(2) e2(2) tabs.simps(1))
  show "tabs 3 m 0x100000 = boot_tables" by (simp only: numeral_3_eq_3 e4(2) t)
  have "pt_wf (Suc 0) m 0x102000" by (simp only: e2(1) tabs.simps(1) pt_wf.simps(1)) simp
  then have "pt_wf (Suc (Suc 0)) m 0x101000" by (simp only: e3(1) t) simp
  then show "pt_wf 3 m 0x100000" by (simp only: numeral_3_eq_3 e4(1) t) simp
  have leaf: "leaf_entry m 0x103000 va = Some (PAGE_PML_IDX va 1 * 0x1000)"
  proof -
    have "unat (PAGE_PML_IDX va 1) < 512" using idx_bound[of va 1] by (simp add: word_less_nat_alt)
    moreover from this have "frame_ok (PAGE_PML_IDX va 1 * 0x1000)"
      by (intro frame_okI) (simp_all add: unat_word_ariths)
    ultimately show ?thesis
      using filled_entry(2)[OF pml1 idx_bound] p(4)[OF idx_bound] by (simp add: leaf_entry_def frame_ok_def)
  qed
  have "translate 3 m 0x100000 va =
      (if PAGE_PML_IDX va 4 = 0 \<and> PAGE_PML_IDX va 3 = 0 \<and> PAGE_PML_IDX va 2 = 0
       then Some (PAGE_PML_IDX va 1 * 0x1000) else None)"
  proof -
    have "translate 0 m 0x103000 va = Some (PAGE_PML_IDX va 1 * 0x1000)" by (simp add: translate_def leaf)
    then show ?thesis
      by (simp only: numeral_3_eq_3 e4(3) e3(3) e2(3)) (simp add: numeral_eq_Suc)
  qed
  moreover have "identity_frame va = PAGE_PML_IDX va 1 * 0x1000" if "vpage va < 512"
  proof -
    have z: "PAGE_PML_IDX va 2 = 0" "PAGE_PML_IDX va 3 = 0" "PAGE_PML_IDX va 4 = 0"
      using that by (simp_all only: vpage_low)
    have "vpage va = PAGE_PML_IDX va 1" by (subst vpage_parts) (simp add: z)
    then show ?thesis by (simp add: identity_frame_def push_bit_eq_mult)
  qed
  ultimately show "translate 3 m 0x100000 va = (if vpage va < 512 then Some (identity_frame va) else None)"
    by (auto simp: vpage_low)
qed

lemma clear_table:
  assumes "unat d + 4096 < 2 ^ 32"
  shows "mem_clear m d SIZEOF_TABLE32 x = (if x \<in> addrs (ucast d) 4096 then 0 else m x)"
  using clear_loop_eq[of d 4096 m x] assms by (simp add: mem_clear_def)

text \<open>What the memory looks like after \<^verbatim>\<open>main32\<close>.\<close>

definition boot_memory :: "mem \<Rightarrow> mem" where
  "boot_memory m =
    (let m = mem_clear (mem_clear (mem_clear (mem_clear m 0x100000 0x1000) 0x101000 0x1000) 0x102000 0x1000) 0x103000 0x1000;
         m = fill_table 512 0x103000 (\<lambda>p. p * 0x1000) m;
         m = fill_table 1 0x102000 (\<lambda>t. 0x103000 + 0x1000 * t) m;
         m = fill_table 1 0x101000 (\<lambda>d. 0x102000 + 0x1000 * d) m
     in fill_table 1 0x100000 (\<lambda>dr. 0x101000 + 0x1000 * dr) m)"

lemma main32_eq:
  "main32 s = s\<lparr>ram32 := boot_memory (ram32 s), placement_addr32 := 0x104000, pml4_ptr32 := 0x100000\<rparr>"
  by (simp add: main32_def setup_pages_def mem_alloc32_def PAGE_SIZE_ALIGN32_def boot_memory_def Let_def)

lemma boot_memory_filled:
  "filled (boot_memory m) 0x100000 1 (\<lambda>i. 0x101000 + 0x1000 * i)"
  "filled (boot_memory m) 0x101000 1 (\<lambda>i. 0x102000 + 0x1000 * i)"
  "filled (boot_memory m) 0x102000 1 (\<lambda>i. 0x103000 + 0x1000 * i)"
  "filled (boot_memory m) 0x103000 512 (\<lambda>i. i * 0x1000)"
  "x \<notin> page_cells boot_tables \<Longrightarrow> boot_memory m x = m x"
proof -
  define m0 where "m0 = mem_clear (mem_clear (mem_clear (mem_clear m 0x100000 0x1000) 0x101000 0x1000) 0x102000 0x1000) 0x103000 0x1000"
  define m1 where "m1 = fill_table 512 0x103000 (\<lambda>p. p * 0x1000) m0"
  define m2 where "m2 = fill_table 1 0x102000 (\<lambda>t. 0x103000 + 0x1000 * t) m1"
  define m3 where "m3 = fill_table 1 0x101000 (\<lambda>d. 0x102000 + 0x1000 * d) m2"
  define m4 where "m4 = fill_table 1 0x100000 (\<lambda>dr. 0x101000 + 0x1000 * dr) m3"
  have bm: "boot_memory m = m4"
    by (simp only: boot_memory_def Let_def m0_def m1_def m2_def m3_def m4_def)
  have m0: "m0 x = (if x \<in> page_cells boot_tables then 0 else m x)" for x
    using clear_table[of "0x100000"] clear_table[of "0x101000"] clear_table[of "0x102000"] clear_table[of "0x103000"]
    by (simp add: m0_def page_cells_def)
  have dj: "x \<notin> addrs b 4096" if "x \<in> addrs a 4096" "a \<in> boot_tables" "b \<in> boot_tables" "a \<noteq> b" for a b x
    using frame_disjoint[of a b] boot_tables_ok that by blast
  have k1: "m1 x = m0 x" if "x \<notin> addrs 0x103000 4096" for x
    unfolding m1_def by (rule filled_fill(2)) (use that m0 in \<open>auto simp: page_cells_def\<close>)
  have k2: "m2 x = m1 x" if "x \<notin> addrs 0x102000 4096" for x
    unfolding m2_def
    by (rule filled_fill(2)) (use that dj k1 m0 in \<open>auto simp: page_cells_def\<close>)
  have k3: "m3 x = m2 x" if "x \<notin> addrs 0x101000 4096" for x
    unfolding m3_def
    by (rule filled_fill(2)) (use that dj k1 k2 m0 in \<open>auto simp: page_cells_def\<close>)
  have k4: "m4 x = m3 x" if "x \<notin> addrs 0x100000 4096" for x
    unfolding m4_def
    by (rule filled_fill(2)) (use that dj k1 k2 k3 m0 in \<open>auto simp: page_cells_def\<close>)
  have "filled m1 0x103000 512 (\<lambda>i. i * 0x1000)"
    unfolding m1_def by (rule filled_fill(1)) (use m0 in \<open>auto simp: page_cells_def\<close>)
  then show "filled (boot_memory m) 0x103000 512 (\<lambda>i. i * 0x1000)"
    unfolding bm by (rule filled_other) (use dj k2 k3 k4 in auto)
  have "filled m2 0x102000 1 (\<lambda>i. 0x103000 + 0x1000 * i)"
    unfolding m2_def by (rule filled_fill(1)) (use dj k1 m0 in \<open>auto simp: page_cells_def\<close>)
  then show "filled (boot_memory m) 0x102000 1 (\<lambda>i. 0x103000 + 0x1000 * i)"
    unfolding bm by (rule filled_other) (use dj k3 k4 in auto)
  have "filled m3 0x101000 1 (\<lambda>i. 0x102000 + 0x1000 * i)"
    unfolding m3_def by (rule filled_fill(1)) (use dj k1 k2 m0 in \<open>auto simp: page_cells_def\<close>)
  then show "filled (boot_memory m) 0x101000 1 (\<lambda>i. 0x102000 + 0x1000 * i)"
    unfolding bm by (rule filled_other) (use dj k4 in auto)
  show "filled (boot_memory m) 0x100000 1 (\<lambda>i. 0x101000 + 0x1000 * i)"
    unfolding bm m4_def by (rule filled_fill(1)) (use dj k1 k2 k3 m0 in \<open>auto simp: page_cells_def\<close>)
  show "boot_memory m x = m x" if "x \<notin> page_cells boot_tables"
    using that k1 k2 k3 k4 m0 by (simp add: bm page_cells_def)
qed

lemma main32_paging:
  assumes p: "ram p = boot_memory m" "cr3 p = 0x100000" and T: "T = insert 0 boot_tables"
    and k: "k \<le> 2 ^ 40 - 0x104"
  shows "mmu p va = (if vpage va < 512 then Some (identity_frame va) else None)"
    "place_room (mem_init 0x104000 p) T k" "pt_inv (mem_init 0x104000 p) T"
    "0 \<in> T - tabs 3 (ram p) (cr3 p)"
proof -
  note w = boot_walk[OF boot_memory_filled(1-4), of m]
  have "frame_ok 0" by (rule frame_okI) simp_all
  then have ok: "\<forall>a \<in> T. frame_ok a" unfolding T using boot_tables_ok by simp
  have "PAGE_SIZE_ALIGN 0x104000 = 0x104000" by (simp add: PAGE_SIZE_ALIGN_def)
  then show "place_room (mem_init 0x104000 p) T k"
    using ok k by (simp add: place_room_def mem_init_def T)
  show "pt_inv (mem_init 0x104000 p) T" using w ok by (auto simp: pt_inv_def mem_init_def p T)
  show "mmu p va = (if vpage va < 512 then Some (identity_frame va) else None)"
    using w(3) by (simp add: mmu_def p)
  show "0 \<in> T - tabs 3 (ram p) (cr3 p)" using w(2) by (simp add: p T)
qed

text \<open>C17. The hand-over from the 32-bit stage: after \<^verbatim>\<open>main32\<close> the processor translates
  exactly the first 2 MB, each address to itself; the tables form a tree in the four pages at
  1 MB and nothing else in memory changed. Once \<^verbatim>\<open>mem_init\<close> has taken over the placement
  address, all that the identity mapping of \<^verbatim>\<open>page_init\<close> relies on holds, with room for
  every table that fits below \<open>2 ^ 52\<close>.\<close>

theorem main32_establishes_paging:
  assumes s': "s' = main32 s" and p: "ram p = ram32 s'" "cr3 p = ucast (pml4_ptr32 s')"
    and T: "T = insert 0 boot_tables" and k: "k \<le> 2 ^ 40 - 0x104"
  shows "(\<forall>va. mmu p va = (if vpage va < 512 then Some (identity_frame va) else None)) \<and>
    (\<forall>x. x \<notin> page_cells boot_tables \<longrightarrow> ram32 s' x = ram32 s x) \<and>
    place_room (mem_init (placement_addr32 s') p) T k \<and> pt_inv (mem_init (placement_addr32 s') p) T \<and>
    0 \<in> T - tabs 3 (ram p) (cr3 p)"
proof -
  have e: "ram p = boot_memory (ram32 s)" "cr3 p = 0x100000" using s' p by (simp_all add: main32_eq)
  show ?thesis using main32_paging[OF e T k] boot_memory_filled(5) s' by (simp add: main32_eq)
qed

lemma main32_establishes_paging_witness:
  "\<exists>s p. ram p = ram32 (main32 s) \<and> mmu p 0x1FFABC = Some 0x1FF000 \<and> mmu p 0x200000 = None"
proof -
  let ?s = "\<lparr>ram32 = (\<lambda>_. 0), placement_addr32 = 0, pml4_ptr32 = 0\<rparr>"
  let ?p = "boot_state\<lparr>ram := ram32 (main32 ?s), cr3 := 0x100000\<rparr>"
  have "vpage 0x1FFABC < 512" "\<not> vpage 0x200000 < 512" "identity_frame 0x1FFABC = 0x1FF000"
    by (simp_all add: vpage_def identity_frame_def drop_bit_eq_div take_bit_eq_mod push_bit_eq_mult)
  then show ?thesis
    using main32_establishes_paging[of "main32 ?s" ?s ?p _ 3]
    by (intro exI[of _ ?s] exI[of _ ?p]) (simp add: main32_eq)
qed

end
