(* ===== verification/Boot.thy ===== *)
theory Boot
  imports Gpt Main32
begin

text \<open>
  The boot order: \<^verbatim>\<open>main64\<close> of the loader, which calls every component, and what holds
  where the components meet: the tables of the 32-bit stage under the identity mapping of
  \<^verbatim>\<open>page_init\<close>, and the state in which the drivers start. The endless loop at the end of
  \<^verbatim>\<open>main64\<close> is the result; debug output is left out.
\<close>

section \<open>Model\<close>

abbreviation (input) HEAP_MAX_SIZE :: u64 where "HEAP_MAX_SIZE \<equiv> 0x3200000"
abbreviation (input) PIT_COUNTER :: u16 where "PIT_COUNTER \<equiv> 1193"

text \<open>The steps up to \<^verbatim>\<open>interrupt_enable\<close>. \<open>fault\<close> and \<open>tick\<close> are the addresses of
  \<^verbatim>\<open>page_fault\<close> and \<^verbatim>\<open>pit_handler\<close>, \<open>isr\<close> and \<open>irq\<close> those of the stubs.\<close>

definition boot_core ::
  "nat \<Rightarrow> u32 \<Rightarrow> (nat \<Rightarrow> u64) \<Rightarrow> (nat \<Rightarrow> u64) \<Rightarrow> u64 \<Rightarrow> 'h \<Rightarrow> 'h \<Rightarrow> ('h, 'x) pci_state_scheme \<Rightarrow>
   ('h, 'x) pci_state_scheme result" where
  "boot_core d placement isr irq idt_addr fault tick s =
    (let s = interrupt_disable s;
         s = s\<lparr>pages := mem_init placement (pages s)\<rparr>;
         s = snd (run_state pic_init s);
         s = interrupt_init isr irq idt_addr s
     in rbind (page_init (table_al d) (pages s)) (\<lambda>p.
        let s = page_init_handler fault (s\<lparr>pages := p\<rparr>)
        in rbind (from_option (mem_init_heap HEAP_MAX_SIZE (pages s))) (\<lambda>p.
           let s = s\<lparr>pages := p\<rparr>;
               s = pit_init tick PIT_COUNTER s;
               s = snd (run_state (pic_enable 0xFFFF) s)
           in ret (interrupt_enable s))))"

text \<open>The loops over the partitions of a drive and over the drives.\<close>

partial_function (option) part_loop ::
  "u64 \<Rightarrow> u64 \<Rightarrow> u64 \<Rightarrow> ('h, 'x) gpt_state_scheme \<Rightarrow> ('h, 'x) gpt_state_scheme result" where
  "part_loop part i j s =
    rbind (gpt_num_part i s) (\<lambda>n.
      if j < n then rbind (gpt_part_entry part i j s) (\<lambda>(_, s). part_loop part i (j + 1) s)
      else ret s)"

partial_function (option) drive_loop ::
  "nat \<Rightarrow> device \<Rightarrow> schedule \<Rightarrow> u64 \<Rightarrow> u64 \<Rightarrow> ('h, 'x) gpt_state_scheme \<Rightarrow> ('h, 'x) gpt_state_scheme result" where
  "drive_loop d dev irqs part i s =
    (if i < ucast (ata_num_device s) then
       rbind (gpt_init_drive d dev irqs i s) (\<lambda>(gpt, s).
       rbind (if gpt then part_loop part i 0 s else ret s) (\<lambda>s.
         drive_loop d dev irqs part (i + 1) s))
     else ret s)"

text \<open>\<open>check\<close> is the address of the symbol \<^verbatim>\<open>_checksum\<close>, \<open>d\<close> and \<open>n\<close> the depths of
  the allocator and of the bus scan, \<open>ata\<close> the address of \<^verbatim>\<open>ata_handler\<close>.\<close>

definition main64 ::
  "u64 \<Rightarrow> nat \<Rightarrow> nat \<Rightarrow> device \<Rightarrow> schedule \<Rightarrow> u32 \<Rightarrow> (nat \<Rightarrow> u64) \<Rightarrow> (nat \<Rightarrow> u64) \<Rightarrow> u64 \<Rightarrow> 'h \<Rightarrow> 'h \<Rightarrow> 'h \<Rightarrow>
   ('h, 'x) gpt_state_scheme \<Rightarrow> ('h, 'x) gpt_state_scheme result" where
  "main64 check d n dev irqs placement isr irq idt_addr fault tick ata s =
    (if check = 0xF00BAA then
       rbind (boot_core d placement isr irq idt_addr fault tick s) (\<lambda>s.
       rbind (pci_init d n dev s) (\<lambda>(ok, s).
         if ok then
           rbind (ata_init d dev irqs ata s) (\<lambda>(ok, s).
             if ok then
               rbind (gpt_init d s) (\<lambda>s.
               rbind (pci_alloc_clean d SIZEOF_PART_ENTRY s) (\<lambda>(part, s).
                 drive_loop d dev irqs part 0 s))
             else ret s)
         else ret s))
     else ret s)"

section \<open>The memory the loader starts with\<close>

text \<open>Below 1 GB the tables of the 32-bit stage lack at most the last one.\<close>

lemma boot_missing:
  assumes "w < 512"
  shows "missing 3 (boot_memory m) 0x100000 (win_addr w) \<le> 1"
proof -
  let ?m = "boot_memory m" and ?va = "win_addr w"
  note f = boot_memory_filled(1-2)[of m]
  have lt1: "unat i < 1 \<longleftrightarrow> i = 0" for i :: u64 by (simp add: word_unat_eq_iff)
  have p: "pm_present ?m 0x100000 0" "pm_present ?m 0x101000 0"
    using filled_entry(1)[OF f(1), of 0] filled_entry(1)[OF f(2), of 0] by (simp_all add: lt1)
  have a: "PAGE_ADDRESS ?m 0x100000 0 = 0x101000" "PAGE_ADDRESS ?m 0x101000 0 = 0x102000"
    using filled_entry(2)[OF f(1), of 0] filled_entry(2)[OF f(2), of 0] by (simp_all add: PAGE_FRAME_MASK_def)
  have nb: "\<not> bit (of_nat w :: u64) k" if "9 \<le> k" for k
  proof -
    have "take_bit 9 w = w" using assms by (simp add: take_bit_nat_eq_self)
    then show ?thesis using that by (metis bit_of_nat_iff bit_take_bit_iff not_le)
  qed
  have z: "PAGE_PML_IDX ?va 4 = 0" "PAGE_PML_IDX ?va 3 = 0"
    by (rule bit_eqI, auto simp: bit_idx win_addr_def bit_push_bit_iff nb)+
  have "missing (Suc (Suc (Suc 0))) ?m 0x100000 ?va = missing (Suc (Suc 0)) ?m 0x101000 ?va"
    using z(1) p(1) a(1) by (subst missing.simps(2)) (simp add: Let_def numeral_eq_Suc del: missing.simps)
  also have "\<dots> = missing (Suc 0) ?m 0x102000 ?va"
    using z(2) p(2) a(2) by (subst missing.simps(2)) (simp add: Let_def numeral_eq_Suc del: missing.simps)
  finally show ?thesis using missing_le[of "Suc 0" ?m "0x102000" ?va] by (simp add: numeral_eq_Suc del: missing.simps)
qed

lemma low_windows:
  assumes "\<forall>e\<in>set es. usable e \<longrightarrow> unat (base_of e) + unat (len_of e) \<le> 506 * 2 ^ 20"
  shows "usable_windows es \<subseteq> {1..252}"
proof
  fix w assume "w \<in> usable_windows es"
  then obtain e va where e: "e \<in> set es" "usable e" and w: "w = window va"
    and r: "region_page (unat (base_of e)) (unat (len_of e)) va"
    unfolding usable_windows_def usable_page_def by blast
  have "4096 * (unat (base_of e) div 4096) \<le> unat (base_of e)"
    "4096 * ((unat (len_of e) + 4095) div 4096) \<le> unat (len_of e) + 4095" by simp_all
  then have "unat (base_of e) div 4096 + (unat (len_of e) + 4095) div 4096 \<le> 253 * 512"
    using assms e by fastforce
  then have "512 \<le> unat (vpage va)" "unat (vpage va) < 253 * 512" using r by (simp_all add: region_page_def)
  then have "1 \<le> unat (vpage va) div 512" "unat (vpage va) div 512 < 253" by linarith+
  then show "w \<in> {1..252}" by (simp add: w window_def)
qed

text \<open>C18. Identity mapping across the two stages. \<^verbatim>\<open>main32\<close> maps the first 2 MB and
  leaves its tables at 1 MB; \<^verbatim>\<open>page_init\<close> then runs on these tables (their address in CR3)
  and on the memory map, which \<^verbatim>\<open>main32\<close> left alone, as \<open>plain_map\<close> describes it, with all
  usable memory below 506 MB. It returns, and then the processor translates exactly the first
  2 MB and the pages the loop visits in the usable regions from there on, each to itself; the
  tables lie below 2 MB, and the memory from 2 MB on is one free block. 506 MB is the limit:
  252 tables fit between the tables of \<^verbatim>\<open>main32\<close> and 2 MB, one for every 2 MB.\<close>

theorem boot_identity_map:
  assumes s': "s' = main32 s" and p: "ram p = ram32 s'" "cr3 p = ucast (pml4_ptr32 s')"
    and es: "n = unat (e820_size (ram32 s) E820_LOC)" "es = e820_list (ram32 s) E820_LOC n" and map: "plain_map es"
    and top: "\<forall>e\<in>set es. usable e \<longrightarrow> unat (base_of e) + unat (len_of e) \<le> 506 * 2 ^ 20"
  shows "\<exists>q T. page_init (table_al d) (mem_init (placement_addr32 s') p) = Some (Inr q) \<and> low_room q T 0 \<and> pt_inv q T \<and>
    (\<forall>va. mmu q va = (if vpage va < 512 \<or> usable_page es va then Some (identity_frame va) else None)) \<and>
    (case filter high es of [] \<Rightarrow> page_tree q = 0 \<and> (\<forall>h<31. page_list q h = 0)
     | e # _ \<Rightarrow> only_block q (block_start e) (PAGE_SIZE_ALIGN (block_len e)))"
proof -
  let ?p = "mem_init 0x104000 p" and ?T = "insert 0 boot_tables" and ?W = "usable_windows es"
  have e: "ram p = boot_memory (ram32 s)" "cr3 p = 0x100000" "placement_addr32 s' = 0x104000"
    using s' p by (simp_all add: main32_eq)
  have k: "(252 :: nat) \<le> 2 ^ 40 - 0x104" by simp
  note m = main32_paging[OF e(1,2) refl k]
  have r: "ram ?p = ram p" "cr3 ?p = cr3 p" by (simp_all add: mem_init_def)
  have u: "mmu ?p va = mmu p va" for va by (simp add: mmu_def r)
  have first: "agree {0} (ram32 s) (ram ?p)"
  proof -
    have "addrs 0 4096 \<inter> addrs a 4096 = {}" if "a \<in> boot_tables" for a
      using that by (auto intro!: addrs_disjointI(1))
    then have "x \<notin> page_cells boot_tables" if "x \<in> addrs 0 4096" for x
      using that by (auto simp: page_cells_def)
    then show ?thesis using boot_memory_filled(5) unfolding r e(1) agree_def by (simp add: page_cells_def)
  qed
  have n: "n \<le> 100" using map es(2) by (simp add: plain_map_def)
  have es': "n = unat (e820_size (ram ?p) E820_LOC)" "es = e820_list (ram ?p) E820_LOC n"
    using es first_page_size[OF first] first_page_list[OF n first] by simp_all
  have W: "?W \<subseteq> {1..252}" by (rule low_windows[OF top])
  have "need ?p ?W \<le> (\<Sum>w\<in>?W. 1)"
    unfolding need_def r e(1,2) by (rule sum_mono) (use W boot_missing in fastforce)
  also have "\<dots> \<le> 252" using card_mono[OF _ W] by simp
  finally have nd: "need ?p ?W \<le> 252" .
  have "low_room ?p ?T 252"
    using m(2) by (simp add: low_room_def mem_init_def PAGE_SIZE_ALIGN_def)
  from low.room_mono[OF this nd] have room: "low_room ?p ?T (need ?p ?W)" .
  have z: "0 \<in> ?T - tabs 3 (ram ?p) (cr3 ?p)" using m(4) unfolding r .
  from page_init_plain[OF es' map room m(3) z, of d] obtain q T where
    q: "page_init (table_al d) ?p = Some (Inr q)" "low_room q T 0" "pt_inv q T"
      "\<forall>va. mmu q va = (if mmu ?p va = None \<and> usable_page es va then Some (identity_frame va) else mmu ?p va)"
      "case filter high es of [] \<Rightarrow> page_tree q = 0 \<and> (\<forall>h<31. page_list q h = 0)
       | e # _ \<Rightarrow> only_block q (block_start e) (PAGE_SIZE_ALIGN (block_len e))" by blast
  have "mmu q va = (if vpage va < 512 \<or> usable_page es va then Some (identity_frame va) else None)" for va
    using q(4) m(1)[of va] u[of va] by simp
  then show ?thesis unfolding e(3) using q(1-3,5) by blast
qed

text \<open>33 usable pages at 2 MB in the memory map.\<close>

lemma boot_identity_map_witness:
  "\<exists>s p q. ram p = ram32 (main32 s) \<and>
     page_init (table_al 1) (mem_init (placement_addr32 (main32 s)) p) = Some (Inr q) \<and>
     mmu q 0x1FFABC = Some 0x1FF000 \<and> mmu q 0x200ABC = Some 0x200000 \<and> mmu q 0x221000 = None"
proof -
  define s where "s = \<lparr>ram32 = one_region (\<lambda>_. 0), placement_addr32 = 0, pml4_ptr32 = 0\<rparr>"
  define p where "p = boot_state\<lparr>ram := ram32 (main32 s), cr3 := ucast (pml4_ptr32 (main32 s))\<rparr>"
  define e where "e = read_entry (one_region (\<lambda>_. 0)) (e820_entry E820_LOC 0)"
  note o = one_region[where m = "\<lambda>_. 0", folded e_def]
  have p: "ram p = ram32 (main32 s)" "cr3 p = ucast (pml4_ptr32 (main32 s))" by (simp_all add: p_def)
  have m: "1 = unat (e820_size (ram32 s) E820_LOC)" "[e] = e820_list (ram32 s) E820_LOC 1" using o(1,2) by (simp_all add: s_def)
  have "\<forall>e\<in>set [e]. usable e \<longrightarrow> unat (base_of e) + unat (len_of e) \<le> 506 * 2 ^ 20" by (simp add: o(3,4))
  from boot_identity_map[OF refl p m o(6) this, of 1] obtain q where
    q: "page_init (table_al 1) (mem_init (placement_addr32 (main32 s)) p) = Some (Inr q)"
    "\<forall>va. mmu q va = (if vpage va < 512 \<or> usable_page [e] va then Some (identity_frame va) else None)" by blast
  have v: "vpage 0x1FFABC = 511" "vpage 0x200ABC = 512" "vpage 0x221000 = 545"
    by (simp_all add: vpage_def drop_bit_eq_div take_bit_eq_mod)
  then have "mmu q 0x1FFABC = Some 0x1FF000" "mmu q 0x200ABC = Some 0x200000" "mmu q 0x221000 = None"
    using q(2) o(11) by (simp_all add: identity_frame_def push_bit_eq_mult)
  then show ?thesis using q(1) p(1) by blast
qed

section \<open>The state the drivers start in\<close>

text \<open>C19. The order of the initialisation. When \<^verbatim>\<open>page_init\<close> succeeds and a page is left
  behind the placement address, the rest of the sequence returns, and before the bus is
  scanned: interrupts are enabled and all sixteen IRQs unmasked; the vectors 0 to 47 lead to the
  stubs; vector 14 is handled by \<^verbatim>\<open>page_fault\<close> and IRQ 0 by \<^verbatim>\<open>pit_handler\<close>, no other
  handler is registered; the tick counter is 0 with the counter value loaded; the heap lies
  at the placement address with one free block and its lock free, and placement allocation
  goes on at 2 MB.\<close>

theorem boot_core_ready:
  assumes pi: "page_init (table_al d) (mem_init placement (pages s)) = Some (Inr p)"
    and top: "unat (placement_addr p) + 4096 \<le> 2 ^ 64"
  shows "\<exists>s'. boot_core d placement isr irq idt_addr fault tick s = ret s' \<and>
    int_enabled s' \<and> cpu_if s' \<and> imr (io_log s') = 0 \<and>
    idt s' = set_entries (stub isr irq) 48 (replicate 256 zero_entry) \<and>
    isr_handlers s' = (replicate 256 None)[14 := Some fault] \<and>
    irq_handlers s' = (replicate 16 None)[0 := Some tick] \<and>
    pit_ticks s' = 0 \<and> pit_counter s' = PIT_COUNTER \<and>
    heap_var (pages s') = placement_addr p \<and> placement_addr (pages s') = INIT_MEM \<and>
    \<not> heap_locked (ram (pages s')) (placement_addr p) \<and>
    block (ram (pages s')) (placement_addr p + 544) 0xDE0"
proof -
  obtain m where h: "heap_create (ram p) (placement_addr p) 0x1000 HEAP_MAX_SIZE = Some (m, placement_addr p)"
    "\<not> heap_locked m (placement_addr p)" "block m (placement_addr p + 544) 0xDE0"
    using heap_create_returns[of "placement_addr p" "0x1000" "ram p" HEAP_MAX_SIZE] top
    by (auto simp: HEAP_ALIGN_def)
  define s1 where "s1 = interrupt_init isr irq idt_addr (snd (run_state pic_init
    ((interrupt_disable s)\<lparr>pages := mem_init placement (pages (interrupt_disable s))\<rparr>)))"
  have s1: "pages s1 = mem_init placement (pages s)" "\<not> int_enabled s1"
    "idt s1 = set_entries (stub isr irq) 48 (replicate 256 zero_entry)"
    "isr_handlers s1 = replicate 256 None" "irq_handlers s1 = replicate 16 None"
    by (simp_all add: s1_def interrupt_init_def pic_init_def interrupt_disable_def)
  define s2 where "s2 = pit_init tick PIT_COUNTER ((page_init_handler fault (s1\<lparr>pages := p\<rparr>))
    \<lparr>pages := p\<lparr>ram := m, heap_var := placement_addr p, placement_addr := INIT_MEM\<rparr>\<rparr>)"
  have s2: "pages s2 = p\<lparr>ram := m, heap_var := placement_addr p, placement_addr := INIT_MEM\<rparr>"
    "\<not> int_enabled s2" "idt s2 = idt s1" "isr_handlers s2 = (isr_handlers s1)[14 := Some fault]"
    "irq_handlers s2 = (irq_handlers s1)[0 := Some tick]" "pit_ticks s2 = 0" "pit_counter s2 = PIT_COUNTER"
    using s1(2) by (simp_all add: s2_def pit_init_def pit_set_def pit_reset_def page_init_handler_def Let_def
        interrupt_reg_isr_handler_def interrupt_reg_irq_handler_def)
  define s3 where "s3 = interrupt_enable (snd (run_state (pic_enable 0xFFFF) s2))"
  have s3: "pages s3 = pages s2" "int_enabled s3" "cpu_if s3" "imr (io_log s3) = 0" "idt s3 = idt s2"
    "isr_handlers s3 = isr_handlers s2" "irq_handlers s3 = irq_handlers s2" "pit_ticks s3 = pit_ticks s2"
    "pit_counter s3 = pit_counter s2"
    using s2(2) by (simp_all add: s3_def interrupt_enable_def pic_enable_def imr_def)
  have "pages (page_init_handler fault (s1\<lparr>pages := p\<rparr>)) = p"
    by (simp add: page_init_handler_def interrupt_reg_isr_handler_def)
  then have "boot_core d placement isr irq idt_addr fault tick s = ret s3"
    using pi h(1) s1(1) unfolding boot_core_def Let_def
    by (fold s1_def) (simp add: mem_init_heap_def ret_def [symmetric] s3_def s2_def)
  then show ?thesis using s1 s2 s3 h by simp
qed

text \<open>An empty memory map and the default tables.\<close>

definition boot_start :: "bool pci_state" where
  "boot_start = \<lparr>io_log = [], int_enabled = False, cpu_if = False, idt = [], idtr = (0, 0),
     isr_handlers = [], irq_handlers = [], pit_counter = 0, pit_mode = 0, pit_ticks = 7, tick_update = False,
     pages = boot_state, cache_ptr = 0, cache = [], cache_len = 0\<rparr>"

lemma boot_core_ready_witness:
  "\<exists>s'. boot_core 1 0x104000 of_nat of_nat 0x6000 False True boot_start = ret s' \<and> int_enabled s' \<and>
     isr_handlers s' ! 14 = Some False \<and> irq_handlers s' ! 0 = Some True \<and>
     heap_var (pages s') = 0x104000 \<and> block (ram (pages s')) 0x104220 0xDE0"
proof -
  define p where "p = (mem_init 0x104000 boot_state)\<lparr>total_mem := 0, available_mem := 0, pml4_var := 0x1000,
      ram := sort_e820 (\<lambda>_. 0) 0x500, page_tree := 0,
      page_list := (\<lambda>_. 0)\<rparr>"
  have e: "sort_e820 (\<lambda>_. 0) 0x500 = (\<lambda>_. 0)" by (simp add: sort_e820_def e820_size_def load16_def e820_sort_loop.simps)
  have "page_init (table_al 1) (mem_init 0x104000 (pages boot_start)) = Some (Inr p)"
    by (simp add: page_init_def boot_start_def p_def boot_state_def mem_init_def e init_entries.simps e820_size_def load16_def ret_def
        cong: if_cong)
  moreover have "placement_addr p = 0x104000" by (simp add: p_def mem_init_def)
  ultimately show ?thesis
    using boot_core_ready[of 1 "0x104000" boot_start p of_nat of_nat "0x6000" False True] by auto
qed

end
