(* ===== verification/Console.thy ===== *)
theory Console
  imports LibLemmas Interrupts
begin

text \<open>
  Text output: \<^verbatim>\<open>src/src/boot/bios/bbp/loader/debug_print.c\<close> of the loader and
  \<^verbatim>\<open>src/src/drivers/video/text.c\<close> of the kernel. The screen is 25 rows of 80 cells of
  two bytes (character, color) at \<^verbatim>\<open>VIDEOMEM_LOC\<close>. The loader keeps a cursor across
  calls; the kernel driver passes coordinates by value and only counts rows. The text is
  formatted into a static buffer at the address \<open>str\<close> first.
\<close>

section \<open>The screen\<close>

record console =
  vmem :: mem
  cur_x :: u64
  cur_y :: u64
  base_color :: u8

definition VIDEOMEM_LOC :: u64 where
  "VIDEOMEM_LOC = 0xB8000"

definition columns :: u64 where "columns = 80"
definition rows :: u64 where "rows = 25"

text \<open>\<^verbatim>\<open>rep stosw\<close> and \<^verbatim>\<open>rep movsw\<close>.\<close>

primrec stosw :: "nat \<Rightarrow> mem \<Rightarrow> u64 \<Rightarrow> u16 \<Rightarrow> mem" where
  "stosw 0 m d v = m"
| "stosw (Suc n) m d v = stosw n (m(d := ucast v, d + 1 := ucast (drop_bit 8 v))) (d + 2) v"

primrec movsw :: "nat \<Rightarrow> mem \<Rightarrow> u64 \<Rightarrow> u64 \<Rightarrow> mem" where
  "movsw 0 m d s = m"
| "movsw (Suc n) m d s = movsw n (m(d := m s, d + 1 := m (s + 1))) (d + 2) (s + 2)"

definition blank :: "u8 \<Rightarrow> u16" where
  "blank color = push_bit 8 (ucast color) + 32"

definition debug_scroll :: "console \<Rightarrow> console" where
  "debug_scroll s =
    (let vidmem = VIDEOMEM_LOC;
         row_len = ucast (columns * 2) :: u16;
         last_row_char = ucast ((rows - 1) * columns) :: u16;
         fill = blank (base_color s);
         m = movsw (unat last_row_char) (vmem s) vidmem (vidmem + ucast row_len);
         m = stosw (unat columns) m (vidmem + ucast (last_row_char * 2)) fill
     in s\<lparr>vmem := m\<rparr>)"

definition clear_screen :: "u8 \<Rightarrow> console \<Rightarrow> console" where
  "clear_screen color s =
    (let s = s\<lparr>base_color := color, cur_y := 0, cur_x := 0\<rparr>
     in s\<lparr>vmem := stosw (unat (columns * rows)) (vmem s) VIDEOMEM_LOC (blank (base_color s))\<rparr>)"

text \<open>The loader switches interrupts off around it.\<close>

definition debug_clear :: "u8 \<Rightarrow> ('h, 'x) int_state_scheme \<times> console \<Rightarrow> ('h, 'x) int_state_scheme \<times> console" where
  "debug_clear color = (\<lambda>(i, s).
    (let int_status = interrupt_status i;
         i = (if int_status then interrupt_disable i else i);
         s = clear_screen color s
     in (if int_status then interrupt_enable i else i, s)))"

definition debug_cursor :: "console \<Rightarrow> u64 \<times> u64" where
  "debug_cursor s = (cur_x s, cur_y s)"

section \<open>The loader's output\<close>

definition printable :: "u8 \<Rightarrow> bool" where
  "printable c \<longleftrightarrow> 0x20 \<le> c \<and> c \<le> 0x7E"

text \<open>A cell is addressed through a 16-bit index. One turn of the loop for character \<open>c\<close>.\<close>

definition put_cell :: "u64 \<Rightarrow> u64 \<Rightarrow> u8 \<Rightarrow> u8 \<Rightarrow> mem \<Rightarrow> mem" where
  "put_cell x y c color m =
    (let i = ucast (y * columns * 2 + x * 2) :: u16
     in m(VIDEOMEM_LOC + ucast i := c, VIDEOMEM_LOC + (ucast i + 1) := color))"

definition print_char :: "u8 \<Rightarrow> u8 \<Rightarrow> console \<Rightarrow> console" where
  "print_char color c s =
    (let s = (if c = 0x0A \<or> cur_x s \<ge> columns then s\<lparr>cur_x := 0, cur_y := cur_y s + 1\<rparr> else s);
         s = (if cur_y s \<ge> rows then (debug_scroll s)\<lparr>cur_y := rows - 1\<rparr> else s)
     in if printable c
        then s\<lparr>vmem := put_cell (cur_x s) (cur_y s) c color (vmem s), cur_x := cur_x s + 1\<rparr>
        else s)"

partial_function (option) print_loop :: "u8 \<Rightarrow> u64 \<Rightarrow> console \<Rightarrow> console option" where
  "print_loop color s c =
    (if vmem c s \<noteq> 0 then print_loop color (s + 1) (print_char color (vmem c s) c) else Some c)"

text \<open>\<open>None\<close> is "does not return", \<open>Inl\<close> a fault in the formatting.\<close>

definition debug_print_f ::
  "u64 \<Rightarrow> u64 \<Rightarrow> u8 \<Rightarrow> u64 \<Rightarrow> u64 list \<Rightarrow> console \<Rightarrow> (c_error + console) option" where
  "debug_print_f tmp str color format args c =
    (let m = mem_fill (vmem c) str 0 2001
     in Option.bind (write_f m tmp str 2000 format args) (\<lambda>r.
       case r of
         Inl e \<Rightarrow> Some (Inl e)
       | Inr (m, n) \<Rightarrow>
           if n \<noteq> 0 then map_option Inr (print_loop color str (c\<lparr>vmem := m\<rparr>))
           else Some (Inr (c\<lparr>vmem := m\<rparr>))))"

definition debug_print ::
  "u64 \<Rightarrow> u64 \<Rightarrow> u8 \<Rightarrow> u64 \<Rightarrow> u64 list \<Rightarrow> console \<Rightarrow> (c_error + console) option" where
  "debug_print tmp str color format args c =
     map_option (map_sum id (\<lambda>c. c\<lparr>cur_x := 0, cur_y := cur_y c + 1\<rparr>))
       (debug_print_f tmp str color format args c)"

section \<open>The kernel's output\<close>

text \<open>Coordinates are bytes; the test for the last row is inside the new-line branch only, and
  the new position is not given back to the caller.\<close>

definition text_char :: "u8 \<Rightarrow> u8 \<Rightarrow> u8 \<times> u8 \<times> console \<Rightarrow> u8 \<times> u8 \<times> console" where
  "text_char color c = (\<lambda>(x, y, s).
    (let (x, y, s) =
           (if c = 0x0A \<or> ucast x \<ge> columns then
              let x = 0; y = y + 1
              in if ucast y \<ge> rows then (x, ucast (rows - 1), debug_scroll s) else (x, y, s)
            else (x, y, s))
     in if printable c
        then (x + 1, y, s\<lparr>vmem := put_cell (ucast x) (ucast y) c color (vmem s)\<rparr>)
        else (x, y, s)))"

partial_function (option) text_loop :: "u8 \<Rightarrow> u64 \<Rightarrow> u8 \<times> u8 \<times> console \<Rightarrow> (u8 \<times> u8 \<times> console) option" where
  "text_loop color s st =
    (let c = vmem (snd (snd st)) s
     in if c \<noteq> 0 then text_loop color (s + 1) (text_char color c st) else Some st)"

definition text_print_f ::
  "u64 \<Rightarrow> u64 \<Rightarrow> u8 \<Rightarrow> u8 \<Rightarrow> u8 \<Rightarrow> u64 \<Rightarrow> u64 list \<Rightarrow> console \<Rightarrow> (c_error + console) option" where
  "text_print_f tmp str x y color format args c =
    (let m = mem_fill (vmem c) str 0 2001
     in Option.bind (write_loop False tmp 2000 format args (m, str, 0)) (\<lambda>r.
       case r of
         Inl e \<Rightarrow> Some (Inl e)
       | Inr (m, n) \<Rightarrow>
           if n \<noteq> 0 then map_option (\<lambda>(x, y, c). Inr c) (text_loop color str (x, y, c\<lparr>vmem := m\<rparr>))
           else Some (Inr (c\<lparr>vmem := m\<rparr>))))"

definition debug_print_at ::
  "u64 \<Rightarrow> u64 \<Rightarrow> u8 \<Rightarrow> u8 \<Rightarrow> u8 \<Rightarrow> u64 \<Rightarrow> u64 list \<Rightarrow> console \<Rightarrow> (c_error + console) option" where
  "debug_print_at tmp str x y color format args c = text_print_f tmp str x y color format args c"

definition text_print ::
  "u64 \<Rightarrow> u64 \<Rightarrow> u8 \<Rightarrow> u64 \<Rightarrow> u64 list \<Rightarrow> console \<Rightarrow> (c_error + console) option" where
  "text_print tmp str color format args c =
    (let c = (if cur_y c \<ge> rows then (debug_scroll c)\<lparr>cur_y := rows - 1\<rparr> else c)
     in map_option (map_sum id (\<lambda>c. c\<lparr>cur_y := cur_y c + 1\<rparr>))
          (text_print_f tmp str (ucast (cur_x c)) (ucast (cur_y c)) color format args c))"

section \<open>Scrolling\<close>

definition screen :: "u64 set" where
  "screen = addrs VIDEOMEM_LOC 4000"

lemma addrs_two: "2 * Suc n < 2 ^ 64 \<Longrightarrow> addrs d (2 * Suc n) = insert d (insert (d + 1) (addrs (d + 2) (2 * n)))"
  using addrs_Suc[of "Suc (2 * n)" d] addrs_Suc[of "2 * n" "d + 1"] by (simp add: add.assoc)

lemma stosw_eq:
  "2 * n < 2 ^ 64 \<Longrightarrow> stosw n m d v x =
    (if x \<in> addrs d (2 * n) then if even (x - d) then ucast v else ucast (drop_bit 8 v) else m x)"
proof (induction n arbitrary: m d)
  case (Suc n)
  have e: "even (x - (d + 2)) \<longleftrightarrow> even (x - d)"
  proof -
    have "even ((x - d) - 2) \<longleftrightarrow> even (x - d)" by (simp add: even_diff_iff)
    then show ?thesis by (simp add: algebra_simps)
  qed
  have "d \<notin> addrs (d + 2) (2 * n)" "d + 1 \<notin> addrs (d + 2) (2 * n)"
    using addrs_notin_Suc[of "Suc (2 * n)" d] addrs_Suc[of "2 * n" "d + 1"] addrs_notin_Suc[of "2 * n" "d + 1"] Suc.prems
    by (simp_all add: add.assoc)
  moreover have "stosw n m' (d + 2) v x =
      (if x \<in> addrs (d + 2) (2 * n) then if even (x - d) then ucast v else ucast (drop_bit 8 v) else m' x)" for m'
    using Suc.IH[of m' "d + 2"] Suc.prems by (simp only: e) simp
  ultimately show ?case using Suc.prems by (simp only: addrs_two stosw.simps) auto
qed simp

text \<open>Copying upwards in place: the source lies \<open>k\<close> bytes above the destination.\<close>

lemma movsw_eq:
  assumes "2 \<le> unat k"
  shows "unat d + unat k + 2 * n \<le> 2 ^ 64 \<Longrightarrow>
    movsw n m d (d + k) x = (if x \<in> addrs d (2 * n) then m (x + k) else m x)"
proof (induction n arbitrary: m d)
  case (Suc n)
  let ?m = "m(d := m (d + k), d + 1 := m (d + k + 1))"
  have u: "unat (d + 2) = unat d + 2" using Suc.prems assms by (simp add: unat_word_ariths)
  have IH: "movsw n ?m (d + 2) (d + 2 + k) x = (if x \<in> addrs (d + 2) (2 * n) then ?m (x + k) else ?m x)"
    by (rule Suc.IH) (use Suc.prems u in simp)
  have s: "d + k + 2 = d + 2 + k" by simp
  have k: "?m (x + k) = m (x + k)" if "x \<in> addrs (d + 2) (2 * n)"
  proof -
    have "unat d + 2 \<le> unat x" "unat x < unat d + 2 + 2 * n"
      using addrs_nowrap[OF _ that] u Suc.prems by simp_all
    then have "unat (x + k) = unat x + unat k" using Suc.prems by (simp add: unat_word_ariths)
    moreover have "unat (d + 1) = unat d + 1" using Suc.prems assms by (simp add: unat_word_ariths)
    ultimately have "unat (x + k) \<noteq> unat d" "unat (x + k) \<noteq> unat (d + 1)"
      using \<open>unat d + 2 \<le> unat x\<close> assms by linarith+
    then have "x + k \<noteq> d" "x + k \<noteq> d + 1" by metis+
    then show ?thesis by simp
  qed
  have "2 * Suc n < 2 ^ 64" using Suc.prems assms by simp
  then show ?case
    using IH k by (simp only: addrs_two movsw.simps s) (auto simp: add.commute add.left_commute)
qed simp

lemma blank_bytes [simp]: "ucast (blank c) = (32 :: u8)" "ucast (drop_bit 8 (blank c)) = c"
proof -
  have c: "unat c < 256" using unsigned_less[of c, where 'a = nat] by simp
  then have u: "unat (blank c) = 256 * unat c + 32"
    by (simp add: blank_def push_bit_eq_mult unat_word_ariths unsigned_ucast_eq take_bit_nat_eq_self)
  have "unat (ucast (blank c) :: u8) = 32" by (simp add: unsigned_ucast_eq u take_bit_eq_mod)
  then show "ucast (blank c) = (32 :: u8)" by (simp add: word_unat_eq_iff)
  have "unat (drop_bit 8 (blank c)) = unat c" by (simp add: drop_bit_eq_div unat_div u)
  then have "unat (ucast (drop_bit 8 (blank c)) :: u8) = unat c"
    using c by (simp add: unsigned_ucast_eq take_bit_nat_eq_self)
  then show "ucast (drop_bit 8 (blank c)) = c" by (simp add: word_unat_eq_iff)
qed

lemma scroll_vmem:
  "vmem (debug_scroll s) x =
    (if x \<in> addrs (VIDEOMEM_LOC + 3840) 160 then if even (x - (VIDEOMEM_LOC + 3840)) then 32 else base_color s
     else if x \<in> addrs VIDEOMEM_LOC 3840 then vmem s (x + 160) else vmem s x)"
  using movsw_eq[of 160 VIDEOMEM_LOC 1920 "vmem s" x]
  by (simp add: debug_scroll_def columns_def rows_def VIDEOMEM_LOC_def stosw_eq)

lemma scroll_cursor [simp]:
  "cur_x (debug_scroll s) = cur_x s" "cur_y (debug_scroll s) = cur_y s" "base_color (debug_scroll s) = base_color s"
  by (simp_all add: debug_scroll_def Let_def)

lemma screen_parts: "screen = addrs VIDEOMEM_LOC 3840 \<union> addrs (VIDEOMEM_LOC + 3840) 160"
proof (rule set_eqI)
  fix x
  have "unat (x - VIDEOMEM_LOC) < 4000 \<longleftrightarrow>
      unat (x - VIDEOMEM_LOC) < 3840 \<or> unat (x - VIDEOMEM_LOC - 3840) < 160"
    by (simp add: unat_sub_if') (use unat64_lt[of "x - VIDEOMEM_LOC"] in linarith)
  then show "x \<in> screen \<longleftrightarrow> x \<in> addrs VIDEOMEM_LOC 3840 \<union> addrs (VIDEOMEM_LOC + 3840) 160"
    by (simp add: screen_def in_addrs_iff algebra_simps)
qed

lemma scroll_outside: "x \<notin> screen \<Longrightarrow> vmem (debug_scroll s) x = vmem s x"
  by (simp add: scroll_vmem screen_parts)

section \<open>Cells\<close>

definition cell_addr :: "nat \<Rightarrow> nat \<Rightarrow> u64" where
  "cell_addr r c = VIDEOMEM_LOC + of_nat (160 * r + 2 * c)"

definition cell :: "mem \<Rightarrow> nat \<Rightarrow> nat \<Rightarrow> u8 \<times> u8" where
  "cell m r c = (m (cell_addr r c), m (cell_addr r c + 1))"

lemma cell_addr_unat: "r < 25 \<Longrightarrow> c < 80 \<Longrightarrow> unat (cell_addr r c) = 753664 + (160 * r + 2 * c)"
proof -
  assume "r < 25" "c < 80"
  then have "160 * r + 2 * c < 4000" by linarith
  then have "unat (of_nat (160 * r + 2 * c) :: u64) = 160 * r + 2 * c" by (intro unat_of_nat_small) simp
  with \<open>160 * r + 2 * c < 4000\<close> show ?thesis
    unfolding cell_addr_def VIDEOMEM_LOC_def by (subst unat_add_lem[THEN iffD1]) simp_all
qed

lemma put_cell_eq:
  assumes "y < 25" "x < 80"
  shows "put_cell x y c color m = m(cell_addr (unat y) (unat x) := c, cell_addr (unat y) (unat x) + 1 := color)"
proof -
  have b: "unat y < 25" "unat x < 80" using assms by (simp_all add: word_less_nat_alt)
  then have "unat (y * columns * 2 + x * 2) = 160 * unat y + 2 * unat x"
    by (simp add: columns_def unat_word_ariths)
  then have "unat (ucast (ucast (y * columns * 2 + x * 2) :: u16) :: u64) = 160 * unat y + 2 * unat x"
    using b by (simp add: unsigned_ucast_eq unsigned_take_bit_eq take_bit_nat_eq_self)
  then have "ucast (ucast (y * columns * 2 + x * 2) :: u16) = (of_nat (160 * unat y + 2 * unat x) :: u64)"
    by (metis of_nat_unat ucast_id)
  then show ?thesis by (simp add: put_cell_def cell_addr_def Let_def add.assoc)
qed

lemma cell_in_screen:
  assumes "r < 25" "c < 80"
  shows "cell_addr r c \<in> screen" "cell_addr r c + 1 \<in> screen"
proof -
  have b: "160 * r + 2 * c + 1 < 4000" using assms by linarith
  then have "unat (of_nat (160 * r + 2 * c) :: u64) = 160 * r + 2 * c"
    "unat (of_nat (160 * r + 2 * c + 1) :: u64) = 160 * r + 2 * c + 1" by (intro unat_of_nat_small; simp)+
  then show "cell_addr r c \<in> screen" "cell_addr r c + 1 \<in> screen"
    using b by (simp_all add: screen_def in_addrs_iff cell_addr_def ac_simps)
qed

section \<open>Properties\<close>

text \<open>The cursor between two calls, and within a line of output.\<close>

definition cursor_ok :: "console \<Rightarrow> bool" where
  "cursor_ok s \<longleftrightarrow> cur_x s \<le> 80 \<and> cur_y s \<le> 25"

lemma print_char_safe:
  assumes "cursor_ok s"
  shows "cursor_ok (print_char color c s)" "x \<notin> screen \<Longrightarrow> vmem (print_char color c s) x = vmem s x"
proof -
  define s1 where "s1 = (if c = 0x0A \<or> cur_x s \<ge> columns then s\<lparr>cur_x := 0, cur_y := cur_y s + 1\<rparr> else s)"
  define s2 where "s2 = (if cur_y s1 \<ge> rows then (debug_scroll s1)\<lparr>cur_y := rows - 1\<rparr> else s1)"
  have e: "print_char color c s =
      (if printable c then s2\<lparr>vmem := put_cell (cur_x s2) (cur_y s2) c color (vmem s2), cur_x := cur_x s2 + 1\<rparr> else s2)"
    by (simp add: print_char_def s1_def s2_def Let_def)
  have x2: "cur_x s2 < 80" if "printable c"
  proof -
    have "cur_x s2 = cur_x s1" by (simp add: s2_def)
    then show ?thesis using that by (auto simp: s1_def columns_def printable_def)
  qed
  have y2: "cur_y s2 < 25" by (auto simp: s2_def rows_def)
  have x2': "cur_x s2 \<le> 80" using assms by (auto simp: s2_def s1_def cursor_ok_def)
  have m2: "vmem s2 x = vmem s x" if "x \<notin> screen" for x
    using scroll_outside[OF that] by (simp add: s2_def s1_def)
  have "cur_x s2 + 1 \<le> 80" if "printable c" using x2[OF that] by (simp add: inc_le)
  then show "cursor_ok (print_char color c s)"
    using x2' y2 by (auto simp: e cursor_ok_def)
  show "vmem (print_char color c s) x = vmem s x" if "x \<notin> screen"
  proof (cases "printable c")
    case True
    have "unat (cur_y s2) < 25" "unat (cur_x s2) < 80"
      using y2 x2[OF True] by (simp_all add: word_less_nat_alt)
    then have "x \<noteq> cell_addr (unat (cur_y s2)) (unat (cur_x s2))"
      "x \<noteq> cell_addr (unat (cur_y s2)) (unat (cur_x s2)) + 1"
      using cell_in_screen that by metis+
    then show ?thesis using m2[OF that] by (simp add: e True put_cell_eq y2 x2[OF True])
  qed (simp add: e m2[OF that])
qed

lemma fold_print_safe:
  "cursor_ok s \<Longrightarrow> cursor_ok (fold (print_char color) chs s) \<and>
     (\<forall>x. x \<notin> screen \<longrightarrow> vmem (fold (print_char color) chs s) x = vmem s x)"
  by (induction chs arbitrary: s) (simp_all add: print_char_safe)

lemma print_loop_cstr:
  "cstr (vmem c) s chs \<Longrightarrow> addrs s (Suc (length chs)) \<inter> screen = {} \<Longrightarrow> length chs < 2 ^ 64 - 1 \<Longrightarrow> cursor_ok c \<Longrightarrow>
   print_loop color s c = Some (fold (print_char color) chs c)"
proof (induction chs arbitrary: s c)
  case Nil
  then show ?case by (subst print_loop.simps) simp
next
  case (Cons y ys)
  let ?c = "print_char color y c"
  have sub: "addrs (s + 1) (Suc (length ys)) \<subseteq> addrs s (Suc (length (y # ys)))"
    using addrs_tail[of _ s "Suc (length ys)"] Cons.prems(3) by auto
  have "cstr (vmem ?c) (s + 1) ys"
  proof -
    have "cstr (vmem c) (s + 1) ys = cstr (vmem ?c) (s + 1) ys"
    proof (rule cstr_cong)
      fix x
      assume "x \<in> addrs (s + 1) (Suc (length ys))"
      then have "x \<notin> screen" using sub Cons.prems(2) by blast
      then show "vmem c x = vmem ?c x" by (simp add: print_char_safe(2)[OF Cons.prems(4)])
    qed (use Cons.prems in simp)
    then show ?thesis using Cons.prems(1) by simp
  qed
  then have "print_loop color (s + 1) ?c = Some (fold (print_char color) ys ?c)"
    using Cons.IH[of ?c "s + 1"] Cons.prems sub print_char_safe(1) by auto
  then show ?case using Cons.prems(1) by (subst print_loop.simps) simp
qed

text \<open>Screen output is safe: for every NUL-terminated text outside the video memory and
  every cursor that earlier output can have left (column up to 80, row up to 25), the output
  loop of the loader ends, prints the characters one by one, changes no byte outside the 4000
  bytes of the screen, and leaves such a cursor; so does \<^verbatim>\<open>debug_print\<close> when it moves to
  the next line, as the row is at most 24 once a character was printed.\<close>

theorem print_loop_safe:
  assumes "cstr (vmem c) s chs" "addrs s (Suc (length chs)) \<inter> screen = {}" "length chs < 2 ^ 64 - 1"
    and "cursor_ok c"
  shows "\<exists>c'. print_loop color s c = Some c' \<and> c' = fold (print_char color) chs c \<and> cursor_ok c' \<and>
    (\<forall>x. x \<notin> screen \<longrightarrow> vmem c' x = vmem c x) \<and>
    (chs \<noteq> [] \<longrightarrow> cursor_ok (c'\<lparr>cur_x := 0, cur_y := cur_y c' + 1\<rparr>))"
proof -
  have "cur_y (print_char color ch t) < 25" for ch t
    by (auto simp: print_char_def Let_def rows_def)
  then have "cur_y (fold (print_char color) chs c) < 25" if "chs \<noteq> []"
    using that by (cases chs rule: rev_cases) simp_all
  then have "chs \<noteq> [] \<longrightarrow> cursor_ok ((fold (print_char color) chs c)\<lparr>cur_x := 0, cur_y := cur_y (fold (print_char color) chs c) + 1\<rparr>)"
    by (simp add: cursor_ok_def inc_le)
  then show ?thesis using print_loop_cstr[OF assms] fold_print_safe[OF assms(4), of color chs] by blast
qed

text \<open>The kernel driver: with the row inside the screen one turn of its loop stays inside
  the screen too; with a row of 25 or more, which \<^verbatim>\<open>debug_print_at\<close> does not check, a
  printable character is written behind the screen.\<close>

theorem text_char_bounds:
  assumes c: "printable c" and x: "x < 80" and r: "(x', y', s') = text_char color c (x, y, s)"
  shows "(y < 25 \<longrightarrow> x' = x + 1 \<and> y' = y \<and> cell (vmem s') (unat y) (unat x) = (c, color) \<and>
      (\<forall>a. a \<notin> screen \<longrightarrow> vmem s' a = vmem s a)) \<and>
    (y \<ge> 25 \<longrightarrow> (\<exists>a. a \<notin> screen \<and> vmem s' a = c))"
proof -
  have ux: "unat x < 80" "(ucast x :: u64) < 80" "unat (ucast x :: u64) = unat x"
    using x by (simp_all add: word_less_nat_alt unat_ucast_byte)
  have uy: "unat (ucast y :: u64) = unat y" by (rule unat_ucast_byte)
  have e: "x' = x + 1" "y' = y" "s' = s\<lparr>vmem := put_cell (ucast x) (ucast y) c color (vmem s)\<rparr>"
  proof -
    have "\<not> (c = 0x0A \<or> (ucast x :: u64) \<ge> columns)"
      using ux(2) c by (auto simp: printable_def columns_def not_le)
    then show "x' = x + 1" "y' = y" "s' = s\<lparr>vmem := put_cell (ucast x) (ucast y) c color (vmem s)\<rparr>"
      using r c by (simp_all add: text_char_def)
  qed
  have low: "cell (vmem s') (unat y) (unat x) = (c, color) \<and> (\<forall>a. a \<notin> screen \<longrightarrow> vmem s' a = vmem s a)" if "y < 25"
  proof -
    have y: "unat y < 25" "(ucast y :: u64) < 25" using that uy by (simp_all add: word_less_nat_alt)
    show ?thesis
      using cell_in_screen[OF y(1) ux(1)] by (auto simp: e put_cell_eq y(2) ux uy cell_def)
  qed
  have high: "\<exists>a. a \<notin> screen \<and> vmem s' a = c" if "y \<ge> 25"
  proof -
    define i where "i = (ucast (ucast (ucast y * columns * 2 + ucast x * 2 :: u64) :: u16) :: u64)"
    have y: "25 \<le> unat y" "unat y < 256" using that unsigned_less[of y, where 'a = nat]
      by (simp_all add: word_le_nat_alt)
    have "unat (ucast y * columns * 2 + ucast x * 2 :: u64) = 160 * unat y + 2 * unat x"
      using y ux by (simp add: columns_def unat_word_ariths uy)
    then have "unat i = 160 * unat y + 2 * unat x"
      using y ux by (simp add: i_def unsigned_ucast_eq unsigned_take_bit_eq take_bit_nat_eq_self)
    then have "VIDEOMEM_LOC + i \<notin> screen" using y by (simp add: screen_def in_addrs_iff)
    moreover have "vmem s' (VIDEOMEM_LOC + i) = c" by (simp add: e put_cell_def i_def Let_def)
    ultimately show ?thesis by blast
  qed
  show ?thesis using e low high by simp
qed

text \<open>A full screen: the cursor is behind the last row, the text "Hi" is printed after a scroll.\<close>

lemma print_loop_safe_witness:
  "\<exists>m c'. print_loop 0xF0 0x1000 \<lparr>vmem = m, cur_x = 0, cur_y = 25, base_color = 0xF0\<rparr> = Some c' \<and> cursor_ok c'"
proof -
  let ?m = "(\<lambda>_. 0)(0x1000 := 72, 0x1001 := 105)"
  have "addrs 0x1000 (Suc (length [72 :: u8, 105])) \<inter> screen = {}"
    unfolding screen_def VIDEOMEM_LOC_def by (rule addrs_disjointI) simp_all
  then show ?thesis
    using print_loop_safe[of "\<lparr>vmem = ?m, cur_x = 0, cur_y = 25, base_color = 0xF0\<rparr>" "0x1000" "[72, 105]" "0xF0"]
    by (intro exI[of _ ?m]) (auto simp: cursor_ok_def)
qed

lemma text_char_bounds_witness:
  "\<exists>x' y' s'. (x', y', s') = text_char 0xF0 65 (0, 25, \<lparr>vmem = (\<lambda>_. 0), cur_x = 0, cur_y = 0, base_color = 0\<rparr>) \<and>
     (\<exists>a. a \<notin> screen \<and> vmem s' a = 65)"
proof -
  obtain x' y' s' where r: "(x', y', s') = text_char 0xF0 65 (0, 25, \<lparr>vmem = (\<lambda>_. 0), cur_x = 0, cur_y = 0, base_color = 0\<rparr>)"
    by (metis prod_cases3)
  from text_char_bounds[OF _ _ r] r show ?thesis by (auto simp: printable_def)
qed

end
