(* ===== verification/Structs.thy ===== *)
theory Structs
  imports Layout
begin

text \<open>
  The structures of the headers: of \<^verbatim>\<open>common.h\<close>, \<^verbatim>\<open>interrupts.h\<close>, \<^verbatim>\<open>heap.h\<close>,
  \<^verbatim>\<open>paging.h\<close>, \<^verbatim>\<open>pci.h\<close>, \<^verbatim>\<open>ata.h\<close> and \<^verbatim>\<open>gpt.h\<close> of the loader, \<^verbatim>\<open>acpi.h\<close>,
  \<^verbatim>\<open>ahci.h\<close>, \<^verbatim>\<open>apic.h\<close>, \<^verbatim>\<open>interrupts.h\<close> and \<^verbatim>\<open>paging.h\<close> of the kernel, and those of
  the drivers, with the names, types, widths and packing of the source. Structures that
  several parts declare under one name have a prefix: \<open>k_\<close> for the kernel, \<open>drv_\<close> for
  the drivers, \<open>page_\<close> for \<^verbatim>\<open>paging.c\<close>, \<open>b16_\<close> and \<open>b32_\<close> for the boot stages.
  A pointer is an integer of 8 bytes and a flexible array has length 0.
\<close>

section \<open>The loader\<close>

definition split_uint64_t :: ctype where
  "split_uint64_t = Struct False [
     Mem ''low'' U32, Mem ''high'' U32]"

definition guid_t :: ctype where
  "guid_t = Struct False [
     Mem ''data1'' U32, Mem ''data2'' U16, Mem ''data3'' U16, Mem ''data4'' (Arr 8 U8)]"

definition isr_stack_t :: ctype where
  "isr_stack_t = Struct False [
     Mem ''rax'' U64, Mem ''rbx'' U64, Mem ''rcx'' U64, Mem ''rdx'' U64, Mem ''rdi'' U64, Mem ''rsi'' U64,
     Mem ''r8'' U64, Mem ''r9'' U64, Mem ''r10'' U64, Mem ''r11'' U64, Mem ''r12'' U64, Mem ''r13'' U64,
     Mem ''r14'' U64, Mem ''r15'' U64, Mem ''rbp'' U64, Mem ''int_no'' U64, Mem ''err_code'' U64,
     Mem ''rip'' U64, Mem ''cs'' U64, Mem ''rflags'' U64, Mem ''rsp'' U64, Mem ''ss'' U64]"

definition irq_stack_t :: ctype where
  "irq_stack_t = Struct False [
     Mem ''rax'' U64, Mem ''rbx'' U64, Mem ''rcx'' U64, Mem ''rdx'' U64, Mem ''rdi'' U64, Mem ''rsi'' U64,
     Mem ''r8'' U64, Mem ''r9'' U64, Mem ''r10'' U64, Mem ''r11'' U64, Mem ''r12'' U64, Mem ''r13'' U64,
     Mem ''r14'' U64, Mem ''r15'' U64, Mem ''rbp'' U64, Mem ''int_no'' U64, Mem ''irq_no'' U64,
     Mem ''rip'' U64, Mem ''cs'' U64, Mem ''rflags'' U64, Mem ''rsp'' U64, Mem ''ss'' U64]"

definition idt_entry_t :: ctype where
  "idt_entry_t = Struct True [
     Mem ''offset_lo'' U16, Mem ''slector'' U16, Mem ''reserved1'' U8, Mem ''type'' U8,
     Mem ''offset_hi'' U16, Mem ''offset_64'' U32, Mem ''reserved2'' U32]"

definition idt_ptr_t :: ctype where
  "idt_ptr_t = Struct True [
     Mem ''limit'' U16, Mem ''base'' U64]"

definition heap_size_t :: ctype where
  "heap_size_t = Struct False [
     Bit ''used'' 8 1, Bit ''aligned'' 8 1, Bit ''reserved'' 8 2, Bit ''frames'' 8 60]"

definition heap_header_t :: ctype where
  "heap_header_t = Struct True [
     Mem ''magic'' U64, Mem ''size'' U64]"

definition heap_footer_t :: ctype where
  "heap_footer_t = Struct True [
     Mem ''magic'' U64, Mem ''header'' U64]"

definition heap_t :: ctype where
  "heap_t = Struct True [
     Mem ''start_addr'' U64, Mem ''end_addr'' U64, Mem ''max_addr'' U64,
     Mem ''flags'' (Struct False [
       Bit ''locked'' 8 1, Bit ''reserved'' 8 63]),
     Mem ''free'' (Arr 64 U64)]"

definition free_item_t :: ctype where
  "free_item_t = Struct True [
     Mem ''header'' heap_header_t, Mem ''prev_block'' U64, Mem ''next_block'' U64]"

definition free_node_t :: ctype where
  "free_node_t = Struct True [
     Mem ''header'' heap_header_t, Mem ''smaller_block'' U64, Mem ''larger_block'' U64,
     Mem ''child_block'' U64, Mem ''parent_block'' U64]"

definition e820entry_t :: ctype where
  "e820entry_t = Struct True [
     Mem ''entry_size'' U16, Mem ''base'' U64, Mem ''length'' U64, Mem ''type'' U32, Mem ''attributes'' U32]"

definition e820map_t :: ctype where
  "e820map_t = Struct True [
     Mem ''size'' U16, Mem ''entries'' (Arr 0 e820entry_t)]"

definition pm_t :: ctype where
  "pm_t = Struct False [
     Bit ''present'' 8 1, Bit ''writable'' 8 1, Bit ''user'' 8 1, Bit ''write_through'' 8 1,
     Bit ''cache_disable'' 8 1, Bit ''accessed'' 8 1, Bit ''dirty'' 8 1, Bit ''pat'' 8 1,
     Bit ''global'' 8 1, Bit ''data'' 8 3, Bit ''frame'' 8 40, Bit ''data2'' 8 11, Bit ''xd'' 8 1]"

definition page_header_t :: ctype where
  "page_header_t = Struct True [
     Mem ''magic'' U64, Mem ''size'' U64]"

definition page_footer_t :: ctype where
  "page_footer_t = Struct True [
     Mem ''magic'' U64, Mem ''header'' U64]"

definition page_free_item_t :: ctype where
  "page_free_item_t = Struct True [
     Mem ''header'' page_header_t, Mem ''prev_block'' U64, Mem ''next_block'' U64]"

definition page_free_node_t :: ctype where
  "page_free_node_t = Struct True [
     Mem ''header'' page_header_t, Mem ''smaller_block'' U64, Mem ''larger_block'' U64,
     Mem ''child_block'' U64, Mem ''parent_block'' U64]"

definition pci_addr_t :: ctype where
  "pci_addr_t = Union True [
     Mem ''s'' (Struct False [
       Bit ''empty'' 4 2, Bit ''reg'' 4 6, Bit ''function'' 4 3, Bit ''device'' 4 5, Bit ''bus'' 4 8,
       Bit ''reserved'' 4 7, Bit ''enabled'' 4 1]),
     Mem ''raw'' U32]"

definition pci_header_t :: ctype where
  "pci_header_t = Struct True [
     Mem ''vendor_id'' U16, Mem ''device_id'' U16, Mem ''command'' U16, Mem ''status'' U16,
     Mem ''revision_id'' U8, Mem ''prog_if'' U8, Mem ''subclass_id'' U8, Mem ''class_id'' U8,
     Mem ''cache_line_size'' U8, Mem ''latency_timer'' U8, Mem ''type'' U8, Mem ''bist'' U8]"

definition pci_device_t :: ctype where
  "pci_device_t = Struct True [
     Mem ''header'' pci_header_t, Mem ''bar'' (Arr 6 U32), Mem ''cis_ptr'' U32, Mem ''sub_vendor_id'' U16,
     Mem ''subsystem_id'' U16, Mem ''exp_rom'' U32, Mem ''compat'' U8, Mem ''reserved'' (Arr 7 U8),
     Mem ''int_line'' U8, Mem ''int_pin'' U8, Mem ''min_grant'' U8, Mem ''max_latency'' U8]"

definition ide_chan_t :: ctype where
  "ide_chan_t = Struct False [
     Mem ''base'' U16, Mem ''control'' U16, Mem ''bmide'' U16, Mem ''no_int'' U8]"

definition ata_dev_t :: ctype where
  "ata_dev_t = Struct False [
     Mem ''status'' (Struct False [
       Bit ''active'' 8 1, Bit ''slave'' 8 1, Bit ''atapi'' 8 1, Bit ''lba48'' 8 1, Bit ''multisect'' 8 1,
       Bit ''largesect'' 8 1, Bit ''reserved'' 8 58]),
     Mem ''sectors'' U64, Mem ''sector_size'' U64, Mem ''commands1'' U64, Mem ''commands2'' U64,
     Mem ''capabilities'' U32, Mem ''signature'' U16, Mem ''channel'' U8, Mem ''model'' (Arr 41 U8)]"

definition ata_identify_t :: ctype where
  "ata_identify_t = Struct False [
     Mem ''conf'' (Struct False [
       Bit ''reserved'' 2 1, Bit ''retired1'' 2 1, Bit ''incomplete'' 2 1, Bit ''retired2'' 2 3,
       Bit ''obsolete'' 2 2, Bit ''retired3'' 2 7, Bit ''ata_dev'' 2 1]),
     Mem ''obsolete1'' U16, Mem ''specific'' U16, Mem ''obsolete2'' U16, Mem ''retired1'' (Arr 4 U16),
     Mem ''obsolete3'' U16, Mem ''cf_assoc'' (Arr 2 U16), Mem ''retired2'' U16, Mem ''serial'' (Arr 20 U8),
     Mem ''retired3'' (Arr 2 U16), Mem ''obsolete4'' U16, Mem ''fw_version'' (Arr 8 U8),
     Mem ''model'' (Arr 30 U8),
     Mem ''drq_cap'' (Struct False [
       Bit ''sect_num'' 2 8, Bit ''reserved'' 2 8]),
     Mem ''tc_opt'' (Struct False [
       Bit ''tc_sup'' 2 1, Bit ''tc_res'' 2 13, Bit ''one'' 2 1, Bit ''zero'' 2 1]),
     Mem ''cap'' (Struct False [
       Bit ''retired'' 4 8, Bit ''dma_sup'' 4 1, Bit ''lba_sup'' 4 1, Bit ''iordy_dis'' 4 1,
       Bit ''iordy_sup'' 4 1, Bit ''reserved1'' 4 1, Bit ''stby_sup'' 4 1, Bit ''reserved2'' 4 2,
       Bit ''stby_vendor'' 4 1, Bit ''obsolete'' 4 1, Bit ''reserved3'' 4 12, Bit ''one'' 4 1,
       Bit ''zero'' 4 1]),
     Mem ''obsolete5'' (Arr 2 U16),
     Mem ''field_valid'' (Struct False [
       Bit ''obsolete'' 1 1, Bit ''f64_valid'' 1 1, Bit ''f80_valid'' 1 1, Bit ''reserved'' 1 5]),
     Mem ''freefall_sens'' U8, Mem ''obsolete6'' (Arr 5 U16), Mem ''drq_sectors'' U16, Mem ''lba_lo'' U32,
     Mem ''obsolete7'' U16, Mem ''dma_modes'' U16, Mem ''pio_modes'' U16, Mem ''dma_cycles'' U16,
     Mem ''dma_cycles_cec'' U16, Mem ''pio_cycles_wof'' U16, Mem ''pio_cycles_wf'' U16,
     Mem ''reserved1'' (Arr 2 U16), Mem ''reserved2'' (Arr 4 U16), Mem ''queue_depth'' U16,
     Mem ''sata_cap'' U16, Mem ''reserved3'' U16, Mem ''sata_fs'' U16, Mem ''sata_fe'' U16,
     Mem ''version'' U32,
     Mem ''ata_feat1'' (Struct False [
       Bit ''smart'' 2 1, Bit ''security'' 2 1, Bit ''obsolete1'' 2 1, Bit ''pm'' 2 1, Bit ''packet'' 2 1,
       Bit ''write_cache'' 2 1, Bit ''look_ahead'' 2 1, Bit ''release_int'' 2 1, Bit ''service_int'' 2 1,
       Bit ''dev_reset'' 2 1, Bit ''hpa'' 2 1, Bit ''obsolete2'' 2 1, Bit ''write_buffer'' 2 1,
       Bit ''read_buffer'' 2 1, Bit ''nop'' 2 1, Bit ''obsolete3'' 2 1]),
     Mem ''ata_feat2'' (Struct False [
       Bit ''dl_mcode'' 2 1, Bit ''tcq'' 2 1, Bit ''cfa'' 2 1, Bit ''apm'' 2 1, Bit ''obsolete'' 2 1,
       Bit ''puis'' 2 1, Bit ''set_feat'' 2 1, Bit ''reserved'' 2 1, Bit ''set_max'' 2 1, Bit ''aam'' 2 1,
       Bit ''lba48'' 2 1, Bit ''dco'' 2 1, Bit ''flush_cahce'' 2 1, Bit ''flush_cahce_ext'' 2 1,
       Bit ''one'' 2 1, Bit ''zero'' 2 1]),
     Mem ''ata_feat3'' (Struct False [
       Bit ''smart_log'' 2 1, Bit ''smart_test'' 2 1, Bit ''media_sn'' 2 1, Bit ''mcpt'' 2 1,
       Bit ''streaming'' 2 1, Bit ''gpl'' 2 1, Bit ''fua_ext'' 2 1, Bit ''qfua_ext'' 2 1,
       Bit ''obsolete'' 2 2, Bit ''reserved'' 2 2, Bit ''idle'' 2 1, Bit ''one'' 2 1, Bit ''zero'' 2 1]),
     Mem ''ata_feat4'' (Struct False [
       Bit ''smart'' 2 1, Bit ''security'' 2 1, Bit ''obsolete1'' 2 1, Bit ''pm'' 2 1, Bit ''packet'' 2 1,
       Bit ''write_cache'' 2 1, Bit ''look_ahead'' 2 1, Bit ''release_int'' 2 1, Bit ''service_int'' 2 1,
       Bit ''dev_reset'' 2 1, Bit ''hpa'' 2 1, Bit ''obsolete2'' 2 1, Bit ''write_buffer'' 2 1,
       Bit ''read_buffer'' 2 1, Bit ''nop'' 2 1, Bit ''obsolete3'' 2 1]),
     Mem ''ata_feat5'' (Struct False [
       Bit ''dl_mcode'' 2 1, Bit ''tcq'' 2 1, Bit ''cfa'' 2 1, Bit ''apm'' 2 1, Bit ''obsolete'' 2 1,
       Bit ''puis'' 2 1, Bit ''set_feat'' 2 1, Bit ''reserved1'' 2 1, Bit ''set_max'' 2 1, Bit ''aam'' 2 1,
       Bit ''lba48'' 2 1, Bit ''dco'' 2 1, Bit ''flush_cahce'' 2 1, Bit ''flush_cahce_ext'' 2 1,
       Bit ''reserved2'' 2 1, Bit ''w119_valid'' 2 1]),
     Mem ''ata_feat6'' (Struct False [
       Bit ''smart_log'' 2 1, Bit ''smart_test'' 2 1, Bit ''media_sn'' 2 1, Bit ''mcpt'' 2 1,
       Bit ''streaming'' 2 1, Bit ''gpl'' 2 1, Bit ''fua_ext'' 2 1, Bit ''qfua_ext'' 2 1,
       Bit ''obsolete'' 2 2, Bit ''reserved'' 2 2, Bit ''idle'' 2 1, Bit ''one'' 2 1, Bit ''zero'' 2 1]),
     Mem ''udma_modes'' U16, Mem ''erase_time'' U16, Mem ''eerase_time'' U16, Mem ''apm_level'' U16,
     Mem ''mpi'' U16,
     Mem ''hw_reset'' (Struct False [
       Bit ''one1'' 2 1, Bit ''dev0_id_method'' 2 2, Bit ''dev0_diag'' 2 1, Bit ''dev0_pdiag'' 2 1,
       Bit ''dev0_dasp'' 2 1, Bit ''dev0_resp_dev1'' 2 1, Bit ''reserved1'' 2 1, Bit ''one2'' 2 1,
       Bit ''dev1_id_method'' 2 2, Bit ''dev1_pdiag'' 2 1, Bit ''reserved2'' 2 1, Bit ''dev_cblid'' 2 1,
       Bit ''one3'' 2 1, Bit ''zero'' 2 1]),
     Mem ''aam'' U16, Mem ''stream_min_req'' U16, Mem ''stream_time_dma'' U16, Mem ''stream_latency'' U16,
     Mem ''stream_gran'' U32, Mem ''lba_hi'' U32, Mem ''stream_time_pio'' U16, Mem ''reserved4'' U16,
     Mem ''sector_size'' (Struct False [
       Bit ''power'' 2 4, Bit ''reserved'' 2 8, Bit ''ls_256'' 2 1, Bit ''multi_ls'' 2 1, Bit ''one'' 2 1,
       Bit ''zero'' 2 1]),
     Mem ''issd'' U16, Mem ''wwname'' (Arr 8 U8), Mem ''reserved5'' (Arr 4 U16), Mem ''reserved6'' U16,
     Mem ''ls_size'' U32,
     Mem ''ata_feat7'' (Struct False [
       Mem ''x'' U16]),
     Mem ''ata_feat8'' (Struct False [
       Mem ''x'' U16])]"

definition mbr_part_t :: ctype where
  "mbr_part_t = Struct True [
     Mem ''status'' U8, Mem ''chs_start'' (Arr 3 U8), Mem ''type'' U8, Mem ''chs_end'' (Arr 3 U8),
     Mem ''lba_start'' U32, Mem ''lba_size'' U32]"

definition mbr_t :: ctype where
  "mbr_t = Struct True [
     Mem ''bootcode'' (Arr 440 U8), Mem ''disk_signature'' U32, Mem ''empty'' U16,
     Mem ''part'' (Arr 4 mbr_part_t), Mem ''mbr_signature'' U16]"

definition gpt_part_entry_t :: ctype where
  "gpt_part_entry_t = Struct True [
     Mem ''part_guid'' guid_t, Mem ''unique_guid'' guid_t, Mem ''lba_start'' U64, Mem ''lba_end'' U64,
     Mem ''attributes'' U64, Mem ''name'' (Arr 36 U16)]"

definition gpt_header_t :: ctype where
  "gpt_header_t = Struct True [
     Mem ''signature'' (Arr 8 U8), Mem ''version'' U32, Mem ''header_size'' U32, Mem ''header_crc32'' U32,
     Mem ''reserved'' U32, Mem ''gpt_lba_current'' U64, Mem ''gpt_lba_backup'' U64,
     Mem ''first_usable_lba'' U64, Mem ''last_usable_lba'' U64, Mem ''disk_guid'' guid_t,
     Mem ''part_arr_lba'' U64, Mem ''part_item_count'' U32, Mem ''part_item_size'' U32,
     Mem ''part_arr_crc32'' U32, Mem ''reserved2'' (Arr 420 U8)]"

section \<open>The 16-bit and 32-bit stages\<close>

definition b16_e820entry_t :: ctype where
  "b16_e820entry_t = Struct True [
     Mem ''entry_size'' U16, Mem ''base'' U64, Mem ''length'' U64, Mem ''type'' U32, Mem ''attributes'' U32]"

definition b16_e820map_t :: ctype where
  "b16_e820map_t = Struct True [
     Mem ''size'' U16, Mem ''entries'' (Arr 0 b16_e820entry_t)]"

definition b32_pm_t :: ctype where
  "b32_pm_t = Struct False [
     Bit ''present'' 8 1, Bit ''writable'' 8 1, Bit ''user'' 8 1, Bit ''write_through'' 8 1,
     Bit ''cache_disable'' 8 1, Bit ''accessed'' 8 1, Bit ''dirty'' 8 1, Bit ''pat'' 8 1,
     Bit ''global'' 8 1, Bit ''data'' 8 3, Bit ''frame'' 8 40, Bit ''data2'' 8 11, Bit ''xd'' 8 1]"

section \<open>The kernel\<close>

definition k_int_stack_t :: ctype where
  "k_int_stack_t = Struct False [
     Mem ''int_no'' U64, Mem ''err_code'' U64, Mem ''rip'' U64, Mem ''cs'' U64, Mem ''rflags'' U64,
     Mem ''rsp'' U64, Mem ''ss'' U64]"

definition k_idt_entry_t :: ctype where
  "k_idt_entry_t = Struct True [
     Mem ''offset_lo'' U16, Mem ''segment'' U16,
     Mem ''flags'' (Union False [
       Mem ''raw'' U16,
       Mem ''s'' (Struct False [
         Bit ''ist'' 2 3, Bit ''res1'' 2 5, Bit ''type'' 2 4, Bit ''res2'' 2 1, Bit ''dpl'' 2 2,
         Bit ''present'' 2 1])]),
     Mem ''offset_hi'' U16, Mem ''offset_64'' U32, Mem ''reserved'' U32]"

definition k_idt_ptr_t :: ctype where
  "k_idt_ptr_t = Struct True [
     Mem ''limit'' U16, Mem ''base'' U64]"

definition apic_base_t :: ctype where
  "apic_base_t = Union False [
     Mem ''s'' (Struct False [
       Bit ''reserved1'' 8 8, Bit ''bsp'' 8 1, Bit ''reserved2'' 8 2, Bit ''enable'' 8 1,
       Bit ''base_addr'' 8 24, Bit ''reserved'' 8 28]),
     Mem ''raw'' U64]"

definition k_pm_t :: ctype where
  "k_pm_t = Union False [
     Mem ''s'' (Struct False [
       Bit ''present'' 8 1, Bit ''writable'' 8 1, Bit ''user'' 8 1, Bit ''write_through'' 8 1,
       Bit ''cache_disable'' 8 1, Bit ''accessed'' 8 1, Bit ''dirty'' 8 1, Bit ''pat'' 8 1,
       Bit ''global'' 8 1, Bit ''data'' 8 3, Bit ''frame'' 8 52]),
     Mem ''raw'' U64]"

definition k_vaddr_t :: ctype where
  "k_vaddr_t = Union False [
     Mem ''s'' (Struct False [
       Bit ''offset'' 8 12, Bit ''page_idx'' 8 9, Bit ''table_idx'' 8 9, Bit ''directory_idx'' 8 9,
       Bit ''drawer_idx'' 8 9, Bit ''canonical'' 8 16]),
     Mem ''raw'' U64]"

definition k_e820entry_t :: ctype where
  "k_e820entry_t = Struct True [
     Mem ''entry_size'' U16, Mem ''base'' U64, Mem ''length'' U64, Mem ''type'' U32, Mem ''attributes'' U32]"

definition k_e820map_t :: ctype where
  "k_e820map_t = Struct True [
     Mem ''size'' U16, Mem ''entries'' (Arr 0 k_e820entry_t)]"

definition RSDP_t :: ctype where
  "RSDP_t = Struct True [
     Mem ''signature'' (Arr 8 U8), Mem ''checksum'' U8, Mem ''oem_id'' (Arr 6 U8), Mem ''revision'' U8,
     Mem ''RSDT_address'' U32, Mem ''length'' U32, Mem ''XSDT_address'' U64, Mem ''extended_checksum'' U8,
     Mem ''reserved'' (Arr 3 U8)]"

definition SDTHeader_t :: ctype where
  "SDTHeader_t = Struct True [
     Mem ''signature'' (Arr 4 U8), Mem ''length'' U32, Mem ''revision'' U8, Mem ''checksum'' U8,
     Mem ''oem_id'' (Arr 6 U8), Mem ''oem_table_id'' (Arr 8 U8), Mem ''oem_revision'' U32,
     Mem ''creator_id'' U32, Mem ''creator_revision'' U32]"

definition RSDT_t :: ctype where
  "RSDT_t = Struct True [
     Mem ''h'' SDTHeader_t, Mem ''ptr'' U32]"

definition XSDT_t :: ctype where
  "XSDT_t = Struct True [
     Mem ''h'' SDTHeader_t, Mem ''ptr'' U64]"

definition SSDT_t :: ctype where
  "SSDT_t = Struct True [
     Mem ''h'' SDTHeader_t, Mem ''ptr'' U8]"

definition DSDT_t :: ctype where
  "DSDT_t = Struct True [
     Mem ''h'' SDTHeader_t, Mem ''ptr'' U8]"

definition FACS_t :: ctype where
  "FACS_t = Struct True [
     Mem ''signature'' (Arr 4 U8), Mem ''length'' U32, Mem ''hw_signature'' U32, Mem ''fw_vector'' U32,
     Mem ''global_lock'' U32, Mem ''flags'' U32, Mem ''x_fw_vector'' U64, Mem ''version'' U8,
     Mem ''reserved'' (Arr 3 U8), Mem ''ospm_flags'' U32, Mem ''reserved2'' (Arr 24 U8)]"

definition GAS_t :: ctype where
  "GAS_t = Struct True [
     Mem ''address_space'' U8, Mem ''bit_width'' U8, Mem ''bit_offset'' U8, Mem ''access_size'' U8,
     Mem ''address'' U64]"

definition FADT_t :: ctype where
  "FADT_t = Struct True [
     Mem ''h'' SDTHeader_t, Mem ''firmware_ctrl'' U32, Mem ''dsdt'' U32, Mem ''reserved'' U8,
     Mem ''pref_pmp'' U8, Mem ''sci_interrupt'' U16, Mem ''smi_command_port'' U32, Mem ''acpi_enable'' U8,
     Mem ''acpi_disable'' U8, Mem ''s4_bios_req'' U8, Mem ''pstate_control'' U8,
     Mem ''pm1a_event_block'' U32, Mem ''pm1b_event_block'' U32, Mem ''pm1a_control_block'' U32,
     Mem ''pm1b_control_block'' U32, Mem ''pm2_control_block'' U32, Mem ''pm_timer_block'' U32,
     Mem ''gpe0_block'' U32, Mem ''gpe1_block'' U32, Mem ''pm1_event_length'' U8,
     Mem ''pm1_control_length'' U8, Mem ''pm2_control_length'' U8, Mem ''pm_timer_length'' U8,
     Mem ''gpe0_length'' U8, Mem ''gpe1_length'' U8, Mem ''gpe1_base'' U8, Mem ''cstate_control'' U8,
     Mem ''worst_c2_latency'' U16, Mem ''worst_c3_latency'' U16, Mem ''flush_size'' U16,
     Mem ''flush_stride'' U16, Mem ''duty_offset'' U8, Mem ''duty_width'' U8, Mem ''day_alarm'' U8,
     Mem ''month_alarm'' U8, Mem ''century'' U8, Mem ''boot_arch_flags'' U16, Mem ''reserved2'' U8,
     Mem ''flags'' U32, Mem ''reset_reg'' GAS_t, Mem ''reset_value'' U8, Mem ''reserved3'' (Arr 3 U8),
     Mem ''x_firmware_control'' U64, Mem ''x_dsdt'' U64, Mem ''x_pm1a_event_block'' GAS_t,
     Mem ''x_pm1b_event_block'' GAS_t, Mem ''x_pm1a_control_block'' GAS_t,
     Mem ''x_pm1b_control_block'' GAS_t, Mem ''x_pm2_control_block'' GAS_t, Mem ''x_pm_timer_block'' GAS_t,
     Mem ''x_gpe0_block'' GAS_t, Mem ''x_gpe1_block'' GAS_t]"

definition MADT_t :: ctype where
  "MADT_t = Struct True [
     Mem ''h'' SDTHeader_t, Mem ''lapic_addr'' U32, Mem ''flags'' U32, Mem ''ptr'' U32]"

definition APICHeader_t :: ctype where
  "APICHeader_t = Struct True [
     Mem ''type'' U8, Mem ''length'' U8]"

definition LocalAPIC_t :: ctype where
  "LocalAPIC_t = Struct True [
     Mem ''h'' APICHeader_t, Mem ''processor_id'' U8, Mem ''apic_id'' U8, Mem ''flags'' U32]"

definition IOAPIC_t :: ctype where
  "IOAPIC_t = Struct True [
     Mem ''h'' APICHeader_t, Mem ''apic_id'' U8, Mem ''reserved'' U8, Mem ''apic_addr'' U32,
     Mem ''gsi_base'' U32]"

definition NMI_t :: ctype where
  "NMI_t = Struct True [
     Mem ''h'' APICHeader_t, Mem ''flags'' U16, Mem ''gsi'' U32]"

definition LocalNMI_t :: ctype where
  "LocalNMI_t = Struct True [
     Mem ''h'' APICHeader_t, Mem ''processor_id'' U8, Mem ''flags'' U16, Mem ''lint'' U8]"

definition ahci_port_t :: ctype where
  "ahci_port_t = Struct False [
     Mem ''clb'' U64, Mem ''fb'' U64,
     Mem ''is'' (Struct False [
       Bit ''dhrs'' 4 1, Bit ''pss'' 4 1, Bit ''dss'' 4 1, Bit ''sdbs'' 4 1, Bit ''ufs'' 4 1, Bit ''dps'' 4 1,
       Bit ''pcs'' 4 1, Bit ''dmps'' 4 1, Bit ''reserved1'' 4 14, Bit ''prcs'' 4 1, Bit ''ipms'' 4 1,
       Bit ''ofs'' 4 1, Bit ''reserved2'' 4 1, Bit ''infs'' 4 1, Bit ''ifs'' 4 1, Bit ''hbds'' 4 1,
       Bit ''hbfs'' 4 1, Bit ''tfes'' 4 1, Bit ''cpds'' 4 1]),
     Mem ''ie'' (Struct False [
       Bit ''dhre'' 4 1, Bit ''pse'' 4 1, Bit ''dse'' 4 1, Bit ''sdbe'' 4 1, Bit ''ufe'' 4 1, Bit ''dpe'' 4 1,
       Bit ''pce'' 4 1, Bit ''dmpe'' 4 1, Bit ''reserved1'' 4 14, Bit ''prce'' 4 1, Bit ''ipme'' 4 1,
       Bit ''ofe'' 4 1, Bit ''reserved2'' 4 1, Bit ''infe'' 4 1, Bit ''ife'' 4 1, Bit ''hbde'' 4 1,
       Bit ''hbfe'' 4 1, Bit ''tfee'' 4 1, Bit ''cpde'' 4 1]),
     Mem ''cmd'' (Struct False [
       Bit ''st'' 4 1, Bit ''sud'' 4 1, Bit ''pod'' 4 1, Bit ''clo'' 4 1, Bit ''fre'' 4 1,
       Bit ''reserved1'' 4 3, Bit ''ccs'' 4 5, Bit ''mpss'' 4 1, Bit ''fr'' 4 1, Bit ''cr'' 4 1,
       Bit ''cps'' 4 1, Bit ''pma'' 4 1, Bit ''hpcp'' 4 1, Bit ''mpsp'' 4 1, Bit ''cpd'' 4 1, Bit ''esp'' 4 1,
       Bit ''fbscp'' 4 1, Bit ''apste'' 4 1, Bit ''atapi'' 4 1, Bit ''dlae'' 4 1, Bit ''dlpe'' 4 1,
       Bit ''asp'' 4 1, Bit ''icc'' 4 4]),
     Mem ''reserved1'' U32,
     Mem ''tfd'' (Struct False [
       Mem ''status'' (Struct False [
         Bit ''err'' 1 1, Bit ''cs'' 1 2, Bit ''drq'' 1 1, Bit ''cs2'' 1 3, Bit ''busy'' 1 1]),
       Mem ''error'' U8, Mem ''reserved'' U16]),
     Mem ''sig'' U32,
     Mem ''ssts'' (Struct False [
       Bit ''det'' 4 4, Bit ''spd'' 4 4, Bit ''ipm'' 4 4, Bit ''reserved'' 4 20]),
     Mem ''sctl'' (Struct False [
       Bit ''det'' 4 4, Bit ''spd'' 4 4, Bit ''ipm'' 4 4, Bit ''reserved'' 4 20]),
     Mem ''serr'' (Struct False [
       Mem ''err'' (Struct False [
         Bit ''i'' 2 1, Bit ''m'' 2 1, Bit ''reserved1'' 2 6, Bit ''t'' 2 1, Bit ''c'' 2 1, Bit ''p'' 2 1,
         Bit ''e'' 2 1, Bit ''reserved2'' 2 4]),
       Mem ''diag'' (Struct False [
         Bit ''n'' 2 1, Bit ''i'' 2 1, Bit ''w'' 2 1, Bit ''b'' 2 1, Bit ''d'' 2 1, Bit ''c'' 2 1,
         Bit ''h'' 2 1, Bit ''s'' 2 1, Bit ''t'' 2 1, Bit ''f'' 2 1, Bit ''x'' 2 1, Bit ''reserved'' 2 5])]),
     Mem ''sact'' U32, Mem ''ci'' U32, Mem ''sntf'' U32,
     Mem ''fbs'' (Struct False [
       Bit ''en'' 4 1, Bit ''dec'' 4 1, Bit ''sde'' 4 1, Bit ''reserved1'' 4 5, Bit ''dev'' 4 4,
       Bit ''ado'' 4 4, Bit ''dwe'' 4 4, Bit ''reserved2'' 4 12]),
     Mem ''devslp'' (Struct False [
       Bit ''adse'' 4 1, Bit ''dsp'' 4 1, Bit ''deto'' 4 8, Bit ''mdat'' 4 5, Bit ''dito'' 4 10,
       Bit ''dm'' 4 4, Bit ''reserved'' 4 3]),
     Mem ''reserved2'' (Arr 10 U32), Mem ''vendor'' (Arr 4 U32)]"

definition ahci_hba_t :: ctype where
  "ahci_hba_t = Struct False [
     Mem ''cap'' (Struct False [
       Bit ''np'' 4 5, Bit ''sxs'' 4 1, Bit ''ems'' 4 1, Bit ''cccs'' 4 1, Bit ''ncs'' 4 5, Bit ''psc'' 4 1,
       Bit ''ssc'' 4 1, Bit ''pmd'' 4 1, Bit ''fbss'' 4 1, Bit ''spm'' 4 1, Bit ''sam'' 4 1,
       Bit ''reserved1'' 4 1, Bit ''iis'' 4 4, Bit ''sclo'' 4 1, Bit ''sal'' 4 1, Bit ''salp'' 4 1,
       Bit ''sss'' 4 1, Bit ''smps'' 4 1, Bit ''ssntf'' 4 1, Bit ''sncq'' 4 1, Bit ''s64a'' 4 1]),
     Mem ''ghc'' (Struct False [
       Bit ''hr'' 4 1, Bit ''ie'' 4 1, Bit ''mrsm'' 4 1, Bit ''reserved'' 4 28, Bit ''ae'' 4 1]),
     Mem ''is'' U32, Mem ''pi'' U32, Mem ''vs'' U32,
     Mem ''ccc_ctl'' (Struct False [
       Bit ''en'' 4 1, Bit ''reserved'' 4 2, Bit ''interrupt'' 4 5, Bit ''cc'' 4 8, Bit ''tv'' 4 16]),
     Mem ''ccc_ports'' U32,
     Mem ''em_loc'' (Struct False [
       Mem ''size'' U16, Mem ''offset'' U16]),
     Mem ''em_ctl'' (Struct False [
       Bit ''sts_mr'' 4 1, Bit ''reserved1'' 4 7, Bit ''ctl_tm'' 4 1, Bit ''ctl_rst'' 4 1,
       Bit ''reserved2'' 4 6, Bit ''supp_led'' 4 1, Bit ''supp_safte'' 4 1, Bit ''supp_ses2'' 4 1,
       Bit ''supp_sgpio'' 4 1, Bit ''reserved3'' 4 4, Bit ''attr_smb'' 4 1, Bit ''attr_xmt'' 4 1,
       Bit ''attr_alhd'' 4 1, Bit ''attr_pm'' 4 1, Bit ''reserved4'' 4 4]),
     Mem ''cap2'' (Struct False [
       Bit ''boh'' 4 1, Bit ''nvmp'' 4 1, Bit ''apst'' 4 1, Bit ''reserved'' 4 29]),
     Mem ''bohc'' (Struct False [
       Bit ''bos'' 4 1, Bit ''oos'' 4 1, Bit ''sooe'' 4 1, Bit ''ooc'' 4 1, Bit ''bb'' 4 1,
       Bit ''reserved'' 4 27]),
     Mem ''reserved1'' (Arr 52 U8), Mem ''reserved2'' (Arr 64 U8), Mem ''vendor'' (Arr 96 U8),
     Mem ''ports'' (Arr 1 ahci_port_t)]"

definition fis_reg_h2d_t :: ctype where
  "fis_reg_h2d_t = Struct False [
     Mem ''fis_type'' U8, Bit ''pmport'' 1 4, Bit ''reserved1'' 1 3, Bit ''cmd'' 1 1, Mem ''command'' U8,
     Mem ''featurel'' U8, Mem ''lba0'' U8, Mem ''lba1'' U8, Mem ''lba2'' U8, Mem ''device'' U8,
     Mem ''lba3'' U8, Mem ''lba4'' U8, Mem ''lba5'' U8, Mem ''featureh'' U8, Mem ''count'' U16,
     Mem ''icc'' U8, Mem ''control'' U8, Mem ''auxiliary'' (Arr 4 U8)]"

definition fis_reg_d2h_t :: ctype where
  "fis_reg_d2h_t = Struct False [
     Mem ''fis_type'' U8, Bit ''pmport'' 1 4, Bit ''reserved1'' 1 2, Bit ''interrupt'' 1 1,
     Bit ''reserved2'' 1 1, Mem ''status'' U8, Mem ''error'' U8, Mem ''lba0'' U8, Mem ''lba1'' U8,
     Mem ''lba2'' U8, Mem ''device'' U8, Mem ''lba3'' U8, Mem ''lba4'' U8, Mem ''lba5'' U8,
     Mem ''reserved3'' U8, Mem ''countl'' U8, Mem ''counth'' U8, Mem ''reserved4'' (Arr 6 U8)]"

definition fis_data_t :: ctype where
  "fis_data_t = Struct False [
     Mem ''fis_type'' U8, Bit ''pmport'' 1 4, Bit ''reserved1'' 1 4, Mem ''reserved2'' (Arr 2 U8),
     Mem ''data'' (Arr 1 U32)]"

definition fis_pio_t :: ctype where
  "fis_pio_t = Struct False [
     Mem ''fis_type'' U8, Bit ''pmport'' 1 4, Bit ''reserved1'' 1 1, Bit ''direction'' 1 1,
     Bit ''interrupt'' 1 1, Bit ''reserved2'' 1 1, Mem ''status'' U8, Mem ''error'' U8, Mem ''lba0'' U8,
     Mem ''lba1'' U8, Mem ''lba2'' U8, Mem ''device'' U8, Mem ''lba3'' U8, Mem ''lba4'' U8, Mem ''lba5'' U8,
     Mem ''reserved3'' U8, Mem ''countl'' U8, Mem ''counth'' U8, Mem ''reserved4'' U8, Mem ''e_status'' U8,
     Mem ''tc'' U16, Mem ''reserved5'' (Arr 2 U8)]"

definition fis_dma_t :: ctype where
  "fis_dma_t = Struct False [
     Mem ''fis_type'' U8, Bit ''pmport'' 1 4, Bit ''reserved1'' 1 1, Bit ''direction'' 1 1,
     Bit ''interrupt'' 1 1, Bit ''auto_act'' 1 1, Mem ''reserved2'' (Arr 2 U8), Mem ''dma_buff_id'' U64,
     Mem ''reserved3'' U32, Mem ''dma_buff_offset'' U32, Mem ''trans_count'' U32, Mem ''reserved4'' U32]"

definition ahci_fis_t :: ctype where
  "ahci_fis_t = Struct False [
     Mem ''dsfis'' fis_dma_t, Mem ''pad1'' U32, Mem ''psfis'' fis_pio_t, Mem ''pad2'' (Arr 3 U32),
     Mem ''rfis'' fis_reg_d2h_t, Mem ''pad3'' U32, Mem ''sdbfis'' U8, Mem ''ufis'' (Arr 64 U8),
     Mem ''reserved'' (Arr 96 U32)]"

definition ahci_hba_cmd_header_t :: ctype where
  "ahci_hba_cmd_header_t = Struct False [
     Mem ''desc'' (Struct False [
       Bit ''cfl'' 4 5, Bit ''a'' 4 1, Bit ''w'' 4 1, Bit ''p'' 4 1, Bit ''r'' 4 1, Bit ''b'' 4 1,
       Bit ''c'' 4 1, Bit ''reserved'' 4 1, Bit ''pmp'' 4 4, Bit ''prdtl'' 4 16]),
     Mem ''prdbc'' U32, Mem ''ctba'' U64, Mem ''reserved'' (Arr 4 U32)]"

definition ahci_hba_prdt_entry_t :: ctype where
  "ahci_hba_prdt_entry_t = Struct False [
     Mem ''dba'' U64, Mem ''reserved1'' U32, Bit ''dbc'' 4 22, Bit ''reserved2'' 4 9, Bit ''i'' 4 1]"

definition ahci_hba_cmd_tbl_t :: ctype where
  "ahci_hba_cmd_tbl_t = Struct False [
     Mem ''cfis'' (Arr 64 U8), Mem ''acmd'' (Arr 16 U8), Mem ''rsv'' (Arr 48 U8),
     Mem ''prdt_entry'' (Arr 1 ahci_hba_prdt_entry_t)]"

definition ahci_dev_t :: ctype where
  "ahci_dev_t = Struct False [
     Mem ''hba'' U64, Mem ''port'' U8, Mem ''int_pin'' U8, Mem ''int_line'' U8, Mem ''cmd'' U16,
     Mem ''sts'' U16]"

section \<open>The drivers\<close>

definition drv_pci_addr_t :: ctype where
  "drv_pci_addr_t = Union False [
     Mem ''s'' (Struct False [
       Bit ''empty'' 4 2, Bit ''reg'' 4 6, Bit ''function'' 4 3, Bit ''device'' 4 5, Bit ''bus'' 4 8,
       Bit ''reserved'' 4 7, Bit ''enabled'' 4 1]),
     Mem ''raw'' U32]"

definition drv_pci_header_t :: ctype where
  "drv_pci_header_t = Struct False [
     Mem ''vendor_id'' U16, Mem ''device_id'' U16, Mem ''command'' U16, Mem ''status'' U16,
     Mem ''revision_id'' U8, Mem ''prog_if'' U8, Mem ''subclass_id'' U8, Mem ''class_id'' U8,
     Mem ''cache_line_size'' U8, Mem ''latency_timer'' U8, Mem ''type'' U8, Mem ''bist'' U8]"

definition drv_pci_device_t :: ctype where
  "drv_pci_device_t = Struct False [
     Mem ''header'' drv_pci_header_t, Mem ''bar'' (Arr 6 U32), Mem ''cis_ptr'' U32,
     Mem ''sub_vendor_id'' U16, Mem ''subsystem_id'' U16, Mem ''exp_rom'' U32, Mem ''compat'' U8,
     Mem ''reserved'' (Arr 7 U8), Mem ''int_line'' U8, Mem ''int_pin'' U8, Mem ''min_grant'' U8,
     Mem ''max_latency'' U8]"

definition drv_ahci_port_t :: ctype where
  "drv_ahci_port_t = Struct False [
     Mem ''clb'' U64, Mem ''fb'' U64,
     Mem ''is'' (Struct False [
       Bit ''dhrs'' 4 1, Bit ''pss'' 4 1, Bit ''dss'' 4 1, Bit ''sdbs'' 4 1, Bit ''ufs'' 4 1, Bit ''dps'' 4 1,
       Bit ''pcs'' 4 1, Bit ''dmps'' 4 1, Bit ''reserved1'' 4 14, Bit ''prcs'' 4 1, Bit ''ipms'' 4 1,
       Bit ''ofs'' 4 1, Bit ''reserved2'' 4 1, Bit ''infs'' 4 1, Bit ''ifs'' 4 1, Bit ''hbds'' 4 1,
       Bit ''hbfs'' 4 1, Bit ''tfes'' 4 1, Bit ''cpds'' 4 1]),
     Mem ''ie'' (Struct False [
       Bit ''dhre'' 4 1, Bit ''pse'' 4 1, Bit ''dse'' 4 1, Bit ''sdbe'' 4 1, Bit ''ufe'' 4 1, Bit ''dpe'' 4 1,
       Bit ''pce'' 4 1, Bit ''dmpe'' 4 1, Bit ''reserved1'' 4 14, Bit ''prce'' 4 1, Bit ''ipme'' 4 1,
       Bit ''ofe'' 4 1, Bit ''reserved2'' 4 1, Bit ''infe'' 4 1, Bit ''ife'' 4 1, Bit ''hbde'' 4 1,
       Bit ''hbfe'' 4 1, Bit ''tfee'' 4 1, Bit ''cpde'' 4 1]),
     Mem ''cmd'' (Struct False [
       Bit ''st'' 4 1, Bit ''sud'' 4 1, Bit ''pod'' 4 1, Bit ''clo'' 4 1, Bit ''fre'' 4 1,
       Bit ''reserved1'' 4 3, Bit ''ccs'' 4 5, Bit ''mpss'' 4 1, Bit ''fr'' 4 1, Bit ''cr'' 4 1,
       Bit ''cps'' 4 1, Bit ''pma'' 4 1, Bit ''hpcp'' 4 1, Bit ''mpsp'' 4 1, Bit ''cpd'' 4 1, Bit ''esp'' 4 1,
       Bit ''fbscp'' 4 1, Bit ''apste'' 4 1, Bit ''atapi'' 4 1, Bit ''dlae'' 4 1, Bit ''dlpe'' 4 1,
       Bit ''asp'' 4 1, Bit ''icc'' 4 4]),
     Mem ''reserved1'' U32,
     Mem ''tfd'' (Struct False [
       Mem ''status'' U8, Mem ''error'' U8, Mem ''reserved'' U16]),
     Mem ''sig'' U32,
     Mem ''ssts'' (Struct False [
       Bit ''det'' 4 4, Bit ''spd'' 4 4, Bit ''ipm'' 4 4, Bit ''reserved'' 4 20]),
     Mem ''sctl'' (Struct False [
       Bit ''det'' 4 4, Bit ''spd'' 4 4, Bit ''ipm'' 4 4, Bit ''reserved'' 4 20]),
     Mem ''serr'' (Struct False [
       Mem ''err'' (Struct False [
         Bit ''i'' 2 1, Bit ''m'' 2 1, Bit ''reserved1'' 2 6, Bit ''t'' 2 1, Bit ''c'' 2 1, Bit ''p'' 2 1,
         Bit ''e'' 2 1, Bit ''reserved2'' 2 4]),
       Mem ''diag'' (Struct False [
         Bit ''n'' 2 1, Bit ''i'' 2 1, Bit ''w'' 2 1, Bit ''b'' 2 1, Bit ''d'' 2 1, Bit ''c'' 2 1,
         Bit ''h'' 2 1, Bit ''s'' 2 1, Bit ''t'' 2 1, Bit ''f'' 2 1, Bit ''x'' 2 1, Bit ''reserved'' 2 5])]),
     Mem ''sact'' U32, Mem ''ci'' U32, Mem ''sntf'' U32,
     Mem ''fbs'' (Struct False [
       Bit ''en'' 4 1, Bit ''dec'' 4 1, Bit ''sde'' 4 1, Bit ''reserved1'' 4 5, Bit ''dev'' 4 4,
       Bit ''ado'' 4 4, Bit ''dwe'' 4 4, Bit ''reserved2'' 4 12]),
     Mem ''reserved2'' (Arr 11 U32), Mem ''vendor'' (Arr 4 U32)]"

definition drv_ahci_hba_t :: ctype where
  "drv_ahci_hba_t = Struct False [
     Mem ''cap'' (Struct False [
       Bit ''np'' 4 4, Bit ''sxs'' 4 1, Bit ''ems'' 4 1, Bit ''cccs'' 4 1, Bit ''ncs'' 4 5, Bit ''psc'' 4 1,
       Bit ''ssc'' 4 1, Bit ''pmd'' 4 1, Bit ''fbss'' 4 1, Bit ''spm'' 4 1, Bit ''sam'' 4 1,
       Bit ''reserved1'' 4 1, Bit ''iis'' 4 4, Bit ''sclo'' 4 1, Bit ''sal'' 4 1, Bit ''salp'' 4 1,
       Bit ''sss'' 4 1, Bit ''smps'' 4 1, Bit ''ssntf'' 4 1, Bit ''sncq'' 4 1, Bit ''s64a'' 4 1]),
     Mem ''ghc'' (Struct False [
       Bit ''hr'' 4 1, Bit ''ie'' 4 1, Bit ''mrsm'' 4 1, Bit ''reserved'' 4 28, Bit ''ae'' 4 1]),
     Mem ''is'' U32, Mem ''pi'' U32, Mem ''vs'' U32,
     Mem ''ccc_ctl'' (Struct False [
       Bit ''en'' 4 1, Bit ''reserved'' 4 2, Bit ''interrupt'' 4 5, Bit ''cc'' 4 8, Bit ''tv'' 4 16]),
     Mem ''ccc_ports'' U32,
     Mem ''em_loc'' (Struct False [
       Mem ''size'' U16, Mem ''offset'' U16]),
     Mem ''em_ctl'' (Struct False [
       Bit ''sts_mr'' 4 1, Bit ''reserved1'' 4 7, Bit ''ctl_tm'' 4 1, Bit ''ctl_rst'' 4 1,
       Bit ''reserved2'' 4 6, Bit ''supp_led'' 4 1, Bit ''supp_safte'' 4 1, Bit ''supp_ses2'' 4 1,
       Bit ''supp_sgpio'' 4 1, Bit ''reserved3'' 4 4, Bit ''attr_smb'' 4 1, Bit ''attr_xmt'' 4 1,
       Bit ''attr_alhd'' 4 1, Bit ''attr_pm'' 4 1, Bit ''reserved4'' 4 4]),
     Mem ''cap2'' (Struct False [
       Bit ''boh'' 4 1, Bit ''nvmp'' 4 1, Bit ''apst'' 4 1, Bit ''reserved'' 4 29]),
     Mem ''bohc'' (Struct False [
       Bit ''bos'' 4 1, Bit ''oos'' 4 1, Bit ''sooe'' 4 1, Bit ''ooc'' 4 1, Bit ''bb'' 4 1,
       Bit ''reserved'' 4 27]),
     Mem ''reserved1'' (Arr 52 U8), Mem ''reserved2'' (Arr 64 U8), Mem ''vendor'' (Arr 96 U8),
     Mem ''ports'' (Arr 1 drv_ahci_port_t)]"

definition drv_ahci_fis_reg_h2d_t :: ctype where
  "drv_ahci_fis_reg_h2d_t = Struct False [
     Mem ''fis_type'' U8, Bit ''pmport'' 1 4, Bit ''reserved1'' 1 3, Bit ''cmd'' 1 1, Mem ''command'' U8,
     Mem ''featurel'' U8, Mem ''lba0'' U8, Mem ''lba1'' U8, Mem ''lba2'' U8, Mem ''device'' U8,
     Mem ''lba3'' U8, Mem ''lba4'' U8, Mem ''lba5'' U8, Mem ''featureh'' U8, Mem ''countl'' U8,
     Mem ''counth'' U8, Mem ''icc'' U8, Mem ''control'' U8, Mem ''reserved2'' (Arr 4 U8)]"

definition drv_ahci_fis_reg_d2h_t :: ctype where
  "drv_ahci_fis_reg_d2h_t = Struct False [
     Mem ''fis_type'' U8, Bit ''pmport'' 1 4, Bit ''reserved1'' 1 2, Bit ''interrupt'' 1 1,
     Bit ''reserved2'' 1 1, Mem ''status'' U8, Mem ''error'' U8, Mem ''lba0'' U8, Mem ''lba1'' U8,
     Mem ''lba2'' U8, Mem ''device'' U8, Mem ''lba3'' U8, Mem ''lba4'' U8, Mem ''lba5'' U8,
     Mem ''reserved3'' U8, Mem ''countl'' U8, Mem ''counth'' U8, Mem ''reserved4'' (Arr 6 U8)]"

definition drv_ahci_fis_data_t :: ctype where
  "drv_ahci_fis_data_t = Struct False [
     Mem ''fis_type'' U8, Bit ''pmport'' 1 4, Bit ''reserved1'' 1 4, Mem ''reserved2'' (Arr 2 U8),
     Mem ''data'' (Arr 1 U32)]"

definition drv_ahci_fis_pio_t :: ctype where
  "drv_ahci_fis_pio_t = Struct False [
     Mem ''fis_type'' U8, Bit ''pmport'' 1 4, Bit ''reserved1'' 1 1, Bit ''direction'' 1 1,
     Bit ''interrupt'' 1 1, Bit ''reserved2'' 1 1, Mem ''status'' U8, Mem ''error'' U8, Mem ''lba0'' U8,
     Mem ''lba1'' U8, Mem ''lba2'' U8, Mem ''device'' U8, Mem ''lba3'' U8, Mem ''lba4'' U8, Mem ''lba5'' U8,
     Mem ''reserved3'' U8, Mem ''countl'' U8, Mem ''counth'' U8, Mem ''reserved4'' U8, Mem ''e_status'' U8,
     Mem ''tc'' U16, Mem ''reserved5'' (Arr 2 U8)]"

definition drv_ahci_fis_dma_t :: ctype where
  "drv_ahci_fis_dma_t = Struct False [
     Mem ''fis_type'' U8, Bit ''pmport'' 1 4, Bit ''reserved1'' 1 1, Bit ''direction'' 1 1,
     Bit ''interrupt'' 1 1, Bit ''auto_act'' 1 1, Mem ''reserved2'' (Arr 2 U8), Mem ''dma_buff_id'' U64,
     Mem ''reserved3'' U32, Mem ''dma_buff_offset'' U32, Mem ''trans_count'' U32, Mem ''reserved4'' U32]"

definition drv_ahci_fis_t :: ctype where
  "drv_ahci_fis_t = Struct False [
     Mem ''dsfis'' drv_ahci_fis_dma_t, Mem ''pad1'' U32, Mem ''psfis'' drv_ahci_fis_pio_t,
     Mem ''pad2'' (Arr 3 U32), Mem ''rfis'' drv_ahci_fis_reg_d2h_t, Mem ''pad3'' U32, Mem ''sdbfis'' U8,
     Mem ''ufis'' (Arr 64 U8), Mem ''reserved'' (Arr 96 U32)]"

definition drv_ahci_hba_cmd_header_t :: ctype where
  "drv_ahci_hba_cmd_header_t = Struct False [
     Mem ''desc'' (Struct False [
       Bit ''cfl'' 4 5, Bit ''a'' 4 1, Bit ''w'' 4 1, Bit ''p'' 4 1, Bit ''r'' 4 1, Bit ''b'' 4 1,
       Bit ''c'' 4 1, Bit ''reserved'' 4 1, Bit ''pmp'' 4 4, Bit ''prdtl'' 4 16]),
     Mem ''prdbc'' U32, Mem ''ctba'' U64, Mem ''reserved'' (Arr 4 U32)]"

definition drv_ahci_dev_t :: ctype where
  "drv_ahci_dev_t = Struct False [
     Mem ''hba'' U64, Mem ''port'' U8]"

lemmas struct_defs =
  split_uint64_t_def
  guid_t_def
  isr_stack_t_def
  irq_stack_t_def
  idt_entry_t_def
  idt_ptr_t_def
  heap_size_t_def
  heap_header_t_def
  heap_footer_t_def
  heap_t_def
  free_item_t_def
  free_node_t_def
  e820entry_t_def
  e820map_t_def
  pm_t_def
  page_header_t_def
  page_footer_t_def
  page_free_item_t_def
  page_free_node_t_def
  pci_addr_t_def
  pci_header_t_def
  pci_device_t_def
  ide_chan_t_def
  ata_dev_t_def
  ata_identify_t_def
  mbr_part_t_def
  mbr_t_def
  gpt_part_entry_t_def
  gpt_header_t_def
  b16_e820entry_t_def
  b16_e820map_t_def
  b32_pm_t_def
  k_int_stack_t_def
  k_idt_entry_t_def
  k_idt_ptr_t_def
  apic_base_t_def
  k_pm_t_def
  k_vaddr_t_def
  k_e820entry_t_def
  k_e820map_t_def
  RSDP_t_def
  SDTHeader_t_def
  RSDT_t_def
  XSDT_t_def
  SSDT_t_def
  DSDT_t_def
  FACS_t_def
  GAS_t_def
  FADT_t_def
  MADT_t_def
  APICHeader_t_def
  LocalAPIC_t_def
  IOAPIC_t_def
  NMI_t_def
  LocalNMI_t_def
  ahci_port_t_def
  ahci_hba_t_def
  fis_reg_h2d_t_def
  fis_reg_d2h_t_def
  fis_data_t_def
  fis_pio_t_def
  fis_dma_t_def
  ahci_fis_t_def
  ahci_hba_cmd_header_t_def
  ahci_hba_prdt_entry_t_def
  ahci_hba_cmd_tbl_t_def
  ahci_dev_t_def
  drv_pci_addr_t_def
  drv_pci_header_t_def
  drv_pci_device_t_def
  drv_ahci_port_t_def
  drv_ahci_hba_t_def
  drv_ahci_fis_reg_h2d_t_def
  drv_ahci_fis_reg_d2h_t_def
  drv_ahci_fis_data_t_def
  drv_ahci_fis_pio_t_def
  drv_ahci_fis_dma_t_def
  drv_ahci_fis_t_def
  drv_ahci_hba_cmd_header_t_def
  drv_ahci_dev_t_def

end
