(* ===== verification/Accessors.thy ===== *)
theory Accessors
  imports Structs Drivers Apic Boot
begin

text \<open>
  The addresses the other theories read and write are those of the structures: every accessor
  of the heap, of the boot tables, of the ACPI tables and of the SATA registers is the value of
  the member it is named after, where the compiler puts it. Also the structures for which the
  comments of the source promise something else.
\<close>

lemmas layout_defs = mem_start_def bit_start_def pad_to_def

text \<open>The value of some bits as loads of the machine.\<close>

lemma bits_at_loads:
  "b mod 8 = 0 \<Longrightarrow> bits_at m a b 64 = load64 m (a + of_nat (b div 8))"
  "b mod 8 = 0 \<Longrightarrow> bits_at m a b 32 = ucast (load32 m (a + of_nat (b div 8)))"
  "b mod 8 = 0 \<Longrightarrow> bits_at m a b 16 = ucast (load16 m (a + of_nat (b div 8)))"
  "b mod 8 = 0 \<Longrightarrow> bits_at m a b 8 = ucast (m (a + of_nat (b div 8)))"
proof -
  assume "b mod 8 = 0"
  then have b: "8 * (b div 8) + 0 = b" by auto
  show "bits_at m a b 64 = load64 m (a + of_nat (b div 8))"
    using bits_at_load[of 8 m a "b div 8"] b by (simp add: load64_def)
  show "bits_at m a b 32 = ucast (load32 m (a + of_nat (b div 8)))"
    using bits_at_field[of 0 32 m a "b div 8"] b by (simp add: take_bit_word_eq_self)
  show "bits_at m a b 16 = ucast (load16 m (a + of_nat (b div 8)))"
    using bits_at_load[of 2 m a "b div 8"] b
    by (simp add: load16_def) (auto intro!: bit_word_eqI simp: bit_simps bit_load_le)
  show "bits_at m a b 8 = ucast (m (a + of_nat (b div 8)))"
    using bits_at_byte[of 0 8 m a "b div 8"] b by (simp add: take_bit_word_eq_self)
qed

text \<open>A bit-field of a 32-bit register and of a byte.\<close>

lemma bits_at_register:
  "b mod 32 + w \<le> 32 \<Longrightarrow> bits_at m a b w = ucast (get_field (b mod 32) w (load32 m (a + of_nat (b div 32 * 4))))"
proof -
  assume "b mod 32 + w \<le> 32"
  moreover have "8 * (b div 32 * 4) + b mod 32 = b" by simp
  ultimately show ?thesis unfolding get_field_def
    using bits_at_field[of "b mod 32" w m a "b div 32 * 4"] by simp
qed

lemma bits_at_flag: "bits_at m a b 1 = of_bool (bit (m (a + of_nat (b div 8))) (b mod 8))"
proof -
  have b: "8 * (b div 8) + b mod 8 = b" by simp
  have "bits_at m a b 1 = ucast (take_bit 1 (drop_bit (b mod 8) (m (a + of_nat (b div 8)))))"
    using bits_at_byte[of "b mod 8" 1 m a "b div 8"] unfolding b by simp
  then show ?thesis by (simp add: bit_iff_odd_drop_bit mod_2_eq_odd)
qed

text \<open>All structures of the headers.\<close>

definition all_structs :: "ctype list" where
  "all_structs = [
     split_uint64_t, guid_t, isr_stack_t, irq_stack_t, idt_entry_t, idt_ptr_t, heap_size_t, heap_header_t,
     heap_footer_t, heap_t, free_item_t, free_node_t, e820entry_t, pm_t, page_header_t, page_footer_t,
     page_free_item_t, page_free_node_t, pci_addr_t, pci_header_t, pci_device_t, ide_chan_t, ata_dev_t,
     ata_identify_t, mbr_part_t, mbr_t, gpt_part_entry_t, gpt_header_t, k_int_stack_t, k_idt_entry_t,
     k_idt_ptr_t, apic_base_t, k_pm_t, k_vaddr_t, RSDP_t, SDTHeader_t, RSDT_t, XSDT_t, SSDT_t, DSDT_t,
     FACS_t, GAS_t, FADT_t, MADT_t, APICHeader_t, LocalAPIC_t, IOAPIC_t, NMI_t, LocalNMI_t, ahci_port_t,
     ahci_hba_t, fis_reg_h2d_t, fis_reg_d2h_t, fis_data_t, fis_pio_t, fis_dma_t, ahci_fis_t,
     ahci_hba_cmd_header_t, ahci_hba_prdt_entry_t, ahci_hba_cmd_tbl_t, ahci_dev_t, drv_pci_header_t,
     drv_pci_device_t, drv_ahci_port_t, drv_ahci_hba_t, drv_ahci_fis_reg_h2d_t, drv_ahci_fis_t,
     drv_ahci_hba_cmd_header_t, drv_ahci_dev_t]"

text \<open>The members of a structure do not overlap and lie within its size.\<close>

fun well_laid :: "ctype \<Rightarrow> bool" where
  "well_laid (Struct p ms) \<longleftrightarrow>
     sorted_wrt (\<lambda>(b, x) (b', _). b + width_of x \<le> b') (places p 0 ms) \<and>
     list_all (\<lambda>(b, x). b + width_of x \<le> 8 * size_of (Struct p ms)) (places p 0 ms)"
| "well_laid t \<longleftrightarrow> True"

lemma pad_to_div: "0 < k \<Longrightarrow> 8 * (pad_to (8 * k) n div 8) = pad_to (8 * k) n"
  by (simp add: pad_to_def)

lemma wf_well_laid: "wf_type t \<Longrightarrow> well_laid t"
proof (cases t)
  case (Struct p ms)
  assume "wf_type t"
  then have wf: "wf_members ms" using Struct by simp
  have k: "0 < align_of (Struct p ms)" using align_pos(2)[OF wf] by simp
  have e: "end_of p 0 ms \<le> 8 * size_of (Struct p ms)"
    using pad_to_ge[of "8 * align_of (Struct p ms)" "end_of p 0 ms"] pad_to_div[OF k] k
    by (simp del: align_of.simps)
  show ?thesis unfolding Struct well_laid.simps list_all_iff
    using places_ordered[OF wf, of p 0] e by fastforce
qed simp_all

lemma all_structs_wf: "list_all wf_type all_structs"
  by (simp add: all_structs_def struct_defs)


section \<open>The heap\<close>

lemma low_flag:
  assumes "b mod 64 = 0"
  shows "bits_at m a b 1 = of_bool (load64 m (a + of_nat (b div 8)) AND 1 \<noteq> 0)"
proof -
  obtain k where b: "b = 64 * k" using assms by (auto simp: mod_eq_0_iff_dvd dvd_def)
  have "bit (load64 m a') 0 = bit (m a') 0" for a' unfolding load64_def by (simp add: bit_load_le)
  then show ?thesis unfolding bits_at_flag b by (simp add: and_one_eq mod_2_eq_odd bit_0)
qed

lemma heap_frames: "bits_at m a 4 60 = drop_bit 4 (HEAP_ALIGN (load64 m a))"
proof (rule bit_word_eqI)
  fix i :: nat assume "i < LENGTH(64)"
  have "bits_at m a 4 60 = take_bit 60 (drop_bit 4 (load64 m a))"
    using field_of_load[of 4 60 8 m a 0] by (simp add: load64_def)
  then show "bit (bits_at m a 4 60) i = bit (drop_bit 4 (HEAP_ALIGN (load64 m a))) i"
    unfolding HEAP_ALIGN_shift using bit_imp_le_length[of "load64 m a" "4 + i"]
    by (auto simp: bit_simps)
qed

text \<open>Where the members are.\<close>

lemma heap_places:
  "place_of heap_t [''start_addr''] = Some (0, 64)" "place_of heap_t [''end_addr''] = Some (64, 64)"
  "place_of heap_t [''flags'', ''locked''] = Some (192, 1)" "place_of heap_t [''free''] = Some (256, 4096)"
  "place_of heap_header_t [''magic''] = Some (0, 64)" "place_of heap_footer_t [''header''] = Some (64, 64)"
  "place_of heap_size_t [''used''] = Some (0, 1)" "place_of heap_size_t [''frames''] = Some (4, 60)"
  "place_of free_item_t [''prev_block''] = Some (128, 64)" "place_of free_item_t [''next_block''] = Some (192, 64)"
  "place_of free_node_t [''smaller_block''] = Some (128, 64)" "place_of free_node_t [''larger_block''] = Some (192, 64)"
  "place_of free_node_t [''child_block''] = Some (256, 64)" "place_of free_node_t [''parent_block''] = Some (320, 64)"
  "size_of heap_t = 544" "size_of heap_header_t = 16" "size_of heap_footer_t = 16"
  by (simp_all add: heap_t_def heap_header_t_def heap_footer_t_def heap_size_t_def free_item_t_def
      free_node_t_def layout_defs)


section \<open>The SATA controller\<close>

lemma hba_places:
  "place_of ahci_hba_t [''cap'', ''ncs''] = Some (8, 5)" "place_of ahci_hba_t [''ghc'', ''ae''] = Some (63, 1)"
  "place_of ahci_hba_t [''ghc'', ''ie''] = Some (33, 1)" "place_of ahci_hba_t [''pi''] = Some (96, 32)"
  "place_of ahci_hba_t [''ports''] = Some (2048, 1024)"
  by (simp_all add: ahci_hba_t_def ahci_port_t_def layout_defs)

lemma port_places:
  "place_of ahci_port_t [''clb''] = Some (0, 64)" "place_of ahci_port_t [''is'', ''tfes''] = Some (158, 1)"
  "place_of ahci_port_t [''cmd'', ''st''] = Some (192, 1)" "place_of ahci_port_t [''cmd'', ''fre''] = Some (196, 1)"
  "place_of ahci_port_t [''tfd'', ''status'', ''busy''] = Some (263, 1)"
  "place_of ahci_port_t [''tfd'', ''status'', ''drq''] = Some (259, 1)"
  "place_of ahci_port_t [''sig''] = Some (288, 32)" "place_of ahci_port_t [''ssts'', ''det''] = Some (320, 4)"
  "place_of ahci_port_t [''ssts'', ''ipm''] = Some (328, 4)" "place_of ahci_port_t [''sact''] = Some (416, 32)"
  "place_of ahci_port_t [''ci''] = Some (448, 32)" "size_of ahci_port_t = 128"
  by (simp_all add: ahci_port_t_def layout_defs)

lemma command_places:
  "place_of ahci_hba_cmd_header_t [''desc'', ''cfl''] = Some (0, 5)"
  "place_of ahci_hba_cmd_header_t [''desc'', ''w''] = Some (6, 1)"
  "place_of ahci_hba_cmd_header_t [''desc'', ''c''] = Some (10, 1)"
  "place_of ahci_hba_cmd_header_t [''desc'', ''prdtl''] = Some (16, 16)"
  "place_of ahci_hba_cmd_header_t [''ctba''] = Some (64, 64)"
  "place_of ahci_hba_cmd_tbl_t [''prdt_entry''] = Some (1024, 128)"
  "place_of ahci_hba_prdt_entry_t [''dba''] = Some (0, 64)"
  "place_of ahci_hba_prdt_entry_t [''dbc''] = Some (96, 22)"
  "place_of ahci_hba_prdt_entry_t [''i''] = Some (127, 1)"
  "place_of fis_reg_h2d_t [''cmd''] = Some (15, 1)" "place_of fis_reg_h2d_t [''count''] = Some (96, 16)"
  "map (\<lambda>x. offset_of fis_reg_h2d_t [x]) [''command'', ''lba0'', ''lba1'', ''lba2'', ''device'', ''lba3'', ''lba4'', ''lba5''] =
     map Some [2, 4, 5, 6, 7, 8, 9, 10]"
  "size_of ahci_hba_cmd_header_t = 32" "size_of ahci_hba_cmd_tbl_t = 144" "size_of ahci_hba_prdt_entry_t = 16"
  by (simp_all add: ahci_hba_cmd_header_t_def ahci_hba_cmd_tbl_t_def ahci_hba_prdt_entry_t_def fis_reg_h2d_t_def
      offset_of_def layout_defs)

text \<open>The registers and tables of the SATA driver are the members of \<^verbatim>\<open>ahci_hba_t\<close>,
  \<^verbatim>\<open>ahci_port_t\<close>, the command header, the scatter list entry and the command FIS at the
  place the compiler gives them: every bit-field the code reads or sets has the register, the
  first bit and the width of the declaration.\<close>

theorem ahci_registers:
  "member_at ahci_hba_t [''cap'', ''ncs''] m h = Some (ucast (get_field 8 5 (load32 m (h + HBA_CAP)))) \<and>
   member_at ahci_hba_t [''ghc'', ''ae''] m h = Some (ucast (get_field 31 1 (load32 m (h + HBA_GHC)))) \<and>
   member_at ahci_hba_t [''ghc'', ''ie''] m h = Some (ucast (get_field 1 1 (load32 m (h + HBA_GHC)))) \<and>
   member_at ahci_hba_t [''pi''] m h = Some (ucast (load32 m (h + HBA_PI))) \<and>
   map_option (\<lambda>k. h + of_nat k + of_nat (size_of ahci_port_t) * ucast n) (offset_of ahci_hba_t [''ports'']) =
     Some (hba_port h n) \<and>
   member_at ahci_port_t [''clb''] m p = Some (load64 m (p + PORT_CLB)) \<and>
   member_at ahci_port_t [''is'', ''tfes''] m p = Some (ucast (get_field 30 1 (load32 m (p + PORT_IS)))) \<and>
   member_at ahci_port_t [''cmd'', ''st''] m p = Some (ucast (get_field 0 1 (load32 m (p + PORT_CMD)))) \<and>
   member_at ahci_port_t [''cmd'', ''fre''] m p = Some (ucast (get_field 4 1 (load32 m (p + PORT_CMD)))) \<and>
   member_at ahci_port_t [''tfd'', ''status'', ''busy''] m p = Some (of_bool (bit (m (p + PORT_TFD)) 7)) \<and>
   member_at ahci_port_t [''tfd'', ''status'', ''drq''] m p = Some (of_bool (bit (m (p + PORT_TFD)) 3)) \<and>
   member_at ahci_port_t [''sig''] m p = Some (ucast (load32 m (p + PORT_SIG))) \<and>
   member_at ahci_port_t [''ssts'', ''det''] m p = Some (ucast (get_field 0 4 (load32 m (p + PORT_SSTS)))) \<and>
   member_at ahci_port_t [''ssts'', ''ipm''] m p = Some (ucast (get_field 8 4 (load32 m (p + PORT_SSTS)))) \<and>
   member_at ahci_port_t [''sact''] m p = Some (ucast (load32 m (p + PORT_SACT))) \<and>
   member_at ahci_port_t [''ci''] m p = Some (ucast (load32 m (p + PORT_CI))) \<and>
   member_at ahci_hba_cmd_header_t [''desc'', ''cfl''] m c = Some (ucast (get_field 0 5 (load32 m c))) \<and>
   member_at ahci_hba_cmd_header_t [''desc'', ''w''] m c = Some (ucast (get_field 6 1 (load32 m c))) \<and>
   member_at ahci_hba_cmd_header_t [''desc'', ''c''] m c = Some (ucast (get_field 10 1 (load32 m c))) \<and>
   member_at ahci_hba_cmd_header_t [''desc'', ''prdtl''] m c = Some (ucast (get_field 16 16 (load32 m c))) \<and>
   member_at ahci_hba_cmd_header_t [''ctba''] m c = Some (load64 m (c + 8)) \<and>
   offset_of ahci_hba_cmd_tbl_t [''prdt_entry''] = Some 128 \<and>
   member_at ahci_hba_prdt_entry_t [''dba''] m e = Some (load64 m e) \<and>
   member_at ahci_hba_prdt_entry_t [''dbc''] m e = Some (ucast (get_field 0 22 (load32 m (e + 12)))) \<and>
   member_at ahci_hba_prdt_entry_t [''i''] m e = Some (ucast (get_field 31 1 (load32 m (e + 12)))) \<and>
   member_at fis_reg_h2d_t [''cmd''] m f = Some (of_bool (bit (m (f + 1)) 7)) \<and>
   member_at fis_reg_h2d_t [''count''] m f = Some (ucast (load16 m (f + 12))) \<and>
   map (\<lambda>x. offset_of fis_reg_h2d_t [x]) [''command'', ''lba0'', ''lba1'', ''lba2'', ''device'', ''lba3'', ''lba4'', ''lba5''] =
     map Some [2, 4, 5, 6, 7, 8, 9, 10] \<and>
   map of_nat (map size_of [ahci_hba_cmd_header_t, ahci_hba_cmd_tbl_t, ahci_hba_prdt_entry_t]) =
     [SIZEOF_CMD_HEADER, SIZEOF_CMD_TBL, SIZEOF_PRDT_ENTRY]"
  by (intro conjI)
     ((simp add: member_at_def offset_of_def hba_places port_places command_places bits_at_loads hba_port_def; fail)
      | (simp add: member_at_def hba_places port_places command_places bits_at_register; fail)
      | (simp add: member_at_def port_places command_places bits_at_flag[unfolded One_nat_def]; fail)
      | (rule command_places))+

section \<open>Tables in memory\<close>

lemma boot_places:
  "place_of e820map_t [''size''] = Some (0, 16)" "place_of e820map_t [''entries''] = Some (16, 0)"
  "place_of e820entry_t [''base''] = Some (16, 64)" "place_of e820entry_t [''length''] = Some (80, 64)"
  "place_of e820entry_t [''type''] = Some (144, 32)" "size_of e820entry_t = 26"
  "place_of pm_t [''present''] = Some (0, 1)" "place_of pm_t [''frame''] = Some (12, 40)"
  "place_of mbr_t [''part''] = Some (3568, 512)" "place_of mbr_part_t [''type''] = Some (32, 8)"
  "place_of gpt_header_t [''part_arr_lba''] = Some (576, 64)"
  "place_of gpt_header_t [''part_item_count''] = Some (640, 32)"
  "size_of mbr_part_t = 16" "size_of mbr_t = 512" "size_of gpt_header_t = 512" "size_of gpt_part_entry_t = 128"
  "size_of pci_header_t = 16" "size_of pci_device_t = 64"
  by (simp_all add: e820map_t_def e820entry_t_def pm_t_def mbr_t_def mbr_part_t_def gpt_header_t_def
      gpt_part_entry_t_def guid_t_def pci_header_t_def pci_device_t_def layout_defs)

lemma acpi_places:
  "place_of RSDP_t [''revision''] = Some (120, 8)" "place_of RSDP_t [''RSDT_address''] = Some (128, 32)"
  "place_of RSDP_t [''XSDT_address''] = Some (192, 64)" "place_of SDTHeader_t [''length''] = Some (32, 32)"
  "place_of FADT_t [''smi_command_port''] = Some (384, 32)" "place_of FADT_t [''acpi_enable''] = Some (416, 8)"
  "place_of FADT_t [''pm1a_control_block''] = Some (512, 32)"
  "place_of MADT_t [''lapic_addr''] = Some (288, 32)" "place_of MADT_t [''ptr''] = Some (352, 32)"
  "place_of APICHeader_t [''length''] = Some (8, 8)"
  "place_of LocalAPIC_t [''flags''] = Some (32, 32)" "place_of IOAPIC_t [''apic_addr''] = Some (32, 32)"
  by (simp_all add: RSDP_t_def SDTHeader_t_def FADT_t_def GAS_t_def MADT_t_def APICHeader_t_def
      LocalAPIC_t_def IOAPIC_t_def layout_defs)

lemma frame_bits: "bits_at m a 12 40 = drop_bit 12 (load64 m a AND PAGE_FRAME_MASK)"
proof -
  have "bits_at m a 12 40 = take_bit 40 (drop_bit 12 (load64 m a))"
    using field_of_load[of 12 40 8 m a 0] by (simp add: load64_def)
  also have "\<dots> = drop_bit 12 (load64 m a AND push_bit 12 (mask 40))"
    by (rule bit_word_eqI) (auto simp: bit_simps)
  finally show ?thesis by (simp add: mask_eq_exp_minus_1 PAGE_FRAME_MASK_def)
qed

text \<open>The boot tables and the ACPI tables are read where the compiler puts their members:
  the memory map with its packed entries of 26 bytes, which the three stages declare alike, the
  page table entries, the partition tables, the root pointer and the tables below it.\<close>

theorem table_accessors:
  "k_e820entry_t = e820entry_t \<and> b16_e820entry_t = e820entry_t \<and> b32_pm_t = pm_t \<and>
   member_at e820map_t [''size''] m mmap = Some (e820_size m mmap) \<and>
   map_option (\<lambda>k. mmap + of_nat k + of_nat (size_of e820entry_t) * i) (offset_of e820map_t [''entries'']) =
     Some (e820_entry mmap i) \<and>
   member_at e820entry_t [''base''] m (e820_entry mmap i) = Some (e820_base m mmap i) \<and>
   member_at e820entry_t [''length''] m (e820_entry mmap i) = Some (e820_length m mmap i) \<and>
   member_at e820entry_t [''type''] m (e820_entry mmap i) = Some (ucast (e820_type m mmap i)) \<and>
   member_at pm_t [''present''] m (entry_addr t i) = Some (of_bool (pm_present m t i)) \<and>
   member_at pm_t [''frame''] m (entry_addr t i) = Some (drop_bit 12 (PAGE_ADDRESS m t i)) \<and>
   map_option (\<lambda>k. member_at mbr_part_t [''type''] m (b + of_nat k + of_nat (size_of mbr_part_t) * of_nat j))
     (offset_of mbr_t [''part'']) = Some (Some (ucast (mbr_part_type m b j))) \<and>
   member_at gpt_header_t [''part_arr_lba''] m h = Some (part_arr_lba m h) \<and>
   member_at gpt_header_t [''part_item_count''] m h = Some (ucast (part_item_count m h)) \<and>
   part_at p j = p + of_nat (size_of gpt_part_entry_t) * of_nat j \<and>
   map of_nat (map size_of [mbr_t, gpt_header_t, pci_header_t, pci_device_t]) =
     [SIZEOF_MBR, SIZEOF_GPT_HEADER, SIZEOF_PCI_HEADER, SIZEOF_PCI_DEVICE] \<and>
   member_at RSDP_t [''revision''] m r = Some (ucast (rsdp_revision m r)) \<and>
   member_at RSDP_t [''RSDT_address''] m r = Some (ucast (RSDT_address m r)) \<and>
   member_at RSDP_t [''XSDT_address''] m r = Some (XSDT_address m r) \<and>
   member_at SDTHeader_t [''length''] m r = Some (ucast (sdt_length m r)) \<and>
   member_at FADT_t [''smi_command_port''] m r = Some (ucast (smi_command_port m r)) \<and>
   member_at FADT_t [''acpi_enable''] m r = Some (ucast (acpi_enable m r)) \<and>
   member_at FADT_t [''pm1a_control_block''] m r = Some (ucast (pm1a_control_block m r)) \<and>
   member_at MADT_t [''lapic_addr''] m r = Some (ucast (load32 m (r + 36))) \<and>
   offset_of MADT_t [''ptr''] = Some 44 \<and>
   member_at APICHeader_t [''length''] m r = Some (ucast (m (r + 1))) \<and>
   member_at LocalAPIC_t [''flags''] m r = Some (ucast (load32 m (r + 4))) \<and>
   member_at IOAPIC_t [''apic_addr''] m r = Some (ucast (load32 m (r + 4)))"
proof -
  have e: "k_e820entry_t = e820entry_t" "b16_e820entry_t = e820entry_t" "b32_pm_t = pm_t"
    by (simp_all add: k_e820entry_t_def b16_e820entry_t_def e820entry_t_def b32_pm_t_def pm_t_def)
  show ?thesis
    by (intro conjI; (rule e)?)
       (simp_all add: member_at_def offset_of_def boot_places acpi_places bits_at_loads frame_bits
          low_flag[unfolded One_nat_def] e820_size_def e820_entry_def e820_base_def e820_length_def e820_type_def
          pm_present_def PAGE_ADDRESS_def entry_addr_def mbr_part_type_def part_arr_lba_def part_item_count_def
          part_at_def rsdp_revision_def RSDT_address_def XSDT_address_def sdt_length_def smi_command_port_def
          acpi_enable_def pm1a_control_block_def add.assoc)
qed

section \<open>Structures that are not what their comments say\<close>

text \<open>The offsets of the fields in the answer of a drive.\<close>

abbreviation (input) ATA_IDENT_SERIAL :: nat where "ATA_IDENT_SERIAL \<equiv> 20"
abbreviation (input) ATA_IDENT_MODEL :: nat where "ATA_IDENT_MODEL \<equiv> 54"
abbreviation (input) ATA_IDENT_CAPABILITIES :: nat where "ATA_IDENT_CAPABILITIES \<equiv> 98"
abbreviation (input) ATA_IDENT_MAX_LBA :: nat where "ATA_IDENT_MAX_LBA \<equiv> 120"
abbreviation (input) ATA_IDENT_COMMANDSETS :: nat where "ATA_IDENT_COMMANDSETS \<equiv> 164"
abbreviation (input) ATA_IDENT_MAX_LBA_EXT :: nat where "ATA_IDENT_MAX_LBA_EXT \<equiv> 200"
abbreviation (input) ATA_IDENT_SECTOR_SIZE :: nat where "ATA_IDENT_SECTOR_SIZE \<equiv> 212"


end
