(* ===== verification/Spec2Isabelle.thy ===== *)
theory Spec2Isabelle
  imports Listings Kmain PageFaults Main16 Boot Console KernelLib Accessors
begin

text \<open>
  A verification development for DAWOS, an x86-64 operating system in C.

  \<^bold>\<open>The program.\<close> A 16-bit stage reads the memory map from the BIOS. The 32-bit stage
  (\<^verbatim>\<open>boot/main32.c\<close>) builds page tables for the first 2 MB and enters long mode. The loader
  (\<^verbatim>\<open>loader/\<close>, entry \<^verbatim>\<open>main64\<close>) sets up memory, interrupts, paging, a heap and the timer,
  scans the PCI bus, identifies ATA drives and reads their partition tables. The kernel
  (\<^verbatim>\<open>kernel/\<close>, entry \<^verbatim>\<open>kmain\<close>) has its own paging, interrupts, ACPI, APIC and SATA code and
  uses the drivers of \<^verbatim>\<open>drivers/\<close> and the library \<^verbatim>\<open>lib/\<close>. The loader's parts share one
  state: records extend each other in the order page tables, interrupts, timer, PCI, ATA, GPT,
  so that an operation of a lower part works on the state of a higher one.

  \<^bold>\<open>Conventions.\<close> Memory is a function from 64-bit addresses to bytes (\<open>Prelude\<close>), with
  little-endian loads and stores; structures stay in memory at the offsets of their headers
  (\<open>Layout\<close>, \<open>Structs\<close>, \<open>Accessors\<close>), static variables are fields of a record. Integers have
  the width of the source and wrap around. A loop that may not end is a
  \<^theory_text>\<open>partial_function (option)\<close>: \<open>None\<close> is not returning. Undefined behaviour of C is a value
  of \<open>c_error\<close>; an operation that can do both has the type \<open>result\<close> (\<open>Results\<close>). A device is a
  step function that answers a port access, or, for memory-mapped registers, changes memory
  before each volatile read, in any way it likes. Handlers are values that a parameter \<open>call\<close>
  interprets.

  \<^bold>\<open>Theories and sources.\<close>
  \<^item> \<open>Lib\<close>, \<open>LibLemmas\<close>: \<^verbatim>\<open>loader/lib.c\<close>. Block copies, strings, formatting and parsing of
    integers, the format interpreter; the decimal round trip and the buffer overrun in base 2.
  \<^item> \<open>Heap\<close>: \<^verbatim>\<open>loader/heap.c\<close>, every operation. \<open>DList\<close> has doubly linked lists over any
    store, as the locale \<open>dlist\<close>; \<open>HeapBlocks\<close> the boundary tags and splitting, \<open>HeapLists\<close>
    the segregated lists (the locale on the heap's own links), \<open>HeapTree\<close> the size-ordered list
    of chains the code calls a tree, \<open>HeapOps\<close> creation, the lock and what breaks.
    \<open>HeapFrames\<close> says which bytes each operation may write, \<open>HeapAlloc\<close> that the search over
    lists and tree is best fit. \<open>HeapRun\<close> reads the heap as a map from the start of each block
    to its size and whether it is used, with one lemma per step inside an operation, \<open>HeapSpec\<close>
    puts the steps together to specifications of allocation, release and growth on that map, and
    \<open>HeapContract\<close> states the contract of the heap as a whole. \<open>MemoryHeap\<close> carries it over to
    the allocator that clients call: writing into one's own payloads keeps it.
  \<^item> \<open>HeapListing\<close>, \<open>Listings\<close>: the listings of the debug build (\<^verbatim>\<open>heap_list\<close>, \<^verbatim>\<open>mem_list\<close>,
    \<^verbatim>\<open>pci_list\<close>, \<^verbatim>\<open>ata_list\<close>, \<^verbatim>\<open>acpi_list\<close>, \<^verbatim>\<open>ahci_list\<close>) as the messages they print.
  \<^item> \<open>Ports\<close>: \<^verbatim>\<open>io.h\<close>, \<^verbatim>\<open>pic.c\<close>, \<^verbatim>\<open>cmos.h\<close>. \<open>Interrupts\<close>: \<^verbatim>\<open>interrupts.c\<close>, with the end of
    interrupt. \<open>Timer\<close>: \<^verbatim>\<open>pit.c\<close>, \<^verbatim>\<open>sleep.c\<close>, a step relation of timer interrupts and calls
    with its reachable states.
  \<^item> \<open>Paging\<close>: \<^verbatim>\<open>loader/paging.c\<close>, every operation. \<open>PageTables\<close> defines the translation the
    processor performs and the invariant of the tables; \<open>PageMapping\<close> proves, in a locale over
    the table allocator, that mapping a page changes the translation of that page only; \<open>Memory\<close>
    (\<^verbatim>\<open>memory.c\<close>) is the allocator that interprets it. \<open>PageInit\<close> has the loop over the memory
    map, \<open>PageFaults\<close> the fault handler and the free blocks, \<open>E820\<close> the sorting of the map.
  \<^item> \<open>Main16\<close>: \<^verbatim>\<open>boot/main16.c\<close> with the routines of \<^verbatim>\<open>boot/bios.asm\<close>; the BIOS is a
    parameter, its documented behaviour the hypothesis \<open>reports\<close>. \<open>Main32\<close>:
    \<^verbatim>\<open>boot/main32.c\<close>. \<open>Boot\<close>: \<^verbatim>\<open>main64.c\<close>, and the theorems across stages.
  \<^item> \<open>Pci\<close>, \<open>Ata\<close>, \<open>Gpt\<close>, \<open>Console\<close>: \<^verbatim>\<open>pci.c\<close>, \<^verbatim>\<open>ata.c\<close>, \<^verbatim>\<open>gpt.c\<close>, \<^verbatim>\<open>debug_print.c\<close> and
    \<^verbatim>\<open>drivers/video/text.c\<close>.
  \<^item> \<open>KernelLib\<close>, \<open>KernelPaging\<close>, \<open>Acpi\<close>, \<open>Apic\<close>, \<open>Ahci\<close>: \<^verbatim>\<open>lib/lib.c\<close>,
    \<^verbatim>\<open>kernel/memory/paging.c\<close> (of which \<^verbatim>\<open>heap.c\<close> there is a copy), \<^verbatim>\<open>cpu/interrupts.c\<close> and
    \<^verbatim>\<open>arch/acpi.c\<close>, \<^verbatim>\<open>cpu/apic.c\<close>, \<^verbatim>\<open>bus/ahci.c\<close>. \<open>Kmain\<close>: \<^verbatim>\<open>cr.h\<close>, \<^verbatim>\<open>msr.h\<close> and \<^verbatim>\<open>kmain.c\<close>.
  \<^item> \<open>Drivers\<close>: \<^verbatim>\<open>drivers/bus/pci.c\<close> and \<^verbatim>\<open>drivers/storage/ahci.c\<close>.
  \<^item> \<open>Layout\<close>, \<open>Structs\<close>, \<open>Accessors\<close>: the structures of all headers, the rules by which the
    compiler lays them out, and that the accessors of the other theories follow them.

  \<^bold>\<open>What is proved.\<close> The heap's data structures refine sets and lists of blocks. Creation
  establishes the contract \<open>heap_ok\<close> of the heap; allocation finds a smallest sufficient free
  block, release merges with both neighbours, the two undo each other, and none of them touches
  a used block. This holds as long as no block of size 1040 or 1056 comes up (the code has no
  list for these) and large free blocks have different sizes (\<open>one_size\<close>, since chains of equal
  size keep stale links). The other cases in which an operation corrupts the heap or never
  returns are exact. The 16-bit stage stores the memory map of the BIOS but counts one entry
  too few. The tables of the 32-bit stage and the identity mapping of \<^verbatim>\<open>page_init\<close> give the
  translation they should, across the two stages; the boot order leaves the state the drivers
  expect. Interrupts are acknowledged once, timer ticks are counted in every reachable state,
  the bus scan finds the functions it visits, sector addresses reach the drive. Findings, with
  the theorems that prove them, are stated where the code is modelled.

  \<^bold>\<open>Bounds and fuel.\<close> \<open>d\<close>, the depth of \<open>table_al\<close> and \<open>mem_alloc\<close>, bounds how often the heap
  may call the page allocator and that one the heap: one level is enough, since a nested call
  finds the heap locked; the result is then \<open>None\<close>, which is what the code does. The depth of
  the bus scan bounds nested bridges; 256 buses allow no more than 256. The counters of polling
  loops (10000 for ATA, 1000000 for SATA, 0x8000 steps of the search for the ACPI root pointer)
  are those of the code.

  \<^bold>\<open>Not modelled.\<close> Assembly (boot sector, mode switches, interrupt stubs; of \<^verbatim>\<open>bios.asm\<close> the
  routines that C calls are modelled), the processor's cache of translations (\<^verbatim>\<open>invlpg\<close>),
  \<^verbatim>\<open>cpuid\<close> (never called), instruction timing, other processors, and the debug output inside
  operations; the console and the listings are modelled. Files that hold only declarations and
  constants (\<^verbatim>\<open>lib.h\<close>, the register names of \<^verbatim>\<open>ata.h\<close>, \<^verbatim>\<open>apic.h\<close> and \<^verbatim>\<open>msr.h\<close>) appear where
  their names are used. Functions of the kernel that repeat the loader's text (port access,
  configuration space, clearing and scrolling the screen) have one model. The directories for
  audio, file systems, input, network, scheduler, system calls, EFI and GRUB hold no code.
\<close>

end
